(* ===== verification/Prelude.thy ===== *)
theory Prelude
  imports
    Complex_Main
    "HOL-Library.AList"
    "HOL-Library.Sublist"
    "HOL-Library.Char_ord"
    "HOL-Library.List_Lexorder"
    "HOL-Library.Product_Lexorder"
begin

text \<open>
  Shared vocabulary of the development: results that may carry an error, Python dictionaries as
  insertion-ordered association lists, Python's string splitting and decimal formatting, and the
  generic lemmas the component theories rest on.
\<close>

named_theorems dict_simps \<open>lookups and key sets after dictionary updates\<close>
named_theorems result_simps \<open>case analysis on results\<close>

section \<open>Results\<close>

text \<open>
  A computation that may raise is a value of \<open>'e + 'a\<close>: \<^term>\<open>Inl\<close> is the exception.
  \<open>rbind\<close> sequences two of them, as an exception leaves the second part unexecuted.
\<close>

definition rbind :: "'e + 'a \<Rightarrow> ('a \<Rightarrow> 'e + 'b) \<Rightarrow> 'e + 'b" where
  "rbind m f = (case m of Inl e \<Rightarrow> Inl e | Inr a \<Rightarrow> f a)"

lemma rbind_simps [simp]:
  "rbind (Inl e) f = Inl e"
  "rbind (Inr a) f = f a"
  by (simp_all add: rbind_def)

lemma rbind_Inr_iff [result_simps]:
  "rbind m f = Inr b \<longleftrightarrow> (\<exists>a. m = Inr a \<and> f a = Inr b)"
  by (cases m) auto

lemma rbind_cong [fundef_cong]:
  "m = m' \<Longrightarrow> (\<And>a. m' = Inr a \<Longrightarrow> f a = f' a) \<Longrightarrow> rbind m f = rbind m' f'"
  by (cases m') auto

definition raise_if :: "bool \<Rightarrow> 'e \<Rightarrow> 'e + unit" where
  "raise_if b e = (if b then Inl e else Inr ())"

lemma raise_if_Inr [result_simps]: "raise_if b e = Inr u \<longleftrightarrow> \<not> b"
  by (simp add: raise_if_def)

text \<open>A \<open>for\<close> loop whose body only checks: it stops at the first exception.\<close>

fun for_each :: "('a \<Rightarrow> 'e + unit) \<Rightarrow> 'a list \<Rightarrow> 'e + unit" where
  "for_each f [] = Inr ()"
| "for_each f (x # xs) = rbind (f x) (\<lambda>_. for_each f xs)"

lemma for_each_Inr [result_simps]:
  "for_each f xs = Inr u \<longleftrightarrow> (\<forall>x \<in> set xs. f x = Inr ())"
  by (induction xs) (auto simp: rbind_Inr_iff)

lemma for_each_cong [fundef_cong]:
  "xs = ys \<Longrightarrow> (\<And>x. x \<in> set ys \<Longrightarrow> f x = g x) \<Longrightarrow> for_each f xs = for_each g ys"
  by (induction xs arbitrary: ys) (auto intro: rbind_cong)

text \<open>A \<open>for\<close> loop that carries a state.\<close>

fun fold_result :: "('a \<Rightarrow> 's \<Rightarrow> 'e + 's) \<Rightarrow> 'a list \<Rightarrow> 's \<Rightarrow> 'e + 's" where
  "fold_result f [] s = Inr s"
| "fold_result f (x # xs) s = rbind (f x s) (fold_result f xs)"

lemma fold_result_append:
  "fold_result f (xs @ ys) s = rbind (fold_result f xs s) (fold_result f ys)"
  by (induction xs arbitrary: s) (auto simp: rbind_def split: sum.splits)

lemma fold_result_pairs:
  "fold_result (\<lambda>(a, xs). fold_result (g a) xs) qs s =
     fold_result (\<lambda>(a, x). g a x) (concat (map (\<lambda>(a, xs). map (Pair a) xs) qs)) s"
proof -
  have inner: "fold_result (g a) ys s = fold_result (\<lambda>(a, x). g a x) (map (Pair a) ys) s" for a ys s
    by (induction ys arbitrary: s) (auto intro!: rbind_cong)
  show ?thesis
    by (induction qs arbitrary: s) (auto simp: fold_result_append inner intro!: rbind_cong)
qed

lemma fold_result_invariant:
  assumes "fold_result f xs s = Inr t" and "I s"
    and "\<And>x s t. x \<in> set xs \<Longrightarrow> I s \<Longrightarrow> f x s = Inr t \<Longrightarrow> I t"
  shows "I t"
  using assms
proof (induction xs arbitrary: s)
  case Nil
  then show ?case by simp
next
  case (Cons x xs)
  then obtain u where u: "f x s = Inr u" "fold_result f xs u = Inr t"
    by (auto simp: rbind_Inr_iff)
  with Cons.prems have "I u" by auto
  with u Cons show ?case by auto
qed

text \<open>A comprehension whose body may raise.\<close>

fun map_result :: "('a \<Rightarrow> 'e + 'b) \<Rightarrow> 'a list \<Rightarrow> 'e + 'b list" where
  "map_result f [] = Inr []"
| "map_result f (x # xs) = rbind (f x) (\<lambda>y. rbind (map_result f xs) (\<lambda>ys. Inr (y # ys)))"

lemma map_result_Inr [result_simps]:
  "map_result f xs = Inr ys \<longleftrightarrow> list_all2 (\<lambda>x y. f x = Inr y) xs ys"
  by (induction xs arbitrary: ys) (auto simp: rbind_Inr_iff list_all2_Cons1)

text \<open>
  Which exceptions a computation can end with: \<open>raises_only P m\<close> says that \<open>m\<close> returns or
  raises an exception of \<open>P\<close>.
\<close>

definition raises_only :: "('e \<Rightarrow> bool) \<Rightarrow> 'e + 'a \<Rightarrow> bool" where
  "raises_only P m = (\<forall>e. m = Inl e \<longrightarrow> P e)"

lemma raises_only_simps [simp]: "raises_only P (Inr x)" "raises_only P (Inl e) = P e"
  by (simp_all add: raises_only_def)

lemma raises_only_bind [intro]:
  "raises_only P m \<Longrightarrow> (\<And>x. m = Inr x \<Longrightarrow> raises_only P (f x)) \<Longrightarrow> raises_only P (rbind m f)"
  by (cases m) (auto simp: raises_only_def)

lemma raises_only_raise_if [simp]: "raises_only P (raise_if b e) \<longleftrightarrow> (b \<longrightarrow> P e)"
  by (simp add: raise_if_def)

lemma raises_only_for_each:
  "(\<And>x. x \<in> set xs \<Longrightarrow> raises_only P (f x)) \<Longrightarrow> raises_only P (for_each f xs)"
  by (induction xs) auto

lemma raises_only_map_result:
  "(\<And>x. x \<in> set xs \<Longrightarrow> raises_only P (f x)) \<Longrightarrow> raises_only P (map_result f xs)"
  by (induction xs) (auto intro!: raises_only_bind)

lemma raises_only_fold_result:
  assumes "I s"
    and "\<And>x s. x \<in> set xs \<Longrightarrow> I s \<Longrightarrow> raises_only P (f x s)"
    and "\<And>x s t. x \<in> set xs \<Longrightarrow> I s \<Longrightarrow> f x s = Inr t \<Longrightarrow> I t"
  shows "raises_only P (fold_result f xs s)"
  using assms
proof (induction xs arbitrary: s)
  case (Cons x xs)
  have "raises_only P (fold_result f xs t)" if "f x s = Inr t" for t
  proof (rule Cons.IH)
    show "I t" using Cons.prems(1,3) that by (meson list.set_intros(1))
  qed (use Cons.prems(2,3) in \<open>meson list.set_intros(2)\<close>)+
  with Cons.prems(1,2) show ?case by auto
qed simp

section \<open>Dictionaries\<close>

text \<open>
  A Python dictionary remembers insertion order: writing an existing key keeps its place and a
  new key goes to the end. This is what \<^const>\<open>AList.update\<close> does on an association list
  with distinct keys.
\<close>

type_synonym ('k, 'v) dict = "('k \<times> 'v) list"

abbreviation dict_get :: "('k, 'v) dict \<Rightarrow> 'k \<Rightarrow> 'v option" where
  "dict_get \<equiv> map_of"

abbreviation dict_set :: "'k \<Rightarrow> 'v \<Rightarrow> ('k, 'v) dict \<Rightarrow> ('k, 'v) dict" where
  "dict_set \<equiv> AList.update"

abbreviation dict_pop :: "'k \<Rightarrow> ('k, 'v) dict \<Rightarrow> ('k, 'v) dict" where
  "dict_pop \<equiv> AList.delete"

abbreviation dict_keys :: "('k, 'v) dict \<Rightarrow> 'k list" where
  "dict_keys \<equiv> map fst"

definition dict_get_default :: "('k, 'v) dict \<Rightarrow> 'k \<Rightarrow> 'v \<Rightarrow> 'v" where
  "dict_get_default d k v = (case dict_get d k of None \<Rightarrow> v | Some x \<Rightarrow> x)"

definition dict_filter :: "('k \<Rightarrow> 'v \<Rightarrow> bool) \<Rightarrow> ('k, 'v) dict \<Rightarrow> ('k, 'v) dict" where
  "dict_filter P d = filter (\<lambda>(k, v). P k v) d"

text \<open>A Python set that is iterated over: a list without repetitions.\<close>

definition set_add :: "'a \<Rightarrow> 'a list \<Rightarrow> 'a list" where
  "set_add x xs = (if x \<in> set xs then xs else xs @ [x])"

lemma set_set_add [simp]: "set (set_add x xs) = insert x (set xs)"
  by (auto simp: set_add_def)

lemma distinct_set_add [simp]: "distinct (set_add x xs) = distinct xs"
  by (auto simp: set_add_def)

text \<open>The only element of a set given as a list, if it has exactly one.\<close>

definition the_single :: "'a list \<Rightarrow> 'a option" where
  "the_single xs = (case remdups xs of [x] \<Rightarrow> Some x | _ \<Rightarrow> None)"

lemma the_single_Some: "the_single xs = Some x \<longleftrightarrow> set xs = {x}"
proof -
  have "remdups xs = [x]" if "set xs = {x}"
  proof -
    have "set (remdups xs) = {x}" "distinct (remdups xs)" using that by auto
    then show ?thesis by (cases "remdups xs") (auto simp: subset_singleton_iff)
  qed
  moreover have "set xs = {x}" if "remdups xs = [x]"
    using that by (metis empty_set list.simps(15) set_remdups)
  moreover have "the_single xs = Some x \<longleftrightarrow> remdups xs = [x]"
    unfolding the_single_def by (cases "remdups xs"; cases "tl (remdups xs)") auto
  ultimately show ?thesis by blast
qed

lemma dict_get_set [simp, dict_simps]:
  "dict_get (dict_set k v d) = (dict_get d)(k \<mapsto> v)"
  by (rule update_conv')

lemma dict_get_pop [simp, dict_simps]:
  "dict_get (dict_pop k d) = (dict_get d)(k := None)"
  by (rule delete_conv')

lemma dict_keys_set [dict_simps]: "set (dict_keys (dict_set k v d)) = insert k (set (dict_keys d))"
  by (induction d) auto

lemma distinct_dict_set [intro]: "distinct (dict_keys d) \<Longrightarrow> distinct (dict_keys (dict_set k v d))"
  by (rule distinct_update)

lemma distinct_dict_pop [intro]: "distinct (dict_keys d) \<Longrightarrow> distinct (dict_keys (dict_pop k d))"
  by (rule distinct_delete)

lemma distinct_dict_filter [intro]:
  "distinct (dict_keys d) \<Longrightarrow> distinct (dict_keys (dict_filter P d))"
  by (induction d) (auto simp: dict_filter_def)

lemma dict_get_filter [dict_simps]:
  "distinct (dict_keys d) \<Longrightarrow>
     dict_get (dict_filter P d) k =
       (case dict_get d k of None \<Rightarrow> None | Some v \<Rightarrow> if P k v then Some v else None)"
  by (induction d) (auto simp: dict_filter_def split: option.splits dest: map_of_SomeD
    intro: rev_image_eqI)

lemma dict_get_filter_key [dict_simps]:
  "dict_get (dict_filter (\<lambda>k _. P k) d) k = (if P k then dict_get d k else None)"
  by (induction d) (auto simp: dict_filter_def)

lemma dict_get_eq_None_iff: "dict_get d k = None \<longleftrightarrow> k \<notin> set (dict_keys d)"
  by (simp add: map_of_eq_None_iff)

end
