(* ===== verification/Py_Strings.thy ===== *)
theory Py_Strings
  imports Prelude
begin

text \<open>
  The parts of Python's string type the program uses: \<open>str.split\<close> with a one-character
  separator, with and without a split limit, decimal formatting of integers in f-strings and
  \<open>int(...)\<close> on a string, and the exception classes of the language that the model raises.
  Strings are lists of ASCII characters.
\<close>

datatype py_error =
    ValueError | KeyError | IndexError | TypeError | RuntimeError | ValidationError | OtherError

section \<open>Splitting\<close>

fun py_split :: "char \<Rightarrow> string \<Rightarrow> string list" where
  "py_split c [] = [[]]"
| "py_split c (x # xs) =
     (if x = c then [] # py_split c xs
      else (case py_split c xs of [] \<Rightarrow> [[x]] | y # ys \<Rightarrow> (x # y) # ys))"

text \<open>\<open>s.split(c, 1)\<close>: the part before the first separator and, if there is one, the rest.\<close>

fun py_split1 :: "char \<Rightarrow> string \<Rightarrow> string \<times> string option" where
  "py_split1 c [] = ([], None)"
| "py_split1 c (x # xs) =
     (if x = c then ([], Some xs) else (case py_split1 c xs of (y, r) \<Rightarrow> (x # y, r)))"

lemma py_split_not_Nil [simp]: "py_split c s \<noteq> []"
  by (induction s) (auto split: list.splits)

lemma py_split_no_sep [simp]: "c \<notin> set s \<Longrightarrow> py_split c s = [s]"
  by (induction s) auto

lemma py_split_append_sep: "py_split c (a @ c # b) = py_split c a @ py_split c b"
  by (induction a) (auto split: list.splits simp: neq_Nil_conv)

lemma py_split_append_no_sep:
  "c \<notin> set b \<Longrightarrow> py_split c (a @ b) = butlast (py_split c a) @ [last (py_split c a) @ b]"
proof (induction a)
  case Nil
  then show ?case by simp
next
  case (Cons x a)
  then show ?case
    by (cases "py_split c a") (auto split: list.splits)
qed

text \<open>Joining the pieces gives the string back, and the pieces do not hold the separator.\<close>

fun py_join :: "char \<Rightarrow> string list \<Rightarrow> string" where
  "py_join c [] = []"
| "py_join c [x] = x"
| "py_join c (x # y # xs) = x @ c # py_join c (y # xs)"

lemma py_join_split [simp]: "py_join c (py_split c s) = s"
proof (induction s)
  case Nil
  then show ?case by simp
next
  case (Cons x s)
  then show ?case
    by (cases "py_split c s" rule: remdups_adj.cases) (auto split: list.splits)
qed

lemma py_split_inject: "py_split c s = py_split c t \<longleftrightarrow> s = t"
  by (metis py_join_split)

lemma py_split_join [simp]:
  "xs \<noteq> [] \<Longrightarrow> \<forall>x \<in> set xs. c \<notin> set x \<Longrightarrow> py_split c (py_join c xs) = xs"
  by (induction c xs rule: py_join.induct) (auto simp: py_split_append_sep)

lemma py_join_append:
  "xs \<noteq> [] \<Longrightarrow> ys \<noteq> [] \<Longrightarrow> py_join c (xs @ ys) = py_join c xs @ c # py_join c ys"
proof (induction c xs rule: py_join.induct)
  case (2 c x)
  then show ?case by (cases ys) auto
qed auto

lemma py_split1_no_sep [simp]: "c \<notin> set s \<Longrightarrow> py_split1 c s = (s, None)"
  by (induction s) auto

lemma py_split1_sep [simp]: "c \<notin> set a \<Longrightarrow> py_split1 c (a @ c # b) = (a, Some b)"
  by (induction a) auto

lemma py_split1_SomeD: "py_split1 c s = (a, Some b) \<Longrightarrow> s = a @ c # b \<and> c \<notin> set a"
  by (induction s arbitrary: a) (auto split: if_splits prod.splits)

lemma py_split1_NoneD: "py_split1 c s = (a, None) \<Longrightarrow> s = a \<and> c \<notin> set a"
  by (induction s arbitrary: a) (auto split: if_splits prod.splits)

section \<open>Decimal numbers\<close>

definition digit_char :: "nat \<Rightarrow> char" where
  "digit_char n = char_of (48 + n)"

definition char_digit :: "char \<Rightarrow> nat option" where
  "char_digit c = (let n = of_char c :: nat in if 48 \<le> n \<and> n \<le> 57 then Some (n - 48) else None)"

lemma char_digit_digit_char [simp]: "n < 10 \<Longrightarrow> char_digit (digit_char n) = Some n"
  by (simp add: char_digit_def digit_char_def)

fun show_nat :: "nat \<Rightarrow> string" where
  "show_nat n = (if n < 10 then [digit_char n] else show_nat (n div 10) @ [digit_char (n mod 10)])"

declare show_nat.simps [simp del]

definition show_int :: "int \<Rightarrow> string" where
  "show_int i = (if i < 0 then CHR ''-'' # show_nat (nat (- i)) else show_nat (nat i))"

fun digits_value :: "nat \<Rightarrow> string \<Rightarrow> nat option" where
  "digits_value acc [] = Some acc"
| "digits_value acc (c # cs) =
     (case char_digit c of None \<Rightarrow> None | Some d \<Rightarrow> digits_value (10 * acc + d) cs)"

definition py_space :: "char \<Rightarrow> bool" where
  "py_space c = (let n = of_char c :: nat in n = 32 \<or> (9 \<le> n \<and> n \<le> 13) \<or> (28 \<le> n \<and> n \<le> 31))"

definition py_strip :: "string \<Rightarrow> string" where
  "py_strip s = rev (dropWhile py_space (rev (dropWhile py_space s)))"

text \<open>Digits of a number literal: single underscores may stand between digits.\<close>

definition parse_digits :: "string \<Rightarrow> nat option" where
  "parse_digits s =
     (let segs = py_split (CHR ''_'') s
      in if [] \<in> set segs then None else digits_value 0 (concat segs))"

text \<open>\<open>int(s)\<close>: surrounding white space, one sign, then digits; anything else is a ValueError.\<close>

definition py_int :: "string \<Rightarrow> py_error + int" where
  "py_int s =
     (let t = py_strip s;
          (neg, body) = (case t of
              [] \<Rightarrow> (False, [])
            | c # cs \<Rightarrow> if c = CHR ''-'' then (True, cs) else if c = CHR ''+'' then (False, cs)
                       else (False, t))
      in case parse_digits body of
           None \<Rightarrow> Inl ValueError
         | Some n \<Rightarrow> Inr (if neg then - int n else int n))"

lemma digits_value_append:
  "digits_value acc (s @ t) = (case digits_value acc s of None \<Rightarrow> None | Some a \<Rightarrow> digits_value a t)"
  by (induction s arbitrary: acc) (auto split: option.splits)

lemma digits_value_show_nat [simp]: "digits_value 0 (show_nat n) = Some n"
proof (induction n rule: show_nat.induct)
  case (1 n)
  then show ?case
    by (subst show_nat.simps) (auto simp: digits_value_append)
qed

lemma show_nat_not_Nil [simp]: "show_nat n \<noteq> []"
  by (subst show_nat.simps) auto

lemma digit_chars: "c \<in> set (show_nat n) \<Longrightarrow> \<exists>d < 10. c = digit_char d"
proof (induction n rule: show_nat.induct)
  case (1 n)
  show ?case
  proof (cases "n < 10")
    case True
    with "1.prems" show ?thesis by (auto simp: show_nat.simps [of n])
  next
    case False
    then have "n mod 10 < 10" by simp
    moreover from False "1.prems" have "c \<in> set (show_nat (n div 10)) \<or> c = digit_char (n mod 10)"
      by (auto simp: show_nat.simps [of n])
    ultimately show ?thesis using "1.IH" [OF False] by blast
  qed
qed

lemma of_char_digit_char [simp]: "d < 10 \<Longrightarrow> of_char (digit_char d) = (48 + d :: nat)"
  by (simp add: digit_char_def)

lemma show_nat_range: "c \<in> set (show_nat n) \<Longrightarrow> 48 \<le> (of_char c :: nat) \<and> (of_char c :: nat) \<le> 57"
  using digit_chars by fastforce

lemma show_nat_chars [simp]:
  "CHR '':'' \<notin> set (show_nat n)" "CHR ''/'' \<notin> set (show_nat n)"
  "CHR ''_'' \<notin> set (show_nat n)" "CHR ''-'' \<notin> set (show_nat n)" "CHR ''s'' \<notin> set (show_nat n)"
  "CHR ''+'' \<notin> set (show_nat n)" "CHR ''.'' \<notin> set (show_nat n)"
  using show_nat_range by fastforce+

lemma show_int_chars [simp]:
  "CHR '':'' \<notin> set (show_int i)" "CHR ''/'' \<notin> set (show_int i)" "CHR ''s'' \<notin> set (show_int i)"
  "CHR ''.'' \<notin> set (show_int i)"
  by (auto simp: show_int_def)

lemma parse_digits_show_nat [simp]: "parse_digits (show_nat n) = Some n"
  using show_nat_not_Nil [of n, symmetric] by (simp add: parse_digits_def)

lemma not_space_show_nat: "c \<in> set (show_nat n) \<Longrightarrow> \<not> py_space c"
  using show_nat_range [of c n] by (auto simp: py_space_def Let_def)

lemma py_strip_id: "\<forall>c \<in> set s. \<not> py_space c \<Longrightarrow> py_strip s = s"
proof -
  assume "\<forall>c \<in> set s. \<not> py_space c"
  then have "dropWhile py_space s = s" "dropWhile py_space (rev s) = rev s"
    by (auto simp: dropWhile_eq_self_iff hd_rev)
  then show ?thesis by (simp add: py_strip_def)
qed

lemma not_space_show_int: "c \<in> set (show_int i) \<Longrightarrow> \<not> py_space c"
  by (auto simp: show_int_def not_space_show_nat split: if_splits)
    (simp add: py_space_def)

text \<open>Printing an integer and reading it back gives the integer.\<close>

lemma py_int_show_int [simp]: "py_int (show_int i) = Inr i"
proof -
  have strip: "py_strip (show_int i) = show_int i"
    by (rule py_strip_id) (auto simp: not_space_show_int)
  show ?thesis
  proof (cases "i < 0")
    case True
    with strip show ?thesis by (simp add: py_int_def show_int_def)
  next
    case False
    obtain c cs where c: "show_nat (nat i) = c # cs"
      by (cases "show_nat (nat i)") auto
    then have "c \<in> set (show_nat (nat i))" by simp
    then have "c \<noteq> CHR ''-''" "c \<noteq> CHR ''+''"
      by (metis show_nat_chars)+
    with False strip c parse_digits_show_nat [of "nat i"] show ?thesis
      by (simp add: py_int_def show_int_def)
  qed
qed

lemma show_int_inject [simp]: "show_int i = show_int j \<longleftrightarrow> i = j"
  by (metis py_int_show_int sum.inject(2))

end
