(* ===== verification/Stream_Ids.thy ===== *)
theory Stream_Ids
  imports Py_Strings
begin

text \<open>
  Execution streams (\<open>StreamID\<close> in \<open>dsl/schemas.py\<close>). A stream identifier is a string:
  the identifier of the parent stream, a slash, the reference of the scatter that opened the
  stream, a colon and the index of the item (or \<open>skip\<close>). The root stream is
  \<open><root>:0\<close>. The theory shows that the textual encoding is faithful: the leaf can be read
  back, different streams have different identifiers, and the prefix test the loop code uses is
  the ancestor relation.
\<close>

type_synonym stream = string

datatype stream_index = Idx int | Skip

fun index_text :: "stream_index \<Rightarrow> string" where
  "index_text (Idx i) = show_int i"
| "index_text Skip = ''skip''"

definition stream_segment :: "string \<Rightarrow> stream_index \<Rightarrow> string" where
  "stream_segment scope ix = scope @ CHR '':'' # index_text ix"

text \<open>\<open>StreamID.new\<close> and \<open>StreamID.skip\<close>; the base stream is optional.\<close>

definition stream_new :: "string \<Rightarrow> stream_index \<Rightarrow> stream option \<Rightarrow> stream" where
  "stream_new scope ix base =
     (case base of
        None \<Rightarrow> stream_segment scope ix
      | Some b \<Rightarrow> b @ CHR ''/'' # stream_segment scope ix)"

definition stream_skip :: "string \<Rightarrow> stream option \<Rightarrow> stream" where
  "stream_skip scope base = stream_new scope Skip base"

definition stream_parts :: "stream \<Rightarrow> string list" where
  "stream_parts s = py_split (CHR ''/'') s"

text \<open>
  \<open>StreamID.leaf\<close>: unpacking fewer than two pieces is a ValueError of the assignment, more
  than two is the explicit ValueError, and \<open>int\<close> raises on anything but a number.
\<close>

definition stream_leaf :: "stream \<Rightarrow> py_error + (string \<times> stream_index)" where
  "stream_leaf s =
     (case py_split (CHR '':'') (last (stream_parts s)) of
        scope # index # rest \<Rightarrow>
          if rest \<noteq> [] then Inl ValueError
          else if index = ''skip'' then Inr (scope, Skip)
          else rbind (py_int index) (\<lambda>i. Inr (scope, Idx i))
      | _ \<Rightarrow> Inl ValueError)"

definition ROOT_STREAM :: stream where
  "ROOT_STREAM = stream_new ''<root>'' (Idx 0) None"

text \<open>\<open>DSLScheduler._stream_within\<close> and the skip-stream test of \<open>_handle_gather\<close>.\<close>

definition stream_within :: "stream \<Rightarrow> stream \<Rightarrow> bool" where
  "stream_within s base = (s = base \<or> prefix (base @ ''/'') s)"

definition is_skip_stream :: "stream \<Rightarrow> bool" where
  "is_skip_stream s = suffix '':skip'' s"

text \<open>Action references match \<open>^[a-z0-9_]+$\<close>, so they hold neither separator.\<close>

definition plain_ref :: "string \<Rightarrow> bool" where
  "plain_ref s \<longleftrightarrow> CHR '':'' \<notin> set s \<and> CHR ''/'' \<notin> set s"

definition slug_char :: "char \<Rightarrow> bool" where
  "slug_char c = (let n = of_char c :: nat in
     (97 \<le> n \<and> n \<le> 122) \<or> (48 \<le> n \<and> n \<le> 57) \<or> n = 95)"

definition slug :: "string \<Rightarrow> bool" where
  "slug s = (s \<noteq> [] \<and> list_all slug_char s)"

lemma slug_plain: "slug s \<Longrightarrow> plain_ref s"
  by (auto simp: slug_def plain_ref_def slug_char_def list_all_iff)

lemma slug_no_dot: "slug s \<Longrightarrow> CHR ''.'' \<notin> set s"
  by (auto simp: slug_def slug_char_def list_all_iff)

section \<open>The encoding is faithful\<close>

lemma index_text_chars [simp]:
  "CHR '':'' \<notin> set (index_text ix)" "CHR ''/'' \<notin> set (index_text ix)"
  by (cases ix; simp)+

lemma show_int_not_skip [simp]: "show_int i \<noteq> ''skip''" "''skip'' \<noteq> show_int i"
proof -
  have "CHR ''s'' \<in> set ''skip''" by simp
  then show "show_int i \<noteq> ''skip''" by (metis show_int_chars(3))
  then show "''skip'' \<noteq> show_int i" by metis
qed

lemma index_text_inject [simp]: "index_text a = index_text b \<longleftrightarrow> a = b"
  by (cases a; cases b) auto

lemma segment_no_slash: "plain_ref scope \<Longrightarrow> CHR ''/'' \<notin> set (stream_segment scope ix)"
  by (auto simp: stream_segment_def plain_ref_def)

lemma split_segment:
  "plain_ref scope \<Longrightarrow> py_split (CHR '':'') (stream_segment scope ix) = [scope, index_text ix]"
  by (simp add: stream_segment_def plain_ref_def py_split_append_sep)

lemma segment_inject:
  "plain_ref s \<Longrightarrow> plain_ref t \<Longrightarrow>
     stream_segment s i = stream_segment t j \<longleftrightarrow> s = t \<and> i = j"
  by (metis index_text_inject list.inject split_segment)

lemma stream_parts_new:
  "plain_ref scope \<Longrightarrow>
     stream_parts (stream_new scope ix base) =
       (case base of None \<Rightarrow> [] | Some b \<Rightarrow> stream_parts b) @ [stream_segment scope ix]"
  by (simp add: stream_parts_def stream_new_def py_split_append_sep segment_no_slash
    split: option.splits)

lemma stream_parts_not_Nil [simp]: "stream_parts s \<noteq> []"
  by (simp add: stream_parts_def)

lemma stream_parts_inject: "stream_parts s = stream_parts t \<longleftrightarrow> s = t"
  by (simp add: stream_parts_def py_split_inject)

lemma leaf_of_new:
  assumes "plain_ref scope"
  shows "stream_leaf (stream_new scope ix base) = Inr (scope, ix)"
  using assms by (cases ix) (simp_all add: stream_leaf_def stream_parts_new split_segment)

lemma stream_new_inject:
  assumes "plain_ref s" and "plain_ref t"
  shows "stream_new s i (Some b) = stream_new t j (Some c) \<longleftrightarrow> s = t \<and> i = j \<and> b = c"
proof -
  have "stream_new s i (Some b) = stream_new t j (Some c) \<longleftrightarrow>
      stream_parts (stream_new s i (Some b)) = stream_parts (stream_new t j (Some c))"
    by (simp only: stream_parts_inject)
  with assms show ?thesis
    by (auto simp: stream_parts_new segment_inject stream_parts_inject)
qed

lemma stream_new_not_base: "stream_new s i (Some b) \<noteq> b"
proof
  assume "stream_new s i (Some b) = b"
  then have "length (stream_new s i (Some b)) = length b" by simp
  then show False by (simp add: stream_new_def)
qed

lemma stream_within_parts:
  "stream_within s base \<longleftrightarrow> prefix (stream_parts base) (stream_parts s)"
proof
  assume "stream_within s base"
  then show "prefix (stream_parts base) (stream_parts s)"
    by (auto simp: stream_within_def stream_parts_def py_split_append_sep elim!: prefixE)
next
  assume "prefix (stream_parts base) (stream_parts s)"
  then obtain zs where zs: "stream_parts s = stream_parts base @ zs"
    by (auto elim: prefixE)
  show "stream_within s base"
  proof (cases "zs = []")
    case True
    with zs show ?thesis by (simp add: stream_within_def stream_parts_inject)
  next
    case False
    have "s = py_join (CHR ''/'') (stream_parts s)"
      by (simp add: stream_parts_def)
    also have "\<dots> = base @ CHR ''/'' # py_join (CHR ''/'') zs"
      using False by (simp add: zs py_join_append) (simp add: stream_parts_def)
    finally show ?thesis by (simp add: stream_within_def)
  qed
qed

lemma stream_within_refl [simp]: "stream_within s s"
  by (simp add: stream_within_def)

lemma stream_within_trans: "stream_within a b \<Longrightarrow> stream_within b c \<Longrightarrow> stream_within a c"
  using prefix_order.trans by (auto simp: stream_within_parts)

lemma stream_within_antisym: "stream_within a b \<Longrightarrow> stream_within b a \<Longrightarrow> a = b"
  using prefix_order.antisym by (metis stream_parts_inject stream_within_parts)

lemma stream_within_new: "stream_within (stream_new s i (Some b)) b"
  by (simp add: stream_within_def stream_new_def)

lemma suffix_skip_show: "\<not> suffix '':skip'' (scope @ CHR '':'' # show_int i)"
proof
  assume a: "suffix '':skip'' (scope @ CHR '':'' # show_int i)"
  obtain c cs where c: "show_int i = cs @ [c]"
    by (metis append_butlast_last_id py_int_show_int py_int_def show_int_def show_nat_not_Nil
        list.simps(3))
  with a have "c = CHR ''p''" by (auto simp: suffix_def)
  moreover have "c \<in> set (show_int i)" using c by simp
  ultimately show False
    using show_nat_range [of c "nat (- i)"] show_nat_range [of c "nat i"]
    by (auto simp: show_int_def split: if_splits)
qed

text \<open>The test \<open>endswith(":skip")\<close> recognises exactly the streams made by \<open>skip\<close>.\<close>

lemma is_skip_stream_new [simp]:
  "is_skip_stream (stream_new scope ix base) \<longleftrightarrow> ix = Skip"
proof (cases ix)
  case (Idx i)
  show ?thesis
  proof (cases base)
    case None
    with Idx suffix_skip_show show ?thesis
      by (simp add: is_skip_stream_def stream_new_def stream_segment_def)
  next
    case (Some b)
    with Idx suffix_skip_show [of "b @ CHR ''/'' # scope"] show ?thesis
      by (simp add: is_skip_stream_def stream_new_def stream_segment_def)
  qed
next
  case Skip
  then show ?thesis
    by (cases base) (auto simp: is_skip_stream_def stream_new_def stream_segment_def suffix_def)
qed

lemma root_not_skip [simp]: "\<not> is_skip_stream ROOT_STREAM"
  by (simp add: ROOT_STREAM_def)

lemma stream_new_not_root:
  assumes "plain_ref s"
  shows "stream_new s i (Some b) \<noteq> ROOT_STREAM"
proof
  assume "stream_new s i (Some b) = ROOT_STREAM"
  then have "stream_parts (stream_new s i (Some b)) = stream_parts ROOT_STREAM" by simp
  moreover have "plain_ref ''<root>''" by (simp add: plain_ref_def)
  ultimately show False
    using assms by (simp add: ROOT_STREAM_def stream_parts_new)
qed

end
