(* ===== verification/Dsl_Types.thy ===== *)
theory Dsl_Types
  imports Stream_Ids
begin

text \<open>
  The data of the workflow language: enumerations (\<open>dsl/enums.py\<close>), dynamic values and stored
  objects (\<open>storage/object.py\<close>), task results, execution contexts, action statements and error
  records (\<open>dsl/schemas.py\<close>, \<open>dsl/types.py\<close>).
\<close>

section \<open>Enumerations\<close>

datatype edge_type = SUCCESS | ERROR

fun edge_type_value :: "edge_type \<Rightarrow> string" where
  "edge_type_value SUCCESS = ''success''"
| "edge_type_value ERROR = ''error''"

datatype edge_marker = PENDING | VISITED | SKIPPED

datatype join_strategy = JoinAny | JoinAll

datatype error_strategy = PARTITION | INCLUDE | DROP | RAISE

text \<open>Action types are strings (UDF keys); these are the ones the scheduler treats itself.\<close>

definition TRANSFORM_SCATTER :: string where "TRANSFORM_SCATTER = ''core.transform.scatter''"
definition TRANSFORM_GATHER :: string where "TRANSFORM_GATHER = ''core.transform.gather''"
definition LOOP_START :: string where "LOOP_START = ''core.loop.start''"
definition LOOP_END :: string where "LOOP_END = ''core.loop.end''"

lemmas action_names = TRANSFORM_SCATTER_def TRANSFORM_GATHER_def LOOP_START_def LOOP_END_def

lemma action_names_distinct [simp]:
  "TRANSFORM_SCATTER \<noteq> TRANSFORM_GATHER" "TRANSFORM_GATHER \<noteq> TRANSFORM_SCATTER"
  "TRANSFORM_SCATTER \<noteq> LOOP_START" "LOOP_START \<noteq> TRANSFORM_SCATTER"
  "TRANSFORM_SCATTER \<noteq> LOOP_END" "LOOP_END \<noteq> TRANSFORM_SCATTER"
  "TRANSFORM_GATHER \<noteq> LOOP_START" "LOOP_START \<noteq> TRANSFORM_GATHER"
  "TRANSFORM_GATHER \<noteq> LOOP_END" "LOOP_END \<noteq> TRANSFORM_GATHER"
  "LOOP_START \<noteq> LOOP_END" "LOOP_END \<noteq> LOOP_START"
  by (simp_all add: action_names)

definition MAX_DO_WHILE_ITERATIONS :: int where
  "MAX_DO_WHILE_ITERATIONS = 2048"

definition GATHER_UNSET :: string where
  "GATHER_UNSET = ''__SENTINEL_GATHER_UNSET__''"

section \<open>Values, stored objects and error records\<close>

text \<open>
  A reference to a blob: bucket, key, size and digest. The backend, content type and encoding are
  constants of the code; the creation time is not read by anything modelled here.
\<close>

datatype object_ref =
  ObjectRef (bucket: string) (key: string) (size_bytes: int) (sha256: string)

datatype element_kind = ValueElements | StoredObjectElements

text \<open>
  Values of the workflow: JSON values, stored-object envelopes and error records. Floats are
  exact rationals, rounding is not modelled.
\<close>

datatype pyval =
    VNone | VBool bool | VInt int | VFloat rat | VStr string
  | VList "pyval list" | VDict "(string \<times> pyval) list"
  | VStored stored | VErr error_info
and stored =
    InlineObject pyval string
  | ExternalObject object_ref "string option"
  | CollectionObject object_ref int int element_kind int "int option" string
and error_info =
  ActionErrorInfo (err_ref: pyval) (err_message: pyval) (err_type: pyval)
    (err_expr_context: pyval) (err_attempt: pyval) (err_stream_id: pyval) (err_children: pyval)

text \<open>\<open>type(v).__name__\<close>.\<close>

fun type_name :: "pyval \<Rightarrow> string" where
  "type_name VNone = ''NoneType''"
| "type_name (VBool _) = ''bool''"
| "type_name (VInt _) = ''int''"
| "type_name (VFloat _) = ''float''"
| "type_name (VStr _) = ''str''"
| "type_name (VList _) = ''list''"
| "type_name (VDict _) = ''dict''"
| "type_name (VStored (InlineObject _ _)) = ''InlineObject''"
| "type_name (VStored (ExternalObject _ _)) = ''ExternalObject''"
| "type_name (VStored (CollectionObject _ _ _ _ _ _ _)) = ''CollectionObject''"
| "type_name (VErr _) = ''ActionErrorInfo''"

text \<open>\<open>bool(v)\<close>; a collection handle has a length, every other object is true.\<close>

fun py_bool :: "pyval \<Rightarrow> bool" where
  "py_bool VNone = False"
| "py_bool (VBool b) = b"
| "py_bool (VInt i) = (i \<noteq> 0)"
| "py_bool (VFloat r) = (r \<noteq> 0)"
| "py_bool (VStr s) = (s \<noteq> [])"
| "py_bool (VList xs) = (xs \<noteq> [])"
| "py_bool (VDict d) = (d \<noteq> [])"
| "py_bool (VStored (CollectionObject _ n _ _ _ _ _)) = (n \<noteq> 0)"
| "py_bool (VStored _) = True"
| "py_bool (VErr _) = True"

text \<open>Python list indexing, and assignment to an index; both raise IndexError out of range.\<close>

definition py_index :: "nat \<Rightarrow> int \<Rightarrow> nat option" where
  "py_index n i = (let j = (if i < 0 then int n + i else i)
                   in if 0 \<le> j \<and> j < int n then Some (nat j) else None)"

definition py_nth :: "'a list \<Rightarrow> int \<Rightarrow> py_error + 'a" where
  "py_nth xs i = (case py_index (length xs) i of None \<Rightarrow> Inl IndexError | Some j \<Rightarrow> Inr (xs ! j))"

definition py_store :: "'a list \<Rightarrow> int \<Rightarrow> 'a \<Rightarrow> py_error + 'a list" where
  "py_store xs i v =
     (case py_index (length xs) i of None \<Rightarrow> Inl IndexError | Some j \<Rightarrow> Inr (xs[j := v]))"

lemma py_index_nat [simp]: "n < len \<Longrightarrow> py_index len (int n) = Some n"
  by (simp add: py_index_def)

lemma py_store_nat [simp]: "n < length xs \<Longrightarrow> py_store xs (int n) v = Inr (xs[n := v])"
  by (simp add: py_store_def)

lemma py_index_SomeD: "py_index n i = Some j \<Longrightarrow> j < n"
  by (auto simp: py_index_def Let_def split: if_splits)

section \<open>Task results and contexts\<close>

record task_result =
  result :: stored
  result_typename :: string
  error :: pyval
  error_typename :: "string option"
  interaction :: pyval
  interaction_id :: "string option"
  interaction_type :: "string option"
  collection_index :: "int option"

definition task_result_of :: "stored \<Rightarrow> string \<Rightarrow> int option \<Rightarrow> task_result" where
  "task_result_of r tn ix =
     \<lparr>result = r, result_typename = tn, error = VNone, error_typename = None,
      interaction = VNone, interaction_id = None, interaction_type = None,
      collection_index = ix\<rparr>"

definition inline :: "pyval \<Rightarrow> stored" where
  "inline v = InlineObject v (type_name v)"

definition from_result :: "pyval \<Rightarrow> task_result" where
  "from_result v = task_result_of (inline v) (type_name v) None"

definition from_collection_item :: "stored \<Rightarrow> int \<Rightarrow> string \<Rightarrow> task_result" where
  "from_collection_item st i tn = task_result_of st tn (Some i)"

definition is_error :: "task_result \<Rightarrow> bool" where
  "is_error r = (error r \<noteq> VNone)"

fun stored_type :: "stored \<Rightarrow> string" where
  "stored_type (InlineObject _ _) = ''inline''"
| "stored_type (ExternalObject _ _) = ''external''"
| "stored_type (CollectionObject _ _ _ _ _ _ _) = ''collection''"

fun stored_typename :: "stored \<Rightarrow> string option" where
  "stored_typename (InlineObject _ tn) = Some tn"
| "stored_typename (ExternalObject _ tn) = tn"
| "stored_typename (CollectionObject _ _ _ _ _ _ tn) = Some tn"

definition is_externalized :: "task_result \<Rightarrow> bool" where
  "is_externalized r = (stored_type (result r) \<in> {''external'', ''collection''})"

definition get_data :: "task_result \<Rightarrow> py_error + pyval" where
  "get_data r =
     (case result r of
        InlineObject v _ \<Rightarrow>
          (case (collection_index r, v) of
             (Some i, VList xs) \<Rightarrow> py_nth xs i
           | _ \<Rightarrow> Inr v)
      | _ \<Rightarrow> Inl ValueError)"

definition with_result :: "pyval \<Rightarrow> task_result \<Rightarrow> task_result" where
  "with_result v r = r\<lparr>result := inline v, result_typename := type_name v\<rparr>"

definition with_error :: "pyval \<Rightarrow> string option \<Rightarrow> task_result \<Rightarrow> task_result" where
  "with_error e tn r =
     r\<lparr>error := e,
       error_typename := Some (case tn of Some t \<Rightarrow> if t = [] then type_name e else t
                                        | None \<Rightarrow> type_name e)\<rparr>"

lemma get_data_from_result [simp]: "get_data (from_result v) = Inr v"
  by (simp add: get_data_def from_result_def task_result_of_def inline_def)

lemma get_data_with_result: "collection_index r = None \<Longrightarrow> get_data (with_result v r) = Inr v"
  by (simp add: get_data_def with_result_def inline_def)

record exec_ctx =
  ACTIONS :: "(string, task_result) dict"
  TRIGGER :: "stored option"
  ENV :: "pyval option"
  SECRETS :: "pyval option"
  VARS :: "pyval option"
  local_var :: "pyval option"

definition empty_ctx :: exec_ctx where
  "empty_ctx = \<lparr>ACTIONS = [], TRIGGER = None, ENV = None, SECRETS = None, VARS = None,
     local_var = None\<rparr>"

section \<open>Action statements, tasks and edges\<close>

text \<open>
  The fields of an action statement the scheduler and the validator read. \<open>expr_refs\<close> lists,
  for every field that holds a template expression, the actions that \<open>extract_expressions\<close>
  finds in it, and \<open>condition_refs\<close> those of the \<open>condition\<close> argument of a loop end.
\<close>

record stmt =
  ref :: string
  action :: string
  args :: "(string, pyval) dict"
  depends_on :: "string list"
  run_if :: "string option"
  join_strategy :: join_strategy
  expr_refs :: "(string \<times> string list) list"
  condition_refs :: "string list"

record task =
  task_ref :: string
  stream_id :: stream
  delay :: rat

type_synonym task_key = "string \<times> stream"

text \<open>The delay takes no part in comparing tasks (\<open>compare=False\<close>).\<close>

definition task_key :: "task \<Rightarrow> task_key" where
  "task_key t = (task_ref t, stream_id t)"

definition mk_task :: "string \<Rightarrow> stream \<Rightarrow> task" where
  "mk_task r s = \<lparr>task_ref = r, stream_id = s, delay = 0\<rparr>"

record edge =
  edge_src :: string
  edge_dst :: string
  edge_type :: edge_type
  edge_stream :: stream

lemma task_key_mk_task [simp]: "task_key (mk_task r s) = (r, s)"
  by (simp add: task_key_def mk_task_def)

lemma mk_task_simps [simp]:
  "task_ref (mk_task r s) = r" "stream_id (mk_task r s) = s" "delay (mk_task r s) = 0"
  by (simp_all add: mk_task_def)

section \<open>Exceptions\<close>

text \<open>
  The exceptions a task can end with. \<open>ForeignError\<close> is any exception of another library, with
  its class name and text; \<open>PlatformExecutionError\<close> is the scheduler's wrapper. Texts of the
  exceptions the scheduler raises itself are abbreviated.
\<close>

datatype exn =
    ApplicationError string "pyval list"
  | PyError py_error
  | TaskUnreachable
  | ForeignError string string
  | PlatformExecutionError exn
  | ActivityError string "exn option"

fun py_error_name :: "py_error \<Rightarrow> string" where
  "py_error_name ValueError = ''ValueError''"
| "py_error_name KeyError = ''KeyError''"
| "py_error_name IndexError = ''IndexError''"
| "py_error_name TypeError = ''TypeError''"
| "py_error_name RuntimeError = ''RuntimeError''"
| "py_error_name ValidationError = ''ValidationError''"
| "py_error_name OtherError = ''Exception''"

fun exn_class :: "exn \<Rightarrow> string" where
  "exn_class (ApplicationError _ _) = ''ApplicationError''"
| "exn_class (PyError e) = py_error_name e"
| "exn_class TaskUnreachable = ''TaskUnreachable''"
| "exn_class (ForeignError c _) = c"
| "exn_class (PlatformExecutionError _) = ''PlatformExecutionError''"
| "exn_class (ActivityError _ _) = ''ActivityError''"

fun exn_text :: "exn \<Rightarrow> string" where
  "exn_text (ApplicationError m _) = m"
| "exn_text (PyError e) = py_error_name e"
| "exn_text TaskUnreachable = ''Task is unreachable''"
| "exn_text (ForeignError _ m) = m"
| "exn_text (PlatformExecutionError e) = exn_text e"
| "exn_text (ActivityError m _) = m"

section \<open>Error records\<close>

text \<open>\<open>ActionErrorInfo(ref=..., message=..., type=..., stream_id=...)\<close>: the other fields default.\<close>

definition error_info :: "string \<Rightarrow> string \<Rightarrow> string \<Rightarrow> stream \<Rightarrow> error_info" where
  "error_info r msg ty sid =
     ActionErrorInfo (VStr r) (VStr msg) (VStr ty) (VStr ''ACTIONS'') (VInt 1) (VStr sid) VNone"

text \<open>
  \<open>ActionErrorInfo(**details)\<close>. A data class checks the names of its arguments, not their
  types: an unknown name or a missing one of the three mandatory ones is a TypeError.
\<close>

definition error_fields :: "string list" where
  "error_fields = [''ref'', ''message'', ''type'', ''expr_context'', ''attempt'', ''stream_id'',
     ''children'']"

definition error_info_from_dict :: "(string, pyval) dict \<Rightarrow> py_error + error_info" where
  "error_info_from_dict d =
     (if \<not> set (dict_keys d) \<subseteq> set error_fields then Inl TypeError
      else
        (case (dict_get d ''ref'', dict_get d ''message'', dict_get d ''type'') of
           (Some r, Some m, Some t) \<Rightarrow>
             Inr (ActionErrorInfo r m t
               (dict_get_default d ''expr_context'' (VStr ''ACTIONS''))
               (dict_get_default d ''attempt'' (VInt 1))
               (dict_get_default d ''stream_id'' (VStr ROOT_STREAM))
               (dict_get_default d ''children'' VNone))
         | _ \<Rightarrow> Inl TypeError))"

text \<open>\<open>ActionErrorInfoAdapter.dump_python\<close>: error records become dictionaries, also nested ones.\<close>

fun dump_value :: "pyval \<Rightarrow> pyval" and dump_error :: "error_info \<Rightarrow> pyval" where
  "dump_value (VList xs) = VList (map dump_value xs)"
| "dump_value (VErr e) = dump_error e"
| "dump_value v = v"
| "dump_error (ActionErrorInfo r m t c a s ch) =
     VDict [(''ref'', r), (''message'', m), (''type'', t), (''expr_context'', c),
       (''attempt'', a), (''stream_id'', s), (''children'', dump_value ch)]"

text \<open>A dumped record without nested records reads back unchanged.\<close>

lemma error_info_from_dump:
  "dump_error (ActionErrorInfo r m t c a s VNone) = VDict d \<Longrightarrow>
     error_info_from_dict d = Inr (ActionErrorInfo r m t c a s VNone)"
  by (auto simp: error_info_from_dict_def error_fields_def dict_get_default_def)

end
