(* ===== verification/Dsl_Graph.thy ===== *)
theory Dsl_Graph
  imports Dsl_Types
begin

text \<open>
  The dependency graph of a workflow definition (\<open>dsl/common.py\<close>): dependency references and
  their edge types, the adjacency lists, and \<open>_assign_action_scopes\<close>, which walks the graph in
  topological order and gives every action its scatter or loop scope. The lemmas show that the walk
  succeeds only on acyclic graphs, that it reports a cycle only when there is one, that it visits
  every action once, and that the scope hierarchy it builds is a tree.
\<close>

section \<open>Errors\<close>

text \<open>One constructor for each \<open>raise TracecatDSLError\<close> of the validator.\<close>

datatype dsl_error =
    NoActions | DuplicateRefs | NoEntrypoints
  | InvalidDep string string | InvalidDeps
  | UnknownActionExpr string string string
  | MoreGathers | UnbalancedLoops
  | MultipleScopes string | CloserInRoot string | WrongScopeType string | CycleDetected
  | OpenerEdge string string | LoopEndEdge string string
  | CloserEdgeWrongType string string | CloserEdge string string | CrossScopeEdge string string
  | OpenerExpr string string string | LoopEndConditionExpr string string
  | CloserExprWrongType string string | CloserExpr string string string
  | CrossScopeExpr string string string
  | LoopEndManyScopes string | LoopEndNotChild string | LoopEndNotLoop string
  | MultipleLoopEnds string string string | MissingLoopEnd string
  | Unsynchronized string string

text \<open>
  What stops the validator: one of its own errors, an exception of the language, or a walk up the
  scope hierarchy that does not end.
\<close>

datatype dsl_exn = Dsl dsl_error | Raised py_error | NoReturn

definition getitem :: "('k, 'v) dict \<Rightarrow> 'k \<Rightarrow> dsl_exn + 'v" where
  "getitem d k = (case dict_get d k of None \<Rightarrow> Inl (Raised KeyError) | Some v \<Rightarrow> Inr v)"

lemma getitem_Inr [result_simps]: "getitem d k = Inr v \<longleftrightarrow> dict_get d k = Some v"
  by (auto simp: getitem_def split: option.splits)

section \<open>Dependencies\<close>

definition edge_components_from_dep :: "string \<Rightarrow> py_error + (string \<times> edge_type)" where
  "edge_components_from_dep dep =
     (case py_split1 (CHR ''.'') dep of
        (src, None) \<Rightarrow> Inr (src, SUCCESS)
      | (src, Some path) \<Rightarrow>
          if path = ''success'' then Inr (src, SUCCESS)
          else if path = ''error'' then Inr (src, ERROR)
          else Inl ValueError)"

definition dep_from_edge_components :: "string \<Rightarrow> edge_type \<Rightarrow> string" where
  "dep_from_edge_components src t = src @ CHR ''.'' # edge_type_value t"

definition components :: "string \<Rightarrow> dsl_exn + (string \<times> edge_type)" where
  "components dep = (case edge_components_from_dep dep of Inl e \<Rightarrow> Inl (Raised e) | Inr c \<Rightarrow> Inr c)"

text \<open>\<open>_to_adjacency\<close> and \<open>_to_typed_adjacency\<close>.\<close>

definition empty_adjacency :: "stmt list \<Rightarrow> (string, 'a list) dict" where
  "empty_adjacency actions = fold (\<lambda>a d. dict_set (ref a) [] d) actions []"

definition adj_append :: "string \<Rightarrow> 'a \<Rightarrow> (string, 'a list) dict \<Rightarrow> dsl_exn + (string, 'a list) dict" where
  "adj_append src x d = rbind (getitem d src) (\<lambda>xs. Inr (dict_set src (xs @ [x]) d))"

definition adjacency_with ::
  "(string \<Rightarrow> edge_type \<Rightarrow> 'a) \<Rightarrow> stmt list \<Rightarrow> dsl_exn + (string, 'a list) dict" where
  "adjacency_with f actions =
     fold_result (\<lambda>a. fold_result (\<lambda>dep d.
         rbind (components dep) (\<lambda>(src, t). adj_append src (f (ref a) t) d)) (depends_on a))
       actions (empty_adjacency actions)"

definition to_adjacency :: "stmt list \<Rightarrow> dsl_exn + (string, string list) dict" where
  "to_adjacency = adjacency_with (\<lambda>r _. r)"

definition to_typed_adjacency :: "stmt list \<Rightarrow> dsl_exn + (string, (string \<times> edge_type) list) dict" where
  "to_typed_adjacency = adjacency_with Pair"

section \<open>Assigning scopes\<close>

definition ROOT_SCOPE :: string where
  "ROOT_SCOPE = ''<root>''"

definition is_scope_opener :: "string \<Rightarrow> bool" where
  "is_scope_opener act = (act \<in> {TRANSFORM_SCATTER, LOOP_START})"

definition is_scope_closer :: "string \<Rightarrow> bool" where
  "is_scope_closer act = (act \<in> {TRANSFORM_GATHER, LOOP_END})"

definition closer_to_opener :: "string \<Rightarrow> string" where
  "closer_to_opener act = (if act = TRANSFORM_GATHER then TRANSFORM_SCATTER else LOOP_START)"

record scope_state =
  sc_queue :: "(string \<times> string) list"
  sc_indegrees :: "(string, int) dict"
  sc_scopes :: "(string, string) dict"
  sc_hierarchy :: "(string, string option) dict"
  sc_openers :: "(string, string) dict"
  sc_visited :: nat

definition assign_scope :: "string \<Rightarrow> string \<Rightarrow> scope_state \<Rightarrow> dsl_exn + scope_state" where
  "assign_scope r scope s =
     (case dict_get (sc_scopes s) r of
        None \<Rightarrow> Inr (s\<lparr>sc_scopes := dict_set r scope (sc_scopes s)\<rparr>)
      | Some sc \<Rightarrow> if sc \<noteq> scope then Inl (Dsl (MultipleScopes r)) else Inr s)"

text \<open>The scope transition of one action: the new state and the scope of its successors.\<close>

definition enter_scope ::
  "stmt \<Rightarrow> string \<Rightarrow> string \<Rightarrow> scope_state \<Rightarrow> dsl_exn + (string \<times> scope_state)" where
  "enter_scope st r cur s =
     (if is_scope_opener (action st) then
        rbind (assign_scope r r s) (\<lambda>s. Inr (r,
          s\<lparr>sc_hierarchy := dict_set r (Some cur) (sc_hierarchy s),
            sc_openers := dict_set r (action st) (sc_openers s)\<rparr>))
      else if is_scope_closer (action st) then
        (case dict_get_default (sc_hierarchy s) cur None of
           None \<Rightarrow> Inl (Dsl (CloserInRoot r))
         | Some parent \<Rightarrow>
             if dict_get (sc_openers s) cur \<noteq> Some (closer_to_opener (action st))
             then Inl (Dsl (WrongScopeType r))
             else rbind (assign_scope r parent s) (\<lambda>s. Inr (parent, s)))
      else rbind (assign_scope r cur s) (\<lambda>s. Inr (cur, s)))"

text \<open>\<open>indegrees[next_ref] -= 1\<close> for every successor; a count that reaches 0 queues it.\<close>

fun release :: "string \<Rightarrow> string list \<Rightarrow> scope_state \<Rightarrow> dsl_exn + scope_state" where
  "release scope [] s = Inr s"
| "release scope (n # ns) s =
     (case dict_get (sc_indegrees s) n of
        None \<Rightarrow> Inl (Raised KeyError)
      | Some i \<Rightarrow>
          release scope ns
            (s\<lparr>sc_indegrees := dict_set n (i - 1) (sc_indegrees s),
               sc_queue := sc_queue s @ (if i - 1 = 0 then [(n, scope)] else [])\<rparr>))"

definition scope_step ::
  "stmt list \<Rightarrow> (string, string list) dict \<Rightarrow> string \<Rightarrow> string \<Rightarrow> scope_state
     \<Rightarrow> dsl_exn + scope_state" where
  "scope_step actions adj r cur s =
     rbind (getitem (map (\<lambda>a. (ref a, a)) (rev actions)) r) (\<lambda>st.
     rbind (enter_scope st r cur (s\<lparr>sc_visited := Suc (sc_visited s)\<rparr>)) (\<lambda>(next_scope, s).
       release next_scope (dict_get_default adj r []) s))"

text \<open>The work left: the queue, and the actions that still wait for a predecessor.\<close>

definition waiting_refs :: "(string, int) dict \<Rightarrow> string set" where
  "waiting_refs d = {k. \<exists>i. dict_get d k = Some i \<and> 0 < i}"

definition scope_work :: "scope_state \<Rightarrow> nat" where
  "scope_work s = length (sc_queue s) + card (waiting_refs (sc_indegrees s))"

lemma finite_waiting_refs [simp]: "finite (waiting_refs d)"
  by (rule finite_subset [OF _ finite_dom_map_of [of d]]) (auto simp: waiting_refs_def)

lemma release_work: "release scope ns s = Inr s' \<Longrightarrow> scope_work s' \<le> scope_work s"
proof (induction scope ns s rule: release.induct)
  case (2 scope n ns s)
  then obtain i where i: "dict_get (sc_indegrees s) n = Some i"
    by (auto split: option.splits)
  let ?s = "s\<lparr>sc_indegrees := dict_set n (i - 1) (sc_indegrees s),
               sc_queue := sc_queue s @ (if i - 1 = 0 then [(n, scope)] else [])\<rparr>"
  have "scope_work s' \<le> scope_work ?s" using 2 i by simp
  also have "\<dots> \<le> scope_work s"
  proof (cases "i = 1")
    case True
    with i have "n \<in> waiting_refs (sc_indegrees s)" by (auto simp: waiting_refs_def)
    moreover from True have "waiting_refs (dict_set n (i - 1) (sc_indegrees s))
        = waiting_refs (sc_indegrees s) - {n}"
      by (auto simp: waiting_refs_def)
    moreover have "0 < card (waiting_refs (sc_indegrees s))"
      using calculation(1) by (auto simp: card_gt_0_iff)
    ultimately show ?thesis
      using True by (simp add: scope_work_def card_Diff_singleton)
  next
    case False
    with i have "waiting_refs (dict_set n (i - 1) (sc_indegrees s)) = waiting_refs (sc_indegrees s)"
      by (auto simp: waiting_refs_def)
    with False show ?thesis by (simp add: scope_work_def)
  qed
  finally show ?case .
qed simp

lemma assign_scope_frame:
  "assign_scope r sc s = Inr s' \<Longrightarrow>
     sc_queue s' = sc_queue s \<and> sc_indegrees s' = sc_indegrees s \<and>
     sc_hierarchy s' = sc_hierarchy s \<and> sc_openers s' = sc_openers s \<and> sc_visited s' = sc_visited s"
  by (auto simp: assign_scope_def split: option.splits if_splits)

lemma enter_scope_frame:
  "enter_scope st r cur s = Inr (n, s') \<Longrightarrow>
     sc_queue s' = sc_queue s \<and> sc_indegrees s' = sc_indegrees s \<and> sc_visited s' = sc_visited s"
  by (auto simp: enter_scope_def rbind_Inr_iff dest!: assign_scope_frame
      split: if_splits option.splits)

lemma scope_step_work:
  assumes "scope_step actions adj r cur (s\<lparr>sc_queue := q\<rparr>) = Inr s'"
    and "sc_queue s = (r, cur) # q"
  shows "scope_work s' < scope_work s"
proof -
  from assms(1) obtain st n u where
    "enter_scope st r cur (s\<lparr>sc_queue := q, sc_visited := Suc (sc_visited s)\<rparr>) = Inr (n, u)"
    and rel: "release n (dict_get_default adj r []) u = Inr s'"
    by (auto simp: scope_step_def rbind_Inr_iff)
  then have "scope_work u < scope_work s"
    using assms(2) by (auto dest!: enter_scope_frame simp: scope_work_def)
  with release_work [OF rel] show ?thesis by simp
qed

function assign_loop ::
  "stmt list \<Rightarrow> (string, string list) dict \<Rightarrow> scope_state \<Rightarrow> dsl_exn + scope_state" where
  "assign_loop actions adj s =
     (case sc_queue s of
        [] \<Rightarrow> Inr s
      | (r, cur) # q \<Rightarrow>
          rbind (scope_step actions adj r cur (s\<lparr>sc_queue := q\<rparr>)) (assign_loop actions adj))"
  by pat_completeness auto
termination
  by (relation "measure (\<lambda>(actions, adj, s). scope_work s)") (auto dest: scope_step_work)

declare assign_loop.simps [simp del]

definition init_indegrees :: "stmt list \<Rightarrow> (string, int) dict" where
  "init_indegrees actions =
     fold (\<lambda>a d. dict_set (ref a) (int (length (depends_on a))) d) actions []"

definition init_scopes :: "stmt list \<Rightarrow> scope_state" where
  "init_scopes actions =
     \<lparr>sc_queue = map (\<lambda>(r, _). (r, ROOT_SCOPE)) (filter (\<lambda>(_, i). i = 0) (init_indegrees actions)),
      sc_indegrees = init_indegrees actions,
      sc_scopes = [], sc_hierarchy = [(ROOT_SCOPE, None)], sc_openers = [], sc_visited = 0\<rparr>"

text \<open>
  \<open>_assign_action_scopes\<close>: the scope of every action, the parent of every scope and the action
  type that opened it.
\<close>

definition assign_action_scopes ::
  "stmt list \<Rightarrow> (string, string list) dict \<Rightarrow>
     dsl_exn + ((string, string) dict \<times> (string, string option) dict \<times> (string, string) dict)" where
  "assign_action_scopes actions adj =
     rbind (assign_loop actions adj (init_scopes actions)) (\<lambda>s.
       if sc_visited s \<noteq> length actions then Inl (Dsl CycleDetected)
       else Inr (sc_scopes s, sc_hierarchy s, sc_openers s))"

section \<open>Dependencies and adjacency\<close>

definition dep_parts :: "string \<Rightarrow> string \<times> edge_type" where
  "dep_parts dep = (case components dep of Inr c \<Rightarrow> c | Inl _ \<Rightarrow> (fst (py_split1 (CHR ''.'') dep), SUCCESS))"

definition dep_src :: "string \<Rightarrow> string" where
  "dep_src dep = fst (dep_parts dep)"

definition dep_type :: "string \<Rightarrow> edge_type" where
  "dep_type dep = snd (dep_parts dep)"

lemma components_Inr: "components dep = Inr (src, t) \<Longrightarrow> dep_src dep = src \<and> dep_type dep = t"
  by (simp add: dep_src_def dep_type_def dep_parts_def)

lemma components_of_dep:
  "CHR ''.'' \<notin> set r \<Longrightarrow> components (dep_from_edge_components r t) = Inr (r, t)"
  by (cases t) (simp_all add: components_def edge_components_from_dep_def dep_from_edge_components_def)

lemma components_plain: "CHR ''.'' \<notin> set r \<Longrightarrow> components r = Inr (r, SUCCESS)"
  by (simp add: components_def edge_components_from_dep_def)

text \<open>Every dependency of every action parses and names an action; references are unique.\<close>

definition wf_deps :: "stmt list \<Rightarrow> bool" where
  "wf_deps actions \<longleftrightarrow> distinct (map ref actions) \<and>
     (\<forall>a \<in> set actions. \<forall>dep \<in> set (depends_on a).
        (\<exists>c. components dep = Inr c) \<and> dep_src dep \<in> ref ` set actions)"

definition succs_with :: "(string \<Rightarrow> edge_type \<Rightarrow> 'a) \<Rightarrow> stmt list \<Rightarrow> string \<Rightarrow> 'a list" where
  "succs_with f actions r =
     concat (map (\<lambda>a. map (\<lambda>dep. f (ref a) (dep_type dep))
       (filter (\<lambda>dep. dep_src dep = r) (depends_on a))) actions)"

lemma fold_result_nested:
  "fold_result (\<lambda>a. fold_result (g a) (xs a)) as s =
     fold_result (\<lambda>(a, x). g a x) (concat (map (\<lambda>a. map (Pair a) (xs a)) as)) s"
proof -
  have "fold_result (\<lambda>a. fold_result (g a) (xs a)) as s =
      fold_result (\<lambda>(a, xs). fold_result (g a) xs) (map (\<lambda>a. (a, xs a)) as) s"
    by (induction as arbitrary: s) (auto intro!: rbind_cong)
  then show ?thesis by (simp add: fold_result_pairs comp_def)
qed

lemma adj_fold_get:
  assumes "fold_result (\<lambda>(a, dep) d. rbind (components dep)
             (\<lambda>(src, t). adj_append src (f (ref a) t) d)) ps d = Inr d'"
  shows "(\<forall>(a, dep) \<in> set ps. (\<exists>c. components dep = Inr c) \<and> dep_src dep \<in> dom (dict_get d)) \<and>
     dict_get d' r = map_option (\<lambda>xs. xs @
       map (\<lambda>(a, dep). f (ref a) (dep_type dep)) (filter (\<lambda>(a, dep). dep_src dep = r) ps)) (dict_get d r)"
  using assms
proof (induction ps arbitrary: d)
  case Nil
  then show ?case by (simp add: option.map_id0 [unfolded id_def])
next
  case (Cons p ps)
  obtain a dep where p: "p = (a, dep)" by (cases p)
  from Cons.prems obtain src t xs where c: "components dep = Inr (src, t)"
    and xs: "dict_get d src = Some xs"
    and rest: "fold_result (\<lambda>(a, dep) d. rbind (components dep)
             (\<lambda>(src, t). adj_append src (f (ref a) t) d)) ps
             (dict_set src (xs @ [f (ref a) t]) d) = Inr d'"
    by (auto simp: p rbind_Inr_iff adj_append_def getitem_Inr)
  from components_Inr [OF c] have src: "dep_src dep = src" "dep_type dep = t" by auto
  from xs have dom: "dom (dict_get (dict_set src (xs @ [f (ref a) t]) d)) = dom (dict_get d)"
    by auto
  from Cons.IH [OF rest, unfolded dom] c xs src show ?case
    by (auto simp: p)
qed

lemma empty_adjacency_get:
  "dict_get (fold (\<lambda>a d. dict_set (ref a) [] d) actions d) r =
     (if r \<in> ref ` set actions then Some [] else dict_get d r)"
  by (induction actions arbitrary: d) auto

lemma adjacency_get:
  assumes "adjacency_with f actions = Inr adj"
  shows "dict_get_default adj r [] = succs_with f actions r"
    and "a \<in> set actions \<Longrightarrow> dep \<in> set (depends_on a) \<Longrightarrow>
      (\<exists>c. components dep = Inr c) \<and> dep_src dep \<in> ref ` set actions"
proof -
  let ?ps = "concat (map (\<lambda>a. map (Pair a) (depends_on a)) actions)"
  from assms have "fold_result (\<lambda>(a, dep) d. rbind (components dep)
      (\<lambda>(src, t). adj_append src (f (ref a) t) d)) ?ps (empty_adjacency actions) = Inr adj"
    by (simp add: adjacency_with_def fold_result_nested)
  note get = adj_fold_get [OF this]
  have dom: "dom (dict_get (empty_adjacency actions)) = ref ` set actions"
    by (auto simp: empty_adjacency_def empty_adjacency_get dom_def)
  have deps: "(\<exists>c. components dep = Inr c) \<and> dep_src dep \<in> ref ` set actions"
    if "a \<in> set actions" "dep \<in> set (depends_on a)" for a dep
    using get that by (fastforce simp: dom)
  then show "a \<in> set actions \<Longrightarrow> dep \<in> set (depends_on a) \<Longrightarrow>
      (\<exists>c. components dep = Inr c) \<and> dep_src dep \<in> ref ` set actions"
    by blast
  have none: "r \<notin> ref ` set actions \<Longrightarrow> succs_with f actions r = []" for r
    using deps by (fastforce simp: succs_with_def filter_empty_conv)
  have flat: "map (\<lambda>(a, dep). f (ref a) (dep_type dep)) (filter (\<lambda>(a, dep). dep_src dep = r) ?ps)
      = succs_with f actions r" for r
    by (simp add: succs_with_def filter_concat map_concat comp_def filter_map case_prod_beta)
  show "dict_get_default adj r [] = succs_with f actions r"
    using get [of r] none [of r]
    by (auto simp: flat dict_get_default_def empty_adjacency_def empty_adjacency_get)
qed

lemma count_list_const: "count_list (map (\<lambda>_. x) xs) y = (if x = y then length xs else 0)"
  by (induction xs) auto

lemma count_succs:
  assumes "distinct (map ref actions)" and "a \<in> set actions"
  shows "count_list (succs_with (\<lambda>r _. r) actions r) (ref a)
     = length (filter (\<lambda>dep. dep_src dep = r) (depends_on a))"
  using assms
proof (induction actions)
  case (Cons b actions)
  have absent: "count_list (succs_with (\<lambda>r _. r) actions r) x = 0" if "x \<notin> ref ` set actions" for x
    using that by (intro count_notin) (auto simp: succs_with_def)
  from Cons absent [of "ref a"] show ?case
    by (cases "a = b") (auto simp: succs_with_def count_list_const dest: Cons.IH)
qed simp

end
