(* ===== verification/Dsl_Toposort.thy ===== *)
theory Dsl_Toposort
  imports Dsl_Graph
begin

text \<open>
  Correctness of the topological walk of \<open>_assign_action_scopes\<close>. The keys of the scope
  dictionary are the visited actions in the order of the visit; the invariant relates the remaining
  indegree of an action to its dependencies that are not yet visited.
\<close>

section \<open>The invariant of the walk\<close>

abbreviation visited :: "scope_state \<Rightarrow> string list" where
  "visited s \<equiv> dict_keys (sc_scopes s)"

definition open_deps :: "string list \<Rightarrow> stmt \<Rightarrow> nat" where
  "open_deps vs a = length (filter (\<lambda>dep. dep_src dep \<notin> set vs) (depends_on a))"

text \<open>A list of references in which every action comes after the sources of its dependencies.\<close>

definition topological :: "stmt list \<Rightarrow> string list \<Rightarrow> bool" where
  "topological actions vs \<longleftrightarrow>
     (\<forall>i < length vs. \<forall>a \<in> set actions. ref a = vs ! i \<longrightarrow>
        dep_src ` set (depends_on a) \<subseteq> set (take i vs))"

definition walk_inv :: "stmt list \<Rightarrow> scope_state \<Rightarrow> bool" where
  "walk_inv actions s \<longleftrightarrow>
     distinct (visited s @ map fst (sc_queue s)) \<and>
     set (visited s) \<union> fst ` set (sc_queue s) \<subseteq> ref ` set actions \<and>
     sc_visited s = length (visited s) \<and>
     (\<forall>a \<in> set actions. dict_get (sc_indegrees s) (ref a) = Some (int (open_deps (visited s) a))) \<and>
     (\<forall>a \<in> set actions. open_deps (visited s) a = 0 \<longrightarrow>
        ref a \<in> set (visited s) \<union> fst ` set (sc_queue s)) \<and>
     (\<forall>a \<in> set actions. ref a \<in> set (visited s) \<union> fst ` set (sc_queue s) \<longrightarrow>
        open_deps (visited s) a = 0) \<and>
     topological actions (visited s)"

lemma open_deps_0: "open_deps vs a = 0 \<longleftrightarrow> dep_src ` set (depends_on a) \<subseteq> set vs"
  by (auto simp: open_deps_def filter_empty_conv)

lemma length_filter_split:
  "r \<notin> V \<Longrightarrow> length (filter (\<lambda>d. f d \<notin> V) ds) =
     length (filter (\<lambda>d. f d \<notin> insert r V) ds) + length (filter (\<lambda>d. f d = r) ds)"
  by (induction ds) auto

lemma open_deps_snoc:
  "r \<notin> set vs \<Longrightarrow>
     open_deps vs a = open_deps (vs @ [r]) a + length (filter (\<lambda>dep. dep_src dep = r) (depends_on a))"
  using length_filter_split [of r "set vs" dep_src "depends_on a"] by (simp add: open_deps_def)

lemma release_frame:
  "release scope ns s = Inr s' \<Longrightarrow>
     sc_scopes s' = sc_scopes s \<and> sc_hierarchy s' = sc_hierarchy s \<and>
     sc_openers s' = sc_openers s \<and> sc_visited s' = sc_visited s"
  by (induction scope ns s rule: release.induct) (auto split: option.splits)

lemma release_indegrees:
  "release scope ns s = Inr s' \<Longrightarrow>
     dict_get (sc_indegrees s') n =
       map_option (\<lambda>i. i - int (count_list ns n)) (dict_get (sc_indegrees s) n)"
proof (induction scope ns s rule: release.induct)
  case (1 scope s)
  then show ?case by (simp add: option.map_id0 [unfolded id_def])
next
  case (2 scope m ns s)
  then show ?case by (auto split: option.splits)
qed

lemma release_queue:
  assumes "release scope ns s = Inr s'"
    and "\<forall>n \<in> set ns. \<exists>i. dict_get (sc_indegrees s) n = Some i \<and> int (count_list ns n) \<le> i"
  shows "\<exists>new. sc_queue s' = sc_queue s @ map (\<lambda>n. (n, scope)) new \<and> distinct new \<and>
     set new = {n \<in> set ns. dict_get (sc_indegrees s) n = Some (int (count_list ns n))}"
  using assms
proof (induction scope ns s rule: release.induct)
  case (1 scope s)
  then show ?case by simp
next
  case (2 scope n ns s)
  then obtain i where i: "dict_get (sc_indegrees s) n = Some i" "int (count_list (n # ns) n) \<le> i"
    by auto
  let ?s = "s\<lparr>sc_indegrees := dict_set n (i - 1) (sc_indegrees s),
               sc_queue := sc_queue s @ (if i - 1 = 0 then [(n, scope)] else [])\<rparr>"
  from 2 i have rel: "release scope ns ?s = Inr s'" by simp
  have "\<forall>m \<in> set ns. \<exists>i. dict_get (sc_indegrees ?s) m = Some i \<and> int (count_list ns m) \<le> i"
    using "2.prems"(2) i by force
  from "2.IH" [OF i(1) rel this] obtain new where
    new: "sc_queue s' = sc_queue ?s @ map (\<lambda>n. (n, scope)) new" "distinct new"
      "set new = {m \<in> set ns. dict_get (sc_indegrees ?s) m = Some (int (count_list ns m))}"
    by blast
  show ?case
  proof (cases "i = 1")
    case True
    with i(2) have "count_list ns n = 0" by simp
    then have "n \<notin> set ns" by (simp add: count_list_0_iff)
    with True i new show ?thesis
      by (intro exI [of _ "n # new"]) (auto simp: \<open>count_list ns n = 0\<close>)
  next
    case False
    have "n \<in> set ns" if "i = 1 + int (count_list ns n)"
      using False that count_notin [of n ns] by (cases "n \<in> set ns") auto
    then have "m \<in> set new \<longleftrightarrow> m \<in> set (n # ns) \<and>
        dict_get (sc_indegrees s) m = Some (int (count_list (n # ns) m))" for m
      using i(1) new(3) by (cases "m = n") auto
    with False new(1,2) show ?thesis
      by (intro exI [of _ new]) (simp add: set_eq_iff)
  qed
qed

lemma assign_scope_new:
  "dict_get (sc_scopes s) r = None \<Longrightarrow>
     assign_scope r sc s = Inr (s\<lparr>sc_scopes := dict_set r sc (sc_scopes s)\<rparr>)"
  by (simp add: assign_scope_def)

lemma update_new: "k \<notin> fst ` set d \<Longrightarrow> dict_set k v d = d @ [(k, v)]"
  by (induction d) auto

lemma enter_scope_visited:
  assumes "enter_scope st r cur s = Inr (n, s')" and "r \<notin> set (visited s)"
  shows "visited s' = visited s @ [r]"
proof -
  from assms(2) have "dict_get (sc_scopes s) r = None"
    by (simp add: dict_get_eq_None_iff)
  with assms show ?thesis
    by (auto simp: enter_scope_def assign_scope_new update_new split: if_splits option.splits)
qed

lemma walk_inv_step:
  assumes inv: "walk_inv actions s" and q: "sc_queue s = (r, cur) # q"
    and step: "scope_step actions adj r cur (s\<lparr>sc_queue := q\<rparr>) = Inr s'"
    and wf: "distinct (map ref actions)"
    and adj: "dict_get_default adj r [] = succs_with (\<lambda>r _. r) actions r"
  shows "walk_inv actions s' \<and> visited s' = visited s @ [r]"
proof -
  let ?ns = "succs_with (\<lambda>r _. r) actions r"
  from step adj obtain st n u where
    ent: "enter_scope st r cur (s\<lparr>sc_queue := q, sc_visited := Suc (sc_visited s)\<rparr>) = Inr (n, u)"
    and rel: "release n ?ns u = Inr s'"
    by (auto simp: scope_step_def rbind_Inr_iff)
  have r: "r \<notin> set (visited s)" "r \<notin> fst ` set q" "r \<in> ref ` set actions"
    using inv q by (auto simp: walk_inv_def)
  have vu: "visited u = visited s @ [r]"
    using enter_scope_visited [OF ent] r by simp
  have fu: "sc_queue u = q" "sc_indegrees u = sc_indegrees s" "sc_visited u = Suc (sc_visited s)"
    using enter_scope_frame [OF ent] by auto
  have vs: "visited s' = visited s @ [r]" "sc_visited s' = Suc (sc_visited s)"
    using release_frame [OF rel] vu fu by auto
  have split: "open_deps (visited s) a = open_deps (visited s') a + count_list ?ns (ref a)"
    if "a \<in> set actions" for a
    using open_deps_snoc [OF r(1)] count_succs [OF wf that] by (simp add: vs)
  have ind: "dict_get (sc_indegrees s) (ref a) = Some (int (open_deps (visited s) a))"
    if "a \<in> set actions" for a
    using inv that by (simp add: walk_inv_def)
  have ns: "m \<in> ref ` set actions" if "m \<in> set ?ns" for m
    using that by (auto simp: succs_with_def)
  have "\<forall>m \<in> set ?ns. \<exists>i. dict_get (sc_indegrees u) m = Some i \<and> int (count_list ?ns m) \<le> i"
    using ns ind split fu by (fastforce simp: image_iff)
  from release_queue [OF rel this] obtain new where
    new: "sc_queue s' = q @ map (\<lambda>m. (m, n)) new" "distinct new"
      "set new = {m \<in> set ?ns. dict_get (sc_indegrees s) m = Some (int (count_list ?ns m))}"
    using fu by auto
  have newrefs: "ref a \<in> set new \<longleftrightarrow> open_deps (visited s') a = 0 \<and> ref a \<in> set ?ns"
    if "a \<in> set actions" for a
    using that ind [OF that] split [OF that] by (auto simp: new(3))
  have ns0: "ref a \<in> set ?ns \<longleftrightarrow> count_list ?ns (ref a) \<noteq> 0" for a
    by (simp add: count_list_0_iff)
  have old: "open_deps (visited s) a = 0 \<longleftrightarrow> ref a \<in> set (visited s) \<union> fst ` set (sc_queue s)"
    if "a \<in> set actions" for a
    using inv that by (auto simp: walk_inv_def)
  have fresh: "set new \<inter> (set (visited s) \<union> fst ` set (sc_queue s)) = {}"
  proof (rule ccontr)
    assume "set new \<inter> (set (visited s) \<union> fst ` set (sc_queue s)) \<noteq> {}"
    then obtain m where m: "m \<in> set new" "m \<in> set (visited s) \<union> fst ` set (sc_queue s)" by blast
    from m(1) new(3) ns obtain a where a: "a \<in> set actions" "m = ref a" by auto
    from m(1) a new(3) have "ref a \<in> set ?ns" by simp
    then have "count_list ?ns (ref a) \<noteq> 0" using ns0 by blast
    moreover have "open_deps (visited s) a = 0" using old a m(2) by simp
    ultimately show False using split [OF a(1)] by simp
  qed
  have "topological actions (visited s')"
    unfolding topological_def
  proof (intro allI impI ballI)
    fix i a assume i: "i < length (visited s')" and a: "a \<in> set actions" "ref a = visited s' ! i"
    show "dep_src ` set (depends_on a) \<subseteq> set (take i (visited s'))"
    proof (cases "i < length (visited s)")
      case True
      with i a vs inv show ?thesis
        by (auto simp: walk_inv_def topological_def nth_append)
    next
      case False
      with i vs have "i = length (visited s)" by simp
      with a vs have "ref a = r" by (simp add: nth_append)
      with old [OF a(1)] q have "open_deps (visited s) a = 0" by simp
      with \<open>i = length (visited s)\<close> vs show ?thesis by (simp add: open_deps_0)
    qed
  qed
  moreover have "distinct (visited s' @ map fst (sc_queue s'))"
    using inv q r new(1,2) fresh by (auto simp: vs walk_inv_def comp_def)
  moreover have "set (visited s') \<union> fst ` set (sc_queue s') \<subseteq> ref ` set actions"
    using inv q r new(1,3) ns by (auto simp: vs walk_inv_def image_image)
  moreover have "dict_get (sc_indegrees s') (ref a) = Some (int (open_deps (visited s') a))"
    if "a \<in> set actions" for a
    using release_indegrees [OF rel, of "ref a"] ind [OF that] split [OF that] by (simp add: fu)
  moreover have "open_deps (visited s') a = 0 \<longleftrightarrow>
      ref a \<in> set (visited s') \<union> fst ` set (sc_queue s')" if a: "a \<in> set actions" for a
  proof -
    have "ref a \<in> set (visited s') \<union> fst ` set (sc_queue s') \<longleftrightarrow>
        open_deps (visited s) a = 0 \<or> ref a \<in> set new"
      using old [OF a] q new(1) by (auto simp: vs image_image image_Un)
    also have "\<dots> \<longleftrightarrow> open_deps (visited s') a = 0"
      using newrefs [OF a] split [OF a] by (auto simp: ns0)
    finally show ?thesis by simp
  qed
  moreover have "sc_visited s' = length (visited s')"
    using inv vs by (simp add: walk_inv_def)
  ultimately show ?thesis using vs by (simp add: walk_inv_def)
qed

section \<open>The result of the walk\<close>

lemma fold_dict_set_distinct:
  "distinct (map k xs) \<Longrightarrow> set (map k xs) \<inter> fst ` set d = {} \<Longrightarrow>
     fold (\<lambda>x d. dict_set (k x) (v x) d) xs d = d @ map (\<lambda>x. (k x, v x)) xs"
  by (induction xs arbitrary: d) (auto simp: update_new)

lemma init_indegrees_distinct:
  "distinct (map ref actions) \<Longrightarrow>
     init_indegrees actions = map (\<lambda>a. (ref a, int (length (depends_on a)))) actions"
  unfolding init_indegrees_def by (subst fold_dict_set_distinct) auto

lemma walk_inv_init: "distinct (map ref actions) \<Longrightarrow> walk_inv actions (init_scopes actions)"
proof -
  assume d: "distinct (map ref actions)"
  let ?q = "map (\<lambda>(r, _). (r, ROOT_SCOPE)) (filter (\<lambda>(_, i). i = 0) (init_indegrees actions))"
  have q: "map fst ?q = map ref (filter (\<lambda>a. depends_on a = []) actions)"
    by (simp add: init_indegrees_distinct [OF d] filter_map comp_def case_prod_beta)
  have "distinct (map fst ?q)"
    unfolding q using d by (simp add: distinct_map inj_on_def)
  moreover have "dict_get (init_indegrees actions) (ref a) = Some (int (length (depends_on a)))"
    if "a \<in> set actions" for a
    using d that by (simp add: init_indegrees_distinct map_of_eq_Some_iff comp_def)
  moreover have "fst ` set ?q = ref ` {a \<in> set actions. depends_on a = []}"
  proof -
    have "fst ` set ?q = set (map fst ?q)" by (simp only: set_map)
    also have "\<dots> = ref ` {a \<in> set actions. depends_on a = []}" unfolding q by simp
    finally show ?thesis .
  qed
  moreover have "ref a \<in> ref ` {a \<in> set actions. depends_on a = []} \<longleftrightarrow> depends_on a = []"
    if "a \<in> set actions" for a
    using d that by (auto simp: distinct_map inj_on_def)
  ultimately show ?thesis
    by (auto simp: walk_inv_def init_scopes_def open_deps_def topological_def)
qed

lemma walk_inv_loop:
  assumes "assign_loop actions adj s = Inr s'" and "walk_inv actions s"
    and "distinct (map ref actions)"
    and "\<And>r. dict_get_default adj r [] = succs_with (\<lambda>r _. r) actions r"
  shows "walk_inv actions s' \<and> sc_queue s' = []"
  using assms
proof (induction actions adj s rule: assign_loop.induct)
  case (1 actions adj s)
  show ?case
  proof (cases "sc_queue s")
    case Nil
    with 1 show ?thesis by (simp add: assign_loop.simps [of actions adj s])
  next
    case (Cons rc q)
    obtain r cur where rc: "rc = (r, cur)" by (cases rc)
    from "1.prems"(1) Cons rc obtain u where
      u: "scope_step actions adj r cur (s\<lparr>sc_queue := q\<rparr>) = Inr u" "assign_loop actions adj u = Inr s'"
      by (auto simp: assign_loop.simps [of actions adj s] rbind_Inr_iff)
    have "walk_inv actions u"
      using walk_inv_step [OF "1.prems"(2) Cons [unfolded rc] u(1) "1.prems"(3,4)] by simp
    with "1.IH" [OF Cons rc [symmetric] u(1)] u(2) "1.prems"(3,4) show ?thesis by auto
  qed
qed

text \<open>
  The adjacency the scheduler passes in is the one of \<open>_to_adjacency\<close>, so its successor lists are
  those of the dependency graph.
\<close>

lemma to_adjacency_succs:
  "to_adjacency actions = Inr adj \<Longrightarrow> dict_get_default adj r [] = succs_with (\<lambda>r _. r) actions r"
  unfolding to_adjacency_def by (rule adjacency_get)

lemma assign_action_scopes_topological:
  assumes "to_adjacency actions = Inr adj" and "distinct (map ref actions)"
    and "assign_action_scopes actions adj = Inr (scopes, hier, openers)"
  shows "distinct (dict_keys scopes)" and "set (dict_keys scopes) = ref ` set actions"
    and "topological actions (dict_keys scopes)"
proof -
  from assms(3) obtain s where s: "assign_loop actions adj (init_scopes actions) = Inr s"
    and n: "sc_visited s = length actions" and sc: "scopes = sc_scopes s"
    by (auto simp: assign_action_scopes_def rbind_Inr_iff split: if_splits)
  have inv: "walk_inv actions s"
    using walk_inv_loop [OF s walk_inv_init [OF assms(2)] assms(2) to_adjacency_succs [OF assms(1)]]
    by simp
  then show dist: "distinct (dict_keys scopes)" and "topological actions (dict_keys scopes)"
    by (auto simp: walk_inv_def sc)
  have sub: "set (visited s) \<subseteq> ref ` set actions" using inv by (auto simp: walk_inv_def)
  have "card (set (visited s)) = card (ref ` set actions)"
    using inv n assms(2) by (simp add: walk_inv_def distinct_card distinct_map card_image)
  with card_subset_eq [OF _ sub] show "set (dict_keys scopes) = ref ` set actions"
    by (simp add: sc)
qed

lemma topological_covers:
  assumes top: "topological actions vs" and cov: "set vs = ref ` set actions"
    and closed: "\<And>a. a \<in> set actions \<Longrightarrow> dep_src ` set (depends_on a) \<subseteq> V \<Longrightarrow> ref a \<in> V"
  shows "ref ` set actions \<subseteq> V"
proof -
  have "vs ! i \<in> V" if "i < length vs" for i
    using that
  proof (induction i rule: less_induct)
    case (less i)
    then obtain a where a: "a \<in> set actions" "ref a = vs ! i"
      using cov by (metis (no_types, lifting) imageE nth_mem)
    have "set (take i vs) \<subseteq> V"
      using less by (auto simp: in_set_conv_nth)
    with top a less.prems have "dep_src ` set (depends_on a) \<subseteq> V"
      unfolding topological_def by blast
    with closed a show ?case by metis
  qed
  with cov show ?thesis by (metis in_set_conv_nth subsetI)
qed

text \<open>The walk itself does not look for cycles.\<close>

lemma assign_loop_not_cycle: "assign_loop actions adj s \<noteq> Inl (Dsl CycleDetected)"
proof (induction actions adj s rule: assign_loop.induct)
  case (1 actions adj s)
  have rel: "release n ns t \<noteq> Inl (Dsl CycleDetected)" for n ns t
    by (induction n ns t rule: release.induct) (auto split: option.splits)
  have "scope_step actions adj r cur t \<noteq> Inl (Dsl CycleDetected)" for r cur t
    using rel by (auto simp: scope_step_def enter_scope_def assign_scope_def getitem_def rbind_def
        split: option.splits sum.splits if_splits)
  with 1 show ?case
    by (subst assign_loop.simps) (auto simp: rbind_def split: list.splits sum.splits)
qed

lemma cycle_detected_no_order:
  assumes "to_adjacency actions = Inr adj" and "distinct (map ref actions)"
    and "assign_action_scopes actions adj = Inl (Dsl CycleDetected)"
    and "assign_loop actions adj (init_scopes actions) = Inr s"
  shows "\<not> (topological actions vs \<and> set vs = ref ` set actions)"
proof
  assume vs: "topological actions vs \<and> set vs = ref ` set actions"
  have inv: "walk_inv actions s" and q: "sc_queue s = []"
    using walk_inv_loop [OF assms(4) walk_inv_init [OF assms(2)] assms(2)
        to_adjacency_succs [OF assms(1)]]
    by auto
  have "ref ` set actions \<subseteq> set (visited s)"
    by (rule topological_covers [OF conjunct1 [OF vs] conjunct2 [OF vs]])
      (use inv q in \<open>auto simp: walk_inv_def open_deps_0\<close>)
  moreover have "set (visited s) \<subseteq> ref ` set actions" using inv by (auto simp: walk_inv_def)
  ultimately have "card (set (visited s)) = card (ref ` set actions)" by (metis subset_antisym)
  then have "sc_visited s = length actions"
    using inv assms(2) by (simp add: walk_inv_def distinct_card distinct_map card_image)
  with assms(3,4) show False by (simp add: assign_action_scopes_def)
qed

section \<open>Scopes form a tree\<close>

text \<open>Every scope but the first has a parent that is listed before it.\<close>

definition scope_tree :: "(string, string option) dict \<Rightarrow> bool" where
  "scope_tree h \<longleftrightarrow> distinct (dict_keys h) \<and>
     (\<forall>i < length h. \<forall>p. snd (h ! i) = Some p \<longrightarrow> p \<in> set (dict_keys (take i h)))"

definition scopes_inv :: "scope_state \<Rightarrow> bool" where
  "scopes_inv s \<longleftrightarrow> scope_tree (sc_hierarchy s) \<and>
     set (dict_keys (sc_hierarchy s)) \<subseteq> insert ROOT_SCOPE (set (visited s)) \<and>
     snd ` set (sc_scopes s) \<subseteq> set (dict_keys (sc_hierarchy s)) \<and>
     snd ` set (sc_queue s) \<subseteq> set (dict_keys (sc_hierarchy s))"

lemma scope_tree_snoc:
  "scope_tree h \<Longrightarrow> k \<notin> set (dict_keys h) \<Longrightarrow> p \<in> set (dict_keys h) \<Longrightarrow>
     scope_tree (h @ [(k, Some p)])"
  by (auto simp: scope_tree_def nth_append less_Suc_eq)

lemma scope_tree_parent:
  assumes "scope_tree h" and "dict_get h k = Some (Some p)"
  shows "p \<in> set (dict_keys h)"
proof -
  from assms(2) have "(k, Some p) \<in> set h" by (rule map_of_SomeD)
  then obtain i where "i < length h" "h ! i = (k, Some p)" by (auto simp: in_set_conv_nth)
  with assms(1) have "p \<in> set (dict_keys (take i h))" by (fastforce simp: scope_tree_def)
  then show ?thesis by (auto dest: in_set_takeD)
qed

lemma release_scopes_queue:
  "release scope ns s = Inr s' \<Longrightarrow> snd ` set (sc_queue s') \<subseteq> insert scope (snd ` set (sc_queue s))"
proof (induction scope ns s rule: release.induct)
  case (2 scope n ns s)
  then obtain i where i: "dict_get (sc_indegrees s) n = Some i" by (auto split: option.splits)
  with 2 have "snd ` set (sc_queue s') \<subseteq> insert scope (snd ` set
      (sc_queue s @ (if i - 1 = 0 then [(n, scope)] else [])))"
    by simp
  then show ?case by (auto split: if_splits)
qed auto

lemma scopes_inv_assign:
  "scopes_inv s \<Longrightarrow> n \<in> set (dict_keys (sc_hierarchy s)) \<Longrightarrow>
     scopes_inv (s\<lparr>sc_scopes := sc_scopes s @ [(r, n)]\<rparr>)"
  by (simp add: scopes_inv_def) blast

lemma enter_scope_scopes:
  assumes ent: "enter_scope st r cur s = Inr (n, s')" and inv: "scopes_inv s"
    and r: "r \<notin> set (visited s)" "r \<noteq> ROOT_SCOPE" and cur: "cur \<in> set (dict_keys (sc_hierarchy s))"
  shows "scopes_inv s' \<and> n \<in> set (dict_keys (sc_hierarchy s'))"
proof -
  have none: "dict_get (sc_scopes s) r = None" using r by (simp add: dict_get_eq_None_iff)
  note assign_scope_new [OF none, simp]
  have snoc: "dict_set r x (sc_scopes s) = sc_scopes s @ [(r, x)]" for x
    using r by (simp add: update_new)
  have rk: "r \<notin> set (dict_keys (sc_hierarchy s))"
    using inv r by (auto simp: scopes_inv_def)
  show ?thesis
  proof (cases "is_scope_opener (action st)")
    case True
    with ent rk have s': "n = r" "sc_scopes s' = sc_scopes s @ [(r, r)]"
      "sc_hierarchy s' = sc_hierarchy s @ [(r, Some cur)]" "sc_queue s' = sc_queue s"
      by (auto simp: enter_scope_def update_new snoc)
    with inv cur rk show ?thesis
      by (simp add: scopes_inv_def scope_tree_snoc subset_insertI2) blast
  next
    case False
    then consider "is_scope_closer (action st)" | "\<not> is_scope_closer (action st)" by blast
    then show ?thesis
    proof cases
      case 1
      with False ent obtain par where par: "dict_get_default (sc_hierarchy s) cur None = Some par"
        "n = par" "s' = s\<lparr>sc_scopes := dict_set r par (sc_scopes s)\<rparr>"
        by (auto simp: enter_scope_def split: option.splits if_splits)
      then have "dict_get (sc_hierarchy s) cur = Some (Some par)"
        by (auto simp: dict_get_default_def split: option.splits)
      with scope_tree_parent inv have "par \<in> set (dict_keys (sc_hierarchy s))"
        by (auto simp: scopes_inv_def)
      with par inv snoc scopes_inv_assign show ?thesis by simp
    next
      case 2
      with False ent snoc have "n = cur" "s' = s\<lparr>sc_scopes := sc_scopes s @ [(r, cur)]\<rparr>"
        by (auto simp: enter_scope_def)
      with inv cur scopes_inv_assign show ?thesis by simp
    qed
  qed
qed

lemma scopes_inv_loop:
  assumes "assign_loop actions adj s = Inr s'" and "walk_inv actions s" and "scopes_inv s"
    and "distinct (map ref actions)" and "ROOT_SCOPE \<notin> ref ` set actions"
    and "\<And>r. dict_get_default adj r [] = succs_with (\<lambda>r _. r) actions r"
  shows "scopes_inv s'"
  using assms
proof (induction actions adj s rule: assign_loop.induct)
  case (1 actions adj s)
  show ?case
  proof (cases "sc_queue s")
    case Nil
    with 1 show ?thesis by (simp add: assign_loop.simps [of actions adj s])
  next
    case (Cons rc q)
    obtain r cur where rc: "rc = (r, cur)" by (cases rc)
    from "1.prems"(1) Cons rc obtain u where
      u: "scope_step actions adj r cur (s\<lparr>sc_queue := q\<rparr>) = Inr u" "assign_loop actions adj u = Inr s'"
      by (auto simp: assign_loop.simps [of actions adj s] rbind_Inr_iff)
    have wu: "walk_inv actions u"
      using walk_inv_step [OF "1.prems"(2) Cons [unfolded rc] u(1) "1.prems"(4,6)] by simp
    have r: "r \<notin> set (visited s)" "r \<in> ref ` set actions"
      using "1.prems"(2) Cons rc by (auto simp: walk_inv_def)
    then have r: "r \<notin> set (visited s)" "r \<noteq> ROOT_SCOPE"
      using "1.prems"(5) by metis+
    let ?s = "s\<lparr>sc_queue := q, sc_visited := Suc (sc_visited s)\<rparr>"
    from u(1) obtain st n w where ent: "enter_scope st r cur ?s = Inr (n, w)"
      and rel: "release n (dict_get_default adj r []) w = Inr u"
      by (auto simp: scope_step_def rbind_Inr_iff)
    have "scopes_inv w \<and> n \<in> set (dict_keys (sc_hierarchy w))"
      by (rule enter_scope_scopes [OF ent])
        (use "1.prems"(3) Cons rc r in \<open>auto simp: scopes_inv_def\<close>)
    then have "scopes_inv u"
      using release_frame [OF rel] release_scopes_queue [OF rel]
      by (simp add: scopes_inv_def) blast
    with "1.IH" [OF Cons rc [symmetric] u(1)] u(2) wu "1.prems"(4,5,6) show ?thesis by auto
  qed
qed

lemma scopes_inv_init: "scopes_inv (init_scopes actions)"
  by (auto simp: scopes_inv_def init_scopes_def scope_tree_def case_prod_beta)

lemma assign_action_scopes_tree:
  assumes "to_adjacency actions = Inr adj" and "distinct (map ref actions)"
    and "ROOT_SCOPE \<notin> ref ` set actions"
    and "assign_action_scopes actions adj = Inr (scopes, hier, openers)"
  shows "scope_tree hier \<and> snd ` set scopes \<subseteq> set (dict_keys hier)"
proof -
  from assms(4) obtain s where s: "assign_loop actions adj (init_scopes actions) = Inr s"
    and "scopes = sc_scopes s" "hier = sc_hierarchy s"
    by (auto simp: assign_action_scopes_def rbind_Inr_iff split: if_splits)
  moreover have "scopes_inv s"
    using scopes_inv_loop [OF s walk_inv_init [OF assms(2)] scopes_inv_init assms(2,3)
        to_adjacency_succs [OF assms(1)]] .
  ultimately show ?thesis by (simp add: scopes_inv_def)
qed

section \<open>The multiple-scope check cannot fail\<close>

lemma scope_step_not_multiple:
  assumes "r \<notin> set (visited s)"
  shows "scope_step actions adj r cur s \<noteq> Inl (Dsl (MultipleScopes x))"
proof -
  have none: "dict_get (sc_scopes s) r = None" using assms by (simp add: dict_get_eq_None_iff)
  have rel: "release n ns t \<noteq> Inl (Dsl (MultipleScopes x))" for n ns t
    by (induction n ns t rule: release.induct) (auto split: option.splits)
  show ?thesis
    using rel
    by (auto simp: scope_step_def enter_scope_def assign_scope_new none getitem_def rbind_def
        split: option.splits sum.splits if_splits)
qed

lemma assign_loop_not_multiple:
  assumes "walk_inv actions s" and "distinct (map ref actions)"
    and "\<And>r. dict_get_default adj r [] = succs_with (\<lambda>r _. r) actions r"
  shows "assign_loop actions adj s \<noteq> Inl (Dsl (MultipleScopes x))"
  using assms
proof (induction actions adj s rule: assign_loop.induct)
  case (1 actions adj s)
  show ?case
  proof (cases "sc_queue s")
    case Nil
    then show ?thesis by (simp add: assign_loop.simps [of actions adj s])
  next
    case (Cons rc q)
    obtain r cur where rc: "rc = (r, cur)" by (cases rc)
    have r: "r \<notin> set (visited s)" using "1.prems"(1) Cons rc by (auto simp: walk_inv_def)
    then have nm: "scope_step actions adj r cur (s\<lparr>sc_queue := q\<rparr>) \<noteq> Inl (Dsl (MultipleScopes x))"
      by (intro scope_step_not_multiple) simp
    show ?thesis
    proof (cases "scope_step actions adj r cur (s\<lparr>sc_queue := q\<rparr>)")
      case (Inl e)
      with nm Cons rc show ?thesis by (simp add: assign_loop.simps [of actions adj s])
    next
      case (Inr u)
      with walk_inv_step [OF "1.prems"(1) Cons [unfolded rc] Inr "1.prems"(2,3)]
      have "walk_inv actions u" by simp
      with "1.IH" [OF Cons rc [symmetric] Inr] "1.prems"(2,3) Inr Cons rc show ?thesis
        by (simp add: assign_loop.simps [of actions adj s])
    qed
  qed
qed

end
