(* ===== verification/Sched_State.thy ===== *)
theory Sched_State
  imports Dsl_Validate
begin

text \<open>
  The state of the scheduler (\<open>DSLScheduler\<close> in \<open>dsl/scheduler.py\<close>), its constructor, and the
  operations on edges and indegrees that every handler uses. The attributes that are fixed by the
  constructor are the record \<open>cfg\<close>, the mutable ones are the record \<open>st\<close>.
\<close>

section \<open>Methods\<close>

text \<open>
  A method maps the state to its result and the new state. The assignments made before an exception
  stay in force, so the state comes back in both cases.
\<close>

record st =
  queue :: "task list"
  indegrees :: "(task_key, int) dict"
  completed_tasks :: "task_key set"
  edges :: "(edge, edge_marker) dict"
  task_exceptions :: "(string, exn \<times> error_info) dict"
  stream_exceptions :: "(stream, exn \<times> error_info) dict"
  loop_indices :: "(string \<times> stream, int) dict"
  loop_start_skips :: "(string \<times> stream) set"
  streams :: "(stream, exec_ctx) dict"
  stream_hierarchy :: "(stream, stream option) dict"
  task_streams :: "(task_key, stream list) dict"
  open_streams :: "(task_key, int) dict"

type_synonym 'a m = "st \<Rightarrow> (exn + 'a) \<times> st"

definition ret :: "'a \<Rightarrow> 'a m" where
  "ret a = (\<lambda>s. (Inr a, s))"

definition throw :: "exn \<Rightarrow> 'a m" where
  "throw e = (\<lambda>s. (Inl e, s))"

definition bind :: "'a m \<Rightarrow> ('a \<Rightarrow> 'b m) \<Rightarrow> 'b m" where
  "bind m f = (\<lambda>s. case m s of (Inl e, s') \<Rightarrow> (Inl e, s') | (Inr a, s') \<Rightarrow> f a s')"

definition get_state :: "st m" where
  "get_state = (\<lambda>s. (Inr s, s))"

definition modify :: "(st \<Rightarrow> st) \<Rightarrow> unit m" where
  "modify f = (\<lambda>s. (Inr (), f s))"

text \<open>A subscript \<open>d[k]\<close> of a dictionary attribute, and a pure computation that may raise.\<close>

definition item :: "(st \<Rightarrow> ('k, 'v) dict) \<Rightarrow> 'k \<Rightarrow> 'v m" where
  "item f k = (\<lambda>s. case dict_get (f s) k of None \<Rightarrow> (Inl (PyError KeyError), s)
                                          | Some v \<Rightarrow> (Inr v, s))"

definition lift :: "py_error + 'a \<Rightarrow> 'a m" where
  "lift r = (case r of Inl e \<Rightarrow> throw (PyError e) | Inr a \<Rightarrow> ret a)"

fun for_all :: "('a \<Rightarrow> unit m) \<Rightarrow> 'a list \<Rightarrow> unit m" where
  "for_all f [] = ret ()"
| "for_all f (x # xs) = bind (f x) (\<lambda>_. for_all f xs)"

lemmas method_defs = ret_def throw_def bind_def get_state_def modify_def item_def lift_def

text \<open>
  \<open>ensures I m Q\<close>: the method keeps the invariant \<open>I\<close>, whether it returns or raises, and a value
  it returns satisfies \<open>Q\<close>. With the trivial \<open>Q\<close> it only keeps the invariant.
\<close>

definition ensures :: "(st \<Rightarrow> bool) \<Rightarrow> 'a m \<Rightarrow> ('a \<Rightarrow> bool) \<Rightarrow> bool" where
  "ensures I m Q = (\<forall>s. I s \<longrightarrow> I (snd (m s)) \<and> (\<forall>a. fst (m s) = Inr a \<longrightarrow> Q a))"

abbreviation keeps :: "(st \<Rightarrow> bool) \<Rightarrow> 'a m \<Rightarrow> bool" where
  "keeps I m \<equiv> ensures I m (\<lambda>_. True)"

lemma ensuresI:
  "(\<And>s. I s \<Longrightarrow> I (snd (m s))) \<Longrightarrow> (\<And>s a. I s \<Longrightarrow> fst (m s) = Inr a \<Longrightarrow> Q a) \<Longrightarrow> ensures I m Q"
  by (simp add: ensures_def)

lemma ensuresD:
  assumes "ensures I m Q" and "I s"
  shows "I (snd (m s))" and "fst (m s) = Inr a \<Longrightarrow> Q a"
  using assms by (auto simp: ensures_def)

lemma ensures_weaken: "ensures I m P \<Longrightarrow> (\<And>a. P a \<Longrightarrow> Q a) \<Longrightarrow> ensures I m Q"
  by (auto simp: ensures_def)

lemma ensures_basic [simp]:
  "Q a \<Longrightarrow> ensures I (ret a) Q" "ensures I (throw e) Q"
  by (auto simp: ensures_def method_defs)

lemma keeps_basic [simp]:
  "keeps I get_state" "keeps I (item f k)" "keeps I (lift r)"
  by (auto simp: ensures_def method_defs split: option.splits sum.splits)

lemma ensures_bind:
  "ensures I m P \<Longrightarrow> (\<And>a. P a \<Longrightarrow> ensures I (f a) Q) \<Longrightarrow> ensures I (bind m f) Q"
  by (fastforce simp: ensures_def bind_def split: prod.splits sum.splits)

lemma ensures_seq: "keeps I m \<Longrightarrow> (\<And>a. ensures I (f a) Q) \<Longrightarrow> ensures I (bind m f) Q"
  by (rule ensures_bind)

text \<open>Reading the state hands the rest of the method a state that satisfies the invariant.\<close>

lemma ensures_get_state: "(\<And>s. I s \<Longrightarrow> ensures I (f s) Q) \<Longrightarrow> ensures I (bind get_state f) Q"
  by (auto simp: ensures_def bind_def get_state_def)

lemma ensures_item:
  "(\<And>s x. I s \<Longrightarrow> dict_get (g s) k = Some x \<Longrightarrow> ensures I (f x) Q) \<Longrightarrow> ensures I (bind (item g k) f) Q"
  by (fastforce simp: ensures_def bind_def item_def split: option.splits)

lemma ensures_lift: "(\<And>x. r = Inr x \<Longrightarrow> ensures I (f x) Q) \<Longrightarrow> ensures I (bind (lift r) f) Q"
  by (cases r) (auto simp: ensures_def method_defs)

lemma keeps_modify [simp]: "keeps I (modify f) \<longleftrightarrow> (\<forall>s. I s \<longrightarrow> I (f s))"
  by (simp add: ensures_def modify_def)

lemma keeps_for_all: "(\<And>x. x \<in> set xs \<Longrightarrow> keeps I (f x)) \<Longrightarrow> keeps I (for_all f xs)"
  by (induction xs) (auto intro: ensures_seq)

lemma ensures_if:
  "(b \<Longrightarrow> ensures I m Q) \<Longrightarrow> (\<not> b \<Longrightarrow> ensures I n Q) \<Longrightarrow> ensures I (if b then m else n) Q"
  by simp

lemma bind_simps [simp]:
  "bind (ret a) f = f a" "bind (throw e) f = throw e" "bind (lift (Inl x)) f = throw (PyError x)"
  "lift (Inr a) = ret a"
  by (auto simp: method_defs)

lemma method_app [simp]:
  "ret a s = (Inr a, s)" "throw e s = (Inl e, s)" "get_state s = (Inr s, s)"
  "modify f s = (Inr (), f s)"
  "bind get_state k s = k s s" "bind (modify g) h s = h () (g s)"
  by (simp_all add: method_defs)

lemma item_app: "item f k s = (case dict_get (f s) k of None \<Rightarrow> (Inl (PyError KeyError), s)
    | Some v \<Rightarrow> (Inr v, s))"
  by (simp add: item_def)

lemma bind_item_app [simp]:
  "dict_get (f s) k = Some v \<Longrightarrow> bind (item f k) g s = g v s"
  "dict_get (f s) k = None \<Longrightarrow> bind (item f k) g s = (Inl (PyError KeyError), s)"
  by (simp_all add: bind_def item_def)

lemma bind_assoc: "bind (bind m f) g = bind m (\<lambda>x. bind (f x) g)"
  by (rule ext) (auto simp: bind_def split: prod.splits sum.splits)

section \<open>Configuration\<close>

record region =
  start_ref :: string
  end_ref :: string
  scope_ref :: string
  members :: "string list"

record cfg =
  cfg_tasks :: "(string, stmt) dict"
  cfg_adj :: "(string, (string \<times> edge_type) list) dict"
  cfg_scopes :: "(string, string) dict"
  cfg_hierarchy :: "(string, string option) dict"
  cfg_regions :: "(string, region) dict"
  cfg_regions_by_end :: "(string, region) dict"
  cfg_max_pending :: nat
  cfg_root_context :: exec_ctx
  cfg_workspace_id :: "string option"
  cfg_wf_exec_id :: string

definition adj_sort_key :: "string \<times> edge_type \<Rightarrow> string \<times> string" where
  "adj_sort_key = (\<lambda>(dst, t). (dst, edge_type_value t))"

text \<open>The sets of outgoing edges, and their sorted tuples; iterating over a set needs the sorting.\<close>

definition adj_temp :: "stmt list \<Rightarrow> dsl_exn + (string, (string \<times> edge_type) list) dict" where
  "adj_temp actions =
     fold_result (\<lambda>a. fold_result (\<lambda>dep d.
         rbind (components dep) (\<lambda>(src, t).
           Inr (dict_set src (set_add (ref a, t) (dict_get_default d src [])) d))) (depends_on a))
       actions []"

definition sorted_adj ::
  "stmt list \<Rightarrow> (string, (string \<times> edge_type) list) dict \<Rightarrow> (string, (string \<times> edge_type) list) dict" where
  "sorted_adj actions d =
     map (\<lambda>r. (r, sort_key adj_sort_key (dict_get_default d r []))) (remdups (map ref actions))"

definition task_table :: "stmt list \<Rightarrow> (string, stmt) dict" where
  "task_table actions = fold (\<lambda>a d. dict_set (ref a) a d) actions []"

definition root_indegrees :: "stmt list \<Rightarrow> (task_key, int) dict" where
  "root_indegrees actions =
     fold (\<lambda>a d. dict_set (ref a, ROOT_STREAM) (int (length (depends_on a))) d) actions []"

text \<open>\<open>_build_loop_regions\<close>: one region for each loop end, keyed by the loop start.\<close>

definition region_members ::
  "(string, string) dict \<Rightarrow> hierarchy \<Rightarrow> string \<Rightarrow> dsl_exn + string list" where
  "region_members scopes h loop_scope =
     rbind (map_result (\<lambda>(r, scope).
         rbind (is_same_or_descendant_scope scope loop_scope h) (\<lambda>b. Inr (r, b))) scopes)
       (\<lambda>bs. Inr (map fst (filter snd bs)))"

definition build_region ::
  "(string, stmt) dict \<Rightarrow> (string, string) dict \<Rightarrow> hierarchy \<Rightarrow> stmt \<Rightarrow> (string, region) dict
     \<Rightarrow> dsl_exn + (string, region) dict" where
  "build_region tasks scopes h a regions =
     (if action a \<noteq> LOOP_END then Inr regions
      else if depends_on a = [] then Inl (Raised RuntimeError)
      else
        rbind (map_result (scope_of_dep scopes) (depends_on a)) (\<lambda>dep_scopes.
          case the_single dep_scopes of
            None \<Rightarrow> Inl (Raised RuntimeError)
          | Some loop_scope \<Rightarrow>
              (case dict_get tasks loop_scope of
                 None \<Rightarrow> Inl (Raised RuntimeError)
               | Some start \<Rightarrow>
                   if action start \<noteq> LOOP_START then Inl (Raised RuntimeError)
                   else if dict_get regions loop_scope \<noteq> None then Inl (Raised RuntimeError)
                   else
                     rbind (region_members scopes h loop_scope) (\<lambda>ms.
                       Inr (dict_set loop_scope
                         \<lparr>start_ref = loop_scope, end_ref = ref a, scope_ref = loop_scope,
                          members = set_add (ref a) ms\<rparr> regions)))))"

definition build_loop_regions ::
  "stmt list \<Rightarrow> (string, stmt) dict \<Rightarrow> (string, string) dict \<Rightarrow> hierarchy
     \<Rightarrow> dsl_exn + (string, region) dict" where
  "build_loop_regions actions tasks scopes h =
     fold_result (build_region tasks scopes h) actions []"

definition init_state :: "stmt list \<Rightarrow> exec_ctx \<Rightarrow> st" where
  "init_state actions ctx =
     \<lparr>queue = [], indegrees = root_indegrees actions, completed_tasks = {}, edges = [],
      task_exceptions = [], stream_exceptions = [], loop_indices = [], loop_start_skips = {},
      streams = [(ROOT_STREAM, ctx)], stream_hierarchy = [(ROOT_STREAM, None)],
      task_streams = [], open_streams = []\<rparr>"

text \<open>\<open>DSLScheduler.__init__\<close>.\<close>

definition scheduler_init ::
  "stmt list \<Rightarrow> int \<Rightarrow> exec_ctx \<Rightarrow> string option \<Rightarrow> string \<Rightarrow> dsl_exn + (cfg \<times> st)" where
  "scheduler_init actions max_pending ctx ws exec_id =
     (if max_pending < 1 then Inl (Raised ValueError)
      else
        rbind (adj_temp actions) (\<lambda>adj.
        rbind (to_adjacency actions) (\<lambda>control_adj.
        rbind (assign_action_scopes actions control_adj) (\<lambda>(scopes, h, _).
        rbind (build_loop_regions actions (task_table actions) scopes h) (\<lambda>regions.
          Inr (\<lparr>cfg_tasks = task_table actions, cfg_adj = sorted_adj actions adj,
                cfg_scopes = scopes, cfg_hierarchy = h, cfg_regions = regions,
                cfg_regions_by_end = fold (\<lambda>(_, g) d. dict_set (end_ref g) g d) regions [],
                cfg_max_pending = nat max_pending, cfg_root_context = ctx,
                cfg_workspace_id = ws, cfg_wf_exec_id = exec_id\<rparr>,
               init_state actions ctx))))))"

section \<open>Edges and indegrees\<close>

definition lookup :: "('k, 'v) dict \<Rightarrow> 'k \<Rightarrow> 'v m" where
  "lookup d k = (case dict_get d k of None \<Rightarrow> throw (PyError KeyError) | Some v \<Rightarrow> ret v)"

lemma keeps_lookup [simp]: "keeps I (lookup d k)"
  by (auto simp: lookup_def split: option.splits)

text \<open>
  Reading a missing edge of the \<open>defaultdict\<close> gives PENDING. It also inserts that value, which no
  later read can tell apart from the missing entry.
\<close>

definition get_edge_by_refs :: "string \<Rightarrow> string \<Rightarrow> stream \<Rightarrow> py_error + edge" where
  "get_edge_by_refs dep dst sid =
     rbind (edge_components_from_dep dep) (\<lambda>(src, t).
       Inr \<lparr>edge_src = src, edge_dst = dst, edge_type = t, edge_stream = sid\<rparr>)"

definition edge_marker :: "st \<Rightarrow> edge \<Rightarrow> edge_marker" where
  "edge_marker s e = dict_get_default (edges s) e PENDING"

definition edge_has_marker ::
  "st \<Rightarrow> string \<Rightarrow> string \<Rightarrow> edge_marker \<Rightarrow> stream \<Rightarrow> py_error + bool" where
  "edge_has_marker s dep dst m sid =
     rbind (get_edge_by_refs dep dst sid) (\<lambda>e. Inr (edge_marker s e = m))"

definition mark_edge :: "edge \<Rightarrow> edge_marker \<Rightarrow> st \<Rightarrow> st" where
  "mark_edge e m s = s\<lparr>edges := dict_set e m (edges s)\<rparr>"

definition is_reachable :: "task \<Rightarrow> stmt \<Rightarrow> st \<Rightarrow> py_error + bool" where
  "is_reachable t a s =
     (case depends_on a of
        [] \<Rightarrow> Inr True
      | [dep] \<Rightarrow> edge_has_marker s dep (task_ref t) VISITED (stream_id t)
      | deps \<Rightarrow>
          rbind (map_result (\<lambda>dep. edge_has_marker s dep (task_ref t) VISITED (stream_id t)) deps)
            (\<lambda>bs. let n = length (filter id bs) in
              Inr (case join_strategy a of
                     JoinAny \<Rightarrow> n > 0
                   | JoinAll \<Rightarrow> n = length deps)))"

text \<open>\<open>all(...)\<close> stops at the first edge that is not skipped.\<close>

fun all_skipped :: "st \<Rightarrow> string \<Rightarrow> stream \<Rightarrow> string list \<Rightarrow> py_error + bool" where
  "all_skipped s dst sid [] = Inr True"
| "all_skipped s dst sid (dep # deps) =
     rbind (edge_has_marker s dep dst SKIPPED sid) (\<lambda>b.
       if b then all_skipped s dst sid deps else Inr False)"

definition skip_should_propagate :: "task \<Rightarrow> stmt \<Rightarrow> st \<Rightarrow> py_error + bool" where
  "skip_should_propagate t a s =
     (if depends_on a = [] then Inr False
      else all_skipped s (task_ref t) (stream_id t) (depends_on a))"

text \<open>The set of outgoing edges of a task that satisfy a condition on the edge type.\<close>

definition out_edge :: "task \<Rightarrow> string \<times> edge_type \<Rightarrow> edge" where
  "out_edge t = (\<lambda>(dst, ty).
     \<lparr>edge_src = task_ref t, edge_dst = dst, edge_type = ty, edge_stream = stream_id t\<rparr>)"

definition out_edges ::
  "cfg \<Rightarrow> (edge_type \<Rightarrow> bool) \<Rightarrow> task \<Rightarrow> (edge list) m" where
  "out_edges c P t =
     bind (lookup (cfg_adj c) (task_ref t)) (\<lambda>nexts.
       ret (map (out_edge t) (filter (P \<circ> snd) nexts)))"

text \<open>\<open>queue.put\<close>: the queue is unbounded, so putting never waits.\<close>

definition put :: "task \<Rightarrow> st \<Rightarrow> st" where
  "put t s = s\<lparr>queue := queue s @ [t]\<rparr>"

definition decrement :: "task_key \<Rightarrow> int \<Rightarrow> st \<Rightarrow> st" where
  "decrement k i s = s\<lparr>indegrees := dict_set k (i - 1) (indegrees s)\<rparr>"

text \<open>The body of the loop of \<open>_queue_tasks\<close> for one outgoing edge.\<close>

definition queue_next ::
  "cfg \<Rightarrow> task \<Rightarrow> edge list \<Rightarrow> string \<times> edge_type \<Rightarrow> unit m" where
  "queue_next c t unreachable nxt =
     (let e = out_edge t nxt;
          nt = \<lparr>task_ref = fst nxt, stream_id = stream_id t, delay = delay t\<rparr> in
      bind (modify (mark_edge e (if e \<in> set unreachable then SKIPPED else VISITED))) (\<lambda>_.
      bind get_state (\<lambda>s.
      bind (case dict_get (indegrees s) (task_key nt) of
              Some i \<Rightarrow> ret i
            | None \<Rightarrow> bind (lookup (cfg_tasks c) (fst nxt)) (\<lambda>a. ret (int (length (depends_on a)))))
        (\<lambda>i.
      bind (modify (decrement (task_key nt) i)) (\<lambda>_.
        if i - 1 = 0 then modify (put nt) else ret ())))))"

definition queue_tasks :: "cfg \<Rightarrow> task \<Rightarrow> edge list \<Rightarrow> unit m" where
  "queue_tasks c t unreachable =
     for_all (queue_next c t unreachable) (dict_get_default (cfg_adj c) (task_ref t) [])"

definition handle_success_path :: "cfg \<Rightarrow> task \<Rightarrow> unit m" where
  "handle_success_path c t =
     bind (out_edges c (\<lambda>ty. ty \<noteq> SUCCESS) t) (\<lambda>un. queue_tasks c t un)"

text \<open>All outgoing edges become unreachable.\<close>

definition skip_all :: "cfg \<Rightarrow> task \<Rightarrow> unit m" where
  "skip_all c t = bind (out_edges c (\<lambda>_. True) t) (\<lambda>un. queue_tasks c t un)"

section \<open>Contexts of streams\<close>

definition get_context :: "stream \<Rightarrow> exec_ctx m" where
  "get_context sid = item streams sid"

text \<open>
  \<open>self._get_action_context(sid)[ref] = r\<close>. The dictionary is the one object the stream holds;
  once the stream is gone nothing can read it any more.
\<close>

definition put_action :: "stream \<Rightarrow> string \<Rightarrow> task_result \<Rightarrow> st \<Rightarrow> st" where
  "put_action sid r v s =
     (case dict_get (streams s) sid of
        None \<Rightarrow> s
      | Some ctx \<Rightarrow>
          s\<lparr>streams := dict_set sid (ctx\<lparr>ACTIONS := dict_set r v (ACTIONS ctx)\<rparr>) (streams s)\<rparr>)"

definition set_action :: "stream \<Rightarrow> string \<Rightarrow> task_result \<Rightarrow> unit m" where
  "set_action sid r v = bind (get_context sid) (\<lambda>_. modify (put_action sid r v))"

text \<open>
  \<open>get_stream_aware_action_result\<close>: the walk from a stream to the root. Fuel makes it total,
  \<^const>\<open>None\<close> outside means that it ran out.
\<close>

fun find_result :: "nat \<Rightarrow> st \<Rightarrow> string \<Rightarrow> stream option \<Rightarrow> task_result option option" where
  "find_result 0 s r c = None"
| "find_result (Suc n) s r None = Some None"
| "find_result (Suc n) s r (Some sid) =
     (case dict_get (streams s) sid of
        Some ctx \<Rightarrow>
          (case dict_get (ACTIONS ctx) r of
             Some v \<Rightarrow> Some (Some v)
           | None \<Rightarrow> find_result n s r (dict_get_default (stream_hierarchy s) sid None))
      | None \<Rightarrow> find_result n s r (dict_get_default (stream_hierarchy s) sid None))"

definition get_stream_aware_action_result ::
  "st \<Rightarrow> string \<Rightarrow> stream \<Rightarrow> task_result option option" where
  "get_stream_aware_action_result s r sid = find_result (length (stream_parts sid) + 2) s r (Some sid)"

definition action_refs :: "stmt \<Rightarrow> string list" where
  "action_refs a = remdups (concat (map snd (expr_refs a)))"

definition build_stream_aware_context :: "cfg \<Rightarrow> stmt \<Rightarrow> stream \<Rightarrow> st \<Rightarrow> exec_ctx" where
  "build_stream_aware_context c a sid s =
     (cfg_root_context c)\<lparr>ACTIONS :=
        concat (map (\<lambda>r. case get_stream_aware_action_result s r sid of
             Some (Some v) \<Rightarrow> [(r, v)] | _ \<Rightarrow> []) (action_refs a))\<rparr>"

end
