(* ===== verification/Sched_Handlers.thy ===== *)
theory Sched_Handlers
  imports Sched_State
begin

text \<open>
  The handlers of \<open>DSLScheduler\<close>: error, success and skip paths, loops, scatter and gather, and
  \<open>_schedule_task\<close>, which drives them. A handler is a coroutine: it runs until it returns,
  raises, or awaits something outside the scheduler. The last case is a value of \<open>point\<close>, which
  holds what is awaited and the local variables the rest of the coroutine needs; \<open>resume\<close> is the
  code after the await.
\<close>

section \<open>Arguments of the control-flow actions\<close>

record scatter_args =
  sa_collection :: pyval
  sa_interval :: "rat option"

record gather_args =
  ga_items :: string
  ga_drop_nulls :: bool
  ga_error_strategy :: error_strategy

record loop_end_args =
  la_condition :: string
  la_max_iterations :: int

text \<open>
  The coercions of the validation library: a value as an expression string, an integer, a float, a
  boolean, an error strategy, a stored object; and the JSON text of a value, if it has one.
\<close>

record coercions =
  as_expression :: "pyval \<Rightarrow> string option"
  as_int :: "pyval \<Rightarrow> int option"
  as_float :: "pyval \<Rightarrow> rat option"
  as_bool :: "pyval \<Rightarrow> bool option"
  as_strategy :: "pyval \<Rightarrow> error_strategy option"
  as_stored :: "pyval \<Rightarrow> stored option"
  as_json :: "pyval \<Rightarrow> string option"

definition required :: "'a option \<Rightarrow> exn + 'a" where
  "required x = (case x of None \<Rightarrow> Inl (PyError ValidationError) | Some v \<Rightarrow> Inr v)"

definition field_or :: "(pyval \<Rightarrow> 'a option) \<Rightarrow> 'a \<Rightarrow> (string, pyval) dict \<Rightarrow> string \<Rightarrow> exn + 'a" where
  "field_or f dflt d k =
     (case dict_get d k of None \<Rightarrow> Inr dflt | Some v \<Rightarrow> required (f v))"

definition needed_field :: "(pyval \<Rightarrow> 'a option) \<Rightarrow> (string, pyval) dict \<Rightarrow> string \<Rightarrow> exn + 'a" where
  "needed_field f d k = required (Option.bind (dict_get d k) f)"

definition parse_scatter_args :: "coercions \<Rightarrow> (string, pyval) dict \<Rightarrow> exn + scatter_args" where
  "parse_scatter_args v d =
     rbind (needed_field (\<lambda>x. case x of VList xs \<Rightarrow> Some x
         | _ \<Rightarrow> map_option VStr (as_expression v x)) d ''collection'') (\<lambda>coll.
     rbind (field_or (\<lambda>x. if x = VNone then Some None else map_option Some (as_float v x)) None
         d ''interval'') (\<lambda>iv.
       Inr \<lparr>sa_collection = coll, sa_interval = iv\<rparr>))"

definition parse_gather_args :: "coercions \<Rightarrow> (string, pyval) dict \<Rightarrow> exn + gather_args" where
  "parse_gather_args v d =
     rbind (needed_field (as_expression v) d ''items'') (\<lambda>its.
     rbind (field_or (as_bool v) False d ''drop_nulls'') (\<lambda>dn.
     rbind (field_or (as_strategy v) PARTITION d ''error_strategy'') (\<lambda>es.
       Inr \<lparr>ga_items = its, ga_drop_nulls = dn, ga_error_strategy = es\<rparr>)))"

definition parse_loop_end_args :: "coercions \<Rightarrow> (string, pyval) dict \<Rightarrow> exn + loop_end_args" where
  "parse_loop_end_args v d =
     rbind (needed_field (as_expression v) d ''condition'') (\<lambda>cnd.
     rbind (field_or (as_int v) 100 d ''max_iterations'') (\<lambda>n.
       if 1 \<le> n \<and> n \<le> MAX_DO_WHILE_ITERATIONS
       then Inr \<lparr>la_condition = cnd, la_max_iterations = n\<rparr>
       else Inl (PyError ValidationError)))"

definition checked :: "exn + 'a \<Rightarrow> 'a m" where
  "checked r = (case r of Inl e \<Rightarrow> throw e | Inr a \<Rightarrow> ret a)"

lemma keeps_checked [simp]: "keeps I (checked r)"
  by (auto simp: checked_def split: sum.splits)

lemma checked_simps [simp]: "checked (Inr a) = ret a" "checked (Inl e) = throw e"
  by (simp_all add: checked_def)

section \<open>Points where a coroutine waits\<close>

record finalized =
  fin_result :: stored
  fin_errors :: "error_info list"

datatype point =
    RunIf string exec_ctx
  | Delay rat
  | ExecAction
  | ExecLoopStart
  | LoopCond loop_end_args int exec_ctx
  | ExecLoopEnd loop_end_args int bool
  | ScatterInput scatter_args exec_ctx string
  | ScatterYield scatter_args stored "stream list" nat nat
  | FinalizeEmpty stream string
  | GatherItem gather_args exec_ctx string stream string int
  | FinalizeGather gather_args "stored list" string stream task_result
  | ExecGather stream

datatype outcome = Finished | Wait point

text \<open>
  What the outside answers: the value of an expression, the stored collection, the stored item, the
  finalized gather, the end of a timer or of a yield, or the end of the executor. The executor
  stores a task result under the reference of the action in the stream it runs in, and may raise.
\<close>

datatype answer =
    AnsExpr "exn + pyval"
  | AnsStored "exn + stored"
  | AnsFinal "exn + finalized"
  | AnsTick
  | AnsExec "task_result option" "exn option"

text \<open>An \<open>ActivityError\<close> caused by an ApplicationError is replaced by its cause.\<close>

fun unwrap_activity :: "exn \<Rightarrow> exn" where
  "unwrap_activity (ActivityError m (Some (ApplicationError t d))) = ApplicationError t d"
| "unwrap_activity e = e"

section \<open>Error path\<close>

definition got_json :: "coercions \<Rightarrow> string \<Rightarrow> pyval \<Rightarrow> string" where
  "got_json v pre d = (case as_json v d of Some j \<Rightarrow> CHR 10 # pre @ j
     | None \<Rightarrow> ''Couldn't parse error details as json.'')"

text \<open>The error record of a failed task (the middle part of \<open>_handle_error_path\<close>).\<close>

definition error_details :: "coercions \<Rightarrow> task \<Rightarrow> exn \<Rightarrow> error_info" where
  "error_details v t exc =
     (let mk = (\<lambda>msg. error_info (task_ref t) msg (exn_class exc) (stream_id t)) in
      case exc of
        ApplicationError _ (details # _) \<Rightarrow>
          (case details of
             VDict d \<Rightarrow>
               if {''ref'', ''message'', ''type''} \<subseteq> set (dict_keys d) then
                 (case error_info_from_dict d of
                    Inr i \<Rightarrow> i
                  | Inl e \<Rightarrow> mk (''Failed to parse regular application error details: '' @
                      py_error_name e @ ''.'' @ got_json v [] details))
               else
                 (case d of
                    (_, VDict val) # _ \<Rightarrow>
                      (case error_info_from_dict val of
                         Inr i \<Rightarrow> i
                       | Inl _ \<Rightarrow> mk (''Child workflow error details are not a dictionary.'' @
                           got_json v ''Got: '' details))
                  | _ \<Rightarrow> mk (''Child workflow error details are not a dictionary.'' @
                      got_json v ''Got: '' details))
           | _ \<Rightarrow> mk (''Application error details are not a dictionary.'' @
               got_json v ''Got: '' details))
      | _ \<Rightarrow> mk (exn_text exc))"

definition handle_error_path :: "cfg \<Rightarrow> coercions \<Rightarrow> task \<Rightarrow> exn \<Rightarrow> bool \<Rightarrow> unit m" where
  "handle_error_path c v t exc fail_workflow =
     bind (out_edges c (\<lambda>ty. ty \<noteq> ERROR) t) (\<lambda>non_err.
     bind (lookup (cfg_adj c) (task_ref t)) (\<lambda>nexts.
       if length non_err < length nexts \<and> \<not> fail_workflow then queue_tasks c t non_err
       else
         (let details = error_details v t exc in
          if stream_id t = ROOT_STREAM \<or> fail_workflow then
            modify (\<lambda>s. s\<lparr>task_exceptions := dict_set (task_ref t) (exc, details) (task_exceptions s)\<rparr>)
          else
            bind (modify (\<lambda>s. s\<lparr>stream_exceptions :=
                dict_set (stream_id t) (exc, details) (stream_exceptions s)\<rparr>)) (\<lambda>_.
              skip_all c t))))"

section \<open>Loops\<close>

definition handle_loop_start_skip :: "cfg \<Rightarrow> task \<Rightarrow> outcome m" where
  "handle_loop_start_skip c t =
     bind (modify (\<lambda>s. s\<lparr>loop_start_skips := insert (task_key t) (loop_start_skips s)\<rparr>)) (\<lambda>_.
     bind (skip_all c t) (\<lambda>_. ret Finished))"

definition handle_loop_start :: "cfg \<Rightarrow> task \<Rightarrow> outcome m" where
  "handle_loop_start c t =
     bind (modify (\<lambda>s. s\<lparr>loop_start_skips := loop_start_skips s - {task_key t}\<rparr>)) (\<lambda>_.
     bind get_state (\<lambda>s.
     bind (set_action (stream_id t) (task_ref t)
         (from_result (VDict [(''iteration'', VInt (dict_get_default (loop_indices s) (task_key t) 0))])))
       (\<lambda>_. ret (Wait ExecLoopStart))))"

text \<open>
  \<open>_cleanup_loop_descendant_streams\<close>. The inner loop closes the set under children: one pass over
  the hierarchy adds the children of the streams collected so far, and passes are repeated until
  nothing is added.
\<close>

definition scatter_streams :: "region \<Rightarrow> stream \<Rightarrow> st \<Rightarrow> stream list" where
  "scatter_streams g sid s =
     fold (\<lambda>((r, u), ss) acc.
         if r \<in> set (members g) \<and> stream_within u sid then fold set_add ss acc else acc)
       (task_streams s) []"

definition close_pass :: "(stream, stream option) dict \<Rightarrow> stream list \<Rightarrow> stream list" where
  "close_pass h R = fold (\<lambda>(cand, parent) acc.
       case parent of None \<Rightarrow> acc
         | Some p \<Rightarrow> if p \<in> set acc then set_add cand acc else acc) h R"

lemma close_pass_mono: "set R \<subseteq> set (close_pass h R)"
  unfolding close_pass_def by (induction h arbitrary: R) (fastforce split: option.splits)+

lemma close_pass_Cons:
  "close_pass ((cand, parent) # h) R =
     close_pass h (case parent of None \<Rightarrow> R | Some p \<Rightarrow> if p \<in> set R then set_add cand R else R)"
  by (simp add: close_pass_def)

lemma close_pass_keys: "set (close_pass h R) \<subseteq> set R \<union> set (dict_keys h)"
proof (induction h arbitrary: R)
  case (Cons e h)
  obtain cand parent where e: "e = (cand, parent)" by (cases e)
  let ?R = "case parent of None \<Rightarrow> R | Some p \<Rightarrow> if p \<in> set R then set_add cand R else R"
  have "set ?R \<subseteq> insert cand (set R)" by (cases parent) auto
  with Cons [of ?R] show ?case by (auto simp: e close_pass_Cons)
qed (simp add: close_pass_def)

function close_streams :: "(stream, stream option) dict \<Rightarrow> stream list \<Rightarrow> stream list" where
  "close_streams h R =
     (let R' = close_pass h R in if set R' = set R then R else close_streams h R')"
  by pat_completeness auto
termination
proof (relation "measure (\<lambda>(h, R). card (set (dict_keys h) - set R))")
  fix h R R' assume R': "R' = close_pass h R" and ne: "set R' \<noteq> set R"
  have "set (dict_keys h) - set R' \<subset> set (dict_keys h) - set R"
    using close_pass_mono [of R h] close_pass_keys [of h R] ne unfolding R' by blast
  then show "((h, R'), h, R) \<in> measure (\<lambda>(h, R). card (set (dict_keys h) - set R))"
    by (simp add: psubset_card_mono)
qed auto

declare close_streams.simps [simp del]

definition remove_streams :: "stream list \<Rightarrow> st \<Rightarrow> st" where
  "remove_streams R s = s\<lparr>
     streams := dict_filter (\<lambda>k _. k \<notin> set R) (streams s),
     stream_hierarchy := dict_filter (\<lambda>k _. k \<notin> set R) (stream_hierarchy s),
     stream_exceptions := dict_filter (\<lambda>k _. k \<notin> set R) (stream_exceptions s),
     completed_tasks := Set.filter (\<lambda>k. snd k \<notin> set R) (completed_tasks s),
     indegrees := dict_filter (\<lambda>k _. snd k \<notin> set R) (indegrees s),
     edges := dict_filter (\<lambda>e _. edge_stream e \<notin> set R) (edges s),
     task_streams := dict_filter (\<lambda>k _. snd k \<notin> set R) (task_streams s),
     open_streams := dict_filter (\<lambda>k _. snd k \<notin> set R) (open_streams s)\<rparr>"

definition cleanup_loop_descendant_streams :: "region \<Rightarrow> stream \<Rightarrow> st \<Rightarrow> st" where
  "cleanup_loop_descendant_streams g sid s =
     (let R = scatter_streams g sid s in
      if R = [] then s else remove_streams (close_streams (stream_hierarchy s) R) s)"

text \<open>\<open>_reset_loop_iteration_state\<close>; a dependency that does not parse raises.\<close>

definition internal_deps :: "region \<Rightarrow> stmt \<Rightarrow> py_error + int" where
  "internal_deps g a =
     rbind (map_result edge_components_from_dep (depends_on a)) (\<lambda>cs.
       Inr (int (length (filter (\<lambda>(src, _). src \<in> set (members g)) cs))))"

definition reset_member :: "cfg \<Rightarrow> region \<Rightarrow> stream \<Rightarrow> string \<Rightarrow> unit m" where
  "reset_member c g sid r =
     bind (modify (\<lambda>s. s\<lparr>completed_tasks := completed_tasks s - {(r, sid)}\<rparr>)) (\<lambda>_.
       case dict_get (cfg_tasks c) r of
         None \<Rightarrow> ret ()
       | Some a \<Rightarrow>
           bind (lift (internal_deps g a)) (\<lambda>n.
             modify (\<lambda>s. s\<lparr>indegrees := dict_set (r, sid) n (indegrees s)\<rparr>)))"

definition reset_tracking :: "region \<Rightarrow> stream \<Rightarrow> st \<Rightarrow> st" where
  "reset_tracking g sid s =
     (let mine = (\<lambda>k. fst k \<in> set (members g) \<and> snd k = sid) in
      s\<lparr>task_streams := dict_filter (\<lambda>k _. \<not> mine k) (task_streams s),
        open_streams := dict_filter (\<lambda>k _. \<not> mine k) (open_streams s),
        edges := map (\<lambda>(e, m).
            (e, if edge_stream e = sid \<and> edge_src e \<in> set (members g) \<and> edge_dst e \<in> set (members g)
                then PENDING else m)) (edges s)\<rparr>)"

definition reset_loop_iteration_state :: "cfg \<Rightarrow> region \<Rightarrow> stream \<Rightarrow> unit m" where
  "reset_loop_iteration_state c g sid =
     bind (modify (\<lambda>s. reset_tracking g sid (cleanup_loop_descendant_streams g sid s))) (\<lambda>_.
     bind (for_all (reset_member c g sid) (members g)) (\<lambda>_.
       modify (\<lambda>s. s\<lparr>loop_indices := dict_filter
           (\<lambda>k _. \<not> (fst k \<in> set (members g) \<and> stream_within (snd k) sid)) (loop_indices s)\<rparr>)))"

text \<open>
  \<open>_handle_loop_end\<close>. The part up to the first await checks the arguments; \<open>loop_end_finish\<close> is
  the code after the executor, and the skipping call goes there directly.
\<close>

definition loop_end_check :: "cfg \<Rightarrow> coercions \<Rightarrow> task \<Rightarrow> stmt \<Rightarrow> (region \<times> loop_end_args) m" where
  "loop_end_check c v t a =
     (case dict_get (cfg_regions_by_end c) (task_ref t) of
        None \<Rightarrow> throw (PyError RuntimeError)
      | Some g \<Rightarrow>
          if (case dict_get (args a) ''max_iterations'' of
                Some (VInt n) \<Rightarrow> n > MAX_DO_WHILE_ITERATIONS | _ \<Rightarrow> False)
          then throw (ApplicationError ''Loop max_iterations exceeds platform cap'' [])
          else bind (checked (parse_loop_end_args v (args a))) (\<lambda>la. ret (g, la)))"

definition loop_end_record :: "task \<Rightarrow> bool \<Rightarrow> unit m" where
  "loop_end_record t should_continue =
     set_action (stream_id t) (task_ref t) (from_result (VDict [(''continue'', VBool should_continue)]))"

definition loop_end_finish ::
  "cfg \<Rightarrow> task \<Rightarrow> region \<Rightarrow> loop_end_args \<Rightarrow> int \<Rightarrow> bool \<Rightarrow> bool \<Rightarrow> outcome m" where
  "loop_end_finish c t g la current_index should_continue skip_from_start =
     (let key = (start_ref g, stream_id t) in
      if should_continue then
        (if current_index + 1 \<ge> la_max_iterations la
         then throw (ApplicationError ''Loop exceeded max_iterations'' [])
         else
           bind (reset_loop_iteration_state c g (stream_id t)) (\<lambda>_.
           bind (modify (\<lambda>s. s\<lparr>loop_indices := dict_set key (current_index + 1) (loop_indices s)\<rparr>)) (\<lambda>_.
           bind (modify (put (mk_task (start_ref g) (stream_id t)))) (\<lambda>_. ret Finished))))
      else
        bind (modify (\<lambda>s. s\<lparr>loop_indices := dict_pop key (loop_indices s)\<rparr>)) (\<lambda>_.
        bind (if skip_from_start then skip_all c t else handle_success_path c t) (\<lambda>_.
          ret Finished)))"

definition handle_loop_end :: "cfg \<Rightarrow> coercions \<Rightarrow> task \<Rightarrow> stmt \<Rightarrow> outcome m" where
  "handle_loop_end c v t a =
     bind (loop_end_check c v t a) (\<lambda>(g, la).
     bind get_state (\<lambda>s.
       ret (Wait (LoopCond la (dict_get_default (loop_indices s) (start_ref g, stream_id t) 0)
         (build_stream_aware_context c a (stream_id t) s)))))"

definition handle_loop_end_skip :: "cfg \<Rightarrow> coercions \<Rightarrow> task \<Rightarrow> stmt \<Rightarrow> outcome m" where
  "handle_loop_end_skip c v t a =
     bind (loop_end_check c v t a) (\<lambda>(g, la).
     bind get_state (\<lambda>s.
       let key = (start_ref g, stream_id t);
           from_start = (key \<in> loop_start_skips s) in
       bind (if from_start then modify (\<lambda>s. s\<lparr>loop_start_skips := loop_start_skips s - {key}\<rparr>)
             else ret ()) (\<lambda>_.
       bind (loop_end_record t False) (\<lambda>_.
         loop_end_finish c t g la (dict_get_default (loop_indices s) key 0) False from_start))))"

section \<open>Scatter\<close>

definition action_key :: "string \<Rightarrow> string \<Rightarrow> stream \<Rightarrow> string \<Rightarrow> string" where
  "action_key ws exec_id sid r = ws @ ''/'' @ exec_id @ ''/actions/'' @ sid @ ''/'' @ r @ ''.json''"

definition action_collection_prefix :: "string \<Rightarrow> string \<Rightarrow> stream \<Rightarrow> string \<Rightarrow> string" where
  "action_collection_prefix ws exec_id sid r = ws @ ''/'' @ exec_id @ ''/actions/'' @ sid @ ''/'' @ r"

definition workspace_id :: "cfg \<Rightarrow> string m" where
  "workspace_id c = (case cfg_workspace_id c of None \<Rightarrow> throw (PyError ValueError) | Some w \<Rightarrow> ret w)"

lemma keeps_workspace_id [simp]: "keeps I (workspace_id c)"
  by (auto simp: workspace_id_def split: option.splits)

fun get_collection_size :: "stored \<Rightarrow> py_error + nat" where
  "get_collection_size (CollectionObject _ n _ _ _ _ _) = Inr (nat n)"
| "get_collection_size (InlineObject (VList xs) _) = Inr (length xs)"
| "get_collection_size _ = Inl TypeError"

definition open_stream :: "stream \<Rightarrow> stream \<Rightarrow> exec_ctx \<Rightarrow> st \<Rightarrow> st" where
  "open_stream sid parent ctx s =
     s\<lparr>stream_hierarchy := dict_set sid (Some parent) (stream_hierarchy s),
       streams := dict_set sid ctx (streams s)\<rparr>"

definition handle_scatter_skip_stream :: "cfg \<Rightarrow> task \<Rightarrow> stream \<Rightarrow> unit m" where
  "handle_scatter_skip_stream c t sid =
     (let new = stream_skip (task_ref t) (Some sid) in
      bind (modify (open_stream new sid empty_ctx)) (\<lambda>_.
        skip_all c (mk_task (task_ref t) new)))"

definition handle_scatter :: "cfg \<Rightarrow> coercions \<Rightarrow> task \<Rightarrow> stmt \<Rightarrow> outcome m" where
  "handle_scatter c v t a =
     bind (checked (parse_scatter_args v (args a))) (\<lambda>sa.
     bind (get_context (stream_id t)) (\<lambda>ctx.
     bind (workspace_id c) (\<lambda>ws.
       ret (Wait (ScatterInput sa ctx
         (action_collection_prefix ws (cfg_wf_exec_id c) (stream_id t) (task_ref t)))))))"

text \<open>
  One item of the collection: its stream, the stream's context and the tasks after the scatter. The
  list of streams is the object stored in \<open>task_streams\<close>, so appending changes that entry too.
\<close>

definition item_context :: "string \<Rightarrow> stored \<Rightarrow> nat \<Rightarrow> exec_ctx" where
  "item_context r coll i =
     empty_ctx\<lparr>ACTIONS := [(r, from_collection_item coll (int i) ''collection_item'')]\<rparr>"

definition append_stream :: "task_key \<Rightarrow> stream list \<Rightarrow> st \<Rightarrow> st" where
  "append_stream k ss s =
     (case dict_get (task_streams s) k of
        None \<Rightarrow> s | Some _ \<Rightarrow> s\<lparr>task_streams := dict_set k ss (task_streams s)\<rparr>)"

definition scatter_item ::
  "cfg \<Rightarrow> task \<Rightarrow> scatter_args \<Rightarrow> stored \<Rightarrow> stream list \<Rightarrow> nat \<Rightarrow> unit m" where
  "scatter_item c t sa coll ss i =
     (let new = stream_new (task_ref t) (Idx (int i)) (Some (stream_id t));
          d = rat_of_nat i * (case sa_interval sa of None \<Rightarrow> 0 | Some q \<Rightarrow> q) in
      bind (modify (append_stream (task_key t) (ss @ [new]))) (\<lambda>_.
      bind (modify (open_stream new (stream_id t) (item_context (task_ref t) coll i))) (\<lambda>_.
        queue_tasks c \<lparr>task_ref = task_ref t, stream_id = new, delay = d\<rparr> [])))"

text \<open>The loop over the items yields to the event loop after each of them.\<close>

definition scatter_loop ::
  "cfg \<Rightarrow> task \<Rightarrow> scatter_args \<Rightarrow> stored \<Rightarrow> stream list \<Rightarrow> nat \<Rightarrow> nat \<Rightarrow> outcome m" where
  "scatter_loop c t sa coll ss i n =
     (if i < n then
        bind (scatter_item c t sa coll ss i) (\<lambda>_.
          ret (Wait (ScatterYield sa coll
            (ss @ [stream_new (task_ref t) (Idx (int i)) (Some (stream_id t))]) (Suc i) n)))
      else
        bind (modify (\<lambda>s. s\<lparr>open_streams := dict_set (task_key t) (int (length ss)) (open_streams s)\<rparr>))
          (\<lambda>_. ret Finished))"

definition scatter_start :: "cfg \<Rightarrow> task \<Rightarrow> scatter_args \<Rightarrow> stored \<Rightarrow> outcome m" where
  "scatter_start c t sa coll =
     bind (modify (\<lambda>s. s\<lparr>task_streams := dict_set (task_key t) [] (task_streams s)\<rparr>)) (\<lambda>_.
     bind (lift (get_collection_size coll)) (\<lambda>n.
       if n = 0 then
         bind (modify (\<lambda>s. s\<lparr>open_streams := dict_set (task_key t) 0 (open_streams s)\<rparr>)) (\<lambda>_.
         bind (handle_scatter_skip_stream c t (stream_id t)) (\<lambda>_. ret Finished))
       else scatter_loop c t sa coll [] 0 n))"

section \<open>Gather\<close>

definition get_parent_stream_id_safe :: "stream \<Rightarrow> stream m" where
  "get_parent_stream_id_safe sid =
     bind (item stream_hierarchy sid) (\<lambda>p.
       case p of None \<Rightarrow> throw (PyError RuntimeError) | Some q \<Rightarrow> ret q)"

lemma keeps_get_parent [simp]: "keeps I (get_parent_stream_id_safe sid)"
  unfolding get_parent_stream_id_safe_def by (auto intro!: ensures_seq split: option.splits)

text \<open>The first stream to arrive creates the list, with one unset slot for each stream.\<close>

definition init_slots :: "stream \<Rightarrow> string \<Rightarrow> task_key \<Rightarrow> unit m" where
  "init_slots parent r scatter =
     bind (get_context parent) (\<lambda>ctx.
     bind get_state (\<lambda>s.
       if dict_get (ACTIONS ctx) r = None
       then set_action parent r (from_result (VList
         (replicate (length (dict_get_default (task_streams s) scatter [])) (VStr GATHER_UNSET))))
       else ret ()))"

text \<open>
  \<open>parent_action_context[ref].get_data()[idx] = v\<close>: an assignment into the list inside the stored
  result. Values that are not lists do not support it.
\<close>

definition store_slot :: "stream \<Rightarrow> string \<Rightarrow> int \<Rightarrow> pyval \<Rightarrow> unit m" where
  "store_slot parent r idx v =
     bind (get_context parent) (\<lambda>ctx.
     bind (lookup (ACTIONS ctx) r) (\<lambda>tr.
     bind (lift (get_data tr)) (\<lambda>d.
       case (d, result tr) of
         (VList xs, InlineObject (VList ys) tn) \<Rightarrow>
           (if collection_index tr = None then
              bind (lift (py_store ys idx v)) (\<lambda>zs.
                set_action parent r (tr\<lparr>result := InlineObject (VList zs) tn\<rparr>))
            else
              bind (lift (py_store xs idx v)) (\<lambda>zs.
                case collection_index tr of
                  None \<Rightarrow> ret ()
                | Some i \<Rightarrow> bind (lift (py_store ys i (VList zs))) (\<lambda>ws.
                    set_action parent r (tr\<lparr>result := InlineObject (VList ws) tn\<rparr>))))
       | _ \<Rightarrow> throw (PyError TypeError))))"

definition leaf_index :: "string \<times> stream_index \<Rightarrow> int m" where
  "leaf_index lf = (case snd lf of Idx i \<Rightarrow> ret i | Skip \<Rightarrow> throw (PyError TypeError))"

definition close_one :: "task_key \<Rightarrow> unit m" where
  "close_one k = bind (item open_streams k) (\<lambda>n.
     modify (\<lambda>s. s\<lparr>open_streams := dict_set k (n - 1) (open_streams s)\<rparr>))"

text \<open>\<open>_handle_gather_result\<close>, up to the finalizing activity and after it.\<close>

definition validate_stored :: "coercions \<Rightarrow> pyval \<Rightarrow> exn + stored" where
  "validate_stored v x = required (case x of VStored st \<Rightarrow> Some st | _ \<Rightarrow> as_stored v x)"

fun iterate_value :: "pyval \<Rightarrow> py_error + pyval list" where
  "iterate_value (VList xs) = Inr xs"
| "iterate_value (VStr s) = Inr (map (\<lambda>ch. VStr [ch]) s)"
| "iterate_value (VDict d) = Inr (map (VStr \<circ> fst) d)"
| "iterate_value _ = Inl TypeError"

definition gather_result_start ::
  "cfg \<Rightarrow> coercions \<Rightarrow> string \<Rightarrow> stream \<Rightarrow> gather_args \<Rightarrow> outcome m" where
  "gather_result_start c v r parent ga =
     bind (get_context parent) (\<lambda>ctx.
     bind (if dict_get (ACTIONS ctx) r = None then set_action parent r (from_result (VList []))
           else ret ()) (\<lambda>_.
     bind (get_context parent) (\<lambda>ctx.
     bind (lookup (ACTIONS ctx) r) (\<lambda>tr.
     bind (lift (get_data tr)) (\<lambda>d.
     bind (lift (iterate_value d)) (\<lambda>xs.
     bind (checked (map_result (validate_stored v) (filter (\<lambda>x. x \<noteq> VStr GATHER_UNSET) xs))) (\<lambda>its.
     bind (workspace_id c) (\<lambda>ws.
       ret (Wait (FinalizeGather ga its
         (action_collection_prefix ws (cfg_wf_exec_id c) parent r) parent tr))))))))))"

definition finalized_typename :: "finalized \<Rightarrow> string" where
  "finalized_typename f = (case stored_typename (fin_result f) of
     None \<Rightarrow> ''list'' | Some tn \<Rightarrow> if tn = [] then ''list'' else tn)"

definition gather_message :: "string \<Rightarrow> finalized \<Rightarrow> string" where
  "gather_message r f =
     ''Gather '' @ CHR 39 # r @ CHR 39 # '' encountered '' @ show_nat (length (fin_errors f)) @ '' error(s)''"

definition gather_error :: "string \<Rightarrow> stream \<Rightarrow> finalized \<Rightarrow> error_info" where
  "gather_error r parent f =
     ActionErrorInfo (VStr r) (VStr (gather_message r f)) (VStr ''ApplicationError'')
       (VStr ''ACTIONS'') (VInt 1) (VStr parent) (VList (map VErr (fin_errors f)))"

definition gather_result_finish ::
  "cfg \<Rightarrow> string \<Rightarrow> stream \<Rightarrow> gather_args \<Rightarrow> task_result \<Rightarrow> finalized \<Rightarrow> outcome m" where
  "gather_result_finish c r parent ga tr f =
     bind (lift (get_collection_size (fin_result f))) (\<lambda>_.
       if ga_error_strategy ga = RAISE \<and> fin_errors f \<noteq> [] then
         (let exc = ApplicationError (gather_message r f)
              [VDict [(r, dump_error (gather_error r parent f))]] in
          bind (modify (\<lambda>s. s\<lparr>task_exceptions :=
              dict_set r (exc, gather_error r parent f) (task_exceptions s)\<rparr>)) (\<lambda>_. throw exc))
       else
         (let tr1 = tr\<lparr>result := fin_result f, result_typename := finalized_typename f\<rparr>;
              tr2 = (if fin_errors f \<noteq> []
                     then with_error (VList (map VErr (fin_errors f))) None tr1 else tr1) in
          bind (modify (put_action parent r tr2)) (\<lambda>_. ret (Wait (ExecGather parent)))))"

definition handle_gather_skip_stream ::
  "cfg \<Rightarrow> coercions \<Rightarrow> task \<Rightarrow> stmt \<Rightarrow> outcome m" where
  "handle_gather_skip_stream c v t a =
     bind (get_parent_stream_id_safe (stream_id t)) (\<lambda>parent.
     bind (get_context parent) (\<lambda>_.
     bind (lift (stream_leaf (stream_id t))) (\<lambda>lf.
     bind get_state (\<lambda>s.
     bind (case dict_get (stream_exceptions s) (stream_id t) of
             None \<Rightarrow> ret ()
           | Some (_, details) \<Rightarrow>
               bind (init_slots parent (task_ref t) (fst lf, parent)) (\<lambda>_.
               bind (leaf_index lf) (\<lambda>idx.
                 store_slot parent (task_ref t) idx (VStored (inline (dump_error details)))))) (\<lambda>_.
     bind (item open_streams (fst lf, parent)) (\<lambda>n.
       if n = 0 then
         bind (checked (parse_gather_args v (args a))) (\<lambda>ga.
           gather_result_start c v (task_ref t) parent ga)
       else ret Finished))))))"

definition handle_gather_in_skip_stream :: "cfg \<Rightarrow> task \<Rightarrow> outcome m" where
  "handle_gather_in_skip_stream c t =
     bind (get_parent_stream_id_safe (stream_id t)) (\<lambda>parent.
     bind (lift (stream_leaf (stream_id t))) (\<lambda>lf.
     bind get_state (\<lambda>s.
       if dict_get (open_streams s) (fst lf, parent) \<noteq> None then
         bind (get_context parent) (\<lambda>_.
         bind (workspace_id c) (\<lambda>ws.
           ret (Wait (FinalizeEmpty parent
             (action_collection_prefix ws (cfg_wf_exec_id c) parent (task_ref t))))))
       else bind (skip_all c t) (\<lambda>_. ret Finished))))"

definition gather_empty_finish :: "cfg \<Rightarrow> task \<Rightarrow> stream \<Rightarrow> finalized \<Rightarrow> outcome m" where
  "gather_empty_finish c t parent f =
     bind (modify (put_action parent (task_ref t)
         (task_result_of (fin_result f) (finalized_typename f) None))) (\<lambda>_.
     bind (queue_tasks c (mk_task (task_ref t) parent) []) (\<lambda>_. ret Finished))"

definition handle_gather :: "cfg \<Rightarrow> coercions \<Rightarrow> task \<Rightarrow> stmt \<Rightarrow> bool \<Rightarrow> outcome m" where
  "handle_gather c v t a is_skipping =
     (if stream_id t = ROOT_STREAM then throw (PyError RuntimeError)
      else if is_skip_stream (stream_id t) then handle_gather_in_skip_stream c t
      else if stream_id t = [] then throw (ApplicationError ''Invalid gather state'' [])
      else
        bind (get_parent_stream_id_safe (stream_id t)) (\<lambda>parent.
        bind (lift (stream_leaf (stream_id t))) (\<lambda>lf.
          if is_skipping then
            bind (close_one (fst lf, parent)) (\<lambda>_. handle_gather_skip_stream c v t a)
          else
            bind (checked (parse_gather_args v (args a))) (\<lambda>ga.
            bind (get_context (stream_id t)) (\<lambda>ctx.
            bind (workspace_id c) (\<lambda>ws.
            bind (leaf_index lf) (\<lambda>idx.
              ret (Wait (GatherItem ga ctx
                (action_key ws (cfg_wf_exec_id c) (stream_id t) (task_ref t))
                parent (fst lf) idx)))))))))"

definition gather_item_finish ::
  "cfg \<Rightarrow> coercions \<Rightarrow> task \<Rightarrow> gather_args \<Rightarrow> stream \<Rightarrow> string \<Rightarrow> int \<Rightarrow> stored \<Rightarrow> outcome m" where
  "gather_item_finish c v t ga parent scatter_ref idx x =
     bind (close_one (scatter_ref, parent)) (\<lambda>_.
     bind (init_slots parent (task_ref t) (scatter_ref, parent)) (\<lambda>_.
     bind (store_slot parent (task_ref t) idx (VStored x)) (\<lambda>_.
     bind (item open_streams (scatter_ref, parent)) (\<lambda>n.
       if n = 0 then gather_result_start c v (task_ref t) parent ga else ret Finished))))"

section \<open>Scheduling a task\<close>

definition handle_skip_path :: "cfg \<Rightarrow> coercions \<Rightarrow> task \<Rightarrow> stmt \<Rightarrow> outcome m" where
  "handle_skip_path c v t a =
     (if action a = LOOP_START then handle_loop_start_skip c t
      else if action a = LOOP_END then handle_loop_end_skip c v t a
      else if action a = TRANSFORM_SCATTER then
        bind (handle_scatter_skip_stream c t (stream_id t)) (\<lambda>_. ret Finished)
      else if action a = TRANSFORM_GATHER then handle_gather c v t a True
      else bind (skip_all c t) (\<lambda>_. ret Finished))"

text \<open>
  What a coroutine that waits must remember of \<open>_schedule_task\<close>: the task (its delay already
  reset), the original delay, and whether it is inside the inner \<open>try\<close> that defers an
  ApplicationError until after the reachability check.
\<close>

record frame =
  fr_task :: task
  fr_delay :: rat
  fr_guarded :: bool
  fr_point :: point

datatype progress = Completed | Suspended frame

definition dispatch :: "cfg \<Rightarrow> coercions \<Rightarrow> task \<Rightarrow> stmt \<Rightarrow> outcome m" where
  "dispatch c v t a =
     (if action a = LOOP_START then handle_loop_start c t
      else if action a = LOOP_END then handle_loop_end c v t a
      else if action a = TRANSFORM_SCATTER then handle_scatter c v t a
      else if action a = TRANSFORM_GATHER then handle_gather c v t a False
      else ret (Wait ExecAction))"

text \<open>Steps 3 and 4: reachability, the deferred error, the delay, the handler.\<close>

definition after_run_if ::
  "cfg \<Rightarrow> coercions \<Rightarrow> task \<Rightarrow> rat \<Rightarrow> stmt \<Rightarrow> exn option \<Rightarrow> outcome m" where
  "after_run_if c v t d a run_if_error =
     bind get_state (\<lambda>s.
     bind (lift (is_reachable t a s)) (\<lambda>ok.
       if \<not> ok then throw TaskUnreachable
       else
         (case run_if_error of
            Some e \<Rightarrow> throw e
          | None \<Rightarrow> if d > 0 then ret (Wait (Delay d)) else dispatch c v t a)))"

definition suspend :: "task \<Rightarrow> rat \<Rightarrow> bool \<Rightarrow> outcome \<Rightarrow> progress" where
  "suspend t d g out =
     (case out of
        Finished \<Rightarrow> Completed
      | Wait p \<Rightarrow> Suspended \<lparr>fr_task = t, fr_delay = d, fr_guarded = g, fr_point = p\<rparr>)"

text \<open>The inner \<open>try\<close>: only an ApplicationError is caught.\<close>

definition guarded ::
  "cfg \<Rightarrow> coercions \<Rightarrow> task \<Rightarrow> rat \<Rightarrow> stmt \<Rightarrow> outcome m \<Rightarrow> progress m" where
  "guarded c v t d a m = (\<lambda>s.
     case m s of
       (Inl (ApplicationError x y), s') \<Rightarrow>
         bind (after_run_if c v t d a (Some (ApplicationError x y))) (ret \<circ> suspend t d False) s'
     | (Inl e, s') \<Rightarrow> (Inl e, s')
     | (Inr out, s') \<Rightarrow> (Inr (suspend t d True out), s'))"

text \<open>The outer \<open>try\<close>: the error path, and the task is complete whatever happened.\<close>

definition finish_task :: "task \<Rightarrow> st \<Rightarrow> st" where
  "finish_task t s = s\<lparr>completed_tasks := insert (task_key t) (completed_tasks s)\<rparr>"

definition fails_workflow :: "exn \<Rightarrow> bool" where
  "fails_workflow e = (case e of PlatformExecutionError _ \<Rightarrow> True | _ \<Rightarrow> False)"

definition underlying :: "exn \<Rightarrow> exn" where
  "underlying e = (case e of PlatformExecutionError x \<Rightarrow> x | _ \<Rightarrow> e)"

definition with_error_path :: "cfg \<Rightarrow> coercions \<Rightarrow> task \<Rightarrow> progress m \<Rightarrow> st \<Rightarrow> progress \<times> st" where
  "with_error_path c v t m s =
     (case m s of
        (Inr (Suspended f), s') \<Rightarrow> (Suspended f, s')
      | (Inr Completed, s') \<Rightarrow> (Completed, finish_task t s')
      | (Inl e, s') \<Rightarrow>
          (Completed, finish_task t
            (snd (handle_error_path c v t (underlying e) (fails_workflow e) s'))))"

text \<open>\<open>_schedule_task\<close> up to its first await.\<close>

definition schedule_body :: "cfg \<Rightarrow> coercions \<Rightarrow> task \<Rightarrow> rat \<Rightarrow> stmt \<Rightarrow> progress m" where
  "schedule_body c v t d a =
     bind get_state (\<lambda>s.
     bind (lift (skip_should_propagate t a s)) (\<lambda>skip.
       if skip then bind (handle_skip_path c v t a) (ret \<circ> suspend t d False)
       else
         (case run_if a of
            Some e \<Rightarrow>
              ret (suspend t d False (Wait (RunIf e (build_stream_aware_context c a (stream_id t) s))))
          | None \<Rightarrow> bind (after_run_if c v t d a None) (ret \<circ> suspend t d False))))"

definition schedule_task :: "cfg \<Rightarrow> coercions \<Rightarrow> task \<Rightarrow> st \<Rightarrow> progress \<times> st" where
  "schedule_task c v t0 s =
     (case dict_get (cfg_tasks c) (task_ref t0) of
        None \<Rightarrow> (Completed, s)
      | Some a \<Rightarrow>
          (let t = (if delay t0 > 0 then t0\<lparr>delay := 0\<rparr> else t0) in
           with_error_path c v t (schedule_body c v t (delay t0) a) s))"

text \<open>
  The end of the executor: its result is stored in the context of the stream it ran in (a missing
  stream is a KeyError), then its exception, if any, propagates.
\<close>

definition executor_done :: "stream \<Rightarrow> string \<Rightarrow> task_result option \<Rightarrow> exn option \<Rightarrow> unit m" where
  "executor_done sid r written raised =
     bind (case written of None \<Rightarrow> ret () | Some tr \<Rightarrow> set_action sid r tr) (\<lambda>_.
       case raised of None \<Rightarrow> ret () | Some e \<Rightarrow> throw e)"

text \<open>
  The code after each await, one definition for each kind of answer. An answer of another kind than
  the one awaited does not arrive; it would leave the coroutine where it is.
\<close>

definition continue_exec ::
  "cfg \<Rightarrow> task \<Rightarrow> point \<Rightarrow> task_result option \<Rightarrow> exn option \<Rightarrow> outcome m" where
  "continue_exec c t p w e =
     (case p of
        ExecLoopEnd la idx cont \<Rightarrow>
          bind (executor_done (stream_id t) (task_ref t) w e) (\<lambda>_.
            case dict_get (cfg_regions_by_end c) (task_ref t) of
              None \<Rightarrow> throw (PyError RuntimeError)
            | Some g \<Rightarrow> loop_end_finish c t g la idx cont False)
      | ExecGather parent \<Rightarrow>
          bind (executor_done parent (task_ref t) w e) (\<lambda>_.
          bind (queue_tasks c (mk_task (task_ref t) parent) []) (\<lambda>_. ret Finished))
      | _ \<Rightarrow>
          if p = ExecAction \<or> p = ExecLoopStart then
            bind (executor_done (stream_id t) (task_ref t) w e) (\<lambda>_.
            bind (handle_success_path c t) (\<lambda>_. ret Finished))
          else ret (Wait p))"

definition continue_stored ::
  "cfg \<Rightarrow> coercions \<Rightarrow> task \<Rightarrow> point \<Rightarrow> exn + stored \<Rightarrow> outcome m" where
  "continue_stored c v t p r =
     (case p of
        ScatterInput sa ctx k \<Rightarrow>
          (case r of Inl e \<Rightarrow> throw (unwrap_activity e) | Inr coll \<Rightarrow> scatter_start c t sa coll)
      | GatherItem ga ctx k parent sref idx \<Rightarrow>
          (case r of
             Inl e \<Rightarrow> throw (ApplicationError
               (''Error evaluating `items` expression in `core.transform.gather`: '' @ exn_text e) [])
           | Inr x \<Rightarrow> gather_item_finish c v t ga parent sref idx x)
      | _ \<Rightarrow> ret (Wait p))"

definition continue_final ::
  "cfg \<Rightarrow> task \<Rightarrow> point \<Rightarrow> exn + finalized \<Rightarrow> outcome m" where
  "continue_final c t p r =
     (case p of
        FinalizeEmpty parent k \<Rightarrow>
          (case r of Inl e \<Rightarrow> throw e | Inr f \<Rightarrow> gather_empty_finish c t parent f)
      | FinalizeGather ga its k parent tr \<Rightarrow>
          (case r of Inl e \<Rightarrow> throw e | Inr f \<Rightarrow> gather_result_finish c (task_ref t) parent ga tr f)
      | _ \<Rightarrow> ret (Wait p))"

definition continue_tick ::
  "cfg \<Rightarrow> coercions \<Rightarrow> task \<Rightarrow> stmt \<Rightarrow> point \<Rightarrow> outcome m" where
  "continue_tick c v t a p =
     (case p of
        Delay d \<Rightarrow> dispatch c v t a
      | ScatterYield sa coll ss i n \<Rightarrow> scatter_loop c t sa coll ss i n
      | _ \<Rightarrow> ret (Wait p))"

definition continue_cond :: "task \<Rightarrow> point \<Rightarrow> exn + pyval \<Rightarrow> outcome m" where
  "continue_cond t p r =
     (case p of
        LoopCond la idx ctx \<Rightarrow>
          (case r of
             Inl e \<Rightarrow> throw (ApplicationError
               (''Error evaluating `condition` in `core.loop.end`: '' @ exn_text (unwrap_activity e)) [])
           | Inr x \<Rightarrow>
               bind (loop_end_record t (py_bool x)) (\<lambda>_. ret (Wait (ExecLoopEnd la idx (py_bool x)))))
      | _ \<Rightarrow> ret (Wait p))"

definition continue_at ::
  "cfg \<Rightarrow> coercions \<Rightarrow> task \<Rightarrow> stmt \<Rightarrow> point \<Rightarrow> answer \<Rightarrow> outcome m" where
  "continue_at c v t a p ans =
     (case ans of
        AnsExec w e \<Rightarrow> continue_exec c t p w e
      | AnsStored r \<Rightarrow> continue_stored c v t p r
      | AnsFinal r \<Rightarrow> continue_final c t p r
      | AnsTick \<Rightarrow> continue_tick c v t a p
      | AnsExpr r \<Rightarrow> continue_cond t p r)"

fun continue_run_if ::
  "cfg \<Rightarrow> coercions \<Rightarrow> task \<Rightarrow> rat \<Rightarrow> stmt \<Rightarrow> exn + pyval \<Rightarrow> progress m" where
  "continue_run_if c v t d a (Inl e) =
     bind (after_run_if c v t d a (Some (ApplicationError
         (''Error evaluating `run_if` condition: '' @ exn_text (unwrap_activity e)) [])))
       (ret \<circ> suspend t d False)"
| "continue_run_if c v t d a (Inr x) =
     (if py_bool x then bind (after_run_if c v t d a None) (ret \<circ> suspend t d False)
      else guarded c v t d a (handle_skip_path c v t a))"

text \<open>The answer of a \<open>run_if\<close> evaluation, when that is what the coroutine waits for.\<close>

definition run_if_result :: "point \<Rightarrow> answer \<Rightarrow> (exn + pyval) option" where
  "run_if_result p ans =
     (case p of RunIf _ _ \<Rightarrow> (case ans of AnsExpr r \<Rightarrow> Some r | _ \<Rightarrow> None) | _ \<Rightarrow> None)"

declare run_if_result_def [simp]

definition resume_body :: "cfg \<Rightarrow> coercions \<Rightarrow> frame \<Rightarrow> stmt \<Rightarrow> answer \<Rightarrow> progress m" where
  "resume_body c v f a ans =
     (let t = fr_task f; d = fr_delay f in
      case run_if_result (fr_point f) ans of
        Some r \<Rightarrow> continue_run_if c v t d a r
      | None \<Rightarrow>
          if fr_guarded f then guarded c v t d a (continue_at c v t a (fr_point f) ans)
          else bind (continue_at c v t a (fr_point f) ans) (ret \<circ> suspend t d False))"

definition resume :: "cfg \<Rightarrow> coercions \<Rightarrow> frame \<Rightarrow> answer \<Rightarrow> st \<Rightarrow> progress \<times> st" where
  "resume c v f ans s =
     (case dict_get (cfg_tasks c) (task_ref (fr_task f)) of
        None \<Rightarrow> (Completed, s)
      | Some a \<Rightarrow> with_error_path c v (fr_task f) (resume_body c v f a ans) s)"

text \<open>Which kind of answer a point waits for.\<close>

datatype answer_kind = ExprKind | StoredKind | FinalKind | TickKind | ExecKind

fun awaited :: "point \<Rightarrow> answer_kind" where
  "awaited (RunIf _ _) = ExprKind"
| "awaited (LoopCond _ _ _) = ExprKind"
| "awaited (Delay _) = TickKind"
| "awaited (ScatterYield _ _ _ _ _) = TickKind"
| "awaited ExecAction = ExecKind"
| "awaited ExecLoopStart = ExecKind"
| "awaited (ExecLoopEnd _ _ _) = ExecKind"
| "awaited (ExecGather _) = ExecKind"
| "awaited (ScatterInput _ _ _) = StoredKind"
| "awaited (GatherItem _ _ _ _ _ _) = StoredKind"
| "awaited (FinalizeEmpty _ _) = FinalKind"
| "awaited (FinalizeGather _ _ _ _ _) = FinalKind"

fun kind_of :: "answer \<Rightarrow> answer_kind" where
  "kind_of (AnsExpr _) = ExprKind"
| "kind_of (AnsStored _) = StoredKind"
| "kind_of (AnsFinal _) = FinalKind"
| "kind_of AnsTick = TickKind"
| "kind_of (AnsExec _ _) = ExecKind"

definition awaits :: "point \<Rightarrow> answer \<Rightarrow> bool" where
  "awaits p ans = (awaited p = kind_of ans)"

end
