(* ===== verification/Sched_Run.thy ===== *)
theory Sched_Run
  imports Sched_Handlers
begin

text \<open>
  The main loop of the scheduler (\<open>DSLScheduler.start\<close>) and the interleaving of the task
  coroutines it spawns. The event loop runs one coroutine at a time and switches only at awaits, so
  a run is a sequence of events: the main coroutine wakes up, a spawned coroutine takes its first
  step, a waiting one receives an answer, or, after a failure, one is cancelled.
\<close>

section \<open>Runs\<close>

datatype coroutine = Fresh task | Waiting frame | Done

datatype main_point =
    AtYield nat
  | AtWait
  | AtCancel
  | Returned "(string, exn \<times> error_info) dict option"

record run =
  state :: st
  pending :: "coroutine list"
  main :: main_point

definition discard_done_tasks :: "run \<Rightarrow> run" where
  "discard_done_tasks r = r\<lparr>pending := filter (\<lambda>p. p \<noteq> Done) (pending r)\<rparr>"

definition YIELD_EVERY :: nat where
  "YIELD_EVERY = 16"

text \<open>After the loop: with exceptions the pending coroutines are cancelled and awaited.\<close>

definition exit_loop :: "run \<Rightarrow> run" where
  "exit_loop r =
     (if task_exceptions (state r) \<noteq> [] then
        (if pending r \<noteq> [] then r\<lparr>main := AtCancel\<rparr>
         else r\<lparr>main := Returned (Some (task_exceptions (state r)))\<rparr>)
      else r\<lparr>main := Returned None\<rparr>)"

text \<open>What follows the inner loop that spawns tasks, when it ends without yielding.\<close>

definition after_spawn :: "run \<Rightarrow> run" where
  "after_spawn r =
     (if task_exceptions (state r) \<noteq> [] then exit_loop r
      else if pending r \<noteq> [] then r\<lparr>main := AtWait\<rparr>
      else exit_loop r)"

definition spawn_one :: "run \<Rightarrow> run" where
  "spawn_one r =
     (case queue (state r) of
        [] \<Rightarrow> r
      | t # q \<Rightarrow> r\<lparr>state := (state r)\<lparr>queue := q\<rparr>, pending := pending r @ [Fresh t]\<rparr>)"

function spawn :: "cfg \<Rightarrow> nat \<Rightarrow> run \<Rightarrow> run" where
  "spawn c n r =
     (if task_exceptions (state r) = [] \<and> queue (state r) \<noteq> [] \<and>
         length (pending r) < cfg_max_pending c
      then
        (let r' = spawn_one r in
         if Suc n mod YIELD_EVERY = 0 then r'\<lparr>main := AtYield (Suc n)\<rparr> else spawn c (Suc n) r')
      else after_spawn r)"
  by pat_completeness auto
termination
  by (relation "measure (\<lambda>(c, n, r). length (queue (state r)))")
    (auto simp: spawn_one_def split: list.splits)

declare spawn.simps [simp del]

definition loop_top :: "cfg \<Rightarrow> run \<Rightarrow> run" where
  "loop_top c r =
     (if task_exceptions (state r) = [] \<and> (queue (state r) \<noteq> [] \<or> pending r \<noteq> [])
      then spawn c 0 (discard_done_tasks r)
      else exit_loop r)"

text \<open>\<open>start\<close> up to its first await: the tasks without dependencies are queued.\<close>

definition entrypoints :: "st \<Rightarrow> task list" where
  "entrypoints s = map (\<lambda>((r, sid), _). mk_task r sid) (filter (\<lambda>(_, i). i = 0) (indegrees s))"

definition start :: "cfg \<Rightarrow> st \<Rightarrow> run" where
  "start c s = loop_top c \<lparr>state = s\<lparr>queue := queue s @ entrypoints s\<rparr>, pending = [], main = AtWait\<rparr>"

section \<open>Events\<close>

datatype event = MainWakes | Starts nat | Answered nat answer | Cancelled nat

fun running :: "main_point \<Rightarrow> bool" where
  "running (Returned _) = False"
| "running _ = True"

definition main_step :: "cfg \<Rightarrow> run \<Rightarrow> run option" where
  "main_step c r =
     (case main r of
        AtYield n \<Rightarrow> Some (spawn c n (discard_done_tasks r))
      | AtWait \<Rightarrow> if Done \<in> set (pending r) then Some (loop_top c r) else None
      | AtCancel \<Rightarrow>
          if set (pending r) \<subseteq> {Done}
          then Some (r\<lparr>main := Returned (Some (task_exceptions (state r)))\<rparr>) else None
      | Returned _ \<Rightarrow> None)"

fun settle :: "progress \<Rightarrow> coroutine" where
  "settle Completed = Done"
| "settle (Suspended f) = Waiting f"

definition put_coroutine :: "nat \<Rightarrow> progress \<times> st \<Rightarrow> run \<Rightarrow> run" where
  "put_coroutine i ps r = r\<lparr>pending := (pending r)[i := settle (fst ps)], state := snd ps\<rparr>"

text \<open>
  The effect of an event, if it can happen. A coroutine that is cancelled before its first step
  never runs; one that waits runs its \<open>finally\<close> block only, or still receives an answer, because
  a cancelled activity reports back as an ordinary exception.
\<close>

fun event_step :: "cfg \<Rightarrow> coercions \<Rightarrow> event \<Rightarrow> run \<Rightarrow> run option" where
  "event_step c v MainWakes r = main_step c r"
| "event_step c v (Starts i) r =
     (if i < length (pending r) \<and> running (main r) \<and> main r \<noteq> AtCancel then
        (case pending r ! i of
           Fresh t \<Rightarrow> Some (put_coroutine i (schedule_task c v t (state r)) r)
         | _ \<Rightarrow> None)
      else None)"
| "event_step c v (Answered i ans) r =
     (if i < length (pending r) \<and> running (main r) then
        (case pending r ! i of
           Waiting f \<Rightarrow>
             if awaits (fr_point f) ans then Some (put_coroutine i (resume c v f ans (state r)) r)
             else None
         | _ \<Rightarrow> None)
      else None)"
| "event_step c v (Cancelled i) r =
     (if i < length (pending r) \<and> main r = AtCancel then
        (case pending r ! i of
           Fresh t \<Rightarrow> Some (r\<lparr>pending := (pending r)[i := Done]\<rparr>)
         | Waiting f \<Rightarrow> Some (put_coroutine i (Completed, finish_task (fr_task f) (state r)) r)
         | Done \<Rightarrow> None)
      else None)"

inductive runs :: "cfg \<Rightarrow> coercions \<Rightarrow> run \<Rightarrow> event list \<Rightarrow> run \<Rightarrow> bool" for c v r0 where
  runs_refl: "runs c v r0 [] r0"
| runs_step: "runs c v r0 es r \<Longrightarrow> event_step c v e r = Some r' \<Longrightarrow> runs c v r0 (es @ [e]) r'"

inductive_cases runs_Nil: "runs c v r0 [] r"
inductive_cases runs_snoc: "runs c v r0 (es @ [e]) r"

fun run_events :: "cfg \<Rightarrow> coercions \<Rightarrow> event list \<Rightarrow> run \<Rightarrow> run option" where
  "run_events c v [] r = Some r"
| "run_events c v (e # es) r = Option.bind (event_step c v e r) (run_events c v es)"

lemma run_events_append:
  "run_events c v (xs @ ys) r = Option.bind (run_events c v xs r) (run_events c v ys)"
proof (induction xs arbitrary: r)
  case (Cons e xs)
  then show ?case by (cases "event_step c v e r") auto
qed simp

lemma runs_iff_run_events: "runs c v r0 es r \<longleftrightarrow> run_events c v es r0 = Some r"
proof
  show "runs c v r0 es r \<Longrightarrow> run_events c v es r0 = Some r"
    by (induction rule: runs.induct) (auto simp: run_events_append)
next
  show "run_events c v es r0 = Some r \<Longrightarrow> runs c v r0 es r"
  proof (induction es arbitrary: r rule: rev_induct)
    case Nil
    then show ?case by (simp add: runs_refl)
  next
    case (snoc e es)
    then show ?case by (auto simp: run_events_append bind_eq_Some_conv intro: runs_step)
  qed
qed

text \<open>An invariant of the state that every method keeps holds at every moment of every run.\<close>

lemma runs_invariant:
  assumes "runs c v r0 es r" and "I r0"
    and "\<And>e r r'. I r \<Longrightarrow> event_step c v e r = Some r' \<Longrightarrow> I r'"
  shows "I r"
  using assms by (induction rule: runs.induct) auto

end
