(* ===== verification/Sched_Queue.thy ===== *)
theory Sched_Queue
  imports Sched_Run
begin

text \<open>
  What \<open>_queue_tasks\<close> does to the state, for any stream: every outgoing edge gets its marker, the
  indegree of every successor drops by the number of edges that lead to it, and exactly the
  successors whose indegree reaches zero are queued, each once, in the stream of the task and with
  its delay.
\<close>

definition marks :: "task \<Rightarrow> edge list \<Rightarrow> string \<times> edge_type \<Rightarrow> edge_marker" where
  "marks t un n = (if out_edge t n \<in> set un then SKIPPED else VISITED)"

definition successor :: "task \<Rightarrow> string \<Rightarrow> task" where
  "successor t r = \<lparr>task_ref = r, stream_id = stream_id t, delay = delay t\<rparr>"

lemma successor_simps [simp]:
  "task_ref (successor t r) = r" "stream_id (successor t r) = stream_id t"
  "delay (successor t r) = delay t" "task_key (successor t r) = (r, stream_id t)"
  by (simp_all add: successor_def task_key_def)

lemma out_edge_inject [simp]: "out_edge t n = out_edge t m \<longleftrightarrow> n = m"
  by (cases n; cases m) (auto simp: out_edge_def)

lemma edge_stream_out_edge [simp]:
  "edge_stream (out_edge t n) = stream_id t" "edge_src (out_edge t n) = task_ref t"
  "edge_dst (out_edge t n) = fst n" "edge_type (out_edge t n) = snd n"
  by (simp_all add: out_edge_def case_prod_beta)

text \<open>The indegree of a task that is not in the dictionary yet is the number of its dependencies.\<close>

definition indegree :: "cfg \<Rightarrow> st \<Rightarrow> task_key \<Rightarrow> int option" where
  "indegree c s k =
     (case dict_get (indegrees s) k of
        Some i \<Rightarrow> Some i
      | None \<Rightarrow> map_option (\<lambda>a. int (length (depends_on a))) (dict_get (cfg_tasks c) (fst k)))"

lemma queue_next_eq:
  assumes "indegree c s (fst n, stream_id t) = Some i"
  shows "queue_next c t un n s = (Inr (),
     (let s1 = s\<lparr>edges := dict_set (out_edge t n) (marks t un n) (edges s),
                indegrees := dict_set (fst n, stream_id t) (i - 1) (indegrees s)\<rparr> in
      if i = 1 then s1\<lparr>queue := queue s @ [successor t (fst n)]\<rparr> else s1))"
  using assms
  by (auto simp: queue_next_def indegree_def Let_def task_key_def mark_edge_def marks_def
      decrement_def put_def successor_def bind_def lookup_def split: option.splits)

lemma indegree_after:
  "indegree c (s\<lparr>indegrees := dict_set k x (indegrees s)\<rparr>) k' = (if k' = k then Some x else indegree c s k')"
  by (simp add: indegree_def)

lemma indegree_cong: "indegrees s = indegrees s' \<Longrightarrow> indegree c s = indegree c s'"
  by (simp add: indegree_def fun_eq_iff)

text \<open>The number of edges from the listed ones that lead to a reference.\<close>

abbreviation edges_to :: "(string \<times> edge_type) list \<Rightarrow> string \<Rightarrow> nat" where
  "edges_to ns r \<equiv> count_list (map fst ns) r"

lemma queue_loop:
  assumes "\<forall>n \<in> set ns. \<exists>i. indegree c s (fst n, stream_id t) = Some i \<and> int (edges_to ns (fst n)) \<le> i"
  shows "\<exists>s' new. for_all (queue_next c t un) ns s = (Inr (), s') \<and>
     s' = s\<lparr>edges := edges s', indegrees := indegrees s', queue := queue s @ map (successor t) new\<rparr> \<and>
     (\<forall>e. edge_marker s' e =
        (if e \<in> out_edge t ` set ns then (if e \<in> set un then SKIPPED else VISITED) else edge_marker s e)) \<and>
     (\<forall>k. k \<notin> (\<lambda>n. (fst n, stream_id t)) ` set ns \<longrightarrow> dict_get (indegrees s') k = dict_get (indegrees s) k) \<and>
     (\<forall>n \<in> set ns. dict_get (indegrees s') (fst n, stream_id t) =
        map_option (\<lambda>i. i - int (edges_to ns (fst n))) (indegree c s (fst n, stream_id t))) \<and>
     distinct new \<and>
     set new = {r \<in> fst ` set ns. indegree c s (r, stream_id t) = Some (int (edges_to ns r))}"
  using assms
proof (induction ns arbitrary: s)
  case Nil
  show ?case by (rule exI [of _ s], rule exI [of _ "[]"]) simp
next
  case (Cons n ns)
  obtain r ty where n: "n = (r, ty)" by (cases n)
  from Cons.prems obtain i where i: "indegree c s (r, stream_id t) = Some i" and
    le: "int (edges_to (n # ns) r) \<le> i" by (auto simp: n)
  define s1 where "s1 = s\<lparr>edges := dict_set (out_edge t n) (marks t un n) (edges s),
      indegrees := dict_set (r, stream_id t) (i - 1) (indegrees s)\<rparr>"
  define s2 where "s2 = (if i = 1 then s1\<lparr>queue := queue s @ [successor t r]\<rparr> else s1)"
  have step: "queue_next c t un n s = (Inr (), s2)"
    using queue_next_eq [of c s n t i un] i by (simp add: n s1_def s2_def Let_def)
  have ind2: "indegree c s2 k = (if k = (r, stream_id t) then Some (i - 1) else indegree c s k)" for k
    by (simp add: s1_def s2_def indegree_def)
  have "\<forall>m \<in> set ns. \<exists>i. indegree c s2 (fst m, stream_id t) = Some i \<and> int (edges_to ns (fst m)) \<le> i"
    using Cons.prems le by (fastforce simp: n ind2)
  from Cons.IH [OF this] obtain s' new where
    run: "for_all (queue_next c t un) ns s2 = (Inr (), s')" and
    frame: "s' = s2\<lparr>edges := edges s', indegrees := indegrees s', queue := queue s2 @ map (successor t) new\<rparr>" and
    mk: "\<forall>e. edge_marker s' e =
        (if e \<in> out_edge t ` set ns then (if e \<in> set un then SKIPPED else VISITED) else edge_marker s2 e)" and
    other: "\<forall>k. k \<notin> (\<lambda>n. (fst n, stream_id t)) ` set ns \<longrightarrow> dict_get (indegrees s') k = dict_get (indegrees s2) k" and
    ind: "\<forall>n \<in> set ns. dict_get (indegrees s') (fst n, stream_id t) =
        map_option (\<lambda>i. i - int (edges_to ns (fst n))) (indegree c s2 (fst n, stream_id t))" and
    new: "distinct new"
      "set new = {r \<in> fst ` set ns. indegree c s2 (r, stream_id t) = Some (int (edges_to ns r))}"
    by blast
  define new' where "new' = (if i = 1 then [r] else []) @ new"
  show ?case
  proof (intro exI conjI)
    show "for_all (queue_next c t un) (n # ns) s = (Inr (), s')"
      using step run by (simp add: bind_def)
    show "s' = s\<lparr>edges := edges s', indegrees := indegrees s', queue := queue s @ map (successor t) new'\<rparr>"
      by (subst frame) (simp add: s1_def s2_def new'_def)
    show "\<forall>e. edge_marker s' e = (if e \<in> out_edge t ` set (n # ns)
        then (if e \<in> set un then SKIPPED else VISITED) else edge_marker s e)"
      using mk by (auto simp: s1_def s2_def edge_marker_def dict_get_default_def marks_def)
    show "\<forall>k. k \<notin> (\<lambda>n. (fst n, stream_id t)) ` set (n # ns) \<longrightarrow>
        dict_get (indegrees s') k = dict_get (indegrees s) k"
      using other by (auto simp: s1_def s2_def n)
    show "\<forall>m \<in> set (n # ns). dict_get (indegrees s') (fst m, stream_id t) =
        map_option (\<lambda>i. i - int (edges_to (n # ns) (fst m))) (indegree c s (fst m, stream_id t))"
    proof
      fix m assume m: "m \<in> set (n # ns)"
      show "dict_get (indegrees s') (fst m, stream_id t) =
        map_option (\<lambda>i. i - int (edges_to (n # ns) (fst m))) (indegree c s (fst m, stream_id t))"
      proof (cases "fst m \<in> fst ` set ns")
        case True
        then obtain m' where "m' \<in> set ns" "fst m' = fst m" by auto
        with ind i show ?thesis
          by (cases "fst m = r") (auto simp: ind2 n option.map_comp comp_def)
      next
        case False
        with m have mr: "fst m = r" by (auto simp: n)
        with False have "(r, stream_id t) \<notin> (\<lambda>n. (fst n, stream_id t)) ` set ns" by auto
        with other have "dict_get (indegrees s') (r, stream_id t) = Some (i - 1)"
          by (simp add: s1_def s2_def)
        moreover have "edges_to ns r = 0" using False mr by (simp add: count_list_0_iff)
        ultimately show ?thesis using mr i by (simp add: n)
      qed
    qed
    have notin: "edges_to ns r = 0 \<longleftrightarrow> r \<notin> fst ` set ns" by (simp add: count_list_0_iff)
    show "distinct new'"
      using new notin by (auto simp: new'_def ind2)
    show "set new' = {q \<in> fst ` set (n # ns). indegree c s (q, stream_id t) = Some (int (edges_to (n # ns) q))}"
      using new(2) notin le i by (auto simp: new'_def ind2 n)
  qed
qed

text \<open>The effect of \<open>_queue_tasks\<close> on the three attributes it changes.\<close>

lemma queue_tasks_effect:
  assumes "\<forall>n \<in> set (dict_get_default (cfg_adj c) (task_ref t) []). \<exists>i.
      indegree c s (fst n, stream_id t) = Some i \<and>
      int (edges_to (dict_get_default (cfg_adj c) (task_ref t) []) (fst n)) \<le> i"
  defines "ns \<equiv> dict_get_default (cfg_adj c) (task_ref t) []"
  obtains es ind new where
    "queue_tasks c t un s = (Inr (), s\<lparr>edges := es, indegrees := ind,
        queue := queue s @ map (successor t) new\<rparr>)"
    "\<And>e. dict_get_default es e PENDING =
        (if e \<in> out_edge t ` set ns then (if e \<in> set un then SKIPPED else VISITED) else edge_marker s e)"
    "\<And>k. k \<notin> (\<lambda>n. (fst n, stream_id t)) ` set ns \<Longrightarrow> dict_get ind k = dict_get (indegrees s) k"
    "\<And>n. n \<in> set ns \<Longrightarrow> dict_get ind (fst n, stream_id t) =
        map_option (\<lambda>i. i - int (edges_to ns (fst n))) (indegree c s (fst n, stream_id t))"
    "distinct new"
    "set new = {r \<in> fst ` set ns. indegree c s (r, stream_id t) = Some (int (edges_to ns r))}"
  using queue_loop [OF assms(1), of un]
proof (elim exE conjE, goal_cases)
  case (1 s' new)
  have run: "queue_tasks c t un s = (Inr (), s\<lparr>edges := edges s', indegrees := indegrees s',
        queue := queue s @ map (successor t) new\<rparr>)"
    unfolding queue_tasks_def using 1(2,3) by argo
  show ?case
  proof (rule 1(1) [OF run])
    fix e show "dict_get_default (edges s') e PENDING =
        (if e \<in> out_edge t ` set ns then (if e \<in> set un then SKIPPED else VISITED) else edge_marker s e)"
      using 1(4) unfolding ns_def edge_marker_def by (rule spec)
  next
    fix k assume "k \<notin> (\<lambda>n. (fst n, stream_id t)) ` set ns"
    then show "dict_get (indegrees s') k = dict_get (indegrees s) k"
      by (rule 1(5) [folded ns_def, THEN spec, THEN mp])
  next
    fix n assume "n \<in> set ns"
    then show "dict_get (indegrees s') (fst n, stream_id t) =
        map_option (\<lambda>i. i - int (edges_to ns (fst n))) (indegree c s (fst n, stream_id t))"
      by (rule 1(6) [folded ns_def, THEN bspec])
  next
    show "distinct new" by (rule 1(7))
    show "set new = {r \<in> fst ` set ns. indegree c s (r, stream_id t) = Some (int (edges_to ns r))}"
      by (rule 1(8) [folded ns_def])
  qed
qed

end
