(* ===== verification/Dsl_Validated.thy ===== *)
theory Dsl_Validated
  imports Dsl_Validate
begin

text \<open>
  What the validator guarantees. The walks up the scope hierarchy end and compute its reflexive
  transitive closure, the backward search computes the actions with a success path to the loop end,
  an accepted definition satisfies the rules, and a rejected one is rejected with a validation error
  and nothing else.
\<close>

section \<open>Walks up the hierarchy\<close>

definition parent_rel :: "hierarchy \<Rightarrow> (string \<times> string) set" where
  "parent_rel h = {(k, p). dict_get h k = Some (Some p)}"

lemma default_parent:
  "dict_get_default h c None = Some p \<longleftrightarrow> (c, p) \<in> parent_rel h"
  by (auto simp: dict_get_default_def parent_rel_def split: option.splits)

lemma scope_tree_position:
  assumes "scope_tree h" and "i < length h" and "(fst (h ! i), p) \<in> parent_rel h"
  shows "\<exists>j < i. fst (h ! j) = p"
proof -
  from assms(1,2) have "dict_get h (fst (h ! i)) = Some (snd (h ! i))"
    by (intro map_of_is_SomeI) (auto simp: scope_tree_def)
  with assms(3) have "snd (h ! i) = Some p" by (simp add: parent_rel_def)
  with assms(1,2) have "p \<in> set (dict_keys (take i h))" by (auto simp: scope_tree_def)
  then obtain x where x: "x \<in> set (take i h)" "fst x = p" by auto
  then obtain j where "j < length (take i h)" "take i h ! j = x" by (auto simp: in_set_conv_nth)
  with x(2) assms(2) show ?thesis by (intro exI [of _ j]) auto
qed

lemma walks_enough_fuel:
  assumes "scope_tree h" and "i < length h" and "i + 2 \<le> fuel"
  shows "\<exists>b. walk_up fuel h target (Some (fst (h ! i))) = Some b"
    and "\<exists>b. loop_walk fuel h openers target (Some (fst (h ! i))) = Some b"
proof -
  have "(\<exists>b. walk_up fuel h target (Some (fst (h ! i))) = Some b) \<and>
    (\<exists>b. loop_walk fuel h openers target (Some (fst (h ! i))) = Some b)"
    using assms(2,3)
  proof (induction i arbitrary: fuel rule: less_induct)
    case (less i)
    then obtain f where f: "fuel = Suc (Suc f)" "i \<le> f"
      by (metis add_2_eq_Suc' le_Suc_ex nat_arith.rule0 add_Suc le_add2 add.commute)
    show ?case
    proof (cases "dict_get_default h (fst (h ! i)) None")
      case None
      with f show ?thesis by auto
    next
      case (Some p)
      with scope_tree_position [OF assms(1) less.prems(1)] obtain j where
        j: "j < i" "fst (h ! j) = p" by (auto simp: default_parent)
      with less.prems f have "j < length h" "j + 2 \<le> Suc f" by auto
      with less.IH [OF j(1), of "Suc f"] j(2) Some f show ?thesis by auto
    qed
  qed
  then show "\<exists>b. walk_up fuel h target (Some (fst (h ! i))) = Some b"
    and "\<exists>b. loop_walk fuel h openers target (Some (fst (h ! i))) = Some b"
    by auto
qed

lemma walks_return:
  assumes "scope_tree h"
  shows "\<exists>b. walk_up (length h + 2) h target (Some c) = Some b"
    and "\<exists>b. loop_walk (length h + 2) h openers target (Some c) = Some b"
proof -
  have "(\<exists>b. walk_up (length h + 2) h target (Some c) = Some b) \<and>
    (\<exists>b. loop_walk (length h + 2) h openers target (Some c) = Some b)"
  proof (cases "c \<in> set (dict_keys h)")
    case True
    then obtain i where i: "i < length h" "fst (h ! i) = c" by (auto simp: in_set_conv_nth)
    then have "i + 2 \<le> length h + 2" by simp
    from walks_enough_fuel [OF assms i(1) this] show ?thesis unfolding i(2) by blast
  next
    case False
    then have "dict_get_default h c None = None"
      by (simp add: dict_get_default_def map_of_eq_None_iff [THEN iffD2])
    then show ?thesis by auto
  qed
  then show "\<exists>b. walk_up (length h + 2) h target (Some c) = Some b"
    and "\<exists>b. loop_walk (length h + 2) h openers target (Some c) = Some b"
    by auto
qed

lemma walk_up_rtrancl:
  "walk_up fuel h target c = Some b \<Longrightarrow>
     b \<longleftrightarrow> (\<exists>x. c = Some x \<and> (x, target) \<in> (parent_rel h)\<^sup>*)"
proof (induction fuel h target c rule: walk_up.induct)
  case (3 n h target c)
  show ?case
  proof (cases "c = target")
    case True
    with 3 show ?thesis by simp
  next
    case False
    have "(c, target) \<in> (parent_rel h)\<^sup>* \<longleftrightarrow>
        (\<exists>p. (c, p) \<in> parent_rel h \<and> (p, target) \<in> (parent_rel h)\<^sup>*)"
      using False by (metis converse_rtranclE converse_rtrancl_into_rtrancl)
    also have "\<dots> \<longleftrightarrow> (\<exists>p. dict_get_default h c None = Some p \<and> (p, target) \<in> (parent_rel h)\<^sup>*)"
      by (simp add: default_parent)
    finally show ?thesis using 3 False by auto
  qed
qed simp_all

lemma same_or_descendant_iff:
  assumes "is_same_or_descendant_scope scope anc h = Inr b"
  shows "b \<longleftrightarrow> (scope, anc) \<in> (parent_rel h)\<^sup>*"
proof -
  from assms have "walk_up (length h + 2) h anc (Some scope) = Some b"
    by (simp add: is_same_or_descendant_scope_def returned_def split: option.splits
      del: walk_up.simps)
  from walk_up_rtrancl [OF this] show ?thesis by simp
qed

lemma walks_raise_nothing:
  assumes "scope_tree h"
  shows "raises_only P (is_same_or_ancestor_scope a b h)"
    and "raises_only P (is_same_or_descendant_scope a b h)"
    and "raises_only P (is_loop_descendant_scope a b h openers)"
  using walks_return [OF assms]
  by (auto simp: is_same_or_ancestor_scope_def is_same_or_descendant_scope_def
    is_loop_descendant_scope_def returned_def raises_only_def split: option.splits if_splits)
    (metis option.distinct(1))+

section \<open>The backward search\<close>

definition rev_edges :: "(string, string list) dict \<Rightarrow> (string \<times> string) set" where
  "rev_edges radj = {(x, y). y \<in> set (rev_succs radj x)}"

lemma can_reach_mono: "set seen \<union> set stack \<subseteq> set (can_reach radj stack seen)"
  by (induction radj stack seen rule: can_reach.induct) auto

lemma can_reach_closed:
  "rev_edges radj `` set seen \<subseteq> set seen \<union> set stack \<Longrightarrow>
     rev_edges radj `` set (can_reach radj stack seen) \<subseteq> set (can_reach radj stack seen)"
proof (induction radj stack seen rule: can_reach.induct)
  case (2 radj x stack seen)
  then show ?case by (cases "x \<in> set seen") (auto simp: rev_edges_def)
qed auto

lemma can_reach_sound:
  "set (can_reach radj stack seen) \<subseteq> set seen \<union> (rev_edges radj)\<^sup>* `` set stack"
proof (induction radj stack seen rule: can_reach.induct)
  case (2 radj x stack seen)
  show ?case
  proof (cases "x \<in> set seen")
    case True
    with 2 show ?thesis by auto
  next
    case False
    have "(rev_edges radj)\<^sup>* `` set (rev_succs radj x) \<subseteq> (rev_edges radj)\<^sup>* `` {x}"
      by (auto simp: rev_edges_def intro: converse_rtrancl_into_rtrancl)
    with 2 False show ?thesis by auto
  qed
qed auto

lemma can_reach_rtrancl: "set (can_reach radj [r] []) = (rev_edges radj)\<^sup>* `` {r}"
proof
  show "set (can_reach radj [r] []) \<subseteq> (rev_edges radj)\<^sup>* `` {r}"
    using can_reach_sound [of radj "[r]" "[]"] by simp
  have "r \<in> set (can_reach radj [r] [])" using can_reach_mono [of "[]" "[r]" radj] by auto
  moreover have "(rev_edges radj)\<^sup>* `` set (can_reach radj [r] []) = set (can_reach radj [r] [])"
    using can_reach_closed [of radj "[]" "[r]"] by (intro Image_closed_trancl) simp
  ultimately show "(rev_edges radj)\<^sup>* `` {r} \<subseteq> set (can_reach radj [r] [])" by blast
qed

declare can_reach.simps [simp del]

text \<open>The success edges of the definition, from a dependency's source to the action.\<close>

definition success_edges :: "stmt list \<Rightarrow> (string \<times> string) set" where
  "success_edges actions =
     {(dep_src dep, ref a) | a dep. a \<in> set actions \<and> dep \<in> set (depends_on a) \<and> dep_type dep = SUCCESS}"

lemma distinct_adjacency:
  assumes "adjacency_with f actions = Inr adj"
  shows "distinct (dict_keys adj)"
proof -
  have "distinct (dict_keys (empty_adjacency actions :: (string, 'a list) dict))"
  proof -
    have "distinct (dict_keys d) \<Longrightarrow> distinct (dict_keys (fold (\<lambda>a d. dict_set (ref a) [] d) actions d))"
      for d :: "(string, 'a list) dict"
      by (induction actions arbitrary: d) auto
    then show ?thesis by (simp add: empty_adjacency_def)
  qed
  then show ?thesis
    by (rule fold_result_invariant [where I = "\<lambda>d. distinct (dict_keys d)",
          OF assms [unfolded adjacency_with_def fold_result_nested]])
      (auto simp: rbind_Inr_iff adj_append_def)
qed

lemma add_reverse_edge_succs:
  assumes a: "add_reverse_edge src e d = Inr d'"
  shows "set (rev_succs d' x) = set (rev_succs d x) \<union> (if e = (x, SUCCESS) then {src} else {})"
proof -
  obtain dst t where e: "e = (dst, t)" by (cases e)
  show ?thesis
  proof (cases t)
    case SUCCESS
    with a e obtain xs where xs: "dict_get d dst = Some xs" "d' = dict_set dst (set_add src xs) d"
      by (auto simp: add_reverse_edge_def rbind_Inr_iff getitem_Inr)
    have "rev_succs d dst = xs" "rev_succs d' x = (if x = dst then set_add src xs else rev_succs d x)"
      using xs by (simp_all add: rev_succs_def dict_get_default_def)
    with e SUCCESS show ?thesis by auto
  next
    case ERROR
    with a e show ?thesis by (simp add: add_reverse_edge_def)
  qed
qed

lemma rev_fold_get:
  "fold_result (\<lambda>(src, e). add_reverse_edge src e) ps d = Inr d' \<Longrightarrow>
     set (rev_succs d' x) = set (rev_succs d x) \<union> {src. (src, (x, SUCCESS)) \<in> set ps}"
proof (induction ps arbitrary: d)
  case (Cons p ps)
  then obtain src e u where "p = (src, e)" "add_reverse_edge src e d = Inr u"
    "fold_result (\<lambda>(src, e). add_reverse_edge src e) ps u = Inr d'"
    by (cases p) (auto simp: rbind_Inr_iff)
  with Cons.IH add_reverse_edge_succs show ?case by (fastforce split: if_splits)
qed simp

lemma typed_succs_success:
  "(x, SUCCESS) \<in> set (succs_with Pair actions y) \<longleftrightarrow> (y, x) \<in> success_edges actions"
proof
  assume "(x, SUCCESS) \<in> set (succs_with Pair actions y)"
  then obtain a dep where "a \<in> set actions" "dep \<in> set (depends_on a)" "dep_src dep = y"
    "(x, SUCCESS) = (ref a, dep_type dep)"
    by (auto simp: succs_with_def)
  then show "(y, x) \<in> success_edges actions" unfolding success_edges_def by fastforce
next
  assume "(y, x) \<in> success_edges actions"
  then obtain a dep where a: "a \<in> set actions" "dep \<in> set (depends_on a)" "dep_src dep = y"
    "x = ref a" "dep_type dep = SUCCESS"
    by (auto simp: success_edges_def)
  let ?f = "\<lambda>a. map (\<lambda>dep. (ref a, dep_type dep)) (filter (\<lambda>dep. dep_src dep = y) (depends_on a))"
  from a have "(x, SUCCESS) \<in> set (?f a)"
    by (simp add: image_iff) metis
  moreover from a(1) have "?f a \<in> set (map ?f actions)" by simp
  ultimately show "(x, SUCCESS) \<in> set (succs_with Pair actions y)"
    unfolding succs_with_def set_concat by (rule UN_I [rotated])
qed

lemma rev_succs_success:
  assumes "reverse_success_adj actions = Inr radj"
  shows "y \<in> set (rev_succs radj x) \<longleftrightarrow> (y, x) \<in> success_edges actions"
proof -
  from assms obtain adj where adj: "adjacency_with Pair actions = Inr adj"
    and fold: "fold_result (\<lambda>(src, e). add_reverse_edge src e)
      (concat (map (\<lambda>(src, es). map (Pair src) es) adj)) (empty_adjacency actions) = Inr radj"
    by (auto simp: reverse_success_adj_def to_typed_adjacency_def rbind_Inr_iff fold_result_pairs)
  have "rev_succs (empty_adjacency actions) x = []"
    by (simp add: rev_succs_def dict_get_default_def empty_adjacency_def empty_adjacency_get)
  with rev_fold_get [OF fold, of x] have
    "y \<in> set (rev_succs radj x) \<longleftrightarrow> (\<exists>es. (y, es) \<in> set adj \<and> (x, SUCCESS) \<in> set es)"
    by auto
  also have "\<dots> \<longleftrightarrow> (x, SUCCESS) \<in> set (dict_get_default adj y [])"
    using distinct_adjacency [OF adj]
    by (auto simp: dict_get_default_def split: option.splits dest: map_of_SomeD)
  also have "\<dots> \<longleftrightarrow> (y, x) \<in> success_edges actions"
    unfolding adjacency_get(1) [OF adj] by (rule typed_succs_success)
  finally show ?thesis .
qed

section \<open>Scope openers\<close>

definition openers_inv :: "stmt list \<Rightarrow> scope_state \<Rightarrow> bool" where
  "openers_inv actions s \<longleftrightarrow>
     (\<forall>a \<in> set actions. ref a \<in> set (visited s) \<and> is_scope_opener (action a) \<longrightarrow>
        dict_get (sc_openers s) (ref a) = Some (action a)) \<and>
     (\<forall>k act. dict_get (sc_openers s) k = Some act \<longrightarrow>
        (\<exists>a \<in> set actions. ref a = k \<and> action a = act \<and> is_scope_opener act))"

lemma lookup_stmt:
  assumes "distinct (map ref actions)"
  shows "getitem (map (\<lambda>a. (ref a, a)) (rev actions)) r = Inr st \<longleftrightarrow> st \<in> set actions \<and> ref st = r"
proof -
  have "distinct (dict_keys (map (\<lambda>a. (ref a, a)) (rev actions)))"
    using assms by (simp add: comp_def rev_map [symmetric])
  then show ?thesis by (auto simp: getitem_Inr map_of_eq_Some_iff)
qed

lemma enter_scope_openers:
  assumes ent: "enter_scope st r cur s = Inr (n, s')" and inv: "openers_inv actions s"
    and st: "st \<in> set actions" "ref st = r" and d: "distinct (map ref actions)"
    and r: "r \<notin> set (visited s)"
  shows "openers_inv actions s'"
proof -
  have eq: "a = st" if "a \<in> set actions" "ref a = r" for a
    using d st that by (auto simp: distinct_map inj_on_def)
  have vis: "visited s' = visited s @ [r]" using enter_scope_visited [OF ent r] .
  show ?thesis
  proof (cases "is_scope_opener (action st)")
    case True
    with ent have "sc_openers s' = dict_set r (action st) (sc_openers s)"
      by (auto simp: enter_scope_def rbind_Inr_iff dest: assign_scope_frame)
    then have get: "dict_get (sc_openers s') k =
        (if k = r then Some (action st) else dict_get (sc_openers s) k)" for k
      by simp
    have "dict_get (sc_openers s') (ref a) = Some (action a)"
      if "a \<in> set actions" "ref a \<in> set (visited s')" "is_scope_opener (action a)" for a
      using inv vis that eq [of a] by (auto simp: get openers_inv_def)
    moreover have "\<exists>a \<in> set actions. ref a = k \<and> action a = act \<and> is_scope_opener act"
      if "dict_get (sc_openers s') k = Some act" for k act
      using inv that True st by (cases "k = r") (auto simp: get openers_inv_def)
    ultimately show ?thesis unfolding openers_inv_def by blast
  next
    case False
    with ent have "sc_openers s' = sc_openers s"
      by (auto simp: enter_scope_def rbind_Inr_iff dest: assign_scope_frame split: if_splits option.splits)
    with inv False vis eq show ?thesis by (auto simp: openers_inv_def)
  qed
qed

lemma openers_inv_loop:
  assumes "assign_loop actions adj s = Inr s'" and "walk_inv actions s" and "openers_inv actions s"
    and "distinct (map ref actions)"
    and "\<And>r. dict_get_default adj r [] = succs_with (\<lambda>r _. r) actions r"
  shows "openers_inv actions s'"
  using assms
proof (induction actions adj s rule: assign_loop.induct)
  case (1 actions adj s)
  show ?case
  proof (cases "sc_queue s")
    case Nil
    with 1 show ?thesis by (simp add: assign_loop.simps [of actions adj s])
  next
    case (Cons rc q)
    obtain r cur where rc: "rc = (r, cur)" by (cases rc)
    from "1.prems"(1) Cons rc obtain u where
      u: "scope_step actions adj r cur (s\<lparr>sc_queue := q\<rparr>) = Inr u" "assign_loop actions adj u = Inr s'"
      by (auto simp: assign_loop.simps [of actions adj s] rbind_Inr_iff)
    have wu: "walk_inv actions u"
      using walk_inv_step [OF "1.prems"(2) Cons [unfolded rc] u(1) "1.prems"(4,5)] by simp
    have r: "r \<notin> set (visited s)" using "1.prems"(2) Cons rc by (auto simp: walk_inv_def)
    let ?s = "s\<lparr>sc_queue := q, sc_visited := Suc (sc_visited s)\<rparr>"
    from u(1) obtain st n w where st: "getitem (map (\<lambda>a. (ref a, a)) (rev actions)) r = Inr st"
      and ent: "enter_scope st r cur ?s = Inr (n, w)"
      and rel: "release n (dict_get_default adj r []) w = Inr u"
      by (auto simp: scope_step_def rbind_Inr_iff)
    have "openers_inv actions w"
      by (rule enter_scope_openers [OF ent]) (use "1.prems"(3,4) st r lookup_stmt in
        \<open>auto simp: openers_inv_def\<close>)
    then have "openers_inv actions u"
      using release_frame [OF rel] by (simp add: openers_inv_def)
    with "1.IH" [OF Cons rc [symmetric] u(1)] u(2) wu "1.prems"(4,5) show ?thesis by auto
  qed
qed

section \<open>Accepted definitions\<close>

lemma validate_structure_wf:
  assumes "validate_structure actions = Inr ()"
  shows "wf_deps actions" and "actions \<noteq> []" and "\<exists>a \<in> set actions. depends_on a = []"
    and "a \<in> set actions \<Longrightarrow> (field, deps) \<in> set (expr_refs a) \<Longrightarrow> set deps \<subseteq> ref ` set actions"
    and "validate_scatter_gather_scopes actions = Inr ()"
proof -
  from assms show "actions \<noteq> []" by (auto simp: validate_structure_def)
  from assms show "\<exists>a \<in> set actions. depends_on a = []"
    by (auto simp: validate_structure_def filter_empty_conv split: if_splits)
  from assms have ok: "distinct (map ref actions)" "\<forall>a \<in> set actions. check_dep_syntax a = Inr ()"
      "\<forall>a \<in> set actions. \<forall>dep \<in> set (depends_on a). dep_src dep \<in> ref ` set actions"
      "all_action_expressions_valid actions = Inr ()" "validate_scatter_gather_scopes actions = Inr ()"
    by (auto simp: validate_structure_def result_simps split: if_splits)
  then show "validate_scatter_gather_scopes actions = Inr ()" by simp
  from ok(1,2,3) show "wf_deps actions"
    by (fastforce simp: wf_deps_def check_dep_syntax_def result_simps components_def split: sum.splits)
  from ok(4) show "a \<in> set actions \<Longrightarrow> (field, deps) \<in> set (expr_refs a) \<Longrightarrow>
      set deps \<subseteq> ref ` set actions"
    by (fastforce simp: all_action_expressions_valid_def result_simps)
qed

lemma loop_end_fold:
  assumes "fold_result (\<lambda>a d.
       rbind (resolve_closed_loop_scope a scopes h openers) (\<lambda>sc.
         case dict_get d sc of
           Some existing \<Rightarrow> Inl (Dsl (MultipleLoopEnds sc existing (ref a)))
         | None \<Rightarrow> Inr (dict_set sc (ref a) d))) es d = Inr d'"
  shows "(\<forall>e \<in> set es. \<exists>sc. resolve_closed_loop_scope e scopes h openers = Inr sc \<and>
      dict_get d' sc = Some (ref e)) \<and>
    (\<forall>sc r. dict_get d sc = Some r \<longrightarrow> dict_get d' sc = Some r) \<and>
    (\<forall>sc r. dict_get d' sc = Some r \<longrightarrow> dict_get d sc = Some r \<or>
      (\<exists>e \<in> set es. ref e = r \<and> resolve_closed_loop_scope e scopes h openers = Inr sc))"
  using assms
proof (induction es arbitrary: d)
  case (Cons e es)
  then obtain sc where sc: "resolve_closed_loop_scope e scopes h openers = Inr sc"
      "dict_get d sc = None"
    and rest: "fold_result (\<lambda>a d.
       rbind (resolve_closed_loop_scope a scopes h openers) (\<lambda>sc.
         case dict_get d sc of
           Some existing \<Rightarrow> Inl (Dsl (MultipleLoopEnds sc existing (ref a)))
         | None \<Rightarrow> Inr (dict_set sc (ref a) d))) es (dict_set sc (ref e) d) = Inr d'"
    by (auto simp: rbind_Inr_iff split: option.splits)
  have upd: "dict_get (dict_set sc (ref e) d) sc = Some (ref e)"
    "\<And>sc' r. dict_get d sc' = Some r \<Longrightarrow> dict_get (dict_set sc (ref e) d) sc' = Some r"
    using sc(2) by auto
  note IH = Cons.IH [OF rest]
  have "\<exists>sc. resolve_closed_loop_scope x scopes h openers = Inr sc \<and> dict_get d' sc = Some (ref x)"
    if "x \<in> set (e # es)" for x
    using IH sc(1) upd(1) that by auto
  moreover have "dict_get d sc' = Some r \<Longrightarrow> dict_get d' sc' = Some r" for sc' r
    using IH upd(2) by blast
  moreover have "dict_get d sc' = Some r \<or>
      (\<exists>x \<in> set (e # es). ref x = r \<and> resolve_closed_loop_scope x scopes h openers = Inr sc')"
    if "dict_get d' sc' = Some r" for sc' r
  proof -
    from IH that have "dict_get (dict_set sc (ref e) d) sc' = Some r \<or>
        (\<exists>x \<in> set es. ref x = r \<and> resolve_closed_loop_scope x scopes h openers = Inr sc')"
      by blast
    with sc(1) show ?thesis by (auto split: if_splits)
  qed
  ultimately show ?case by blast
qed simp

lemma resolve_closed_opener:
  "resolve_closed_loop_scope a scopes h openers = Inr sc \<Longrightarrow> dict_get openers sc = Some LOOP_START"
  by (auto simp: resolve_closed_loop_scope_def rbind_Inr_iff split: option.splits if_splits)

lemma validated_scopes:
  assumes "validate_scatter_gather_scopes actions = Inr ()"
    and "\<exists>a \<in> set actions. is_scope_opener (action a)"
  obtains adj scopes h openers where "to_adjacency actions = Inr adj"
    "assign_action_scopes actions adj = Inr (scopes, h, openers)"
    "validate_scope_dependencies actions scopes h openers = Inr ()"
    "validate_loop_scope_synchronization actions scopes h openers = Inr ()"
proof -
  from assms(2) have "\<not> (count_actions TRANSFORM_SCATTER actions = 0 \<and> count_actions LOOP_START actions = 0)"
    by (auto simp: count_actions_def is_scope_opener_def filter_empty_conv)
  with assms(1) that show thesis
    by (auto simp: validate_scatter_gather_scopes_def rbind_Inr_iff split: if_splits)
qed

text \<open>
  Every loop of an accepted definition is closed by exactly one loop end, and every action of its
  region has a success path to it.
\<close>

lemma loop_synchronized:
  assumes sync: "validate_loop_scope_synchronization actions scopes h openers = Inr ()"
    and op: "dict_get openers l = Some LOOP_START"
  shows "\<exists>e \<in> set actions. action e = LOOP_END \<and>
     resolve_closed_loop_scope e scopes h openers = Inr l \<and>
     (\<forall>e' \<in> set actions. action e' = LOOP_END \<longrightarrow>
        resolve_closed_loop_scope e' scopes h openers = Inr l \<longrightarrow> ref e' = ref e) \<and>
     (\<forall>r sc. (r, sc) \<in> set scopes \<longrightarrow> (sc, l) \<in> (parent_rel h)\<^sup>* \<longrightarrow>
        (r, ref e) \<in> (success_edges actions)\<^sup>*)"
proof -
  let ?loops = "map fst (filter (\<lambda>(_, opener). opener = LOOP_START) openers)"
  have l: "l \<in> set ?loops" using map_of_SomeD [OF op] by force
  then have "?loops \<noteq> []" by (metis empty_iff empty_set)
  with sync obtain ends radj where ends: "loop_end_by_scope actions scopes h openers = Inr ends"
    and miss: "sort (filter (\<lambda>s. dict_get ends s = None) ?loops) = []"
    and radj: "reverse_success_adj actions = Inr radj"
    and chk: "\<forall>p \<in> set ends. check_synchronized radj scopes h p = Inr ()"
    by (auto simp: validate_loop_scope_synchronization_def Let_def rbind_Inr_iff for_each_Inr
      split: list.splits if_splits)
  note fold = loop_end_fold [OF ends [unfolded loop_end_by_scope_def]]
  have "set (filter (\<lambda>s. dict_get ends s = None) ?loops) = {}"
    using arg_cong [OF miss, of set] by (simp only: set_sort list.set)
  then have "filter (\<lambda>s. dict_get ends s = None) ?loops = []"
    by (simp only: set_empty)
  with l obtain er where er: "dict_get ends l = Some er"
    by (auto simp: filter_empty_conv)
  with fold obtain e where e: "e \<in> set actions" "action e = LOOP_END" "ref e = er"
    "resolve_closed_loop_scope e scopes h openers = Inr l"
    by (simp add: loop_ends_def) blast
  have uniq: "ref e' = er" if "e' \<in> set actions" "action e' = LOOP_END"
    "resolve_closed_loop_scope e' scopes h openers = Inr l" for e'
  proof -
    from that(1,2) have "e' \<in> set (loop_ends actions)" by (simp add: loop_ends_def)
    with fold obtain sc where "resolve_closed_loop_scope e' scopes h openers = Inr sc"
      "dict_get ends sc = Some (ref e')" by blast
    with that(3) er show ?thesis by simp
  qed
  have path: "(r, er) \<in> (success_edges actions)\<^sup>*"
    if r: "(r, sc) \<in> set scopes" "(sc, l) \<in> (parent_rel h)\<^sup>*" for r sc
  proof -
    from chk er have "check_synchronized radj scopes h (l, er) = Inr ()"
      by (blast dest: map_of_SomeD)
    with r(1) have "rbind (is_same_or_descendant_scope sc l h) (\<lambda>inside.
        raise_if (inside \<and> r \<notin> set (can_reach radj [er] [])) (Dsl (Unsynchronized l er))) = Inr ()"
      by (fastforce simp: check_synchronized_def Let_def for_each_Inr)
    then obtain b where b: "is_same_or_descendant_scope sc l h = Inr b"
      "\<not> (b \<and> r \<notin> set (can_reach radj [er] []))"
      by (auto simp: rbind_Inr_iff raise_if_Inr)
    with same_or_descendant_iff r(2) have "r \<in> set (can_reach radj [er] [])" by blast
    then have "(er, r) \<in> (rev_edges radj)\<^sup>*" by (simp add: can_reach_rtrancl)
    moreover have "rev_edges radj = (success_edges actions)\<inverse>"
      using rev_succs_success [OF radj] by (auto simp: rev_edges_def)
    ultimately show ?thesis by (simp add: rtrancl_converse)
  qed
  from e uniq path show ?thesis by (intro bexI [of _ e]) auto
qed

lemma openers_of_assignment:
  assumes "to_adjacency actions = Inr adj" and "distinct (map ref actions)"
    and "assign_action_scopes actions adj = Inr (scopes, h, openers)"
    and "a \<in> set actions" and "is_scope_opener (action a)"
  shows "dict_get openers (ref a) = Some (action a)"
proof -
  from assms(3) obtain s where s: "assign_loop actions adj (init_scopes actions) = Inr s"
    and eq: "scopes = sc_scopes s" "openers = sc_openers s"
    by (auto simp: assign_action_scopes_def rbind_Inr_iff split: if_splits)
  have "openers_inv actions (init_scopes actions)"
    by (simp add: openers_inv_def init_scopes_def)
  with s have "openers_inv actions s"
    using openers_inv_loop walk_inv_init assms(1,2) to_adjacency_succs by blast
  moreover have "ref a \<in> set (visited s)"
    using assign_action_scopes_topological(2) [OF assms(1,2,3)] assms(4) eq by auto
  ultimately show ?thesis using assms(4,5) eq by (auto simp: openers_inv_def)
qed

section \<open>Rejected definitions\<close>

text \<open>The validator raises its own error and nothing else.\<close>

definition is_dsl :: "dsl_exn \<Rightarrow> bool" where
  "is_dsl e \<longleftrightarrow> (\<exists>d. e = Dsl d)"

lemma is_dsl_Dsl [simp]: "is_dsl (Dsl d)"
  by (simp add: is_dsl_def)

abbreviation dsl_only :: "dsl_exn + 'a \<Rightarrow> bool" where
  "dsl_only \<equiv> raises_only is_dsl"

lemma dsl_only_getitem [simp]: "dict_get d k = Some v \<Longrightarrow> dsl_only (getitem d k)"
  by (simp add: getitem_def)

lemma dsl_only_getitem_key: "k \<in> set (dict_keys d) \<Longrightarrow> dsl_only (getitem d k)"
  by (cases "dict_get d k") (auto simp: map_of_eq_None_iff)

text \<open>The facts about an assignment of scopes that make every look-up of the checks succeed.\<close>

definition scopes_ok :: "stmt list \<Rightarrow> (string, string) dict \<Rightarrow> hierarchy \<Rightarrow> bool" where
  "scopes_ok actions scopes h \<longleftrightarrow> wf_deps actions \<and> scope_tree h \<and>
     distinct (dict_keys scopes) \<and> set (dict_keys scopes) = ref ` set actions \<and>
     snd ` set scopes \<subseteq> set (dict_keys h)"

lemma scopes_ok_get:
  assumes "scopes_ok actions scopes h" and "r \<in> ref ` set actions"
  obtains sc where "dict_get scopes r = Some sc" and "sc \<in> set (dict_keys h)"
proof -
  from assms have "r \<in> dom (dict_get scopes)"
    by (simp add: scopes_ok_def dom_map_of_conv_image_fst)
  then obtain sc where sc: "dict_get scopes r = Some sc" by auto
  then have "sc \<in> snd ` set scopes" by (auto dest: map_of_SomeD intro: rev_image_eqI)
  with assms have "sc \<in> set (dict_keys h)" by (auto simp: scopes_ok_def)
  with sc that show thesis by blast
qed

lemma scope_of_dep_ok:
  assumes "scopes_ok actions scopes h" and "a \<in> set actions" and "dep \<in> set (depends_on a)"
  obtains sc where "scope_of_dep scopes dep = Inr sc" and "sc \<in> set (dict_keys h)"
    and "dict_get scopes (dep_src dep) = Some sc"
proof -
  from assms have "\<exists>c. components dep = Inr c" and in_refs: "dep_src dep \<in> ref ` set actions"
    unfolding scopes_ok_def wf_deps_def by blast+
  then obtain src t where c: "components dep = Inr (src, t)" by auto
  note in_refs
  moreover from components_Inr [OF c] have "dep_src dep = src" by simp
  ultimately obtain sc where "dict_get scopes src = Some sc" "sc \<in> set (dict_keys h)"
    using scopes_ok_get [OF assms(1), of src] by metis
  with c that \<open>dep_src dep = src\<close> show thesis by (simp add: scope_of_dep_def getitem_def)
qed

lemma resolve_dsl_only:
  assumes "scopes_ok actions scopes h" and "a \<in> set actions"
  shows "dsl_only (resolve_closed_loop_scope a scopes h openers)"
proof -
  from scopes_ok_get [OF assms(1), of "ref a"] assms(2) obtain sc where
    "dict_get scopes (ref a) = Some sc" by auto
  moreover have "dsl_only (map_result (scope_of_dep scopes) (depends_on a))"
    using scope_of_dep_ok [OF assms] by (intro raises_only_map_result) (metis raises_only_simps(1))
  ultimately show ?thesis
    unfolding resolve_closed_loop_scope_def
    by (auto intro!: raises_only_bind split: option.splits)
qed

lemma closed_loop_scopes_ok:
  assumes "scopes_ok actions scopes h"
  shows "dsl_only (closed_loop_scopes actions scopes h openers)"
    and "closed_loop_scopes actions scopes h openers = Inr d \<Longrightarrow> a \<in> set actions \<Longrightarrow>
      action a = LOOP_END \<Longrightarrow> ref a \<in> set (dict_keys d)"
proof -
  show "dsl_only (closed_loop_scopes actions scopes h openers)"
    unfolding closed_loop_scopes_def
    by (rule raises_only_fold_result [where I = "\<lambda>_. True"])
      (auto simp: loop_ends_def intro!: raises_only_bind resolve_dsl_only [OF assms])
  have "fold_result (\<lambda>a d. rbind (resolve_closed_loop_scope a scopes h openers)
         (\<lambda>sc. Inr (dict_set (ref a) sc d))) es d0 = Inr d \<Longrightarrow>
      ref ` set es \<union> set (dict_keys d0) \<subseteq> set (dict_keys d)" for es d0
  proof (induction es arbitrary: d0)
    case (Cons e es)
    then obtain sc where "fold_result (\<lambda>a d. rbind (resolve_closed_loop_scope a scopes h openers)
         (\<lambda>sc. Inr (dict_set (ref a) sc d))) es (dict_set (ref e) sc d0) = Inr d"
      by (auto simp: rbind_Inr_iff)
    from Cons.IH [OF this] show ?case by (simp only: dict_keys_set) auto
  qed simp
  from this [of "loop_ends actions" "[]"]
  show "closed_loop_scopes actions scopes h openers = Inr d \<Longrightarrow> a \<in> set actions \<Longrightarrow>
      action a = LOOP_END \<Longrightarrow> ref a \<in> set (dict_keys d)"
    by (auto simp: closed_loop_scopes_def loop_ends_def)
qed

lemma check_edge_dsl_only:
  assumes "scopes_ok actions scopes h" and "a \<in> set actions" and "dep \<in> set (depends_on a)"
    and "asc \<in> set (dict_keys h)" and "action a = LOOP_END \<Longrightarrow> ref a \<in> set (dict_keys le)"
  shows "dsl_only (check_edge a asc scopes h openers le dep)"
proof -
  from scope_of_dep_ok [OF assms(1,2,3)] obtain sc where
    sc: "scope_of_dep scopes dep = Inr sc" "sc \<in> set (dict_keys h)" by metis
  with dsl_only_getitem_key [OF assms(4)] dsl_only_getitem_key [OF sc(2)]
    dsl_only_getitem_key [OF assms(5)]
  show ?thesis
    unfolding check_edge_def by (auto intro!: raises_only_bind)
qed

lemma check_expr_dsl_only:
  assumes "scopes_ok actions scopes h" and "dep \<in> ref ` set actions"
    and "asc \<in> set (dict_keys h)" and "action a = LOOP_END \<Longrightarrow> ref a \<in> set (dict_keys le)"
  shows "dsl_only (check_expr a asc scopes h openers le field dep)"
proof -
  from scopes_ok_get [OF assms(1,2)] obtain sc where
    sc: "dict_get scopes dep = Some sc" "sc \<in> set (dict_keys h)" by metis
  moreover have "scope_tree h" using assms(1) by (simp add: scopes_ok_def)
  note walks_raise_nothing [OF this, simp]
  note dsl_only_getitem_key [OF assms(3), simp] dsl_only_getitem_key [OF sc(2), simp]
    dsl_only_getitem_key [OF assms(4), simp]
  show ?thesis
    unfolding check_expr_def getitem_Inr [THEN iffD2, OF sc(1)] rbind_simps
    by (auto intro!: raises_only_bind)
qed

lemma validate_scope_dependencies_dsl_only:
  assumes ok: "scopes_ok actions scopes h"
    and exprs: "\<And>a field deps. a \<in> set actions \<Longrightarrow> (field, deps) \<in> set (expr_refs a) \<Longrightarrow>
      set deps \<subseteq> ref ` set actions"
  shows "dsl_only (validate_scope_dependencies actions scopes h openers)"
  unfolding validate_scope_dependencies_def
proof (rule raises_only_bind [OF closed_loop_scopes_ok(1) [OF ok]], rule raises_only_for_each)
  fix le a assume le: "closed_loop_scopes actions scopes h openers = Inr le" and a: "a \<in> set actions"
  from scopes_ok_get [OF ok, of "ref a"] a obtain sc where
    sc: "dict_get scopes (ref a) = Some sc" "sc \<in> set (dict_keys h)" by auto
  note key = closed_loop_scopes_ok(2) [OF ok le a]
  have "dsl_only (for_each (check_edge a sc scopes h openers le) (depends_on a))"
    using check_edge_dsl_only [OF ok a _ sc(2) key] by (intro raises_only_for_each) auto
  moreover have "dsl_only (check_expr a sc scopes h openers le f x)"
    if "(f, b) \<in> set (expr_refs a)" "x \<in> set b" for f b x
    using check_expr_dsl_only [OF ok _ sc(2) key] exprs [OF a that(1)] that(2) by blast
  then have "dsl_only (for_each (\<lambda>(field, deps).
      for_each (check_expr a sc scopes h openers le field) deps) (expr_refs a))"
    by (auto intro!: raises_only_for_each)
  ultimately show "dsl_only (rbind (getitem scopes (ref a)) (\<lambda>action_scope.
         rbind (for_each (check_edge a action_scope scopes h openers le) (depends_on a)) (\<lambda>_.
           for_each (\<lambda>(field, deps).
             for_each (check_expr a action_scope scopes h openers le field) deps) (expr_refs a))))"
    using sc by (auto simp: getitem_def intro!: raises_only_bind)
qed

lemma adjacency_returns:
  assumes "wf_deps actions"
  shows "\<exists>adj. adjacency_with f actions = Inr adj"
proof -
  have "raises_only (\<lambda>_. False) (adjacency_with f actions)"
    unfolding adjacency_with_def fold_result_nested
  proof (rule raises_only_fold_result [where I = "\<lambda>d. dom (dict_get d) = ref ` set actions"])
    show "dom (dict_get (empty_adjacency actions)) = ref ` set actions"
      by (auto simp: empty_adjacency_def empty_adjacency_get dom_def)
  next
    fix p and s :: "(string, 'a list) dict"
    assume p: "p \<in> set (concat (map (\<lambda>a. map (Pair a) (depends_on a)) actions))"
      and dom: "dom (dict_get s) = ref ` set actions"
    obtain a dep where [simp]: "p = (a, dep)" by (cases p)
    from p assms have "\<exists>c. components dep = Inr c" "dep_src dep \<in> dom (dict_get s)"
      unfolding dom wf_deps_def by auto
    then obtain src t xs where "components dep = Inr (src, t)" "dict_get s src = Some xs"
      using components_Inr by fastforce
    then show "raises_only (\<lambda>_. False) ((case p of (a, dep) \<Rightarrow> \<lambda>d.
        rbind (components dep) (\<lambda>(src, t). adj_append src (f (ref a) t) d)) s)"
      by (simp add: adj_append_def getitem_def)
  next
    fix p and s t :: "(string, 'a list) dict"
    assume dom: "dom (dict_get s) = ref ` set actions"
      and s: "(case p of (a, dep) \<Rightarrow> \<lambda>d.
        rbind (components dep) (\<lambda>(src, t). adj_append src (f (ref a) t) d)) s = Inr t"
    then obtain src xs ys where "dict_get s src = Some xs" "t = dict_set src ys s"
      by (cases p) (auto simp: rbind_Inr_iff adj_append_def getitem_Inr)
    then have "dom (dict_get t) = dom (dict_get s)" by auto
    with dom show "dom (dict_get t) = ref ` set actions" by simp
  qed
  then show ?thesis by (cases "adjacency_with f actions") auto
qed

lemma assign_loop_dsl_only:
  assumes "walk_inv actions s" and "distinct (map ref actions)"
    and "\<And>r. dict_get_default adj r [] = succs_with (\<lambda>r _. r) actions r"
  shows "dsl_only (assign_loop actions adj s)"
  using assms
proof (induction actions adj s rule: assign_loop.induct)
  case (1 actions adj s)
  show ?case
  proof (cases "sc_queue s")
    case Nil
    then show ?thesis by (simp add: assign_loop.simps [of actions adj s])
  next
    case (Cons rc q)
    obtain r cur where rc: "rc = (r, cur)" by (cases rc)
    have "r \<in> ref ` set actions" using "1.prems"(1) Cons rc by (auto simp: walk_inv_def)
    then obtain st where st: "getitem (map (\<lambda>a. (ref a, a)) (rev actions)) r = Inr st"
      using lookup_stmt [OF "1.prems"(2)] by (metis imageE)
    have rel: "dsl_only (release n ns t)"
      if "set ns \<subseteq> dom (dict_get (sc_indegrees t))" for n ns t
      using that by (induction n ns t rule: release.induct) (auto simp: subset_insertI2 split: option.splits)
    have ent: "dsl_only (enter_scope st r cur t)" for t
      by (auto simp: enter_scope_def assign_scope_def intro!: raises_only_bind split: option.splits)
    have "set (succs_with (\<lambda>r _. r) actions r) \<subseteq> dom (dict_get (sc_indegrees s))"
      using "1.prems"(1) by (auto simp: succs_with_def walk_inv_def)
    then have step: "dsl_only (scope_step actions adj r cur (s\<lparr>sc_queue := q\<rparr>))"
      unfolding scope_step_def st rbind_simps "1.prems"(3)
      by (auto intro!: raises_only_bind ent rel dest!: enter_scope_frame)
    have "dsl_only (assign_loop actions adj u)"
      if "scope_step actions adj r cur (s\<lparr>sc_queue := q\<rparr>) = Inr u" for u
      using "1.IH" [OF Cons rc [symmetric] that] "1.prems"(2,3)
        walk_inv_step [OF "1.prems"(1) Cons [unfolded rc] that "1.prems"(2,3)] by blast
    with step Cons rc show ?thesis
      by (auto simp: assign_loop.simps [of actions adj s] intro!: raises_only_bind)
  qed
qed

lemma reverse_success_adj_returns:
  assumes wf: "wf_deps actions"
  shows "\<exists>radj. reverse_success_adj actions = Inr radj"
proof -
  from adjacency_returns [OF wf] obtain adj where adj: "adjacency_with Pair actions = Inr adj" by blast
  let ?ps = "concat (map (\<lambda>(src, es). map (Pair src) es) adj)"
  have dst: "dst \<in> ref ` set actions" if "(src, (dst, t)) \<in> set ?ps" for src dst t
  proof -
    from that obtain es where "(src, es) \<in> set adj" "(dst, t) \<in> set es" by auto
    with distinct_adjacency [OF adj] have "(dst, t) \<in> set (dict_get_default adj src [])"
      by (simp add: dict_get_default_def)
    then show ?thesis
      unfolding adjacency_get(1) [OF adj] by (auto simp: succs_with_def)
  qed
  have "raises_only (\<lambda>_. False) (fold_result (\<lambda>(src, e). add_reverse_edge src e) ?ps
      (empty_adjacency actions))"
  proof (rule raises_only_fold_result [where I = "\<lambda>d. dom (dict_get d) = ref ` set actions"])
    show "dom (dict_get (empty_adjacency actions)) = ref ` set actions"
      by (auto simp: empty_adjacency_def empty_adjacency_get dom_def)
  next
    fix p and d :: "(string, string list) dict"
    assume p: "p \<in> set ?ps" and dom: "dom (dict_get d) = ref ` set actions"
    obtain src dest t where [simp]: "p = (src, (dest, t))" by (cases p) auto
    from dst [of src dest t] p dom obtain xs where "dict_get d dest = Some xs" by auto
    then show "raises_only (\<lambda>_. False) ((case p of (src, e) \<Rightarrow> add_reverse_edge src e) d)"
      by (simp add: add_reverse_edge_def getitem_def)
  next
    fix p and d d' :: "(string, string list) dict"
    assume dom: "dom (dict_get d) = ref ` set actions"
      and s: "(case p of (src, e) \<Rightarrow> add_reverse_edge src e) d = Inr d'"
    obtain src dest t where [simp]: "p = (src, (dest, t))" by (cases p) auto
    from s have "dom (dict_get d') = dom (dict_get d)"
      by (auto simp: add_reverse_edge_def rbind_Inr_iff getitem_Inr split: if_splits)
    with dom show "dom (dict_get d') = ref ` set actions" by simp
  qed
  with adj show ?thesis
    by (cases "reverse_success_adj actions")
      (auto simp: reverse_success_adj_def to_typed_adjacency_def fold_result_pairs)
qed

lemma validate_sync_dsl_only:
  assumes ok: "scopes_ok actions scopes h"
  shows "dsl_only (validate_loop_scope_synchronization actions scopes h openers)"
proof -
  have wf: "wf_deps actions" and tree: "scope_tree h" using ok by (auto simp: scopes_ok_def)
  from reverse_success_adj_returns [OF wf] obtain radj where
    radj: "reverse_success_adj actions = Inr radj" by blast
  have "dsl_only (loop_end_by_scope actions scopes h openers)"
    unfolding loop_end_by_scope_def
    by (rule raises_only_fold_result [where I = "\<lambda>_. True"])
      (auto simp: loop_ends_def intro!: raises_only_bind resolve_dsl_only [OF ok] split: option.splits)
  moreover have "dsl_only (check_synchronized radj scopes h p)" for p
    unfolding check_synchronized_def
    by (auto simp: Let_def walks_raise_nothing [OF tree] intro!: raises_only_for_each raises_only_bind
      split: prod.splits)
  then have "dsl_only (for_each (check_synchronized radj scopes h) ends)" for ends
    by (intro raises_only_for_each)
  ultimately show ?thesis
    unfolding validate_loop_scope_synchronization_def radj
    by (auto simp: Let_def intro!: raises_only_bind)
qed

lemma validate_structure_dsl_only:
  assumes "ROOT_SCOPE \<notin> ref ` set actions"
  shows "dsl_only (validate_structure actions)"
proof -
  have dep_syntax: "dsl_only (check_dep_syntax a)" for a
    unfolding check_dep_syntax_def by (auto intro!: raises_only_for_each split: sum.splits)
  have exprs: "dsl_only (all_action_expressions_valid actions)"
    unfolding all_action_expressions_valid_def by (auto intro!: raises_only_for_each)
  have scopes: "dsl_only (validate_scatter_gather_scopes actions)"
    if wf: "wf_deps actions" and known: "\<And>a field deps. a \<in> set actions \<Longrightarrow>
        (field, deps) \<in> set (expr_refs a) \<Longrightarrow> set deps \<subseteq> ref ` set actions"
  proof -
    from wf have d: "distinct (map ref actions)" by (simp add: wf_deps_def)
    from adjacency_returns [OF wf] obtain adj where adj: "to_adjacency actions = Inr adj"
      by (auto simp: to_adjacency_def)
    have "dsl_only (assign_action_scopes actions adj)"
      unfolding assign_action_scopes_def
      by (rule raises_only_bind [OF assign_loop_dsl_only [OF walk_inv_init [OF d] d
          to_adjacency_succs [OF adj]]]) simp
    moreover have "scopes_ok actions sc h" if "assign_action_scopes actions adj = Inr (sc, h, op)" for sc h op
      using assign_action_scopes_topological [OF adj d that] assign_action_scopes_tree [OF adj d assms that] wf
      by (simp add: scopes_ok_def)
    ultimately show ?thesis
      unfolding validate_scatter_gather_scopes_def adj
      by (auto intro!: raises_only_bind validate_scope_dependencies_dsl_only
          validate_sync_dsl_only dest!: known)
  qed
  have wf: "wf_deps actions" if "distinct (map ref actions)" "for_each check_dep_syntax actions = Inr ()"
    "\<not> (\<exists>a \<in> set actions. \<exists>dep \<in> set (depends_on a). dep_src dep \<notin> ref ` set actions)"
    using that by (fastforce simp: wf_deps_def check_dep_syntax_def result_simps components_def
      split: sum.splits)
  have known: "set deps \<subseteq> ref ` set actions" if "all_action_expressions_valid actions = Inr ()"
    "a \<in> set actions" "(field, deps) \<in> set (expr_refs a)" for a field deps
    using that by (fastforce simp: all_action_expressions_valid_def result_simps)
  show ?thesis
    unfolding validate_structure_def
    by (auto intro!: raises_only_bind raises_only_for_each dep_syntax exprs scopes
      simp: raise_if_Inr wf dest!: known)
qed

end
