(* ===== verification/Flat_Spec.thy ===== *)
theory Flat_Spec
  imports Sched_Queue Dsl_Validated
begin

text \<open>
  A sequential specification of workflows without scatter, gather and loops. Given what the outside
  answers for each action (the value of its \<open>run_if\<close> and the outcome of the executor), it assigns
  to every action what becomes of it, in one pass over a topological order. The theory
  \<open>Flat_Runs\<close> shows that every concurrent run of the scheduler computes this assignment.
\<close>

record script =
  run_if_answer :: "string \<Rightarrow> exn + pyval"
  exec_outcome :: "string \<Rightarrow> exn option"

text \<open>
  An action runs to success, fails and continues on its error edges, is skipped, or fails the
  workflow.
\<close>

datatype disposition = Succeeded | Rerouted | SkippedOver | Fatal

fun mark_of :: "disposition \<Rightarrow> edge_type \<Rightarrow> edge_marker" where
  "mark_of Succeeded ty = (if ty = SUCCESS then VISITED else SKIPPED)"
| "mark_of Rerouted ty = (if ty = ERROR then VISITED else SKIPPED)"
| "mark_of SkippedOver ty = SKIPPED"
| "mark_of Fatal ty = PENDING"

definition has_error_edge :: "stmt list \<Rightarrow> string \<Rightarrow> bool" where
  "has_error_edge actions r =
     list_ex (\<lambda>a. list_ex (\<lambda>dep. dep_parts dep = (r, ERROR)) (depends_on a)) actions"

definition failure :: "stmt list \<Rightarrow> stmt \<Rightarrow> exn \<Rightarrow> disposition" where
  "failure actions a e =
     (if has_error_edge actions (ref a) \<and> \<not> fails_workflow e then Rerouted else Fatal)"

text \<open>Reachability and skipping as functions of the markers of the incoming edges.\<close>

definition all_incoming_skipped :: "stmt \<Rightarrow> (string \<times> edge_type \<Rightarrow> edge_marker) \<Rightarrow> bool" where
  "all_incoming_skipped a M =
     (depends_on a \<noteq> [] \<and> list_all (\<lambda>dep. M (dep_parts dep) = SKIPPED) (depends_on a))"

definition joins :: "stmt \<Rightarrow> (string \<times> edge_type \<Rightarrow> edge_marker) \<Rightarrow> bool" where
  "joins a M =
     (let visited = (\<lambda>dep. M (dep_parts dep) = VISITED) in
      depends_on a = [] \<or>
      (if length (depends_on a) = 1 \<or> join_strategy a = JoinAll
       then list_all visited (depends_on a) else list_ex visited (depends_on a)))"

definition decide ::
  "script \<Rightarrow> stmt list \<Rightarrow> (string \<times> edge_type \<Rightarrow> edge_marker) \<Rightarrow> stmt \<Rightarrow> disposition" where
  "decide orc actions M a =
     (if all_incoming_skipped a M then SkippedOver
      else
        (case (run_if a, run_if_answer orc (ref a)) of
           (Some _, Inr x) \<Rightarrow> if \<not> py_bool x then SkippedOver
             else if \<not> joins a M then failure actions a TaskUnreachable
             else (case exec_outcome orc (ref a) of None \<Rightarrow> Succeeded | Some e \<Rightarrow> failure actions a e)
         | (Some _, Inl e) \<Rightarrow> failure actions a TaskUnreachable
         | (None, _) \<Rightarrow>
             if \<not> joins a M then failure actions a TaskUnreachable
             else (case exec_outcome orc (ref a) of None \<Rightarrow> Succeeded | Some e \<Rightarrow> failure actions a e)))"

definition marker_from :: "(string \<rightharpoonup> disposition) \<Rightarrow> string \<times> edge_type \<Rightarrow> edge_marker" where
  "marker_from D = (\<lambda>(src, ty). case D src of None \<Rightarrow> PENDING | Some d \<Rightarrow> mark_of d ty)"

fun decide_all ::
  "script \<Rightarrow> stmt list \<Rightarrow> string list \<Rightarrow> (string \<rightharpoonup> disposition) \<Rightarrow> (string \<rightharpoonup> disposition)" where
  "decide_all orc actions [] D = D"
| "decide_all orc actions (r # rs) D =
     decide_all orc actions rs
       (case find (\<lambda>a. ref a = r) actions of
          None \<Rightarrow> D
        | Some a \<Rightarrow> D(r \<mapsto> decide orc actions (marker_from D) a))"

text \<open>The order in which the scopes were assigned is topological.\<close>

definition dispositions :: "script \<Rightarrow> stmt list \<Rightarrow> string list \<Rightarrow> (string \<rightharpoonup> disposition)" where
  "dispositions orc actions order = decide_all orc actions order Map.empty"

text \<open>
  The assignment solves the equation that each action's disposition follows from those of its
  dependencies, so it does not depend on the order.
\<close>

lemma decide_cong:
  assumes "\<And>dep. dep \<in> set (depends_on a) \<Longrightarrow> M (dep_parts dep) = M' (dep_parts dep)"
  shows "decide orc actions M a = decide orc actions M' a"
proof -
  have "all_incoming_skipped a M = all_incoming_skipped a M'" "joins a M = joins a M'"
    using assms by (auto simp: all_incoming_skipped_def joins_def Let_def list_all_iff list_ex_iff)
  then show ?thesis by (simp add: decide_def)
qed

lemma find_stmt:
  "distinct (map ref actions) \<Longrightarrow> a \<in> set actions \<Longrightarrow> find (\<lambda>b. ref b = ref a) actions = Some a"
  by (induction actions) (auto intro: rev_image_eqI)

lemma decide_all_frame: "r \<notin> set rs \<Longrightarrow> decide_all orc actions rs D r = D r"
  by (induction rs arbitrary: D) (auto split: option.splits)

lemma decide_all_append:
  "decide_all orc actions (xs @ ys) D = decide_all orc actions ys (decide_all orc actions xs D)"
  by (induction xs arbitrary: D) auto

lemma dispositions_equation:
  assumes d: "distinct (map ref actions)" and top: "topological actions order"
    and ddist: "distinct order" and a: "a \<in> set actions" "ref a \<in> set order"
  shows "dispositions orc actions order (ref a) =
     Some (decide orc actions (marker_from (dispositions orc actions order)) a)"
proof -
  let ?D = "dispositions orc actions order"
  from a(2) obtain i where i: "i < length order" "order ! i = ref a" by (auto simp: in_set_conv_nth)
  define pre where "pre = decide_all orc actions (take i order) Map.empty"
  have split: "order = take i order @ ref a # drop (Suc i) order"
    using i by (metis id_take_nth_drop)
  have nd: "ref a \<notin> set (drop (Suc i) order)"
    using ddist by (subst (asm) split) simp
  have D: "?D = decide_all orc actions (drop (Suc i) order)
      (pre(ref a \<mapsto> decide orc actions (marker_from pre) a))"
    unfolding dispositions_def
    by (subst split) (simp add: decide_all_append pre_def find_stmt [OF d a(1)])
  have "?D (ref a) = Some (decide orc actions (marker_from pre) a)"
    by (simp add: D decide_all_frame [OF nd])
  moreover have "?D src = pre src" if "src \<in> set (take i order)" for src
  proof -
    have "src \<notin> set (drop (Suc i) order)" "src \<noteq> ref a"
      using ddist that by (subst (asm) (1) split, auto)+
    then show ?thesis by (simp add: D decide_all_frame)
  qed
  moreover have "dep_src dep \<in> set (take i order)" if "dep \<in> set (depends_on a)" for dep
  proof -
    have "dep_src ` set (depends_on a) \<subseteq> set (take i order)"
      using top i a(1) unfolding topological_def by metis
    with that show ?thesis by blast
  qed
  ultimately show ?thesis
    by (auto intro!: decide_cong simp: marker_from_def dep_src_def case_prod_beta)
qed

end
