(* ===== verification/Sched_Init.thy ===== *)
theory Sched_Init
  imports Sched_Queue Dsl_Validated
begin

text \<open>
  What the constructor of the scheduler computes from a validated definition: the task table, the
  sorted adjacency lists and the initial indegrees. It also shows when the constructor returns.
\<close>

definition targets :: "stmt list \<Rightarrow> string \<Rightarrow> (string \<times> edge_type) set" where
  "targets actions r =
     {(ref a, dep_type dep) | a dep. a \<in> set actions \<and> dep \<in> set (depends_on a) \<and> dep_src dep = r}"

definition wf_cfg :: "stmt list \<Rightarrow> cfg \<Rightarrow> bool" where
  "wf_cfg actions c \<longleftrightarrow> wf_deps actions \<and>
     (\<forall>r a. dict_get (cfg_tasks c) r = Some a \<longleftrightarrow> a \<in> set actions \<and> ref a = r) \<and>
     (\<forall>r. dict_get (cfg_adj c) r = (if r \<in> ref ` set actions
        then Some (dict_get_default (cfg_adj c) r []) else None)) \<and>
     (\<forall>r. distinct (dict_get_default (cfg_adj c) r []) \<and>
        (r \<in> ref ` set actions \<longrightarrow> set (dict_get_default (cfg_adj c) r []) = targets actions r)) \<and>
     1 \<le> cfg_max_pending c \<and>
     distinct (dict_keys (cfg_scopes c)) \<and> set (dict_keys (cfg_scopes c)) = ref ` set actions \<and>
     topological actions (dict_keys (cfg_scopes c))"

lemma wf_cfgD:
  assumes "wf_cfg actions c"
  shows "wf_deps actions" and "distinct (map ref actions)"
    and "dict_get (cfg_tasks c) r = Some a \<longleftrightarrow> a \<in> set actions \<and> ref a = r"
    and "r \<in> ref ` set actions \<Longrightarrow> dict_get (cfg_adj c) r = Some (dict_get_default (cfg_adj c) r [])"
    and "distinct (dict_get_default (cfg_adj c) r [])"
    and "r \<in> ref ` set actions \<Longrightarrow> set (dict_get_default (cfg_adj c) r []) = targets actions r"
    and "1 \<le> cfg_max_pending c" and "distinct (dict_keys (cfg_scopes c))"
    and "set (dict_keys (cfg_scopes c)) = ref ` set actions"
    and "topological actions (dict_keys (cfg_scopes c))"
proof -
  note parts = assms [unfolded wf_cfg_def]
  show "wf_deps actions" using parts by (elim conjE)
  then show "distinct (map ref actions)" by (simp add: wf_deps_def)
  show "dict_get (cfg_tasks c) r = Some a \<longleftrightarrow> a \<in> set actions \<and> ref a = r"
    using parts by (elim conjE allE [of _ r] allE [of _ a])
  show "dict_get (cfg_adj c) r = Some (dict_get_default (cfg_adj c) r [])" if "r \<in> ref ` set actions"
    using parts that by (elim conjE allE [of _ r]) (simp only: if_True)
  show "distinct (dict_get_default (cfg_adj c) r [])"
    using parts by (elim conjE allE [of _ r])
  show "set (dict_get_default (cfg_adj c) r []) = targets actions r" if "r \<in> ref ` set actions"
    using parts that by (elim conjE allE [of _ r]) (rule mp)
  show "1 \<le> cfg_max_pending c" "distinct (dict_keys (cfg_scopes c))"
    "set (dict_keys (cfg_scopes c)) = ref ` set actions" "topological actions (dict_keys (cfg_scopes c))"
    using parts by - (elim conjE, assumption)+
qed

lemma adj_temp_fold:
  assumes "fold_result (\<lambda>(a, dep) d. rbind (components dep) (\<lambda>(src, t).
        Inr (dict_set src (set_add (ref a, t) (dict_get_default d src [])) d))) ps d = Inr d'"
    and "\<forall>r. distinct (dict_get_default d r [])"
  shows "(\<forall>r. distinct (dict_get_default d' r [])) \<and>
     set (dict_get_default d' r []) = set (dict_get_default d r []) \<union>
       {(ref a, dep_type dep) | a dep. (a, dep) \<in> set ps \<and> dep_src dep = r}"
  using assms
proof (induction ps arbitrary: d)
  case (Cons p ps)
  obtain a dep where p: "p = (a, dep)" by (cases p)
  from Cons.prems(1) obtain src t where c: "components dep = Inr (src, t)" and
    rest: "fold_result (\<lambda>(a, dep) d. rbind (components dep) (\<lambda>(src, t).
        Inr (dict_set src (set_add (ref a, t) (dict_get_default d src [])) d))) ps
        (dict_set src (set_add (ref a, t) (dict_get_default d src [])) d) = Inr d'"
    by (auto simp: p rbind_Inr_iff)
  have get: "dict_get_default (dict_set src (set_add (ref a, t) (dict_get_default d src [])) d) x [] =
      (if x = src then set_add (ref a, t) (dict_get_default d src []) else dict_get_default d x [])" for x
    by (simp add: dict_get_default_def)
  from Cons.IH [OF rest] Cons.prems(2) components_Inr [OF c] show ?case
    by (auto simp: p get)
qed simp

lemma adj_temp_get:
  assumes "adj_temp actions = Inr d"
  shows "distinct (dict_get_default d r [])" and "set (dict_get_default d r []) = targets actions r"
proof -
  let ?ps = "concat (map (\<lambda>a. map (Pair a) (depends_on a)) actions)"
  from assms have "fold_result (\<lambda>(a, dep) d. rbind (components dep) (\<lambda>(src, t).
        Inr (dict_set src (set_add (ref a, t) (dict_get_default d src [])) d))) ?ps [] = Inr d"
    by (simp add: adj_temp_def fold_result_nested)
  from adj_temp_fold [OF this]
  show "distinct (dict_get_default d r [])" and "set (dict_get_default d r []) = targets actions r"
    by (auto simp: dict_get_default_def targets_def)
qed

lemma task_table_get:
  assumes "distinct (map ref actions)"
  shows "dict_get (task_table actions) r = Some a \<longleftrightarrow> a \<in> set actions \<and> ref a = r"
proof -
  have "task_table actions = map (\<lambda>a. (ref a, a)) actions"
    unfolding task_table_def using fold_dict_set_distinct [of ref actions "[]" "\<lambda>a. a"] assms by simp
  moreover have "distinct (dict_keys (map (\<lambda>a. (ref a, a)) actions))" using assms by (simp add: comp_def)
  ultimately show ?thesis by (auto simp: map_of_eq_Some_iff)
qed

lemma root_indegrees_distinct:
  assumes "distinct (map ref actions)"
  shows "root_indegrees actions = map (\<lambda>a. ((ref a, ROOT_STREAM), int (length (depends_on a)))) actions"
  unfolding root_indegrees_def
  using fold_dict_set_distinct [of "\<lambda>a. (ref a, ROOT_STREAM)" actions "[]"] assms
  by (simp add: distinct_map inj_on_def)

lemma map_of_graph: "map_of (map (\<lambda>r. (r, f r)) rs) x = (if x \<in> set rs then Some (f x) else None)"
  by (induction rs) auto

lemma scheduler_init_wf:
  assumes wf: "wf_deps actions" and init: "scheduler_init actions mp ctx ws ex = Inr (c, s)"
  shows "wf_cfg actions c" and "s = init_state actions ctx" and "int (cfg_max_pending c) = mp"
    and "1 \<le> mp"
proof -
  from wf have d: "distinct (map ref actions)" by (simp add: wf_deps_def)
  from init obtain tmp adj scopes h op rg where mp: "\<not> mp < 1" and tmp: "adj_temp actions = Inr tmp" and
    adj: "to_adjacency actions = Inr adj" and
    sc: "assign_action_scopes actions adj = Inr (scopes, h, op)" and
    c: "cfg_tasks c = task_table actions" "cfg_adj c = sorted_adj actions tmp" "cfg_scopes c = scopes"
      "cfg_max_pending c = nat mp" and s: "s = init_state actions ctx"
    by (auto simp: scheduler_init_def rbind_Inr_iff split: if_splits)
  show "s = init_state actions ctx" "int (cfg_max_pending c) = mp" "1 \<le> mp" using s mp c by auto
  have get: "dict_get (cfg_adj c) r = (if r \<in> ref ` set actions
      then Some (sort_key adj_sort_key (dict_get_default tmp r [])) else None)" for r
    by (simp add: c sorted_adj_def map_of_graph)
  then show "wf_cfg actions c"
    using adj_temp_get [OF tmp] assign_action_scopes_topological [OF adj d sc] mp wf
      task_table_get [OF d]
    by (auto simp: wf_cfg_def c(1,3,4) dict_get_default_def)
qed

text \<open>
  Without duplicate dependencies, the number of edges that lead from an action to another is the
  number of dependencies between them.
\<close>

definition distinct_deps :: "stmt list \<Rightarrow> bool" where
  "distinct_deps actions = (\<forall>a \<in> set actions. distinct (map dep_parts (depends_on a)))"

lemma edges_to_filter: "edges_to ns x = length (filter (\<lambda>n. fst n = x) ns)"
  by (induction ns) auto

lemma edges_to_deps:
  assumes c: "wf_cfg actions c" and d: "distinct_deps actions" and a: "a \<in> set actions"
    and r: "r \<in> ref ` set actions"
  shows "edges_to (dict_get_default (cfg_adj c) r []) (ref a) =
     length (filter (\<lambda>dep. dep_src dep = r) (depends_on a))"
proof -
  let ?ns = "dict_get_default (cfg_adj c) r []" and ?ds = "filter (\<lambda>dep. dep_src dep = r) (depends_on a)"
  have dn: "distinct ?ns" and sn: "set ?ns = targets actions r" and dr: "distinct (map ref actions)"
    using wf_cfgD [OF c] r by blast+
  have same: "b = a" if "b \<in> set actions" "ref b = ref a" for b
    using that a dr by (auto simp: distinct_map inj_on_def)
  have "edges_to ?ns (ref a) = length (filter (\<lambda>n. fst n = ref a) ?ns)"
    by (rule edges_to_filter)
  also have "\<dots> = card {n \<in> set ?ns. fst n = ref a}"
    using distinct_card [of "filter (\<lambda>n. fst n = ref a) ?ns"] dn by simp
  also have "{n \<in> set ?ns. fst n = ref a} = (\<lambda>dep. (ref a, dep_type dep)) ` set ?ds"
    unfolding sn targets_def using a by (auto dest: same)
  also have "card \<dots> = card (dep_type ` set ?ds)"
    using card_image [of "Pair (ref a)" "dep_type ` set ?ds"] by (simp add: image_image inj_on_def)
  also have "\<dots> = length (map dep_type ?ds)"
  proof -
    have "distinct (map dep_parts (depends_on a))" using d a by (simp add: distinct_deps_def)
    then have "distinct (map dep_type ?ds)"
      by (auto simp: distinct_map inj_on_def dep_src_def dep_type_def prod_eq_iff)
    from distinct_card [OF this] show ?thesis by simp
  qed
  finally show ?thesis by simp
qed

end
