(* ===== verification/Flat_Steps.thy ===== *)
theory Flat_Steps
  imports Flat_Spec Sched_Init
begin

text \<open>
  The steps of one task of a workflow without control-flow actions: what \<open>_schedule_task\<close> does
  before its first await and after each answer, in terms of the specification. The first lemmas, on
  skipping and reachability, hold in every stream.
\<close>

section \<open>Incoming edges\<close>

definition incoming :: "st \<Rightarrow> string \<Rightarrow> stream \<Rightarrow> string \<times> edge_type \<Rightarrow> edge_marker" where
  "incoming s r sid = (\<lambda>(src, ty).
     edge_marker s \<lparr>edge_src = src, edge_dst = r, edge_type = ty, edge_stream = sid\<rparr>)"

definition deps_parse :: "stmt \<Rightarrow> bool" where
  "deps_parse a = (\<forall>dep \<in> set (depends_on a). \<exists>p. components dep = Inr p)"

lemma wf_deps_parse: "wf_deps actions \<Longrightarrow> a \<in> set actions \<Longrightarrow> deps_parse a"
  by (auto simp: wf_deps_def deps_parse_def)

lemma edge_has_marker_eq:
  assumes "\<exists>p. components dep = Inr p"
  shows "edge_has_marker s dep dst m sid = Inr (incoming s dst sid (dep_parts dep) = m)"
proof -
  from assms obtain src ty where "edge_components_from_dep dep = Inr (src, ty)"
    by (auto simp: components_def split: sum.splits)
  then show ?thesis
    by (simp add: edge_has_marker_def get_edge_by_refs_def incoming_def dep_parts_def components_def)
qed

lemma all_skipped_eq:
  "\<forall>dep \<in> set deps. \<exists>p. components dep = Inr p \<Longrightarrow>
     all_skipped s dst sid deps = Inr (list_all (\<lambda>dep. incoming s dst sid (dep_parts dep) = SKIPPED) deps)"
  by (induction deps) (auto simp: edge_has_marker_eq)

lemma skip_should_propagate_eq:
  "deps_parse a \<Longrightarrow> skip_should_propagate t a s =
     Inr (all_incoming_skipped a (incoming s (task_ref t) (stream_id t)))"
  by (auto simp: skip_should_propagate_def all_incoming_skipped_def all_skipped_eq deps_parse_def)

lemma map_result_marker:
  "\<forall>dep \<in> set deps. \<exists>p. components dep = Inr p \<Longrightarrow>
     map_result (\<lambda>dep. edge_has_marker s dep dst m sid) deps =
       Inr (map (\<lambda>dep. incoming s dst sid (dep_parts dep) = m) deps)"
  by (induction deps) (auto simp: edge_has_marker_eq)

lemma length_filter_map_id:
  "(0 < length (filter id (map P xs))) = list_ex P xs"
  "(length (filter id (map P xs)) = length xs) = list_all P xs"
proof -
  have eq: "length (filter id (map P xs)) = length (filter P xs)" by (simp add: filter_map)
  show "(0 < length (filter id (map P xs))) = list_ex P xs"
    unfolding eq by (auto simp: filter_empty_conv list_ex_iff)
  have "length (filter P xs) = length xs \<longleftrightarrow> (\<forall>x \<in> set xs. P x)"
    by (metis filter_True length_filter_less nat_neq_iff)
  then show "(length (filter id (map P xs)) = length xs) = list_all P xs"
    unfolding eq by (simp add: list_all_iff)
qed

lemma is_reachable_eq:
  assumes "deps_parse a"
  shows "is_reachable t a s = Inr (joins a (incoming s (task_ref t) (stream_id t)))"
proof -
  let ?M = "incoming s (task_ref t) (stream_id t)"
  show ?thesis
  proof (cases "depends_on a")
    case Nil
    then show ?thesis by (simp add: is_reachable_def joins_def)
  next
    case (Cons dep deps)
    note deps = this
    show ?thesis
    proof (cases deps)
      case Nil
      with deps assms show ?thesis
        by (simp add: is_reachable_def joins_def edge_has_marker_eq deps_parse_def)
    next
      case (Cons dep' deps')
      have n: "depends_on a = dep # dep' # deps'" using deps Cons by simp
      have "map_result (\<lambda>dep. edge_has_marker s dep (task_ref t) VISITED (stream_id t)) (depends_on a)
          = Inr (map (\<lambda>dep. ?M (dep_parts dep) = VISITED) (depends_on a))"
        using assms by (intro map_result_marker) (simp add: deps_parse_def)
      then show ?thesis
        unfolding is_reachable_def joins_def Let_def
        using length_filter_map_id [of "\<lambda>dep. ?M (dep_parts dep) = VISITED" "depends_on a"]
        by (simp add: n split: join_strategy.split)
    qed
  qed
qed

section \<open>Paths of a task in the root stream\<close>

abbreviation adj_of :: "cfg \<Rightarrow> string \<Rightarrow> (string \<times> edge_type) list" where
  "adj_of c r \<equiv> dict_get_default (cfg_adj c) r []"

lemma out_edges_eq:
  assumes "dict_get (cfg_adj c) (task_ref t) = Some (adj_of c (task_ref t))"
  shows "out_edges c P t = ret (map (out_edge t) (filter (P \<circ> snd) (adj_of c (task_ref t))))"
  unfolding out_edges_def lookup_def assms by (simp only: option.case bind_simps)

definition unreached :: "cfg \<Rightarrow> task \<Rightarrow> (edge_type \<Rightarrow> bool) \<Rightarrow> edge list" where
  "unreached c t P = map (out_edge t) (filter (P \<circ> snd) (adj_of c (task_ref t)))"

lemma paths_eq:
  assumes "dict_get (cfg_adj c) (task_ref t) = Some (adj_of c (task_ref t))"
  shows "skip_all c t = queue_tasks c t (unreached c t (\<lambda>_. True))"
    and "handle_success_path c t = queue_tasks c t (unreached c t (\<lambda>ty. ty \<noteq> SUCCESS))"
  by (simp_all add: skip_all_def handle_success_path_def out_edges_eq [OF assms] unreached_def)

lemma has_error_edge_iff: "has_error_edge actions r \<longleftrightarrow> (\<exists>x. (x, ERROR) \<in> targets actions r)"
proof -
  have "dep_parts dep = (r, ERROR) \<longleftrightarrow> dep_src dep = r \<and> dep_type dep = ERROR" for dep
    by (auto simp: dep_src_def dep_type_def prod_eq_iff)
  then have "has_error_edge actions r \<longleftrightarrow>
      (\<exists>a \<in> set actions. \<exists>dep \<in> set (depends_on a). dep_src dep = r \<and> dep_type dep = ERROR)"
    by (simp add: has_error_edge_def list_ex_iff)
  then show ?thesis unfolding targets_def mem_Collect_eq prod.inject by metis
qed

lemma handle_error_path_eq:
  assumes c: "wf_cfg actions c" and r: "task_ref t \<in> ref ` set actions" and root: "stream_id t = ROOT_STREAM"
  shows "handle_error_path c v t exc fw s =
     (if has_error_edge actions (task_ref t) \<and> \<not> fw
      then queue_tasks c t (unreached c t (\<lambda>ty. ty \<noteq> ERROR)) s
      else (Inr (), s\<lparr>task_exceptions :=
         dict_set (task_ref t) (exc, error_details v t exc) (task_exceptions s)\<rparr>))"
proof -
  let ?ns = "adj_of c (task_ref t)"
  have adj: "dict_get (cfg_adj c) (task_ref t) = Some ?ns" and ns: "set ?ns = targets actions (task_ref t)"
    using wf_cfgD(4,6) [OF c r] by blast+
  have "length (filter ((\<lambda>ty. ty \<noteq> ERROR) \<circ> snd) ?ns) < length ?ns \<longleftrightarrow> (\<exists>n \<in> set ?ns. snd n = ERROR)"
    by (metis (mono_tags, lifting) comp_apply filter_True length_filter_less nat_neq_iff)
  then have "length (filter ((\<lambda>ty. ty \<noteq> ERROR) \<circ> snd) ?ns) < length ?ns \<longleftrightarrow>
      has_error_edge actions (task_ref t)"
    unfolding has_error_edge_iff ns by force
  then show ?thesis
    by (simp add: handle_error_path_def out_edges_eq [OF adj] lookup_def adj root unreached_def Let_def)
qed

section \<open>Finishing a task\<close>

text \<open>
  A task of the root stream finishes with a disposition: its outgoing edges are marked and its
  successors released accordingly, or its exception is recorded.
\<close>

definition finishes :: "cfg \<Rightarrow> string \<Rightarrow> disposition \<Rightarrow> st \<Rightarrow> progress \<times> st \<Rightarrow> bool" where
  "finishes c r d s ps \<longleftrightarrow>
     (let t = mk_task r ROOT_STREAM in
      \<exists>s'. ps = (Completed, finish_task t s') \<and>
        (if d = Fatal then \<exists>x. s' = s\<lparr>task_exceptions := dict_set r x (task_exceptions s)\<rparr>
         else \<exists>un. queue_tasks c t un s = (Inr (), s') \<and>
           (\<forall>n \<in> set (adj_of c r). out_edge t n \<in> set un \<longleftrightarrow> mark_of d (snd n) = SKIPPED)))"

text \<open>Releasing the successors never raises.\<close>

definition releases :: "cfg \<Rightarrow> task \<Rightarrow> st \<Rightarrow> bool" where
  "releases c t s = (\<forall>un. fst (queue_tasks c t un s) = Inr ())"

lemma releasesD: "releases c t s \<Longrightarrow> \<exists>s'. queue_tasks c t un s = (Inr (), s')"
  unfolding releases_def by (metis prod.collapse)

lemma out_edge_unreached:
  "n \<in> set (adj_of c (task_ref t)) \<Longrightarrow> out_edge t n \<in> set (unreached c t P) \<longleftrightarrow> P (snd n)"
  by (auto simp: unreached_def)

lemma finishes_released:
  assumes "releases c (mk_task r ROOT_STREAM) s" and "d \<noteq> Fatal"
    and "\<And>ty. P ty \<longleftrightarrow> mark_of d ty = SKIPPED"
    and "ps = (Completed, finish_task (mk_task r ROOT_STREAM)
        (snd (queue_tasks c (mk_task r ROOT_STREAM) (unreached c (mk_task r ROOT_STREAM) P) s)))"
  shows "finishes c r d s ps"
proof -
  let ?t = "mk_task r ROOT_STREAM" and ?un = "unreached c (mk_task r ROOT_STREAM) P"
  from releasesD [OF assms(1)] obtain s' where "queue_tasks c ?t ?un s = (Inr (), s')" by blast
  then show ?thesis
    using assms(2-4) out_edge_unreached [of _ c ?t P]
    unfolding finishes_def Let_def by (intro exI [of _ s'] conjI) auto
qed

lemma finishes_error:
  assumes c: "wf_cfg actions c" and a: "a \<in> set actions"
    and rel: "releases c (mk_task (ref a) ROOT_STREAM) s"
  shows "finishes c (ref a) (failure actions a e) s
     (Completed, finish_task (mk_task (ref a) ROOT_STREAM)
       (snd (handle_error_path c v (mk_task (ref a) ROOT_STREAM) (underlying e) (fails_workflow e) s)))"
proof -
  let ?t = "mk_task (ref a) ROOT_STREAM"
  have eq: "handle_error_path c v ?t (underlying e) (fails_workflow e) s =
     (if has_error_edge actions (ref a) \<and> \<not> fails_workflow e
      then queue_tasks c ?t (unreached c ?t (\<lambda>ty. ty \<noteq> ERROR)) s
      else (Inr (), s\<lparr>task_exceptions :=
         dict_set (ref a) (underlying e, error_details v ?t (underlying e)) (task_exceptions s)\<rparr>))"
    using handle_error_path_eq [OF c, of ?t] a by simp
  show ?thesis
  proof (cases "has_error_edge actions (ref a) \<and> \<not> fails_workflow e")
    case True
    then have "failure actions a e = Rerouted" by (simp add: failure_def)
    then show ?thesis unfolding eq
      using True by (intro finishes_released [OF rel, where P = "\<lambda>ty. ty \<noteq> ERROR"]) auto
  next
    case False
    then have "failure actions a e = Fatal" by (auto simp: failure_def)
    moreover have "snd (handle_error_path c v ?t (underlying e) (fails_workflow e) s) =
        s\<lparr>task_exceptions := dict_set (ref a)
          (underlying e, error_details v ?t (underlying e)) (task_exceptions s)\<rparr>"
      unfolding eq if_not_P [OF False] by simp
    ultimately show ?thesis by (auto simp: finishes_def Let_def)
  qed
qed

lemma finishes_skip:
  assumes "wf_cfg actions c" and "a \<in> set actions" and rel: "releases c (mk_task (ref a) ROOT_STREAM) s"
  shows "finishes c (ref a) SkippedOver s (Completed, finish_task (mk_task (ref a) ROOT_STREAM)
     (snd (skip_all c (mk_task (ref a) ROOT_STREAM) s)))"
    and "fst (skip_all c (mk_task (ref a) ROOT_STREAM) s) = Inr ()"
    and "finishes c (ref a) Succeeded s (Completed, finish_task (mk_task (ref a) ROOT_STREAM)
     (snd (handle_success_path c (mk_task (ref a) ROOT_STREAM) s)))"
    and "fst (handle_success_path c (mk_task (ref a) ROOT_STREAM) s) = Inr ()"
proof -
  let ?t = "mk_task (ref a) ROOT_STREAM"
  have adj: "dict_get (cfg_adj c) (task_ref ?t) = Some (adj_of c (task_ref ?t))"
    using wf_cfgD(4) [OF assms(1), of "ref a"] assms(2) by simp
  show "finishes c (ref a) SkippedOver s (Completed, finish_task ?t (snd (skip_all c ?t s)))"
    unfolding paths_eq [OF adj] by (rule finishes_released [OF rel]) auto
  show "finishes c (ref a) Succeeded s (Completed, finish_task ?t (snd (handle_success_path c ?t s)))"
    unfolding paths_eq [OF adj] by (rule finishes_released [OF rel]) auto
  show "fst (skip_all c ?t s) = Inr ()" "fst (handle_success_path c ?t s) = Inr ()"
    unfolding paths_eq [OF adj] using rel by (auto simp: releases_def)
qed

section \<open>Steps\<close>

definition flat :: "stmt list \<Rightarrow> bool" where
  "flat actions = (\<forall>a \<in> set actions.
     action a \<notin> {TRANSFORM_SCATTER, TRANSFORM_GATHER, LOOP_START, LOOP_END})"

definition root_frame :: "string \<Rightarrow> point \<Rightarrow> frame" where
  "root_frame r p = \<lparr>fr_task = mk_task r ROOT_STREAM, fr_delay = 0, fr_guarded = False, fr_point = p\<rparr>"

lemma flat_dispatch:
  assumes "flat actions" and "a \<in> set actions"
  shows "dispatch c v t a = ret (Wait ExecAction)"
    and "handle_skip_path c v t a = bind (skip_all c t) (\<lambda>_. ret Finished)"
  using assms by (auto simp: dispatch_def handle_skip_path_def flat_def)

lemma with_error_path_cases:
  "m s = (Inl e, s') \<Longrightarrow> with_error_path c v t m s = (Completed, finish_task t
      (snd (handle_error_path c v t (underlying e) (fails_workflow e) s')))"
  "m s = (Inr Completed, s') \<Longrightarrow> with_error_path c v t m s = (Completed, finish_task t s')"
  "m s = (Inr (Suspended f), s') \<Longrightarrow> with_error_path c v t m s = (Suspended f, s')"
  by (simp_all add: with_error_path_def)

lemma after_run_if_flat:
  assumes "flat actions" and "a \<in> set actions" and "deps_parse a"
  shows "after_run_if c v (mk_task (ref a) ROOT_STREAM) 0 a err s =
     (if \<not> joins a (incoming s (ref a) ROOT_STREAM) then (Inl TaskUnreachable, s)
      else (case err of Some e \<Rightarrow> (Inl e, s) | None \<Rightarrow> (Inr (Wait ExecAction), s)))"
  using assms
  by (auto simp: after_run_if_def is_reachable_eq flat_dispatch bind_def lift_def ret_def throw_def
      split: option.splits)

lemma bind_app: "m s = (Inr x, s') \<Longrightarrow> bind m f s = f x s'" "m s = (Inl e, s') \<Longrightarrow> bind m f s = (Inl e, s')"
  by (simp_all add: bind_def)

lemma suspend_simps [simp]:
  "suspend t d g Finished = Completed"
  "suspend t d g (Wait p) = Suspended \<lparr>fr_task = t, fr_delay = d, fr_guarded = g, fr_point = p\<rparr>"
  by (simp_all add: suspend_def)

lemma failure_cong: "fails_workflow e = fails_workflow e' \<Longrightarrow> failure actions a e = failure actions a e'"
  by (simp add: failure_def)

lemma schedule_flat:
  assumes c: "wf_cfg actions c" and fl: "flat actions" and a: "a \<in> set actions"
    and rel: "releases c (mk_task (ref a) ROOT_STREAM) s"
  defines "t \<equiv> mk_task (ref a) ROOT_STREAM" and "M \<equiv> incoming s (ref a) ROOT_STREAM"
  shows "all_incoming_skipped a M \<Longrightarrow> finishes c (ref a) SkippedOver s (schedule_task c v t s)"
    and "\<not> all_incoming_skipped a M \<Longrightarrow> run_if a = Some e \<Longrightarrow>
      \<exists>ctx. schedule_task c v t s = (Suspended (root_frame (ref a) (RunIf e ctx)), s)"
    and "\<not> all_incoming_skipped a M \<Longrightarrow> run_if a = None \<Longrightarrow> joins a M \<Longrightarrow>
      schedule_task c v t s = (Suspended (root_frame (ref a) ExecAction), s)"
    and "\<not> all_incoming_skipped a M \<Longrightarrow> run_if a = None \<Longrightarrow> \<not> joins a M \<Longrightarrow>
      finishes c (ref a) (failure actions a TaskUnreachable) s (schedule_task c v t s)"
proof -
  have dp: "deps_parse a" using wf_deps_parse wf_cfgD(1) [OF c] a by blast
  have st: "dict_get (cfg_tasks c) (ref a) = Some a" using wf_cfgD(3) [OF c] a by blast
  have t: "task_ref t = ref a" "stream_id t = ROOT_STREAM" "delay t = 0" by (simp_all add: t_def)
  have sched: "schedule_task c v t s = with_error_path c v t (schedule_body c v t 0 a) s"
    by (simp add: schedule_task_def t st)
  have body: "schedule_body c v t 0 a s =
     (if all_incoming_skipped a M then bind (bind (skip_all c t) (\<lambda>_. ret Finished)) (ret \<circ> suspend t 0 False) s
      else (case run_if a of
          Some e \<Rightarrow> (Inr (suspend t 0 False
              (Wait (RunIf e (build_stream_aware_context c a ROOT_STREAM s)))), s)
        | None \<Rightarrow> bind (after_run_if c v t 0 a None) (ret \<circ> suspend t 0 False) s))"
    by (simp add: schedule_body_def skip_should_propagate_eq [OF dp] t M_def
        flat_dispatch(2) [OF fl a] split: option.splits)
  note after = after_run_if_flat [OF fl a dp, of c v None s, folded t_def M_def]
  show "finishes c (ref a) SkippedOver s (schedule_task c v t s)" if "all_incoming_skipped a M"
  proof -
    obtain s' where s': "skip_all c t s = (Inr (), s')"
      using finishes_skip(2) [OF c a rel] unfolding t_def by (metis prod.collapse)
    then have "schedule_body c v t 0 a s = (Inr Completed, s')"
      using that by (simp add: body bind_def)
    then show ?thesis
      using finishes_skip(1) [OF c a rel] s' unfolding sched
      by (simp add: with_error_path_cases) (simp add: t_def)
  qed
  show "\<exists>ctx. schedule_task c v t s = (Suspended (root_frame (ref a) (RunIf e ctx)), s)"
    if "\<not> all_incoming_skipped a M" "run_if a = Some e"
    using that unfolding sched with_error_path_def body by (auto simp: root_frame_def t_def)
  show "schedule_task c v t s = (Suspended (root_frame (ref a) ExecAction), s)"
    if "\<not> all_incoming_skipped a M" "run_if a = None" "joins a M"
    using that unfolding sched with_error_path_def body
    by (simp add: after bind_def) (simp add: root_frame_def t_def)
  show "finishes c (ref a) (failure actions a TaskUnreachable) s (schedule_task c v t s)"
    if "\<not> all_incoming_skipped a M" "run_if a = None" "\<not> joins a M"
  proof -
    have "schedule_body c v t 0 a s = (Inl TaskUnreachable, s)"
      using that by (simp add: body after bind_def)
    with finishes_error [OF c a rel, of TaskUnreachable v] show ?thesis
      unfolding sched by (simp add: with_error_path_cases) (simp add: t_def)
  qed
qed

lemma resume_run_if_flat:
  fixes expr :: string and ctx :: exec_ctx
  assumes c: "wf_cfg actions c" and fl: "flat actions" and a: "a \<in> set actions"
    and rel: "releases c (mk_task (ref a) ROOT_STREAM) s"
  defines "f \<equiv> root_frame (ref a) (RunIf expr ctx)" and "M \<equiv> incoming s (ref a) ROOT_STREAM"
  shows "finishes c (ref a) (failure actions a TaskUnreachable) s (resume c v f (AnsExpr (Inl x)) s)"
    and "\<not> py_bool y \<Longrightarrow> finishes c (ref a) SkippedOver s (resume c v f (AnsExpr (Inr y)) s)"
    and "py_bool y \<Longrightarrow> joins a M \<Longrightarrow>
      resume c v f (AnsExpr (Inr y)) s = (Suspended (root_frame (ref a) ExecAction), s)"
    and "py_bool y \<Longrightarrow> \<not> joins a M \<Longrightarrow>
      finishes c (ref a) (failure actions a TaskUnreachable) s (resume c v f (AnsExpr (Inr y)) s)"
proof -
  let ?t = "mk_task (ref a) ROOT_STREAM"
  have dp: "deps_parse a" using wf_deps_parse wf_cfgD(1) [OF c] a by blast
  have st: "dict_get (cfg_tasks c) (ref a) = Some a" using wf_cfgD(3) [OF c] a by blast
  have res: "resume c v f (AnsExpr r) s = with_error_path c v ?t (continue_run_if c v ?t 0 a r) s" for r
    by (simp add: resume_def f_def root_frame_def st resume_body_def)
  note after = after_run_if_flat [OF fl a dp, of c v _ s, folded M_def]
  show "finishes c (ref a) (failure actions a TaskUnreachable) s (resume c v f (AnsExpr (Inl x)) s)"
  proof -
    define e where "e = (if joins a M then ApplicationError
        (''Error evaluating `run_if` condition: '' @ exn_text (unwrap_activity x)) [] else TaskUnreachable)"
    have "continue_run_if c v ?t 0 a (Inl x) s = (Inl e, s)"
      by (simp add: after bind_def e_def)
    moreover have "failure actions a TaskUnreachable = failure actions a e"
      by (rule failure_cong) (simp add: e_def fails_workflow_def)
    ultimately show ?thesis
      using finishes_error [OF c a rel, of e v] by (simp add: res with_error_path_cases)
  qed
  show "finishes c (ref a) SkippedOver s (resume c v f (AnsExpr (Inr y)) s)" if "\<not> py_bool y"
  proof -
    obtain s' where s': "skip_all c ?t s = (Inr (), s')"
      using finishes_skip(2) [OF c a rel] by (metis prod.collapse)
    then have "continue_run_if c v ?t 0 a (Inr y) s = (Inr Completed, s')"
      using that by (simp add: guarded_def flat_dispatch(2) [OF fl a] bind_def)
    then show ?thesis
      using finishes_skip(1) [OF c a rel] s' by (simp add: res with_error_path_cases)
  qed
  show "resume c v f (AnsExpr (Inr y)) s = (Suspended (root_frame (ref a) ExecAction), s)"
    if "py_bool y" "joins a M"
    using that by (simp add: res with_error_path_def after bind_def root_frame_def)
  show "finishes c (ref a) (failure actions a TaskUnreachable) s (resume c v f (AnsExpr (Inr y)) s)"
    if "py_bool y" "\<not> joins a M"
  proof -
    have "continue_run_if c v ?t 0 a (Inr y) s = (Inl TaskUnreachable, s)"
      using that by (simp add: after bind_def)
    with finishes_error [OF c a rel, of TaskUnreachable v] show ?thesis
      by (simp add: res with_error_path_cases)
  qed
qed

definition written :: "st \<Rightarrow> string \<Rightarrow> task_result option \<Rightarrow> st" where
  "written s r w = (case w of None \<Rightarrow> s | Some tr \<Rightarrow> put_action ROOT_STREAM r tr s)"

lemma resume_exec_flat:
  assumes c: "wf_cfg actions c" and a: "a \<in> set actions"
    and root: "dict_get (streams s) ROOT_STREAM \<noteq> None"
    and rel: "releases c (mk_task (ref a) ROOT_STREAM) (written s (ref a) w)"
  shows "finishes c (ref a) (case e of None \<Rightarrow> Succeeded | Some x \<Rightarrow> failure actions a x)
     (written s (ref a) w) (resume c v (root_frame (ref a) ExecAction) (AnsExec w e) s)"
proof -
  let ?t = "mk_task (ref a) ROOT_STREAM"
  let ?m = "bind (executor_done ROOT_STREAM (ref a) w e)
      (\<lambda>_. bind (handle_success_path c ?t) (\<lambda>_. ret Finished))"
  have st: "dict_get (cfg_tasks c) (ref a) = Some a" using wf_cfgD(3) [OF c] a by blast
  have res: "resume c v (root_frame (ref a) ExecAction) (AnsExec w e) s =
      with_error_path c v ?t (bind ?m (ret \<circ> suspend ?t 0 False)) s"
    by (simp add: resume_def root_frame_def st resume_body_def continue_at_def continue_exec_def Let_def)
  have ex: "executor_done ROOT_STREAM (ref a) w e s =
      ((case e of None \<Rightarrow> Inr () | Some x \<Rightarrow> Inl x), written s (ref a) w)"
    using root by (auto simp: executor_done_def written_def set_action_def get_context_def item_app
        bind_def split: option.splits)
  show ?thesis
  proof (cases e)
    case None
    obtain s' where s': "handle_success_path c ?t (written s (ref a) w) = (Inr (), s')"
      using finishes_skip(4) [OF c a rel] by (metis prod.collapse)
    then have "bind ?m (ret \<circ> suspend ?t 0 False) s = (Inr Completed, s')"
      using ex None by (simp add: bind_def)
    then show ?thesis
      using finishes_skip(3) [OF c a rel] s' None unfolding res by (simp add: with_error_path_cases)
  next
    case (Some x)
    then have "bind ?m (ret \<circ> suspend ?t 0 False) s = (Inl x, written s (ref a) w)"
      using ex by (simp add: bind_def)
    with finishes_error [OF c a rel, of x v] Some show ?thesis
      unfolding res by (simp add: with_error_path_cases)
  qed
qed

end
