(* ===== verification/Sched_Main.thy ===== *)
theory Sched_Main
  imports Sched_Run
begin

text \<open>
  The main loop, for any workflow: what one activation of it does to the queue and to the pending
  coroutines, and the bound on the number of pending coroutines.
\<close>

section \<open>One activation\<close>

text \<open>Where the main coroutine stops, and what holds there.\<close>

definition stops_at :: "cfg \<Rightarrow> run \<Rightarrow> bool" where
  "stops_at c r \<longleftrightarrow>
     (case main r of
        AtYield n \<Rightarrow> pending r \<noteq> []
      | AtWait \<Rightarrow> task_exceptions (state r) = [] \<and> pending r \<noteq> [] \<and>
          (queue (state r) \<noteq> [] \<longrightarrow> cfg_max_pending c \<le> length (pending r))
      | AtCancel \<Rightarrow> task_exceptions (state r) \<noteq> [] \<and> pending r \<noteq> []
      | Returned (Some x) \<Rightarrow> x = task_exceptions (state r) \<and> x \<noteq> [] \<and> pending r = []
      | Returned None \<Rightarrow> task_exceptions (state r) = [] \<and> pending r = [] \<and>
          (queue (state r) \<noteq> [] \<longrightarrow> cfg_max_pending c = 0))"

text \<open>The first \<open>k\<close> tasks of the queue become coroutines, nothing else of the state changes.\<close>

definition spawned :: "cfg \<Rightarrow> nat \<Rightarrow> run \<Rightarrow> run \<Rightarrow> bool" where
  "spawned c k r r' \<longleftrightarrow>
     state r' = (state r)\<lparr>queue := drop k (queue (state r))\<rparr> \<and>
     pending r' = pending r @ map Fresh (take k (queue (state r))) \<and>
     (0 < k \<longrightarrow> length (pending r) + k \<le> cfg_max_pending c) \<and> k \<le> length (queue (state r))"

lemma after_spawn_effect:
  assumes "\<not> (task_exceptions (state r) = [] \<and> queue (state r) \<noteq> [] \<and>
      length (pending r) < cfg_max_pending c)"
  shows "spawned c 0 r (after_spawn r) \<and> stops_at c (after_spawn r)"
  using assms by (auto simp: spawned_def after_spawn_def exit_loop_def stops_at_def)

lemma spawn_effect:
  "\<exists>k. spawned c k r (spawn c n r) \<and> stops_at c (spawn c n r) \<and>
     (\<forall>m. main (spawn c n r) = AtYield m \<longrightarrow> 0 < k)"
proof (induction c n r rule: spawn.induct)
  case (1 c n r)
  show ?case
  proof (cases "task_exceptions (state r) = [] \<and> queue (state r) \<noteq> [] \<and>
      length (pending r) < cfg_max_pending c")
    case go: True
    then obtain t q where q: "queue (state r) = t # q" by (cases "queue (state r)") auto
    have one: "spawned c 1 r (spawn_one r)" using go q by (simp add: spawned_def spawn_one_def)
    show ?thesis
    proof (cases "Suc n mod YIELD_EVERY = 0")
      case True
      then have "spawn c n r = (spawn_one r)\<lparr>main := AtYield (Suc n)\<rparr>"
        using go by (simp add: spawn.simps [of c n r])
      with one q show ?thesis
        by (intro exI [of _ 1]) (auto simp: spawned_def stops_at_def spawn_one_def)
    next
      case False
      then have eq: "spawn c n r = spawn c (Suc n) (spawn_one r)"
        using go by (simp add: spawn.simps [of c n r] Let_def)
      from 1 go False obtain k where k: "spawned c k (spawn_one r) (spawn c n r)"
        "stops_at c (spawn c n r)" unfolding eq by blast
      have "spawned c (Suc k) r (spawn c n r)"
        using k(1) one go q by (cases "k = 0") (auto simp: spawned_def spawn_one_def)
      with k(2) show ?thesis by blast
    qed
  next
    case stop: False
    then have eq: "spawn c n r = after_spawn r" by (simp only: spawn.simps [of c n r] if_False)
    have "\<not> (\<exists>m. main (after_spawn r) = AtYield m)" by (auto simp: after_spawn_def exit_loop_def)
    with after_spawn_effect [OF stop] show ?thesis unfolding eq by blast
  qed
qed

text \<open>One activation: finished coroutines are dropped (unless the loop ends), then tasks are spawned.\<close>

definition live :: "coroutine list \<Rightarrow> coroutine list" where
  "live ps = filter (\<lambda>p. p \<noteq> Done) ps"

definition activated :: "cfg \<Rightarrow> run \<Rightarrow> run \<Rightarrow> bool" where
  "activated c r r' \<longleftrightarrow>
     (\<exists>k. spawned c k (discard_done_tasks r) r' \<and> stops_at c r' \<and>
        (\<forall>m. main r' = AtYield m \<longrightarrow> 0 < k)) \<or>
     (state r' = state r \<and> pending r' = pending r \<and> stops_at c r' \<and>
        (main r' = AtCancel \<or> (\<exists>x. main r' = Returned x)))"

lemma loop_top_effect: "activated c r (loop_top c r)"
proof (cases "task_exceptions (state r) = [] \<and> (queue (state r) \<noteq> [] \<or> pending r \<noteq> [])")
  case True
  then show ?thesis unfolding activated_def using spawn_effect by (simp add: loop_top_def)
next
  case False
  then have "loop_top c r = exit_loop r" by (simp only: loop_top_def if_False)
  with False show ?thesis
    by (auto simp: activated_def exit_loop_def stops_at_def)
qed

lemma main_step_effect:
  assumes "main_step c r = Some r'"
  shows "(main r \<noteq> AtCancel \<and> activated c r r') \<or>
     (main r = AtCancel \<and> set (pending r) \<subseteq> {Done} \<and>
        r' = r\<lparr>main := Returned (Some (task_exceptions (state r)))\<rparr>)"
proof (cases "main r")
  case (AtYield n)
  with assms have "r' = spawn c n (discard_done_tasks r)" by (simp add: main_step_def)
  with AtYield spawn_effect [of c "discard_done_tasks r" n] show ?thesis
    by (simp add: activated_def)
next
  case AtWait
  with assms show ?thesis using loop_top_effect by (auto simp: main_step_def split: if_splits)
qed (use assms in \<open>auto simp: main_step_def split: if_splits\<close>)

section \<open>The cap on pending coroutines\<close>

lemma activated_pending:
  "activated c r r' \<Longrightarrow> length (pending r) \<le> cfg_max_pending c \<Longrightarrow> length (pending r') \<le> cfg_max_pending c"
  unfolding activated_def spawned_def discard_done_tasks_def
  by (auto intro: order_trans [OF length_filter_le])

lemma event_step_pending:
  assumes "event_step c v e r = Some r'" and "length (pending r) \<le> cfg_max_pending c"
  shows "length (pending r') \<le> cfg_max_pending c"
proof (cases e)
  case MainWakes
  with assms(1) have "main_step c r = Some r'" by simp
  from main_step_effect [OF this] assms(2) show ?thesis by (auto intro: activated_pending)
qed (use assms in \<open>auto simp: put_coroutine_def split: if_splits coroutine.splits\<close>)

lemma runs_pending_cap:
  assumes "runs c v (start c s) es r"
  shows "length (pending r) \<le> cfg_max_pending c"
  using assms
proof (rule runs_invariant [where I = "\<lambda>r. length (pending r) \<le> cfg_max_pending c"])
  show "length (pending (start c s)) \<le> cfg_max_pending c"
    unfolding start_def by (rule activated_pending [OF loop_top_effect]) simp
qed (rule event_step_pending)

end
