(* ===== verification/Flat_Core.thy ===== *)
theory Flat_Core
  imports Flat_Steps Sched_Main
begin

text \<open>
  The invariant of a workflow without control-flow actions. The released actions are those whose
  outgoing edges have been marked. For every action the indegree is the number of dependencies on
  actions that are not released yet, the edges that leave released actions carry the markers of the
  specification, and an action is queued or running only when all its dependencies are released.
\<close>

definition open_count :: "string set \<Rightarrow> stmt \<Rightarrow> int" where
  "open_count Rel a = int (length (filter (\<lambda>dep. dep_src dep \<notin> Rel) (depends_on a)))"

lemma open_count_0: "open_count Rel a = 0 \<longleftrightarrow> dep_src ` set (depends_on a) \<subseteq> Rel"
  by (auto simp: open_count_def filter_empty_conv)

lemma open_count_insert:
  "r \<notin> Rel \<Longrightarrow> open_count (insert r Rel) a =
     open_count Rel a - int (length (filter (\<lambda>dep. dep_src dep = r) (depends_on a)))"
  using length_filter_split [of r Rel dep_src "depends_on a"] by (simp add: open_count_def)

lemma open_count_split:
  "r \<notin> Rel \<Longrightarrow> int (length (filter (\<lambda>dep. dep_src dep = r) (depends_on a))) \<le> open_count Rel a"
  using length_filter_split [of r Rel dep_src "depends_on a"] by (simp add: open_count_def)

definition core ::
  "stmt list \<Rightarrow> (string \<rightharpoonup> disposition) \<Rightarrow> string set \<Rightarrow> string set \<Rightarrow> st \<Rightarrow> bool" where
  "core actions D Rel A s \<longleftrightarrow>
     A \<inter> Rel = {} \<and> A \<subseteq> ref ` set actions \<and> Rel \<subseteq> ref ` set actions \<and>
     (\<forall>a \<in> set actions. dict_get (indegrees s) (ref a, ROOT_STREAM) = Some (open_count Rel a)) \<and>
     (\<forall>a \<in> set actions. \<forall>dep \<in> set (depends_on a). dep_src dep \<in> Rel \<longrightarrow>
        incoming s (ref a) ROOT_STREAM (dep_parts dep) = marker_from D (dep_parts dep)) \<and>
     (\<forall>a \<in> set actions. ref a \<in> A \<union> Rel \<longrightarrow> dep_src ` set (depends_on a) \<subseteq> Rel) \<and>
     dict_get (streams s) ROOT_STREAM \<noteq> None"

lemma coreD:
  assumes "core actions D Rel A s"
  shows "A \<inter> Rel = {}" "A \<subseteq> ref ` set actions" "Rel \<subseteq> ref ` set actions"
    and "a \<in> set actions \<Longrightarrow> dict_get (indegrees s) (ref a, ROOT_STREAM) = Some (open_count Rel a)"
    and "a \<in> set actions \<Longrightarrow> dep \<in> set (depends_on a) \<Longrightarrow> dep_src dep \<in> Rel \<Longrightarrow>
        incoming s (ref a) ROOT_STREAM (dep_parts dep) = marker_from D (dep_parts dep)"
    and "a \<in> set actions \<Longrightarrow> ref a \<in> A \<union> Rel \<Longrightarrow> dep_src ` set (depends_on a) \<subseteq> Rel"
    and "dict_get (streams s) ROOT_STREAM \<noteq> None"
proof -
  note parts = assms [unfolded core_def]
  show "A \<inter> Rel = {}" "A \<subseteq> ref ` set actions" "Rel \<subseteq> ref ` set actions"
    "dict_get (streams s) ROOT_STREAM \<noteq> None"
    using parts by - (elim conjE, assumption)+
  show "dict_get (indegrees s) (ref a, ROOT_STREAM) = Some (open_count Rel a)" if "a \<in> set actions"
    using parts that by simp
  show "incoming s (ref a) ROOT_STREAM (dep_parts dep) = marker_from D (dep_parts dep)"
    if "a \<in> set actions" "dep \<in> set (depends_on a)" "dep_src dep \<in> Rel"
    using parts that by simp
  have "\<forall>a \<in> set actions. ref a \<in> A \<union> Rel \<longrightarrow> dep_src ` set (depends_on a) \<subseteq> Rel"
    using parts by (elim conjE)
  then show "dep_src ` set (depends_on a) \<subseteq> Rel" if "a \<in> set actions" "ref a \<in> A \<union> Rel"
    using that by blast
qed

lemma core_shrink:
  assumes core: "core actions D Rel A s" and "B \<subseteq> A"
  shows "core actions D Rel B s"
  unfolding core_def
proof (intro conjI ballI impI)
  show "B \<inter> Rel = {}" "B \<subseteq> ref ` set actions" using coreD(1,2) [OF core] assms(2) by blast+
  show "Rel \<subseteq> ref ` set actions" by (rule coreD(3) [OF core])
  show "dict_get (streams s) ROOT_STREAM \<noteq> None" by (rule coreD(7) [OF core])
next
  fix a assume "a \<in> set actions" "ref a \<in> B \<union> Rel"
  with assms(2) show "dep_src ` set (depends_on a) \<subseteq> Rel" by (intro coreD(6) [OF core]) auto
qed (auto intro: coreD(4,5) [OF core])

lemma core_same:
  assumes "core actions D Rel A s" and "indegrees s' = indegrees s" "edges s' = edges s"
    and "dict_get (streams s') ROOT_STREAM \<noteq> None"
  shows "core actions D Rel A s'"
proof -
  have "incoming s' = incoming s"
    using assms(3) by (auto simp: incoming_def edge_marker_def fun_eq_iff)
  with assms show ?thesis unfolding core_def by auto
qed

lemma written_same [simp]:
  "indegrees (written s r w) = indegrees s" "edges (written s r w) = edges s"
  "queue (written s r w) = queue s" "completed_tasks (written s r w) = completed_tasks s"
  "task_exceptions (written s r w) = task_exceptions s"
  "dict_get (streams (written s r w)) ROOT_STREAM = None \<longleftrightarrow> dict_get (streams s) ROOT_STREAM = None"
  by (auto simp: written_def put_action_def split: option.splits)

lemma core_written: "core actions D Rel A s \<Longrightarrow> core actions D Rel A (written s r w)"
  by (rule core_same) (auto dest: coreD(7))

lemma core_decides:
  assumes "core actions D Rel A s" and "a \<in> set actions" and "ref a \<in> A"
  shows "all_incoming_skipped a (incoming s (ref a) ROOT_STREAM) = all_incoming_skipped a (marker_from D)"
    and "joins a (incoming s (ref a) ROOT_STREAM) = joins a (marker_from D)"
proof -
  have "incoming s (ref a) ROOT_STREAM (dep_parts dep) = marker_from D (dep_parts dep)"
    if "dep \<in> set (depends_on a)" for dep
    using coreD(5) [OF assms(1,2) that] coreD(6) [OF assms(1,2)] assms(3) that by blast
  then show "all_incoming_skipped a (incoming s (ref a) ROOT_STREAM) = all_incoming_skipped a (marker_from D)"
    "joins a (incoming s (ref a) ROOT_STREAM) = joins a (marker_from D)"
    by (auto simp: all_incoming_skipped_def joins_def Let_def list_all_iff list_ex_iff)
qed

text \<open>The successors of an active action are known and wait for at least its edges.\<close>

lemma core_successors:
  assumes c: "wf_cfg actions c" and dd: "distinct_deps actions" and core: "core actions D Rel A s"
    and a: "a \<in> set actions" "ref a \<in> A"
  shows "\<forall>n \<in> set (adj_of c (ref a)). \<exists>i. indegree c s (fst n, ROOT_STREAM) = Some i \<and>
     int (edges_to (adj_of c (ref a)) (fst n)) \<le> i"
    and "b \<in> set actions \<Longrightarrow> indegree c s (ref b, ROOT_STREAM) = Some (open_count Rel b)"
proof -
  have r: "ref a \<in> ref ` set actions" "ref a \<notin> Rel" using a coreD(1) [OF core] by auto
  show ind: "indegree c s (ref b, ROOT_STREAM) = Some (open_count Rel b)" if "b \<in> set actions" for b
    using coreD(4) [OF core that] by (simp add: indegree_def)
  show "\<forall>n \<in> set (adj_of c (ref a)). \<exists>i. indegree c s (fst n, ROOT_STREAM) = Some i \<and>
     int (edges_to (adj_of c (ref a)) (fst n)) \<le> i"
  proof
    fix n assume "n \<in> set (adj_of c (ref a))"
    then have "n \<in> targets actions (ref a)" using wf_cfgD(6) [OF c r(1)] by simp
    then obtain b where b: "b \<in> set actions" "fst n = ref b" by (auto simp: targets_def)
    with ind [OF b(1)] edges_to_deps [OF c dd b(1) r(1)] open_count_split [OF r(2), of b]
    show "\<exists>i. indegree c s (fst n, ROOT_STREAM) = Some i \<and>
       int (edges_to (adj_of c (ref a)) (fst n)) \<le> i" by simp
  qed
qed

lemma core_releases:
  assumes "wf_cfg actions c" and "distinct_deps actions" and "core actions D Rel A s"
    and "a \<in> set actions" "ref a \<in> A"
  shows "releases c (mk_task (ref a) ROOT_STREAM) s"
proof -
  have "fst (for_all (queue_next c (mk_task (ref a) ROOT_STREAM) un) (adj_of c (ref a)) s) = Inr ()" for un
  proof -
    from queue_loop [of "adj_of c (ref a)" c s "mk_task (ref a) ROOT_STREAM" un]
      core_successors(1) [OF assms]
    obtain s' where "for_all (queue_next c (mk_task (ref a) ROOT_STREAM) un) (adj_of c (ref a)) s = (Inr (), s')"
      unfolding mk_task_simps by blast
    then show ?thesis by simp
  qed
  then show ?thesis by (simp add: releases_def queue_tasks_def)
qed

section \<open>Releasing the successors of an action\<close>

lemma release_core:
  assumes c: "wf_cfg actions c" and dd: "distinct_deps actions" and core: "core actions D Rel A s"
    and a: "a \<in> set actions" "ref a \<in> A" and d: "D (ref a) = Some d" "d \<noteq> Fatal"
    and q: "queue_tasks c (mk_task (ref a) ROOT_STREAM) un s = (Inr (), s')"
    and un: "\<And>n. n \<in> set (adj_of c (ref a)) \<Longrightarrow>
      out_edge (mk_task (ref a) ROOT_STREAM) n \<in> set un \<longleftrightarrow> mark_of d (snd n) = SKIPPED"
  obtains es ig new where
    "s' = s\<lparr>edges := es, indegrees := ig,
        queue := queue s @ map (\<lambda>r. mk_task r ROOT_STREAM) new\<rparr>"
    "distinct new" "set new \<inter> (A \<union> Rel) = {}"
    "\<And>b. b \<in> set actions \<Longrightarrow> ref b \<in> set new \<longleftrightarrow> dep_src ` set (depends_on b) \<subseteq> insert (ref a) Rel \<and>
        ref a \<in> dep_src ` set (depends_on b)"
    "set new \<subseteq> ref ` set actions"
    "core actions D (insert (ref a) Rel) (A - {ref a} \<union> set new) s'"
proof -
  let ?t = "mk_task (ref a) ROOT_STREAM" and ?ns = "adj_of c (ref a)"
  have r: "ref a \<in> ref ` set actions" "ref a \<notin> Rel" using a coreD(1) [OF core] by auto
  have ns: "set ?ns = targets actions (ref a)" by (rule wf_cfgD(6) [OF c r(1)])
  note ind = core_successors(2) [OF c dd core a]
  have cnt: "edges_to ?ns (ref b) = length (filter (\<lambda>dep. dep_src dep = ref a) (depends_on b))"
    if "b \<in> set actions" for b by (rule edges_to_deps [OF c dd that r(1)])
  have same: "b' = b" if "b \<in> set actions" "b' \<in> set actions" "ref b' = ref b" for b b'
    using wf_cfgD(2) [OF c] that by (auto simp: distinct_map inj_on_def)
  have dst: "ref b \<in> fst ` set ?ns \<longleftrightarrow> ref a \<in> dep_src ` set (depends_on b)" if b: "b \<in> set actions" for b
  proof
    assume "ref b \<in> fst ` set ?ns"
    then obtain b' dep where x: "b' \<in> set actions" "ref b' = ref b" "dep \<in> set (depends_on b')"
      "dep_src dep = ref a" by (auto simp: ns targets_def)
    have "dep \<in> set (depends_on b)" using x(3) same [OF b x(1,2)] by simp
    with x(4) [symmetric] show "ref a \<in> dep_src ` set (depends_on b)" by (rule image_eqI)
  next
    assume "ref a \<in> dep_src ` set (depends_on b)"
    then obtain dep where "dep \<in> set (depends_on b)" "dep_src dep = ref a" by auto
    with b have "(ref b, dep_type dep) \<in> set ?ns" by (auto simp: ns targets_def)
    then show "ref b \<in> fst ` set ?ns" by force
  qed
  have pre: "\<forall>n \<in> set (adj_of c (task_ref ?t)). \<exists>i. indegree c s (fst n, stream_id ?t) = Some i \<and>
      int (edges_to (adj_of c (task_ref ?t)) (fst n)) \<le> i"
    using core_successors(1) [OF c dd core a] by simp
  obtain es ig new where
    run: "queue_tasks c ?t un s = (Inr (), s\<lparr>edges := es, indegrees := ig,
        queue := queue s @ map (successor ?t) new\<rparr>)" and
    mk: "\<And>e. dict_get_default es e PENDING = (if e \<in> out_edge ?t ` set ?ns
        then (if e \<in> set un then SKIPPED else VISITED) else edge_marker s e)" and
    other: "\<And>k. k \<notin> (\<lambda>n. (fst n, ROOT_STREAM)) ` set ?ns \<Longrightarrow> dict_get ig k = dict_get (indegrees s) k" and
    dec: "\<And>n. n \<in> set ?ns \<Longrightarrow> dict_get ig (fst n, ROOT_STREAM) =
        map_option (\<lambda>i. i - int (edges_to ?ns (fst n))) (indegree c s (fst n, ROOT_STREAM))" and
    new: "distinct new"
      "set new = {r \<in> fst ` set ?ns. indegree c s (r, ROOT_STREAM) = Some (int (edges_to ?ns r))}"
    by (rule queue_tasks_effect [OF pre, of un, unfolded mk_task_simps]) (rule that)
  define u where "u = s\<lparr>edges := es, indegrees := ig, queue := queue s @ map (successor ?t) new\<rparr>"
  have s': "s' = u" using run q by (simp add: u_def)
  have u: "indegrees u = ig" "\<And>e. edge_marker u e = dict_get_default es e PENDING" "streams u = streams s"
    by (simp_all add: u_def edge_marker_def)
  have succ: "successor ?t = (\<lambda>r. mk_task r ROOT_STREAM)"
    by (simp add: successor_def mk_task_def fun_eq_iff)
  have refs: "set new \<subseteq> ref ` set actions" using new(2) by (auto simp: ns targets_def)
  have new_iff: "ref b \<in> set new \<longleftrightarrow> dep_src ` set (depends_on b) \<subseteq> insert (ref a) Rel \<and>
        ref a \<in> dep_src ` set (depends_on b)" if b: "b \<in> set actions" for b
  proof -
    have "open_count Rel b = int (edges_to ?ns (ref b)) \<longleftrightarrow> open_count (insert (ref a) Rel) b = 0"
      using open_count_insert [OF r(2), of b] cnt [OF b] by simp
    with new(2) ind [OF b] dst [OF b] open_count_0 [of "insert (ref a) Rel" b] show ?thesis by auto
  qed
  have disj: "set new \<inter> (A \<union> Rel) = {}"
  proof -
    have "ref b \<notin> set new" if "b \<in> set actions" "ref b \<in> A \<union> Rel" for b
      using new_iff [OF that(1)] coreD(6) [OF core that] r(2) by blast
    with coreD(2,3) [OF core] show ?thesis by blast
  qed
  have ind': "dict_get ig (ref b, ROOT_STREAM) = Some (open_count (insert (ref a) Rel) b)"
    if b: "b \<in> set actions" for b
  proof (cases "ref b \<in> fst ` set ?ns")
    case True
    then obtain n where "n \<in> set ?ns" "fst n = ref b" by auto
    with dec [of n] ind [OF b] cnt [OF b] show ?thesis by (simp add: open_count_insert [OF r(2)])
  next
    case False
    then have "(ref b, ROOT_STREAM) \<notin> (\<lambda>n. (fst n, ROOT_STREAM)) ` set ?ns" by auto
    moreover have "edges_to ?ns (ref b) = 0" using False by (simp add: count_list_0_iff)
    ultimately show ?thesis
      using other coreD(4) [OF core b] cnt [OF b] by (simp add: open_count_insert [OF r(2)])
  qed
  have mark': "incoming u (ref b) ROOT_STREAM (dep_parts dep) = marker_from D (dep_parts dep)"
    if b: "b \<in> set actions" and dep: "dep \<in> set (depends_on b)" and src: "dep_src dep \<in> insert (ref a) Rel"
    for b dep
  proof -
    have parts: "dep_parts dep = (dep_src dep, dep_type dep)" by (simp add: dep_src_def dep_type_def)
    show ?thesis
    proof (cases "dep_src dep = ref a")
      case True
      let ?e = "out_edge ?t (ref b, dep_type dep)"
      have e: "?e = \<lparr>edge_src = ref a, edge_dst = ref b, edge_type = dep_type dep, edge_stream = ROOT_STREAM\<rparr>"
        by (simp add: out_edge_def)
      have n: "(ref b, dep_type dep) \<in> set ?ns" using b dep True by (auto simp: ns targets_def)
      have "edge_marker u ?e = (if mark_of d (dep_type dep) = SKIPPED then SKIPPED else VISITED)"
        using mk [of ?e] un [OF n] n by (auto simp: u)
      also have "\<dots> = mark_of d (dep_type dep)" using d(2) by (cases d) auto
      finally show ?thesis using True d(1) unfolding e parts incoming_def marker_from_def by simp
    next
      case False
      with src have rel: "dep_src dep \<in> Rel" by blast
      have "\<lparr>edge_src = dep_src dep, edge_dst = ref b, edge_type = dep_type dep, edge_stream = ROOT_STREAM\<rparr>
          \<notin> out_edge ?t ` set ?ns"
        using False by (auto simp: out_edge_def)
      then have "incoming u (ref b) ROOT_STREAM (dep_parts dep) = incoming s (ref b) ROOT_STREAM (dep_parts dep)"
        using mk unfolding parts incoming_def by (simp add: u)
      with coreD(5) [OF core b dep rel] show ?thesis by simp
    qed
  qed
  have core': "core actions D (insert (ref a) Rel) (A - {ref a} \<union> set new) u"
    unfolding core_def
  proof (intro conjI ballI impI)
    show "(A - {ref a} \<union> set new) \<inter> insert (ref a) Rel = {}"
      using coreD(1) [OF core] disj a(2) by blast
    show "A - {ref a} \<union> set new \<subseteq> ref ` set actions" "insert (ref a) Rel \<subseteq> ref ` set actions"
      using coreD(2,3) [OF core] refs r(1) by blast+
    show "dict_get (streams u) ROOT_STREAM \<noteq> None" using coreD(7) [OF core] u by simp
  next
    fix b assume b: "b \<in> set actions" "ref b \<in> A - {ref a} \<union> set new \<union> insert (ref a) Rel"
    show "dep_src ` set (depends_on b) \<subseteq> insert (ref a) Rel"
    proof (cases "ref b \<in> set new")
      case True
      then show ?thesis using new_iff [OF b(1)] by simp
    next
      case False
      with b(2) a(2) have "ref b \<in> A \<union> Rel" by auto
      from coreD(6) [OF core b(1) this] show ?thesis by (rule subset_insertI2)
    qed
  qed (auto intro: ind' mark' simp: u)
  show ?thesis
  proof (rule that [of new ig es])
    show "s' = s\<lparr>edges := es, indegrees := ig,
        queue := queue s @ map (\<lambda>r. mk_task r ROOT_STREAM) new\<rparr>"
      unfolding s' by (simp add: u_def succ)
    show "core actions D (insert (ref a) Rel) (A - {ref a} \<union> set new) s'" unfolding s' by (rule core')
  qed (use new(1) disj new_iff refs in blast)+
qed

end
