(* ===== verification/Flat_Runs.thy ===== *)
theory Flat_Runs
  imports Flat_Core
begin

text \<open>
  Every run of a workflow without control-flow actions, under every interleaving, computes the
  sequential specification: no action starts twice or before its dependencies, the run returns
  without exceptions exactly when no action is fatal, and then every action is complete and every
  edge has the specified marker. Every run also ends, after a number of events that is linear in the
  number of actions.
\<close>

section \<open>Runs that follow a script\<close>

definition script_answer :: "script \<Rightarrow> frame \<Rightarrow> answer \<Rightarrow> bool" where
  "script_answer orc f ans =
     (case ans of
        AnsExpr x \<Rightarrow> x = run_if_answer orc (task_ref (fr_task f))
      | AnsExec w e \<Rightarrow> e = exec_outcome orc (task_ref (fr_task f))
      | _ \<Rightarrow> True)"

definition follows :: "script \<Rightarrow> run \<Rightarrow> event \<Rightarrow> bool" where
  "follows orc r e =
     (case e of
        Answered i ans \<Rightarrow> (case pending r ! i of Waiting f \<Rightarrow> script_answer orc f ans | _ \<Rightarrow> True)
      | _ \<Rightarrow> True)"

inductive script_runs :: "script \<Rightarrow> cfg \<Rightarrow> coercions \<Rightarrow> run \<Rightarrow> event list \<Rightarrow> run \<Rightarrow> bool"
  for orc c v r0 where
  script_refl: "script_runs orc c v r0 [] r0"
| script_step: "script_runs orc c v r0 es r \<Longrightarrow> event_step c v e r = Some r' \<Longrightarrow> follows orc r e \<Longrightarrow>
    script_runs orc c v r0 (es @ [e]) r'"

lemma script_runs_runs: "script_runs orc c v r0 es r \<Longrightarrow> runs c v r0 es r"
  by (induction rule: script_runs.induct) (auto intro: runs.intros)

text \<open>The same runs as a function of the events.\<close>

fun script_events :: "script \<Rightarrow> cfg \<Rightarrow> coercions \<Rightarrow> event list \<Rightarrow> run \<Rightarrow> run option" where
  "script_events orc c v [] r = Some r"
| "script_events orc c v (e # es) r =
     (if follows orc r e then Option.bind (event_step c v e r) (script_events orc c v es) else None)"

lemma script_runs_trans:
  "script_runs orc c v r0 es r \<Longrightarrow> script_events orc c v es' r = Some r' \<Longrightarrow>
     script_runs orc c v r0 (es @ es') r'"
proof (induction es' arbitrary: es r)
  case (Cons e es')
  from Cons.prems(2) obtain q where q: "follows orc r e" "event_step c v e r = Some q"
    "script_events orc c v es' q = Some r'" by (auto simp: bind_eq_Some_conv split: if_splits)
  from Cons.IH [OF script_step [OF Cons.prems(1) q(2,1)] q(3)] show ?case by simp
qed simp

lemmas script_runs_events = script_runs_trans [OF script_refl, simplified append_Nil]

section \<open>The invariant\<close>

fun co_refs :: "coroutine \<Rightarrow> string list" where
  "co_refs (Fresh t) = [task_ref t]"
| "co_refs (Waiting f) = [task_ref (fr_task f)]"
| "co_refs Done = []"

definition active :: "run \<Rightarrow> string list" where
  "active r = map task_ref (queue (state r)) @ concat (map co_refs (pending r))"

definition root_task :: "stmt list \<Rightarrow> task \<Rightarrow> bool" where
  "root_task actions t \<longleftrightarrow> (\<exists>a \<in> set actions. t = mk_task (ref a) ROOT_STREAM)"

definition frame_ok :: "script \<Rightarrow> stmt list \<Rightarrow> (string \<rightharpoonup> disposition) \<Rightarrow> frame \<Rightarrow> bool" where
  "frame_ok orc actions D f \<longleftrightarrow>
     (\<exists>a \<in> set actions. \<not> all_incoming_skipped a (marker_from D) \<and>
        ((\<exists>e ctx. f = root_frame (ref a) (RunIf e ctx) \<and> run_if a = Some e) \<or>
         (f = root_frame (ref a) ExecAction \<and> joins a (marker_from D) \<and>
            (run_if a = None \<or> (\<exists>x. run_if_answer orc (ref a) = Inr x \<and> py_bool x)))))"

fun co_ok :: "script \<Rightarrow> stmt list \<Rightarrow> (string \<rightharpoonup> disposition) \<Rightarrow> coroutine \<Rightarrow> bool" where
  "co_ok orc actions D (Fresh t) = root_task actions t"
| "co_ok orc actions D (Waiting f) = frame_ok orc actions D f"
| "co_ok orc actions D Done = True"

definition flat_at ::
  "script \<Rightarrow> stmt list \<Rightarrow> (string \<rightharpoonup> disposition) \<Rightarrow> string set \<Rightarrow> run \<Rightarrow> bool" where
  "flat_at orc actions D Rel r \<longleftrightarrow>
     distinct (active r) \<and> core actions D Rel (set (active r)) (state r) \<and>
     (\<forall>t \<in> set (queue (state r)). root_task actions t) \<and>
     (\<forall>p \<in> set (pending r). co_ok orc actions D p) \<and>
     (\<forall>k \<in> completed_tasks (state r). k \<in> ref ` set actions \<times> {ROOT_STREAM} \<and> fst k \<notin> set (active r)) \<and>
     Rel \<times> {ROOT_STREAM} \<subseteq> completed_tasks (state r) \<and>
     (\<forall>a \<in> set actions. (ref a, ROOT_STREAM) \<in> completed_tasks (state r) \<longrightarrow>
        dep_src ` set (depends_on a) \<subseteq> Rel) \<and>
     (\<forall>x. dict_get (task_exceptions (state r)) x \<noteq> None \<longrightarrow> D x = Some Fatal)"

text \<open>As long as nothing is cancelled, no action is lost.\<close>

definition flat_live :: "stmt list \<Rightarrow> (string \<rightharpoonup> disposition) \<Rightarrow> string set \<Rightarrow> run \<Rightarrow> bool" where
  "flat_live actions D Rel r \<longleftrightarrow>
     (\<forall>a \<in> set actions. dep_src ` set (depends_on a) \<subseteq> Rel \<longrightarrow>
        ref a \<in> set (active r) \<or> (ref a, ROOT_STREAM) \<in> completed_tasks (state r)) \<and>
     (\<forall>k \<in> completed_tasks (state r). fst k \<in> Rel \<or>
        dict_get (task_exceptions (state r)) (fst k) \<noteq> None) \<and>
     (\<forall>x \<in> Rel. D x \<noteq> Some Fatal)"

lemma flat_atD:
  assumes "flat_at orc actions D Rel r"
  shows "distinct (active r)" "core actions D Rel (set (active r)) (state r)"
    "t \<in> set (queue (state r)) \<Longrightarrow> root_task actions t" "p \<in> set (pending r) \<Longrightarrow> co_ok orc actions D p"
    "k \<in> completed_tasks (state r) \<Longrightarrow> k \<in> ref ` set actions \<times> {ROOT_STREAM} \<and> fst k \<notin> set (active r)"
    "Rel \<times> {ROOT_STREAM} \<subseteq> completed_tasks (state r)"
    "dict_get (task_exceptions (state r)) x \<noteq> None \<Longrightarrow> D x = Some Fatal"
    "a \<in> set actions \<Longrightarrow> (ref a, ROOT_STREAM) \<in> completed_tasks (state r) \<Longrightarrow>
      dep_src ` set (depends_on a) \<subseteq> Rel"
  using assms by (auto simp: flat_at_def)

section \<open>A coroutine finishes or waits\<close>

lemma co_refs_update:
  assumes "i < length ps"
  obtains X Y where "concat (map co_refs ps) = X @ co_refs (ps ! i) @ Y"
    "\<And>p. concat (map co_refs (ps[i := p])) = X @ co_refs p @ Y"
proof (rule that)
  let ?X = "concat (map co_refs (take i ps))" and ?Y = "concat (map co_refs (drop (Suc i) ps))"
  show "concat (map co_refs (ps[i := p])) = ?X @ co_refs p @ ?Y" for p
    using assms by (simp add: upd_conv_take_nth_drop)
  from this [of "ps ! i"] show "concat (map co_refs ps) = ?X @ co_refs (ps ! i) @ ?Y" by simp
qed

lemma put_coroutine_simps [simp]:
  "state (put_coroutine i ps r) = snd ps" "main (put_coroutine i ps r) = main r"
  "pending (put_coroutine i ps r) = (pending r)[i := settle (fst ps)]"
  by (simp_all add: put_coroutine_def)

lemma finish_task_simps [simp]:
  "queue (finish_task t s) = queue s" "task_exceptions (finish_task t s) = task_exceptions s"
  "completed_tasks (finish_task t s) = insert (task_key t) (completed_tasks s)"
  "indegrees (finish_task t s) = indegrees s" "edges (finish_task t s) = edges s"
  "streams (finish_task t s) = streams s"
  by (simp_all add: finish_task_def)

lemma core_finish_task: "core actions D Rel A s \<Longrightarrow> core actions D Rel A (finish_task t s)"
  by (rule core_same) (auto dest: coreD(7))

lemma co_ok_update:
  "\<forall>p \<in> set ps. co_ok orc actions D p \<Longrightarrow> co_ok orc actions D p \<Longrightarrow>
     \<forall>q \<in> set (ps[i := p]). co_ok orc actions D q"
  using set_update_subset_insert [of ps i p] by blast

lemma wait_step:
  assumes inv: "flat_at orc actions D Rel r" and i: "i < length (pending r)"
    and refs: "co_refs (pending r ! i) = [ref a]" and f: "co_refs (Waiting f) = [ref a]"
    and ok: "frame_ok orc actions D f"
  shows "flat_at orc actions D Rel (put_coroutine i (Suspended f, state r) r)"
    and "flat_live actions D Rel r \<Longrightarrow> flat_live actions D Rel (put_coroutine i (Suspended f, state r) r)"
proof -
  obtain X Y where X: "concat (map co_refs (pending r)) = X @ co_refs (pending r ! i) @ Y"
    "\<And>p. concat (map co_refs ((pending r)[i := p])) = X @ co_refs p @ Y"
    by (rule co_refs_update [OF i]) (rule that)
  have act: "active (put_coroutine i (Suspended f, state r) r) = active r"
    using refs f by (simp add: active_def X)
  have "\<forall>p \<in> set (pending r). co_ok orc actions D p" using flat_atD(4) [OF inv] by blast
  from co_ok_update [OF this, of "Waiting f" i] ok
  have "\<forall>p \<in> set ((pending r)[i := Waiting f]). co_ok orc actions D p" by simp
  then show "flat_at orc actions D Rel (put_coroutine i (Suspended f, state r) r)"
    using inv by (simp add: flat_at_def act)
  show "flat_live actions D Rel r \<Longrightarrow> flat_live actions D Rel (put_coroutine i (Suspended f, state r) r)"
    by (simp add: flat_live_def act)
qed

text \<open>
  The state a coroutine finishes in may differ from the one it was resumed in by the result the
  executor stored.
\<close>

definition same_but_streams :: "st \<Rightarrow> st \<Rightarrow> bool" where
  "same_but_streams s u \<longleftrightarrow> queue u = queue s \<and> completed_tasks u = completed_tasks s \<and>
     task_exceptions u = task_exceptions s"

lemma finish_fatal:
  assumes inv: "flat_at orc actions D Rel r" and i: "i < length (pending r)"
    and refs: "co_refs (pending r ! i) = [ref a]" and a: "a \<in> set actions" "D (ref a) = Some Fatal"
    and u: "same_but_streams (state r) u" "core actions D Rel (set (active r)) u"
    and fin: "finishes c (ref a) Fatal u ps"
  shows "flat_at orc actions D Rel (put_coroutine i ps r) \<and>
     (flat_live actions D Rel r \<longrightarrow> flat_live actions D Rel (put_coroutine i ps r)) \<and>
     fst ps = Completed \<and> completed_tasks (snd ps) = insert (ref a, ROOT_STREAM) (completed_tasks (state r))"
proof -
  obtain X Y where X: "concat (map co_refs (pending r)) = X @ co_refs (pending r ! i) @ Y"
    "\<And>p. concat (map co_refs ((pending r)[i := p])) = X @ co_refs p @ Y"
    by (rule co_refs_update [OF i]) (rule that)
  from fin obtain x where ps: "ps = (Completed, finish_task (mk_task (ref a) ROOT_STREAM)
      (u\<lparr>task_exceptions := dict_set (ref a) x (task_exceptions u)\<rparr>))"
    by (auto simp: finishes_def Let_def)
  let ?r = "put_coroutine i ps r"
  have q: "queue u = queue (state r)" "completed_tasks u = completed_tasks (state r)"
    "task_exceptions u = task_exceptions (state r)" using u(1) by (auto simp: same_but_streams_def)
  have act: "active r = map task_ref (queue (state r)) @ X @ [ref a] @ Y"
    "active ?r = map task_ref (queue (state r)) @ X @ Y"
    using refs by (simp_all add: active_def X ps q)
  have set: "set (active ?r) = set (active r) - {ref a}" and d: "distinct (active ?r)"
    using flat_atD(1) [OF inv] by (auto simp: act)
  have "\<forall>p \<in> set (pending r). co_ok orc actions D p" using flat_atD(4) [OF inv] by blast
  from co_ok_update [OF this, of Done i] have co: "\<forall>p \<in> set ((pending r)[i := Done]). co_ok orc actions D p" by simp
  have "core actions D Rel (set (active ?r)) (state ?r)"
    unfolding set
    by (rule core_same [OF core_shrink [OF u(2)]]) (use coreD(7) [OF u(2)] in \<open>auto simp: ps\<close>)
  moreover have "dep_src ` set (depends_on b) \<subseteq> Rel"
    if "b \<in> set actions" "(ref b, ROOT_STREAM) \<in> completed_tasks (state ?r)" for b
  proof (cases "ref b = ref a")
    case True
    then have "ref b \<in> set (active r) \<union> Rel" by (simp add: act)
    then show ?thesis by (rule coreD(6) [OF u(2) that(1)])
  next
    case False
    with that have "(ref b, ROOT_STREAM) \<in> completed_tasks (state r)" by (simp add: ps q task_key_def)
    then show ?thesis by (rule flat_atD(8) [OF inv that(1)])
  qed
  ultimately have "flat_at orc actions D Rel ?r"
    using inv co d a unfolding flat_at_def set
    by (simp add: ps q task_key_def) auto
  moreover have "flat_live actions D Rel ?r" if "flat_live actions D Rel r"
    using that unfolding flat_live_def set by (simp add: ps q task_key_def) auto
  ultimately show ?thesis by (simp add: ps q task_key_def)
qed

lemma finish_released:
  assumes c: "wf_cfg actions c" and dd: "distinct_deps actions"
    and inv: "flat_at orc actions D Rel r" and i: "i < length (pending r)"
    and refs: "co_refs (pending r ! i) = [ref a]" and a: "a \<in> set actions" "D (ref a) = Some d" "d \<noteq> Fatal"
    and u: "same_but_streams (state r) u" "core actions D Rel (set (active r)) u"
    and fin: "finishes c (ref a) d u ps"
  shows "flat_at orc actions D (insert (ref a) Rel) (put_coroutine i ps r) \<and>
     (flat_live actions D Rel r \<longrightarrow> flat_live actions D (insert (ref a) Rel) (put_coroutine i ps r)) \<and>
     fst ps = Completed \<and> completed_tasks (snd ps) = insert (ref a, ROOT_STREAM) (completed_tasks (state r))"
proof -
  obtain X Y where X: "concat (map co_refs (pending r)) = X @ co_refs (pending r ! i) @ Y"
    "\<And>p. concat (map co_refs ((pending r)[i := p])) = X @ co_refs p @ Y"
    by (rule co_refs_update [OF i]) (rule that)
  have q: "queue u = queue (state r)" "completed_tasks u = completed_tasks (state r)"
    "task_exceptions u = task_exceptions (state r)" using u(1) by (auto simp: same_but_streams_def)
  have act: "active r = map task_ref (queue (state r)) @ X @ [ref a] @ Y"
    using refs by (simp add: active_def X)
  then have aA: "ref a \<in> set (active r)" by simp
  from fin a(3) obtain s' un where ps: "ps = (Completed, finish_task (mk_task (ref a) ROOT_STREAM) s')"
    and qt: "queue_tasks c (mk_task (ref a) ROOT_STREAM) un u = (Inr (), s')"
    and un: "\<And>n. n \<in> set (adj_of c (ref a)) \<Longrightarrow>
      out_edge (mk_task (ref a) ROOT_STREAM) n \<in> set un \<longleftrightarrow> mark_of d (snd n) = SKIPPED"
    unfolding finishes_def Let_def by auto
  obtain es ig new where s': "s' = u\<lparr>edges := es, indegrees := ig,
      queue := queue u @ map (\<lambda>r. mk_task r ROOT_STREAM) new\<rparr>" and
    new: "distinct new" "set new \<inter> (set (active r) \<union> Rel) = {}"
    "\<And>b. b \<in> set actions \<Longrightarrow> ref b \<in> set new \<longleftrightarrow> dep_src ` set (depends_on b) \<subseteq> insert (ref a) Rel \<and>
        ref a \<in> dep_src ` set (depends_on b)"
    "set new \<subseteq> ref ` set actions" and
    core': "core actions D (insert (ref a) Rel) (set (active r) - {ref a} \<union> set new) s'"
    by (rule release_core [OF c dd u(2) a(1) aA a(2,3) qt]) (erule un, rule that)
  let ?r = "put_coroutine i ps r"
  have q': "queue s' = queue (state r) @ map (\<lambda>r. mk_task r ROOT_STREAM) new"
    "completed_tasks s' = completed_tasks (state r)" "task_exceptions s' = task_exceptions (state r)"
    by (simp_all add: s' q)
  have act': "active ?r = map task_ref (queue (state r)) @ new @ X @ Y"
    by (simp add: active_def X ps q' comp_def)
  have set: "set (active ?r) = set (active r) - {ref a} \<union> set new" and d: "distinct (active ?r)"
    using flat_atD(1) [OF inv] new(1,2) by (auto simp: act act')
  have "\<forall>p \<in> set (pending r). co_ok orc actions D p" using flat_atD(4) [OF inv] by blast
  from co_ok_update [OF this, of Done i] have co: "\<forall>p \<in> set ((pending r)[i := Done]). co_ok orc actions D p" by simp
  have r: "ref a \<notin> Rel" using coreD(1) [OF u(2)] aA by blast
  have notnew: "fst k \<notin> set new" if k: "k \<in> completed_tasks (state r)" for k
  proof
    assume n: "fst k \<in> set new"
    from flat_atD(5) [OF inv k] obtain b where b: "b \<in> set actions" "k = (ref b, ROOT_STREAM)" by auto
    with flat_atD(8) [OF inv b(1)] k have "dep_src ` set (depends_on b) \<subseteq> Rel" by simp
    moreover have "ref a \<in> dep_src ` set (depends_on b)" using new(3) [OF b(1)] n b(2) by simp
    ultimately show False using r by blast
  qed
  have deps: "dep_src ` set (depends_on b) \<subseteq> insert (ref a) Rel"
    if "b \<in> set actions" "(ref b, ROOT_STREAM) \<in> completed_tasks (state ?r)" for b
  proof (cases "ref b = ref a")
    case True
    with aA have "ref b \<in> set (active r) \<union> Rel" by simp
    from coreD(6) [OF u(2) that(1) this] show ?thesis by (rule subset_insertI2)
  next
    case False
    with that have "(ref b, ROOT_STREAM) \<in> completed_tasks (state r)" by (simp add: ps q' task_key_def)
    from flat_atD(8) [OF inv that(1) this] show ?thesis by (rule subset_insertI2)
  qed
  have "core actions D (insert (ref a) Rel) (set (active ?r)) (state ?r)"
    unfolding set using core_finish_task [OF core'] by (simp add: ps)
  moreover have "root_task actions t" if "t \<in> set (queue (state ?r))" for t
    using that flat_atD(3) [OF inv] new(4) by (auto simp: ps q' root_task_def)
  moreover have "k \<in> ref ` set actions \<times> {ROOT_STREAM} \<and> fst k \<notin> set (active ?r)"
    if "k \<in> completed_tasks (state ?r)" for k
  proof (cases "k = (ref a, ROOT_STREAM)")
    case True
    with a(1) aA new(2) show ?thesis unfolding set by auto
  next
    case False
    with that have "k \<in> completed_tasks (state r)" by (simp add: ps q' task_key_def)
    from flat_atD(5) [OF inv this] notnew [OF this] show ?thesis unfolding set by blast
  qed
  ultimately have "flat_at orc actions D (insert (ref a) Rel) ?r"
    unfolding flat_at_def using d deps flat_atD(6,7) [OF inv] co
    by (auto simp: ps q' task_key_def)
  moreover have "flat_live actions D (insert (ref a) Rel) ?r" if live: "flat_live actions D Rel r"
    unfolding flat_live_def
  proof (intro conjI ballI impI)
    fix b assume b: "b \<in> set actions" "dep_src ` set (depends_on b) \<subseteq> insert (ref a) Rel"
    show "ref b \<in> set (active ?r) \<or> (ref b, ROOT_STREAM) \<in> completed_tasks (state ?r)"
    proof (cases "ref a \<in> dep_src ` set (depends_on b)")
      case True
      then have "ref b \<in> set new" using new(3) [OF b(1)] b(2) by simp
      then show ?thesis by (simp add: set)
    next
      case False
      with b(2) have "dep_src ` set (depends_on b) \<subseteq> Rel" by (simp add: subset_insert)
      with live b(1) have "ref b \<in> set (active r) \<or> (ref b, ROOT_STREAM) \<in> completed_tasks (state r)"
        by (simp add: flat_live_def)
      then show ?thesis unfolding set by (auto simp: ps q' task_key_def)
    qed
  qed (use live a(2,3) in \<open>auto simp: flat_live_def ps q' task_key_def\<close>)
  ultimately show ?thesis by (simp add: ps q' task_key_def)
qed

section \<open>Every step of a coroutine brings it closer to its end\<close>

text \<open>A coroutine waits at most twice, and occupies its slot until the main loop drops it.\<close>

definition weight :: "coroutine \<Rightarrow> nat" where
  "weight p = (case p of Fresh _ \<Rightarrow> 4
     | Waiting f \<Rightarrow> (case fr_point f of RunIf _ _ \<Rightarrow> 3 | _ \<Rightarrow> 2) | Done \<Rightarrow> 1)"

lemma weight_simps [simp]:
  "weight (Fresh t) = 4" "weight Done = 1" "weight (Waiting (root_frame x (RunIf e ctx))) = 3"
  "weight (Waiting (root_frame x ExecAction)) = 2"
  by (simp_all add: weight_def root_frame_def)

lemma weight_update:
  "i < length ps \<Longrightarrow> weight p < weight (ps ! i) \<Longrightarrow> sum_list (map weight (ps[i := p])) < sum_list (map weight ps)"
  by (induction ps arbitrary: i) (auto simp: nth_Cons split: nat.splits)

definition unspawned :: "stmt list \<Rightarrow> run \<Rightarrow> string set" where
  "unspawned actions r = {x \<in> ref ` set actions.
     x \<notin> set (concat (map co_refs (pending r))) \<and> (x, ROOT_STREAM) \<notin> completed_tasks (state r)}"

definition advances :: "stmt list \<Rightarrow> run \<Rightarrow> run \<Rightarrow> bool" where
  "advances actions r r' \<longleftrightarrow> unspawned actions r' = unspawned actions r \<and>
     sum_list (map weight (pending r')) < sum_list (map weight (pending r))"

lemma wait_advances:
  assumes i: "i < length (pending r)" and refs: "co_refs (pending r ! i) = co_refs (Waiting f)"
    and w: "weight (Waiting f) < weight (pending r ! i)"
  shows "advances actions r (put_coroutine i (Suspended f, state r) r)"
proof -
  obtain X Y where X: "concat (map co_refs (pending r)) = X @ co_refs (pending r ! i) @ Y"
    "\<And>p. concat (map co_refs ((pending r)[i := p])) = X @ co_refs p @ Y"
    by (rule co_refs_update [OF i]) (rule that)
  show ?thesis
    using weight_update [OF i w] by (simp add: advances_def unspawned_def X refs)
qed

lemma finish_advances:
  assumes i: "i < length (pending r)" and refs: "co_refs (pending r ! i) = [x]"
    and ps: "fst ps = Completed" "completed_tasks (snd ps) = insert (x, ROOT_STREAM) (completed_tasks (state r))"
    and d: "distinct (active r)"
  shows "advances actions r (put_coroutine i ps r)"
proof -
  obtain X Y where X: "concat (map co_refs (pending r)) = X @ co_refs (pending r ! i) @ Y"
    "\<And>p. concat (map co_refs ((pending r)[i := p])) = X @ co_refs p @ Y"
    by (rule co_refs_update [OF i]) (rule that)
  have "weight Done < weight (pending r ! i)"
    using refs by (cases "pending r ! i") (auto simp: weight_def split: point.splits)
  then show ?thesis
    using weight_update [OF i] by (auto simp: advances_def unspawned_def X refs ps)
qed

section \<open>Every event keeps the invariant\<close>

definition flat_setup :: "script \<Rightarrow> stmt list \<Rightarrow> cfg \<Rightarrow> (string \<rightharpoonup> disposition) \<Rightarrow> bool" where
  "flat_setup orc actions c D \<longleftrightarrow> wf_cfg actions c \<and> flat actions \<and> distinct_deps actions \<and>
     dom D \<subseteq> ref ` set actions \<and>
     (\<forall>a \<in> set actions. D (ref a) = Some (decide orc actions (marker_from D) a))"

lemma flat_setupD:
  assumes "flat_setup orc actions c D"
  shows "wf_cfg actions c" "flat actions" "distinct_deps actions"
    "a \<in> set actions \<Longrightarrow> D (ref a) = Some (decide orc actions (marker_from D) a)"
  using assms by (auto simp: flat_setup_def)

text \<open>The invariant after an event, with the released actions it leads to.\<close>

definition flat_next ::
  "script \<Rightarrow> stmt list \<Rightarrow> (string \<rightharpoonup> disposition) \<Rightarrow> string set \<Rightarrow> run \<Rightarrow> run \<Rightarrow> bool" where
  "flat_next orc actions D Rel r r' \<longleftrightarrow>
     (\<exists>Rel'. flat_at orc actions D Rel' r' \<and> (flat_live actions D Rel r \<longrightarrow> flat_live actions D Rel' r')) \<and>
     advances actions r r'"

lemma finish_step:
  assumes "flat_setup orc actions c D" and "flat_at orc actions D Rel r" and "i < length (pending r)"
    and "co_refs (pending r ! i) = [ref a]" and "a \<in> set actions"
    and "same_but_streams (state r) u" and "core actions D Rel (set (active r)) u"
    and "finishes c (ref a) d u ps" and "D (ref a) = Some d"
  shows "flat_next orc actions D Rel r (put_coroutine i ps r)"
proof (cases "d = Fatal")
  case True
  with finish_fatal [OF assms(2-5) _ assms(6,7)] assms(8,9) show ?thesis
    using finish_advances [OF assms(3,4) _ _ flat_atD(1) [OF assms(2)]] unfolding flat_next_def by blast
next
  case False
  with finish_released [OF flat_setupD(1,3) [OF assms(1)] assms(2-5) assms(9) False assms(6-8)]
  show ?thesis
    using finish_advances [OF assms(3,4) _ _ flat_atD(1) [OF assms(2)]] unfolding flat_next_def by blast
qed

lemma same_but_streams_refl [simp]: "same_but_streams s s"
  by (simp add: same_but_streams_def)

lemma active_co: "i < length (pending r) \<Longrightarrow> co_refs (pending r ! i) = [x] \<Longrightarrow> x \<in> set (active r)"
  by (auto simp: active_def intro!: bexI [of _ "pending r ! i"])

lemma start_step:
  assumes set: "flat_setup orc actions c D" and inv: "flat_at orc actions D Rel r"
    and i: "i < length (pending r)" "pending r ! i = Fresh t"
  shows "flat_next orc actions D Rel r (put_coroutine i (schedule_task c v t (state r)) r)"
proof -
  have "root_task actions t" using flat_atD(4) [OF inv, of "Fresh t"] i nth_mem by fastforce
  then obtain a where a: "a \<in> set actions" and t: "t = mk_task (ref a) ROOT_STREAM"
    by (auto simp: root_task_def)
  have refs: "co_refs (pending r ! i) = [ref a]" using i t by simp
  have aA: "ref a \<in> set (active r)" by (rule active_co [OF i(1) refs])
  note c = flat_setupD(1) [OF set] and core = flat_atD(2) [OF inv]
  have rel: "releases c (mk_task (ref a) ROOT_STREAM) (state r)"
    by (rule core_releases [OF c flat_setupD(3) [OF set] core a aA])
  note sched = schedule_flat [OF c flat_setupD(2) [OF set] a rel, unfolded core_decides [OF core a aA]]
  note fin = finish_step [OF set inv i(1) refs a same_but_streams_refl core]
  note D = flat_setupD(4) [OF set a, unfolded decide_def]
  have wait: "flat_next orc actions D Rel r (put_coroutine i (Suspended f, state r) r)"
    if "frame_ok orc actions D f" "co_refs (Waiting f) = [ref a]" "weight (Waiting f) < 4" for f
    using wait_step [OF inv i(1) refs that(2,1)] wait_advances [OF i(1), of f actions] refs that i(2)
    unfolding flat_next_def by auto
  consider (skip) "all_incoming_skipped a (marker_from D)"
    | (cond) e where "\<not> all_incoming_skipped a (marker_from D)" "run_if a = Some e"
    | (run) "\<not> all_incoming_skipped a (marker_from D)" "run_if a = None" "joins a (marker_from D)"
    | (stop) "\<not> all_incoming_skipped a (marker_from D)" "run_if a = None" "\<not> joins a (marker_from D)"
    by (cases "run_if a") auto
  then show ?thesis
  proof cases
    case skip
    from fin [OF sched(1) [OF skip]] D skip show ?thesis unfolding t by simp
  next
    case cond
    from sched(2) [OF cond] obtain ctx where
      "schedule_task c v t (state r) = (Suspended (root_frame (ref a) (RunIf e ctx)), state r)"
      unfolding t by blast
    with wait [of "root_frame (ref a) (RunIf e ctx)"] cond a show ?thesis
      by (auto simp: frame_ok_def root_frame_def weight_def)
  next
    case run
    from sched(3) [OF run] wait [of "root_frame (ref a) ExecAction"] run a show ?thesis
      unfolding t by (auto simp: frame_ok_def root_frame_def weight_def)
  next
    case stop
    from fin [OF sched(4) [OF stop]] D stop show ?thesis unfolding t by simp
  qed
qed

lemma answer_step:
  assumes set: "flat_setup orc actions c D" and inv: "flat_at orc actions D Rel r"
    and i: "i < length (pending r)" "pending r ! i = Waiting f"
    and aw: "awaits (fr_point f) ans" and fol: "script_answer orc f ans"
  shows "flat_next orc actions D Rel r (put_coroutine i (resume c v f ans (state r)) r)"
proof -
  have "frame_ok orc actions D f" using flat_atD(4) [OF inv, of "Waiting f"] i nth_mem by fastforce
  then obtain a where a: "a \<in> set actions" and ns: "\<not> all_incoming_skipped a (marker_from D)" and
    f: "(\<exists>e ctx. f = root_frame (ref a) (RunIf e ctx) \<and> run_if a = Some e) \<or>
      (f = root_frame (ref a) ExecAction \<and> joins a (marker_from D) \<and>
        (run_if a = None \<or> (\<exists>x. run_if_answer orc (ref a) = Inr x \<and> py_bool x)))"
    by (auto simp: frame_ok_def)
  have fr: "fr_task f = mk_task (ref a) ROOT_STREAM" using f by (auto simp: root_frame_def)
  then have refs: "co_refs (pending r ! i) = [ref a]" using i by simp
  have aA: "ref a \<in> set (active r)" by (rule active_co [OF i(1) refs])
  note c = flat_setupD(1) [OF set] and core = flat_atD(2) [OF inv]
  note D = flat_setupD(4) [OF set a, unfolded decide_def]
  have rel: "releases c (mk_task (ref a) ROOT_STREAM) s" if "core actions D Rel (set (active r)) s" for s
    by (rule core_releases [OF c flat_setupD(3) [OF set] that a aA])
  note fin = finish_step [OF set inv i(1) refs a]
  consider (cond) e ctx where "f = root_frame (ref a) (RunIf e ctx)" "run_if a = Some e"
    | (exec) "f = root_frame (ref a) ExecAction" "joins a (marker_from D)"
      "run_if a = None \<or> (\<exists>x. run_if_answer orc (ref a) = Inr x \<and> py_bool x)"
    using f by blast
  then show ?thesis
  proof cases
    case cond
    note f' = cond(1) and e = cond(2)
    note res = resume_run_if_flat [OF c flat_setupD(2) [OF set] a rel [OF core],
        unfolded core_decides [OF core a aA]]
    note fin' = fin [OF same_but_streams_refl core]
    from aw obtain x where ans: "ans = AnsExpr x"
      by (cases ans) (auto simp: f' root_frame_def awaits_def)
    with fol have x: "x = run_if_answer orc (ref a)" by (simp add: script_answer_def fr)
    show ?thesis
    proof (cases x)
      case (Inl y)
      then have y: "run_if_answer orc (ref a) = Inl y" using x by simp
      from fin' [OF res(1)] D ns e y show ?thesis by (simp add: f' ans Inl)
    next
      case (Inr y)
      then have y: "run_if_answer orc (ref a) = Inr y" using x by simp
      consider "\<not> py_bool y" | "py_bool y" "joins a (marker_from D)" | "py_bool y" "\<not> joins a (marker_from D)"
        by blast
      then show ?thesis
      proof cases
        case 1
        from fin' [OF res(2) [OF 1]] D ns e y 1 show ?thesis by (simp add: f' ans Inr)
      next
        case 2
        have "frame_ok orc actions D (root_frame (ref a) ExecAction)"
          using a ns 2 x Inr by (auto simp: frame_ok_def)
        from wait_step [OF inv i(1) refs _ this] wait_advances [OF i(1), of "root_frame (ref a) ExecAction" actions]
          res(3) [OF 2] show ?thesis
          unfolding flat_next_def i(2) f' ans Inr by (auto simp: root_frame_def weight_def)
      next
        case 3
        from fin' [OF res(4) [OF 3]] D ns e y 3 show ?thesis by (simp add: f' ans Inr)
      qed
    qed
  next
    case exec
    note f' = exec(1) and j = exec(2) and cnd = exec(3)
    from aw obtain w x where ans: "ans = AnsExec w x"
      by (cases ans) (auto simp: f' root_frame_def awaits_def)
    with fol have x: "x = exec_outcome orc (ref a)" by (simp add: script_answer_def fr)
    have core': "core actions D Rel (set (active r)) (written (state r) (ref a) w)"
      by (rule core_written [OF core])
    have "D (ref a) = Some (case x of None \<Rightarrow> Succeeded | Some y \<Rightarrow> failure actions a y)"
      using D ns j cnd x by (auto split: option.splits)
    moreover have "same_but_streams (state r) (written (state r) (ref a) w)"
      by (simp add: same_but_streams_def)
    ultimately show ?thesis
      using fin [OF _ core' resume_exec_flat [OF c a coreD(7) [OF core] rel [OF core']]]
      by (simp add: f' ans)
  qed
qed

end
