(* ===== verification/Sched_Invariant.thy ===== *)
theory Sched_Invariant
  imports Sched_Main
begin

text \<open>
  The interface between the handlers and the invariants of the scheduler state. A predicate on
  states that is closed under the assignments the handlers make, with the facts the code has
  established at each of them, holds at every moment of every run. The walk through the handlers is
  done once, in the locale; each invariant only looks at the assignments.
\<close>

definition child_streams :: "task \<Rightarrow> nat \<Rightarrow> stream list" where
  "child_streams t n = map (\<lambda>j. stream_new (task_ref t) (Idx (int j)) (Some (stream_id t))) [0..<n]"

lemma child_streams_Suc:
  "child_streams t (Suc n) = child_streams t n @ [stream_new (task_ref t) (Idx (int n)) (Some (stream_id t))]"
  by (simp add: child_streams_def)

text \<open>What the local variables of a waiting coroutine satisfy.\<close>

definition point_wf :: "coercions \<Rightarrow> task \<Rightarrow> stmt \<Rightarrow> point \<Rightarrow> bool" where
  "point_wf v t a p =
     (case p of
        LoopCond la idx ctx \<Rightarrow> parse_loop_end_args v (args a) = Inr la
      | ExecLoopEnd la idx b \<Rightarrow> parse_loop_end_args v (args a) = Inr la
      | ScatterYield sa coll ss i n \<Rightarrow> ss = child_streams t i
      | _ \<Rightarrow> True)"

definition outcome_wf :: "coercions \<Rightarrow> task \<Rightarrow> stmt \<Rightarrow> outcome \<Rightarrow> bool" where
  "outcome_wf v t a out = (case out of Finished \<Rightarrow> True | Wait p \<Rightarrow> point_wf v t a p)"

definition frame_wf :: "cfg \<Rightarrow> coercions \<Rightarrow> frame \<Rightarrow> bool" where
  "frame_wf c v f \<longleftrightarrow> (\<exists>a. dict_get (cfg_tasks c) (task_ref (fr_task f)) = Some a \<and>
     point_wf v (fr_task f) a (fr_point f))"

definition progress_wf :: "cfg \<Rightarrow> coercions \<Rightarrow> progress \<Rightarrow> bool" where
  "progress_wf c v pr = (case pr of Completed \<Rightarrow> True | Suspended f \<Rightarrow> frame_wf c v f)"

lemma outcome_wf_simps [simp]: "outcome_wf v t a Finished" "outcome_wf v t a (Wait p) = point_wf v t a p"
  by (simp_all add: outcome_wf_def)

lemma point_wf_simps [simp]:
  "point_wf v t a (RunIf x ctx)" "point_wf v t a (Delay d)" "point_wf v t a ExecAction"
  "point_wf v t a ExecLoopStart" "point_wf v t a (ScatterInput sa ctx k)"
  "point_wf v t a (FinalizeEmpty u k)" "point_wf v t a (GatherItem ga ctx k u sref j)"
  "point_wf v t a (FinalizeGather ga xs k u tr)" "point_wf v t a (ExecGather u)"
  "point_wf v t a (LoopCond la idx ctx) = (parse_loop_end_args v (args a) = Inr la)"
  "point_wf v t a (ExecLoopEnd la idx b) = (parse_loop_end_args v (args a) = Inr la)"
  "point_wf v t a (ScatterYield sa coll ss i n) = (ss = child_streams t i)"
  by (simp_all add: point_wf_def)

locale state_invariant =
  fixes c :: cfg and v :: coercions and I :: "st \<Rightarrow> bool"
  assumes mark: "I s \<Longrightarrow> I (mark_edge ed m s)"
    and indegree_set: "I s \<Longrightarrow> I (s\<lparr>indegrees := dict_set k i (indegrees s)\<rparr>)"
    and queue_set: "I s \<Longrightarrow> I (s\<lparr>queue := q\<rparr>)"
    and completed_set: "I s \<Longrightarrow> I (s\<lparr>completed_tasks := ks\<rparr>)"
    and task_exception: "I s \<Longrightarrow> I (s\<lparr>task_exceptions := dict_set r x (task_exceptions s)\<rparr>)"
    and stream_exception: "I s \<Longrightarrow> I (s\<lparr>stream_exceptions := dict_set sid x (stream_exceptions s)\<rparr>)"
    and skips_set: "I s \<Longrightarrow> I (s\<lparr>loop_start_skips := ls\<rparr>)"
    and action_set: "I s \<Longrightarrow> I (put_action sid r tr s)"
    and stream_opened: "I s \<Longrightarrow> I (open_stream (stream_new r ix (Some sid)) sid ctx s)"
    and streams_reset: "I s \<Longrightarrow> I (reset_tracking g sid (cleanup_loop_descendant_streams g sid s))"
    and index_set: "I s \<Longrightarrow> dict_get (cfg_regions_by_end c) e = Some g \<Longrightarrow>
      dict_get (cfg_tasks c) e = Some a \<Longrightarrow> parse_loop_end_args v (args a) = Inr la \<Longrightarrow>
      n < la_max_iterations la \<Longrightarrow>
      I (s\<lparr>loop_indices := dict_set (start_ref g, sid) n (loop_indices s)\<rparr>)"
    and index_filter: "I s \<Longrightarrow> I (s\<lparr>loop_indices := dict_filter P (loop_indices s)\<rparr>)"
    and index_pop: "I s \<Longrightarrow> I (s\<lparr>loop_indices := dict_pop lk (loop_indices s)\<rparr>)"
    and scatter_streams_new: "I s \<Longrightarrow> I (s\<lparr>task_streams := dict_set k [] (task_streams s)\<rparr>)"
    and scatter_streams_add: "I s \<Longrightarrow> I (append_stream (task_key t) (child_streams t j) s)"
    and open_set: "I s \<Longrightarrow> I (s\<lparr>open_streams := dict_set k i (open_streams s)\<rparr>)"
begin

lemmas assignments = mark indegree_set queue_set completed_set task_exception stream_exception skips_set
  action_set stream_opened streams_reset index_filter index_pop scatter_streams_new
  scatter_streams_add open_set

lemma keeps_queue_next: "keeps I (queue_next c' t un n)"
  unfolding queue_next_def Let_def decrement_def put_def
  by (auto intro!: ensures_seq ensures_if assignments split: option.splits)

lemma keeps_queue_tasks: "keeps I (queue_tasks c' t un)"
  unfolding queue_tasks_def by (rule keeps_for_all) (rule keeps_queue_next)

lemma keeps_out_edges: "keeps I (out_edges c' P t)"
  unfolding out_edges_def by (auto intro!: ensures_seq)

lemma keeps_paths: "keeps I (skip_all c' t)" "keeps I (handle_success_path c' t)"
  unfolding skip_all_def handle_success_path_def
  by (auto intro!: ensures_seq keeps_out_edges keeps_queue_tasks)

lemma keeps_error_path: "keeps I (handle_error_path c' v' t exc fw)"
  unfolding handle_error_path_def Let_def
  by (auto intro!: ensures_seq keeps_out_edges keeps_queue_tasks keeps_paths assignments)

lemma keeps_set_action: "keeps I (set_action sid r tr)"
  unfolding set_action_def get_context_def by (auto intro!: ensures_seq assignments)

lemma keeps_get_context: "keeps I (get_context sid)"
  by (simp add: get_context_def)

lemmas keeps_rules = ensures_seq keeps_queue_tasks keeps_out_edges keeps_paths keeps_error_path
  keeps_set_action keeps_get_context assignments

lemma keeps_loop_start:
  "ensures I (handle_loop_start_skip c' t) (outcome_wf v t a)"
  "ensures I (handle_loop_start c' t) (outcome_wf v t a)"
  unfolding handle_loop_start_skip_def handle_loop_start_def
  by (auto intro!: keeps_rules ensures_get_state)

lemma keeps_reset_member: "keeps I (reset_member c' g sid r)"
  unfolding reset_member_def by (auto intro!: keeps_rules split: option.splits)

lemma keeps_reset: "keeps I (reset_loop_iteration_state c' g sid)"
  unfolding reset_loop_iteration_state_def
  by (auto intro!: keeps_rules keeps_for_all keeps_reset_member)

lemma ensures_loop_end_check:
  "ensures I (loop_end_check c v t a) (\<lambda>(g, la). dict_get (cfg_regions_by_end c) (task_ref t) = Some g \<and>
     parse_loop_end_args v (args a) = Inr la)"
proof -
  have "ensures I (bind (checked (parse_loop_end_args v (args a))) (\<lambda>la. ret (g, la)))
     (\<lambda>(g, la). dict_get (cfg_regions_by_end c) (task_ref t) = Some g \<and>
        parse_loop_end_args v (args a) = Inr la)"
    if "dict_get (cfg_regions_by_end c) (task_ref t) = Some g" for g
    using that by (cases "parse_loop_end_args v (args a)") (auto simp: ensures_def)
  then show ?thesis unfolding loop_end_check_def by (auto split: option.splits)
qed

lemma ensures_loop_end_finish:
  assumes "dict_get (cfg_regions_by_end c) (task_ref t) = Some g"
    and "dict_get (cfg_tasks c) (task_ref t) = Some a" and "parse_loop_end_args v (args a) = Inr la"
  shows "ensures I (loop_end_finish c t g la idx cont from_start) (outcome_wf v t a)"
  unfolding loop_end_finish_def Let_def put_def
  by (auto intro!: keeps_rules keeps_reset index_set [OF _ assms])

lemma ensures_loop_end:
  assumes a: "dict_get (cfg_tasks c) (task_ref t) = Some a"
  shows "ensures I (handle_loop_end c v t a) (outcome_wf v t a)"
    and "ensures I (handle_loop_end_skip c v t a) (outcome_wf v t a)"
proof -
  show "ensures I (handle_loop_end c v t a) (outcome_wf v t a)"
    unfolding handle_loop_end_def
    by (rule ensures_bind [OF ensures_loop_end_check]) (auto intro!: ensures_get_state)
  show "ensures I (handle_loop_end_skip c v t a) (outcome_wf v t a)"
    unfolding handle_loop_end_skip_def loop_end_record_def Let_def
    by (rule ensures_bind [OF ensures_loop_end_check])
      (auto intro!: ensures_get_state keeps_rules ensures_loop_end_finish [OF _ a])
qed

lemma keeps_scatter_skip: "keeps I (handle_scatter_skip_stream c' t sid)"
  unfolding handle_scatter_skip_stream_def Let_def stream_skip_def by (auto intro!: keeps_rules)

lemma ensures_scatter: "ensures I (handle_scatter c v t a) (outcome_wf v t a)"
  unfolding handle_scatter_def by (auto intro!: keeps_rules)

lemma keeps_scatter_item: "keeps I (scatter_item c' t sa coll (child_streams t i) i)"
  unfolding scatter_item_def Let_def child_streams_Suc [symmetric] by (auto intro!: keeps_rules)

lemma ensures_scatter_loop:
  "ss = child_streams t i \<Longrightarrow> ensures I (scatter_loop c' t sa coll ss i n) (outcome_wf v t a)"
  unfolding scatter_loop_def
  by (auto intro!: keeps_rules keeps_scatter_item simp: child_streams_Suc [symmetric])

lemma ensures_scatter_start: "ensures I (scatter_start c' t sa coll) (outcome_wf v t a)"
  unfolding scatter_start_def
  by (auto intro!: keeps_rules keeps_scatter_skip ensures_scatter_loop simp: child_streams_def)

lemma keeps_slots: "keeps I (init_slots u r sc)" "keeps I (store_slot u r i x)" "keeps I (leaf_index lf)"
  "keeps I (close_one k)"
  unfolding init_slots_def store_slot_def leaf_index_def close_one_def
  by (auto intro!: keeps_rules ensures_get_state split: pyval.splits stored.splits option.splits
      stream_index.splits)

lemma ensures_gather_result:
  "ensures I (gather_result_start c' v' r u ga) (outcome_wf v t a)"
  "ensures I (gather_result_finish c' r u ga tr fin) (outcome_wf v t a)"
  unfolding gather_result_start_def gather_result_finish_def Let_def
  by (auto intro!: keeps_rules)

lemma ensures_gather_skip:
  "ensures I (handle_gather_skip_stream c' v' t a') (outcome_wf v t a)"
  "ensures I (handle_gather_in_skip_stream c' t) (outcome_wf v t a)"
  "ensures I (gather_empty_finish c' t u fin) (outcome_wf v t a)"
  unfolding handle_gather_skip_stream_def handle_gather_in_skip_stream_def gather_empty_finish_def
  by (auto intro!: keeps_rules ensures_get_state keeps_slots ensures_gather_result
      split: option.splits)

lemma ensures_gather:
  "ensures I (handle_gather c' v' t a' skip) (outcome_wf v t a)"
  "ensures I (gather_item_finish c' v' t ga u sref idx x) (outcome_wf v t a)"
  unfolding handle_gather_def gather_item_finish_def
  by (auto intro!: keeps_rules keeps_slots ensures_gather_skip ensures_gather_result)

lemma ensures_dispatch:
  assumes "dict_get (cfg_tasks c) (task_ref t) = Some a"
  shows "ensures I (dispatch c v t a) (outcome_wf v t a)"
    and "ensures I (handle_skip_path c v t a) (outcome_wf v t a)"
  unfolding dispatch_def handle_skip_path_def
  by (auto intro!: ensures_if ensures_seq ensures_loop_end [OF assms] keeps_loop_start ensures_scatter
      ensures_gather keeps_scatter_skip keeps_paths)

lemma ensures_after_run_if:
  assumes "dict_get (cfg_tasks c) (task_ref t) = Some a"
  shows "ensures I (after_run_if c v t d a err) (outcome_wf v t a)"
  unfolding after_run_if_def
  by (auto intro!: ensures_get_state ensures_seq ensures_dispatch [OF assms] split: option.splits)

lemma ensures_suspend:
  assumes "dict_get (cfg_tasks c) (task_ref t) = Some a" and "ensures I m (outcome_wf v t a)"
  shows "ensures I (bind m (ret \<circ> suspend t d g)) (progress_wf c v)"
proof (rule ensures_bind [OF assms(2)])
  fix out assume "outcome_wf v t a out"
  with assms(1) show "ensures I ((ret \<circ> suspend t d g) out) (progress_wf c v)"
    by (cases out) (auto simp: suspend_def progress_wf_def frame_wf_def)
qed

lemma ensures_guarded:
  assumes a: "dict_get (cfg_tasks c) (task_ref t) = Some a" and m: "ensures I m (outcome_wf v t a)"
  shows "ensures I (guarded c v t d a m) (progress_wf c v)"
proof -
  have retry: "ensures I (bind (after_run_if c v t d a err) (ret \<circ> suspend t d False)) (progress_wf c v)"
    for err by (rule ensures_suspend [OF a ensures_after_run_if [OF a]])
  have "I (snd (guarded c v t d a m s)) \<and>
      (\<forall>pr. fst (guarded c v t d a m s) = Inr pr \<longrightarrow> progress_wf c v pr)" if s: "I s" for s
  proof (cases "m s")
    case (Pair res s')
    with ensuresD [OF m s] have s': "I s'" and w: "\<And>out. res = Inr out \<Longrightarrow> outcome_wf v t a out" by auto
    show ?thesis
    proof (cases res)
      case (Inr out)
      with w have "outcome_wf v t a out" by blast
      with a s' Pair Inr show ?thesis
        by (cases out) (auto simp: guarded_def suspend_def progress_wf_def frame_wf_def)
    next
      case (Inl e)
      from ensuresD [OF retry s'] s' Pair Inl show ?thesis by (cases e) (auto simp: guarded_def)
    qed
  qed
  then show ?thesis by (simp add: ensures_def)
qed

lemma with_error_path_inv:
  assumes m: "ensures I m (progress_wf c v)" and s: "I s"
  shows "I (snd (with_error_path c v t m s)) \<and> progress_wf c v (fst (with_error_path c v t m s))"
proof (cases "m s")
  case (Pair res s')
  with ensuresD [OF m s] have s': "I s'" and w: "\<And>pr. res = Inr pr \<Longrightarrow> progress_wf c v pr" by auto
  have "I (finish_task t u)" if "I u" for u using that by (simp add: finish_task_def completed_set)
  with w s' Pair ensuresD(1) [OF keeps_error_path s'] show ?thesis
    by (auto simp: with_error_path_def progress_wf_def split: sum.splits progress.splits)
qed

lemma schedule_task_inv:
  assumes "I s"
  shows "I (snd (schedule_task c v t s)) \<and> progress_wf c v (fst (schedule_task c v t s))"
proof (cases "dict_get (cfg_tasks c) (task_ref t)")
  case None
  with assms show ?thesis by (simp add: schedule_task_def progress_wf_def)
next
  case (Some a)
  define t' where "t' = (if delay t > 0 then t\<lparr>delay := 0\<rparr> else t)"
  have a: "dict_get (cfg_tasks c) (task_ref t') = Some a" using Some by (simp add: t'_def)
  have "ensures I (schedule_body c v t' (delay t) a) (progress_wf c v)"
    unfolding schedule_body_def
  proof (intro ensures_get_state ensures_lift ensures_if)
    fix s x
    show "ensures I (bind (handle_skip_path c v t' a) (ret \<circ> suspend t' (delay t) False)) (progress_wf c v)"
      by (rule ensures_suspend [OF a ensures_dispatch(2) [OF a]])
    show "ensures I (case run_if a of
        Some e \<Rightarrow> ret (suspend t' (delay t) False (Wait (RunIf e
            (build_stream_aware_context c a (stream_id t') s))))
      | None \<Rightarrow> bind (after_run_if c v t' (delay t) a None) (ret \<circ> suspend t' (delay t) False)) (progress_wf c v)"
      using a ensures_suspend [OF a ensures_after_run_if [OF a]]
      by (auto simp: progress_wf_def suspend_def frame_wf_def split: option.splits)
  qed
  from with_error_path_inv [OF this assms] Some show ?thesis
    by (simp add: schedule_task_def t'_def Let_def)
qed

lemma ensures_continue:
  assumes a: "dict_get (cfg_tasks c) (task_ref t) = Some a" and p: "point_wf v t a p"
  shows "ensures I (continue_at c v t a p ans) (outcome_wf v t a)"
proof -
  have ex: "keeps I (executor_done sid r w e)" for sid r w e
    unfolding executor_done_def by (auto intro!: ensures_seq keeps_set_action split: option.splits)
  have "ensures I (continue_exec c t p w e) (outcome_wf v t a)" for w e
    using p ensures_loop_end_finish [OF _ a] unfolding continue_exec_def
    by (auto intro!: ensures_seq ex keeps_paths keeps_queue_tasks split: point.splits option.splits)
  moreover have "ensures I (continue_stored c v t p r) (outcome_wf v t a)" for r
    using p unfolding continue_stored_def
    by (auto intro!: ensures_scatter_start ensures_gather split: point.splits sum.splits)
  moreover have "ensures I (continue_final c t p r) (outcome_wf v t a)" for r
    using p unfolding continue_final_def
    by (auto intro!: ensures_gather_skip ensures_gather_result split: point.splits sum.splits)
  moreover have "ensures I (continue_tick c v t a p) (outcome_wf v t a)"
    using p unfolding continue_tick_def
    by (auto intro!: ensures_dispatch [OF a] ensures_scatter_loop split: point.splits)
  moreover have "ensures I (continue_cond t p r) (outcome_wf v t a)" for r
    using p unfolding continue_cond_def loop_end_record_def
    by (auto intro!: ensures_seq keeps_set_action split: point.splits sum.splits)
  ultimately show ?thesis unfolding continue_at_def by (simp split: answer.splits)
qed

lemma resume_inv:
  assumes "I s" and f: "frame_wf c v f"
  shows "I (snd (resume c v f ans s)) \<and> progress_wf c v (fst (resume c v f ans s))"
proof -
  from f obtain a where a: "dict_get (cfg_tasks c) (task_ref (fr_task f)) = Some a"
    and p: "point_wf v (fr_task f) a (fr_point f)" by (auto simp: frame_wf_def)
  have "ensures I (continue_run_if c v (fr_task f) (fr_delay f) a r) (progress_wf c v)" for r
    by (cases r) (auto intro!: ensures_suspend [OF a] ensures_guarded [OF a] ensures_after_run_if [OF a]
        ensures_dispatch [OF a])
  moreover have "ensures I (if fr_guarded f
      then guarded c v (fr_task f) (fr_delay f) a (continue_at c v (fr_task f) a (fr_point f) ans)
      else bind (continue_at c v (fr_task f) a (fr_point f) ans)
        (ret \<circ> suspend (fr_task f) (fr_delay f) False)) (progress_wf c v)"
    by (intro ensures_if ensures_guarded [OF a] ensures_suspend [OF a] ensures_continue [OF a p])
  ultimately have "ensures I (resume_body c v f a ans) (progress_wf c v)"
    unfolding resume_body_def Let_def by (simp only: split: option.split) blast
  from with_error_path_inv [OF this assms(1)] a show ?thesis by (simp add: resume_def)
qed

text \<open>The invariant of a run: that of the state, and that every waiting coroutine is well-formed.\<close>

definition run_ok :: "run \<Rightarrow> bool" where
  "run_ok r \<longleftrightarrow> I (state r) \<and> (\<forall>f. Waiting f \<in> set (pending r) \<longrightarrow> frame_wf c v f)"

lemma run_ok_put:
  assumes "run_ok r" and "I (snd ps)" and "progress_wf c v (fst ps)"
  shows "run_ok (put_coroutine i ps r)"
proof -
  have "Waiting f \<in> set (pending r) \<or> Waiting f = settle (fst ps)"
    if "Waiting f \<in> set ((pending r)[i := settle (fst ps)])" for f
    using that set_update_subset_insert by fastforce
  moreover have "frame_wf c v f" if "Waiting f = settle (fst ps)" for f
    using that assms(3) by (cases "fst ps") (auto simp: progress_wf_def)
  ultimately show ?thesis using assms by (auto simp: run_ok_def put_coroutine_def)
qed

lemma run_ok_activated:
  assumes "run_ok r" and "activated c r r'"
  shows "run_ok r'"
  using assms unfolding run_ok_def activated_def spawned_def discard_done_tasks_def
  by (auto intro: queue_set)

lemma run_ok_step:
  assumes "run_ok r" and "event_step c v e r = Some r'"
  shows "run_ok r'"
proof (cases e)
  case MainWakes
  with assms(2) have "main_step c r = Some r'" by simp
  from main_step_effect [OF this] show ?thesis
  proof (elim disjE conjE)
    show ?thesis if "activated c r r'" by (rule run_ok_activated [OF assms(1) that])
    show ?thesis if "r' = r\<lparr>main := Returned (Some (task_exceptions (state r)))\<rparr>"
      using assms(1) that by (simp add: run_ok_def)
  qed
next
  case (Starts i)
  with assms(2) obtain t where "r' = put_coroutine i (schedule_task c v t (state r)) r"
    by (auto split: if_splits coroutine.splits)
  moreover have "I (state r)" using assms(1) by (simp add: run_ok_def)
  ultimately show ?thesis using run_ok_put [OF assms(1)] schedule_task_inv by blast
next
  case (Answered i ans)
  with assms(2) obtain f where f: "pending r ! i = Waiting f" "i < length (pending r)"
    "r' = put_coroutine i (resume c v f ans (state r)) r"
    by (auto split: if_splits coroutine.splits)
  then have "frame_wf c v f" using assms(1) nth_mem by (fastforce simp: run_ok_def)
  moreover have "I (state r)" using assms(1) by (simp add: run_ok_def)
  ultimately show ?thesis unfolding f(3) using run_ok_put [OF assms(1)] resume_inv by blast
next
  case (Cancelled i)
  have fin: "I (finish_task t (state r))" for t
    using assms(1) by (simp add: run_ok_def finish_task_def completed_set)
  have upd: "Waiting f \<in> set (pending r)" if "Waiting f \<in> set ((pending r)[i := Done])" for f
    using that set_update_subset_insert by fastforce
  from Cancelled assms fin upd show ?thesis
    by (auto simp: run_ok_def put_coroutine_def split: if_splits coroutine.splits)
qed

theorem holds_throughout:
  assumes "runs c v (start c s) es r" and "I s"
  shows "I (state r)" and "Waiting f \<in> set (pending r) \<Longrightarrow> frame_wf c v f"
proof -
  have "run_ok (start c s)"
    unfolding start_def
    by (rule run_ok_activated [OF _ loop_top_effect]) (simp add: run_ok_def queue_set assms(2))
  with assms(1) have "run_ok r"
    by (rule runs_invariant) (rule run_ok_step)
  then show "I (state r)" and "Waiting f \<in> set (pending r) \<Longrightarrow> frame_wf c v f" by (simp_all add: run_ok_def)
qed

end

end
