(* ===== verification/Sched_Streams.thy ===== *)
theory Sched_Streams
  imports Sched_Invariant
begin

text \<open>
  Three invariants of every run: the hierarchy of streams mirrors the stream identifiers and has a
  context for each stream, the index of a loop stays below the limit of its loop end, and a recorded
  exception is never lost. Each is an instance of the interface of \<open>Sched_Invariant\<close>. The first one
  makes the walk of \<open>get_stream_aware_action_result\<close> terminate and find the innermost result.
\<close>

section \<open>Updates of dictionaries\<close>

lemma set_dict_set: "set (dict_set k x d) \<subseteq> insert (k, x) (set d)"
  by (induction d) auto

lemma set_dict_pop: "set (dict_pop k d) \<subseteq> set d"
  by (induction d) auto

lemma set_dict_filter: "set (dict_filter P d) \<subseteq> set d"
  by (auto simp: dict_filter_def)

section \<open>Exceptions\<close>

interpretation failing: state_invariant c v "\<lambda>s. task_exceptions s \<noteq> []" for c v
proof (unfold_locales, goal_cases)
  case (5 s r x)
  then show ?case by (cases "task_exceptions s") auto
qed (auto simp: mark_edge_def put_action_def open_stream_def reset_tracking_def Let_def append_stream_def
    cleanup_loop_descendant_streams_def remove_streams_def split: option.splits)

section \<open>Loop indices\<close>

definition below_limit :: "cfg \<Rightarrow> coercions \<Rightarrow> string \<Rightarrow> int \<Rightarrow> bool" where
  "below_limit c v loop_start i \<longleftrightarrow>
     (\<exists>e g a la. dict_get (cfg_regions_by_end c) e = Some g \<and> start_ref g = loop_start \<and>
        dict_get (cfg_tasks c) e = Some a \<and> parse_loop_end_args v (args a) = Inr la \<and>
        i < la_max_iterations la)"

definition index_ok :: "cfg \<Rightarrow> coercions \<Rightarrow> st \<Rightarrow> bool" where
  "index_ok c v s \<longleftrightarrow> (\<forall>k i. (k, i) \<in> set (loop_indices s) \<longrightarrow> below_limit c v (fst k) i)"

lemma index_ok_mono: "index_ok c v s \<Longrightarrow> set (loop_indices s') \<subseteq> set (loop_indices s) \<Longrightarrow> index_ok c v s'"
  unfolding index_ok_def by blast

interpretation looping: state_invariant c v "index_ok c v" for c v
proof (unfold_locales, goal_cases)
  case (11 s e g a la n sid)
  then have "below_limit c v (start_ref g) n" unfolding below_limit_def by blast
  with 11(1) show ?case using set_dict_set [of "(start_ref g, sid)" n "loop_indices s"]
    unfolding index_ok_def by auto
next
  case (12 s P)
  then show ?case by (rule index_ok_mono) (simp add: set_dict_filter)
next
  case (13 s k)
  then show ?case by (rule index_ok_mono) (simp add: set_dict_pop)
qed (auto elim!: index_ok_mono simp: mark_edge_def put_action_def open_stream_def reset_tracking_def Let_def
    append_stream_def cleanup_loop_descendant_streams_def remove_streams_def split: option.splits if_splits)

lemma parse_loop_end_bounds:
  "parse_loop_end_args v d = Inr la \<Longrightarrow> 1 \<le> la_max_iterations la \<and> la_max_iterations la \<le> MAX_DO_WHILE_ITERATIONS"
  by (auto simp: parse_loop_end_args_def result_simps split: if_splits)

lemma index_ok_bound:
  "index_ok c v s \<Longrightarrow> dict_get (loop_indices s) k = Some i \<Longrightarrow> i < MAX_DO_WHILE_ITERATIONS"
proof -
  assume ok: "index_ok c v s" and "dict_get (loop_indices s) k = Some i"
  then have "(k, i) \<in> set (loop_indices s)" by (simp add: map_of_SomeD)
  with ok have "below_limit c v (fst k) i" unfolding index_ok_def by blast
  then obtain a :: stmt and la where "parse_loop_end_args v (args a) = Inr la" "i < la_max_iterations la"
    unfolding below_limit_def by blast
  with parse_loop_end_bounds [of v "args a" la] show ?thesis by simp
qed

section \<open>The hierarchy of streams\<close>

definition entry_ok :: "stream \<times> stream option \<Rightarrow> bool" where
  "entry_ok = (\<lambda>(sid, p). (sid = ROOT_STREAM \<and> p = None) \<or>
     (\<exists>r ix parent. p = Some parent \<and> sid = stream_new r ix (Some parent)))"

definition streams_ok :: "st \<Rightarrow> bool" where
  "streams_ok s \<longleftrightarrow>
     dict_get (stream_hierarchy s) ROOT_STREAM = Some None \<and>
     (\<forall>e \<in> set (stream_hierarchy s). entry_ok e) \<and>
     dom (dict_get (streams s)) = dom (dict_get (stream_hierarchy s)) \<and>
     (\<forall>(k, ss) \<in> set (task_streams s). ROOT_STREAM \<notin> set ss)"

lemma stream_new_not_ROOT [simp]:
  "stream_new r ix (Some p) \<noteq> ROOT_STREAM" "ROOT_STREAM \<noteq> stream_new r ix (Some p)"
proof -
  have "CHR ''/'' \<notin> set ROOT_STREAM" by code_simp
  moreover have "CHR ''/'' \<in> set (stream_new r ix (Some p))" by (simp add: stream_new_def)
  ultimately show "stream_new r ix (Some p) \<noteq> ROOT_STREAM" "ROOT_STREAM \<noteq> stream_new r ix (Some p)" by auto
qed

lemma streams_ok_cong:
  assumes "streams_ok s" and "stream_hierarchy s' = stream_hierarchy s"
    and "dom (dict_get (streams s')) = dom (dict_get (streams s))"
    and "set (task_streams s') \<subseteq> set (task_streams s)"
  shows "streams_ok s'"
  using assms unfolding streams_ok_def by auto

lemma root_not_scattered:
  assumes "\<forall>(k, ss) \<in> set ts. ROOT_STREAM \<notin> set ss" and "ROOT_STREAM \<notin> set acc"
  shows "ROOT_STREAM \<notin> set (fold (\<lambda>((r, u), ss) acc.
         if r \<in> set (members g) \<and> stream_within u sid then fold set_add ss acc else acc) ts acc)"
proof -
  have add: "set (fold set_add ss acc) = set ss \<union> set acc" for ss and acc :: "stream list"
    by (induction ss arbitrary: acc) auto
  show ?thesis using assms by (induction ts arbitrary: acc) (auto simp: add split: if_splits)
qed

lemma root_not_closed:
  assumes "\<forall>e \<in> set h. entry_ok e" and "ROOT_STREAM \<notin> set R"
  shows "ROOT_STREAM \<notin> set (close_streams h R)"
  using assms
proof (induction h R rule: close_streams.induct)
  case (1 h R)
  have pass: "ROOT_STREAM \<notin> set (close_pass h' R)" if "\<forall>e \<in> set h'. entry_ok e" "ROOT_STREAM \<notin> set R" for h' R
    using that
  proof (induction h' arbitrary: R)
    case (Cons e h')
    obtain cand parent where e: "e = (cand, parent)" by (cases e)
    from Cons.prems e have "cand = ROOT_STREAM \<longrightarrow> parent = None" by (auto simp: entry_ok_def)
    with Cons e show ?case by (auto simp: close_pass_Cons split: option.splits)
  qed (simp add: close_pass_def)
  with 1 show ?case by (auto simp: close_streams.simps [of h R] Let_def)
qed

lemma streams_ok_remove:
  assumes "streams_ok s" and "ROOT_STREAM \<notin> set R"
  shows "streams_ok (remove_streams R s)"
proof -
  have "dom (dict_get (dict_filter (\<lambda>k _. k \<notin> set R) (streams s))) = dom (dict_get (streams s)) - set R"
    "dom (dict_get (dict_filter (\<lambda>k _. k \<notin> set R) (stream_hierarchy s))) =
      dom (dict_get (stream_hierarchy s)) - set R"
    by (auto simp: dict_get_filter_key dom_def)
  then have "dom (dict_get (streams (remove_streams R s))) = dom (dict_get (stream_hierarchy (remove_streams R s)))"
    using assms(1) by (simp add: remove_streams_def streams_ok_def)
  moreover have "set (stream_hierarchy (remove_streams R s)) \<subseteq> set (stream_hierarchy s)"
    "set (task_streams (remove_streams R s)) \<subseteq> set (task_streams s)"
    by (simp_all add: remove_streams_def set_dict_filter)
  moreover have "dict_get (stream_hierarchy (remove_streams R s)) ROOT_STREAM =
      dict_get (stream_hierarchy s) ROOT_STREAM"
    using assms(2) by (simp add: remove_streams_def dict_get_filter_key)
  ultimately show ?thesis using assms(1) unfolding streams_ok_def by auto
qed

lemma streams_ok_cleanup:
  assumes "streams_ok s"
  shows "streams_ok (cleanup_loop_descendant_streams g sid s)"
proof -
  have "ROOT_STREAM \<notin> set (scatter_streams g sid s)"
    unfolding scatter_streams_def using assms by (intro root_not_scattered) (auto simp: streams_ok_def)
  then have "ROOT_STREAM \<notin> set (close_streams (stream_hierarchy s) (scatter_streams g sid s))"
    using assms by (intro root_not_closed) (auto simp: streams_ok_def)
  with assms show ?thesis
    by (simp add: cleanup_loop_descendant_streams_def Let_def streams_ok_remove)
qed

lemma dom_put_action: "dom (dict_get (streams (put_action sid r tr s))) = dom (dict_get (streams s))"
  by (auto simp: put_action_def split: option.splits)

interpretation nesting: state_invariant c v streams_ok for c v
proof (unfold_locales, goal_cases)
  case (8 s sid r tr)
  then show ?case by (rule streams_ok_cong) (auto simp: dom_put_action put_action_def split: option.splits)
next
  case (9 s r ix sid ctx)
  have "entry_ok (stream_new r ix (Some sid), Some sid)" by (auto simp: entry_ok_def)
  with 9 have "\<forall>e \<in> set (dict_set (stream_new r ix (Some sid)) (Some sid) (stream_hierarchy s)). entry_ok e"
    using set_dict_set [of "stream_new r ix (Some sid)" "Some sid" "stream_hierarchy s"]
    unfolding streams_ok_def by blast
  with 9 show ?case by (simp add: streams_ok_def open_stream_def)
next
  case (10 s g sid)
  then have "streams_ok (cleanup_loop_descendant_streams g sid s)" by (rule streams_ok_cleanup)
  then show ?case by (rule streams_ok_cong) (auto simp: reset_tracking_def Let_def dict_filter_def)
next
  case (14 s k)
  then show ?case using set_dict_set [of k "[]" "task_streams s"] by (auto simp: streams_ok_def)
next
  case (15 s t j)
  have "ROOT_STREAM \<notin> set (child_streams t j)" by (auto simp: child_streams_def)
  with 15 show ?case using set_dict_set [of "task_key t" "child_streams t j" "task_streams s"]
    by (auto simp: streams_ok_def append_stream_def split: option.splits)
qed (auto elim!: streams_ok_cong simp: mark_edge_def)

lemma streams_ok_init: "streams_ok (init_state actions ctx)"
  by (auto simp: streams_ok_def init_state_def entry_ok_def)

section \<open>Looking up results through the hierarchy\<close>

definition result_in :: "st \<Rightarrow> stream \<Rightarrow> string \<Rightarrow> task_result option" where
  "result_in s sid r = Option.bind (dict_get (streams s) sid) (\<lambda>ctx. dict_get (ACTIONS ctx) r)"

definition above :: "st \<Rightarrow> (stream \<times> stream) set" where
  "above s = {(x, y). dict_get (stream_hierarchy s) x = Some (Some y)}"

lemma parts_of_child:
  assumes "streams_ok s" and "(x, y) \<in> above s"
  shows "length (stream_parts y) < length (stream_parts x)"
proof -
  from assms have "entry_ok (x, Some y)" by (auto simp: streams_ok_def above_def dest: map_of_SomeD)
  then obtain r ix where "x = stream_new r ix (Some y)" by (auto simp: entry_ok_def)
  then show ?thesis by (simp add: stream_parts_def stream_new_def py_split_append_sep)
qed

text \<open>The nearest result: found in a stream on the way to the root, and in no stream below it.\<close>

definition nearest_result :: "st \<Rightarrow> string \<Rightarrow> stream \<Rightarrow> task_result option \<Rightarrow> bool" where
  "nearest_result s r sid res \<longleftrightarrow>
     (case res of
        None \<Rightarrow> \<forall>u. (sid, u) \<in> (above s)\<^sup>* \<longrightarrow> result_in s u r = None
      | Some tr \<Rightarrow> \<exists>u. (sid, u) \<in> (above s)\<^sup>* \<and> result_in s u r = Some tr \<and>
          (\<forall>w. (sid, w) \<in> (above s)\<^sup>* \<longrightarrow> (w, u) \<in> (above s)\<^sup>+ \<longrightarrow> result_in s w r = None))"

lemma above_single: "(x, y) \<in> above s \<Longrightarrow> (x, z) \<in> above s \<Longrightarrow> y = z"
  by (simp add: above_def)

lemma above_path:
  assumes "(x, y) \<in> above s" and "(x, w) \<in> (above s)\<^sup>*"
  shows "w = x \<or> (y, w) \<in> (above s)\<^sup>*"
  using assms by (metis above_single converse_rtranclE)

lemma above_not_refl:
  assumes "streams_ok s" and "(x, y) \<in> (above s)\<^sup>+"
  shows "length (stream_parts y) < length (stream_parts x)"
  using assms(2)
proof (induction rule: trancl_induct)
  case (base y)
  then show ?case by (rule parts_of_child [OF assms(1)])
next
  case (step y z)
  then show ?case using parts_of_child [OF assms(1) step(2)] by simp
qed

lemma nearest_here: "streams_ok s \<Longrightarrow> result_in s sid r = Some tr \<Longrightarrow> nearest_result s r sid (Some tr)"
proof -
  assume ok: "streams_ok s" and tr: "result_in s sid r = Some tr"
  have "\<not> ((sid, w) \<in> (above s)\<^sup>* \<and> (w, sid) \<in> (above s)\<^sup>+)" for w
    using above_not_refl [OF ok, of sid sid] by (metis less_irrefl rtrancl_trancl_trancl)
  with tr show ?thesis unfolding nearest_result_def option.case by blast
qed

lemma nearest_up:
  assumes none: "result_in s sid r = None" and up: "(sid, p) \<in> above s" and res: "nearest_result s r p res"
  shows "nearest_result s r sid res"
proof -
  have below: "result_in s w r = None" if "(sid, w) \<in> (above s)\<^sup>*" "(p, w) \<notin> (above s)\<^sup>*" for w
    using above_path [OF up that(1)] that(2) none by auto
  have into: "(sid, u) \<in> (above s)\<^sup>*" if "(p, u) \<in> (above s)\<^sup>*" for u
    using up that by (rule converse_rtrancl_into_rtrancl)
  show ?thesis
    using res below into by (cases res) (force simp: nearest_result_def)+
qed

lemma find_result_nearest:
  assumes "streams_ok s" and "length (stream_parts sid) < n"
  shows "\<exists>res. find_result n s r (Some sid) = Some res \<and> nearest_result s r sid res"
  using assms(2)
proof (induction n arbitrary: sid)
  case (Suc n)
  show ?case
  proof (cases "result_in s sid r")
    case (Some tr)
    then have "find_result (Suc n) s r (Some sid) = Some (Some tr)"
      by (auto simp: result_in_def bind_eq_Some_conv)
    with nearest_here [OF assms(1) Some] show ?thesis by blast
  next
    case None
    then have go: "find_result (Suc n) s r (Some sid) =
        find_result n s r (dict_get_default (stream_hierarchy s) sid None)"
      by (auto simp: result_in_def split: option.splits)
    show ?thesis
    proof (cases "dict_get_default (stream_hierarchy s) sid None")
      case (Some p)
      then have up: "(sid, p) \<in> above s" by (auto simp: above_def dict_get_default_def split: option.splits)
      from parts_of_child [OF assms(1) up] Suc.prems have "length (stream_parts p) < n" by simp
      from Suc.IH [OF this] nearest_up [OF None up] show ?thesis unfolding go Some by blast
    next
      case top: None
      then have "(sid, x) \<notin> above s" for x by (auto simp: above_def dict_get_default_def)
      then have "u = sid" if "(sid, u) \<in> (above s)\<^sup>*" for u using that by (metis converse_rtranclE)
      with None have "nearest_result s r sid None" by (auto simp: nearest_result_def)
      moreover obtain m where "n = Suc m" using Suc.prems by (cases n) (auto simp: stream_parts_def)
      ultimately show ?thesis unfolding go top by auto
    qed
  qed
qed simp

lemma action_result_nearest:
  assumes "streams_ok s"
  shows "\<exists>res. get_stream_aware_action_result s r sid = Some res \<and> nearest_result s r sid res"
  unfolding get_stream_aware_action_result_def by (rule find_result_nearest [OF assms]) simp

end
