(* ===== verification/Flat_Refinement.thy ===== *)
theory Flat_Refinement
  imports Flat_Runs Sched_Streams "HOL-Library.Multiset"
begin

text \<open>
  The invariant of \<open>Flat_Runs\<close> along whole runs, and what follows from it at the end of a run:
  every interleaving ends, and computes the sequential specification.
\<close>

section \<open>The invariant along a run\<close>

definition cancelling :: "main_point \<Rightarrow> bool" where
  "cancelling m \<longleftrightarrow> (case m of AtCancel \<Rightarrow> True | Returned (Some _) \<Rightarrow> True | _ \<Rightarrow> False)"

definition flat_inv :: "script \<Rightarrow> stmt list \<Rightarrow> (string \<rightharpoonup> disposition) \<Rightarrow> run \<Rightarrow> bool" where
  "flat_inv orc actions D r \<longleftrightarrow>
     (\<exists>Rel. flat_at orc actions D Rel r \<and> (\<not> cancelling (main r) \<longrightarrow> flat_live actions D Rel r)) \<and>
     (main r = AtWait \<longrightarrow> pending r \<noteq> []) \<and>
     (cancelling (main r) \<longrightarrow> task_exceptions (state r) \<noteq> []) \<and>
     (main r = Returned None \<longrightarrow>
        task_exceptions (state r) = [] \<and> queue (state r) = [] \<and> pending r = []) \<and>
     (\<forall>x. main r = Returned (Some x) \<longrightarrow> x = task_exceptions (state r))"

lemma active_live: "concat (map co_refs (filter (\<lambda>p. p \<noteq> Done) ps)) = concat (map co_refs ps)"
  by (induction ps) auto

text \<open>Spawning moves references from the queue to the coroutines.\<close>

lemma active_spawned:
  assumes "spawned c k (discard_done_tasks r) r'"
  shows "mset (active r') = mset (active r)"
proof -
  let ?q = "queue (state r)"
  have "active r' = map task_ref (drop k ?q) @ concat (map co_refs (pending r)) @ map task_ref (take k ?q)"
    using assms by (simp add: active_def spawned_def discard_done_tasks_def active_live comp_def)
  moreover have "map task_ref ?q = map task_ref (take k ?q) @ map task_ref (drop k ?q)"
    by (metis append_take_drop_id map_append)
  ultimately show ?thesis by (simp only: active_def mset_append ac_simps)
qed

lemma flat_moved:
  assumes at: "flat_at orc actions D Rel r" and act: "mset (active r') = mset (active r)"
    and st: "state r' = (state r)\<lparr>queue := q\<rparr>" and q: "set q \<subseteq> set (queue (state r))"
    and ps: "\<forall>p \<in> set (pending r'). p \<in> set (pending r) \<or> (\<exists>t \<in> set (queue (state r)). p = Fresh t)"
  shows "flat_at orc actions D Rel r'"
    and "flat_live actions D Rel r \<Longrightarrow> flat_live actions D Rel r'"
proof -
  have set: "set (active r') = set (active r)" and d: "distinct (active r') = distinct (active r)"
    using act by (metis set_mset_mset) (metis act mset_eq_imp_distinct_iff)
  have "co_ok orc actions D p" if "p \<in> set (pending r')" for p
    using ps that flat_atD(3,4) [OF at] by fastforce
  moreover have "core actions D Rel (set (active r)) (state r')"
    by (rule core_same [OF flat_atD(2) [OF at]]) (use coreD(7) [OF flat_atD(2) [OF at]] in \<open>auto simp: st\<close>)
  ultimately show "flat_at orc actions D Rel r'"
    using at q unfolding flat_at_def set d by (auto simp: st)
  show "flat_live actions D Rel r \<Longrightarrow> flat_live actions D Rel r'"
    unfolding flat_live_def set by (simp add: st)
qed

lemma flat_activated:
  assumes at: "flat_at orc actions D Rel r" and live: "flat_live actions D Rel r"
    and c: "1 \<le> cfg_max_pending c" and act: "activated c r r'"
  shows "flat_inv orc actions D r'"
proof -
  from act have "flat_at orc actions D Rel r' \<and> flat_live actions D Rel r' \<and> stops_at c r'"
    unfolding activated_def
  proof (elim disjE exE conjE)
    fix k assume sp: "spawned c k (discard_done_tasks r) r'" and "stops_at c r'"
    have st: "state r' = (state r)\<lparr>queue := drop k (queue (state r))\<rparr>"
      using sp by (simp add: spawned_def discard_done_tasks_def)
    have ps: "\<forall>p \<in> set (pending r'). p \<in> set (pending r) \<or> (\<exists>t \<in> set (queue (state r)). p = Fresh t)"
      using sp by (auto simp: spawned_def discard_done_tasks_def dest: in_set_takeD)
    note moved = flat_moved [OF at active_spawned [OF sp] st set_drop_subset ps]
    from moved(1) moved(2) [OF live] show ?thesis using \<open>stops_at c r'\<close> by blast
  next
    assume eq: "state r' = state r" "pending r' = pending r" and st: "stops_at c r'"
    then have "active r' = active r" by (simp add: active_def)
    with eq at live st show ?thesis by (simp add: flat_at_def flat_live_def)
  next
    fix x assume eq: "state r' = state r" "pending r' = pending r" and st: "stops_at c r'"
    then have "active r' = active r" by (simp add: active_def)
    with eq at live st show ?thesis by (simp add: flat_at_def flat_live_def)
  qed
  then show ?thesis
    using c unfolding flat_inv_def
    by (cases "main r'") (auto simp: stops_at_def cancelling_def split: option.splits)
qed

lemma flat_cancel_fresh:
  assumes at: "flat_at orc actions D Rel r" and i: "i < length (pending r)"
  shows "flat_at orc actions D Rel (r\<lparr>pending := (pending r)[i := Done]\<rparr>)"
proof -
  obtain X Y where X: "concat (map co_refs (pending r)) = X @ co_refs (pending r ! i) @ Y"
    "\<And>p. concat (map co_refs ((pending r)[i := p])) = X @ co_refs p @ Y"
    by (rule co_refs_update [OF i]) (rule that)
  let ?r = "r\<lparr>pending := (pending r)[i := Done]\<rparr>"
  have sub: "set (active ?r) \<subseteq> set (active r)" and d: "distinct (active ?r)"
    using flat_atD(1) [OF at] by (auto simp: active_def X)
  have "\<forall>p \<in> set ((pending r)[i := Done]). co_ok orc actions D p"
    by (rule co_ok_update) (use flat_atD(4) [OF at] in auto)
  with at d core_shrink [OF flat_atD(2) [OF at] sub] sub show ?thesis
    unfolding flat_at_def by auto
qed

lemma flat_cancel_waiting:
  assumes at: "flat_at orc actions D Rel r" and i: "i < length (pending r)" "pending r ! i = Waiting f"
  shows "flat_at orc actions D Rel (put_coroutine i (Completed, finish_task (fr_task f) (state r)) r)"
proof -
  have "frame_ok orc actions D f" using flat_atD(4) [OF at, of "Waiting f"] i nth_mem by fastforce
  then obtain a where a: "a \<in> set actions" "fr_task f = mk_task (ref a) ROOT_STREAM"
    by (auto simp: frame_ok_def root_frame_def)
  obtain X Y where X: "concat (map co_refs (pending r)) = X @ co_refs (pending r ! i) @ Y"
    "\<And>p. concat (map co_refs ((pending r)[i := p])) = X @ co_refs p @ Y"
    by (rule co_refs_update [OF i(1)]) (rule that)
  let ?r = "r\<lparr>pending := (pending r)[i := Done]\<rparr>"
  have aA: "ref a \<in> set (active r)" by (rule active_co [OF i(1)]) (simp add: i a)
  have act: "active (put_coroutine i (Completed, finish_task (fr_task f) (state r)) r) = active ?r"
    by (simp add: active_def)
  have "ref a \<notin> set (active ?r)"
    using flat_atD(1) [OF at] by (auto simp: active_def X i a)
  moreover have "dep_src ` set (depends_on b) \<subseteq> Rel" if "b \<in> set actions" "ref b = ref a" for b
    using coreD(6) [OF flat_atD(2) [OF at] that(1)] that(2) aA by simp
  moreover have "core actions D Rel (set (active ?r)) (finish_task (fr_task f) (state r))"
    using core_finish_task [OF flat_atD(2) [OF flat_cancel_fresh [OF at i(1)]]] by simp
  ultimately show ?thesis
    using flat_cancel_fresh [OF at i(1)] a unfolding flat_at_def act by (auto simp: task_key_def)
qed

lemma flat_inv_step:
  assumes set: "flat_setup orc actions c D" and inv: "flat_inv orc actions D r"
    and fr: "failing.run_ok c v r \<or> task_exceptions (state r) = []"
    and ev: "event_step c v e r = Some r'" and fol: "follows orc r e"
  shows "flat_inv orc actions D r'"
proof -
  from inv obtain Rel where at: "flat_at orc actions D Rel r"
    and live: "\<not> cancelling (main r) \<longrightarrow> flat_live actions D Rel r" by (auto simp: flat_inv_def)
  have keep: "task_exceptions (state r') \<noteq> []" if "task_exceptions (state r) \<noteq> []"
    using fr that failing.run_ok_step [OF _ ev] unfolding failing.run_ok_def by blast
  have moved: "flat_inv orc actions D r'"
    if "flat_next orc actions D Rel r r'" "main r' = main r" "running (main r)"
      "main r = AtWait \<Longrightarrow> pending r' \<noteq> []"
    using that inv live keep unfolding flat_inv_def flat_next_def
    by (auto simp: cancelling_def split: main_point.splits)
  show ?thesis
  proof (cases e)
    case MainWakes
    with ev have "main_step c r = Some r'" by simp
    from main_step_effect [OF this] show ?thesis
    proof (elim disjE conjE)
      assume "main r \<noteq> AtCancel" "activated c r r'"
      moreover have "\<not> cancelling (main r)"
        using \<open>main r \<noteq> AtCancel\<close> \<open>main_step c r = Some r'\<close>
        by (auto simp: cancelling_def main_step_def split: main_point.splits option.splits)
      ultimately show ?thesis
        using flat_activated [OF at _ wf_cfgD(7) [OF flat_setupD(1) [OF set]]] live by blast
    next
      assume m: "main r = AtCancel" and r': "r' = r\<lparr>main := Returned (Some (task_exceptions (state r)))\<rparr>"
      have "flat_at orc actions D Rel r'" using at by (simp add: r' flat_at_def active_def)
      with inv m r' show ?thesis by (auto simp: flat_inv_def cancelling_def)
    qed
  next
    case (Starts i)
    with ev obtain t where i: "i < length (pending r)" "pending r ! i = Fresh t" "running (main r)"
      and r': "r' = put_coroutine i (schedule_task c v t (state r)) r"
      by (auto split: if_splits coroutine.splits)
    from start_step [OF set at i(1,2)] i show ?thesis by (intro moved) (auto simp: r')
  next
    case (Answered i ans)
    with ev obtain f where i: "i < length (pending r)" "pending r ! i = Waiting f" "running (main r)"
      and aw: "awaits (fr_point f) ans" and r': "r' = put_coroutine i (resume c v f ans (state r)) r"
      by (auto split: if_splits coroutine.splits)
    from fol Answered i have "script_answer orc f ans" by (simp add: follows_def)
    from answer_step [OF set at i(1,2) aw this] i show ?thesis by (intro moved) (auto simp: r')
  next
    case (Cancelled i)
    with ev have m: "i < length (pending r)" "main r = AtCancel" by (auto split: if_splits)
    have "flat_at orc actions D Rel r' \<and> main r' = AtCancel"
      using ev Cancelled m flat_cancel_fresh [OF at m(1)] flat_cancel_waiting [OF at m(1)]
      by (auto split: coroutine.splits)
    with inv m keep show ?thesis by (auto simp: flat_inv_def cancelling_def)
  qed
qed

section \<open>The start of a run\<close>

lemma init_state_simps [simp]:
  "queue (init_state actions ctx) = []" "completed_tasks (init_state actions ctx) = {}"
  "task_exceptions (init_state actions ctx) = []" "edges (init_state actions ctx) = []"
  "streams (init_state actions ctx) = [(ROOT_STREAM, ctx)]"
  by (simp_all add: init_state_def)

lemma flat_at_start:
  fixes ctx :: exec_ctx
  assumes set: "flat_setup orc actions c D"
  defines "r0 \<equiv> \<lparr>state = (init_state actions ctx)\<lparr>queue := queue (init_state actions ctx) @
      entrypoints (init_state actions ctx)\<rparr>, pending = [], main = AtWait\<rparr>"
  shows "flat_at orc actions D {} r0" and "flat_live actions D {} r0"
proof -
  let ?s = "init_state actions ctx"
  let ?r = "\<lparr>state = ?s\<lparr>queue := queue ?s @ entrypoints ?s\<rparr>, pending = [], main = AtWait\<rparr>"
  note c = flat_setupD(1) [OF set]
  have d: "distinct (map ref actions)" by (rule wf_cfgD(2) [OF c])
  have ind: "indegrees ?s = map (\<lambda>a. ((ref a, ROOT_STREAM), int (length (depends_on a)))) actions"
    by (simp add: init_state_def root_indegrees_distinct [OF d])
  have entry: "entrypoints ?s = map (\<lambda>a. mk_task (ref a) ROOT_STREAM) (filter (\<lambda>a. depends_on a = []) actions)"
    by (simp add: entrypoints_def ind filter_map comp_def case_prod_beta)
  have act: "active ?r = map ref (filter (\<lambda>a. depends_on a = []) actions)"
    by (simp add: active_def entry comp_def)
  have get: "dict_get (indegrees ?s) (ref a, ROOT_STREAM) = Some (open_count {} a)" if "a \<in> set actions" for a
  proof -
    have "distinct (map fst (indegrees ?s))" using d by (simp add: ind distinct_map inj_on_def)
    with that show ?thesis by (simp add: ind open_count_def)
  qed
  have same: "b = a" if "a \<in> set actions" "b \<in> set actions" "ref b = ref a" for a b
    using d that by (auto simp: distinct_map inj_on_def)
  have "core actions D {} (set (active ?r)) (state ?r)"
    unfolding core_def
  proof (intro conjI ballI impI)
    fix a assume a: "a \<in> set actions" "ref a \<in> set (active ?r) \<union> {}"
    then obtain b where b: "b \<in> set actions" "depends_on b = []" "ref a = ref b"
      unfolding act by auto
    with same [OF b(1) a(1)] have "depends_on a = []" by simp
    then show "dep_src ` set (depends_on a) \<subseteq> {}" by simp
  next
    show "set (active ?r) \<subseteq> ref ` set actions" unfolding act by auto
  qed (use get in auto)
  moreover have "distinct (active ?r)" unfolding act using d by (simp add: distinct_map inj_on_def)
  ultimately show "flat_at orc actions D {} r0"
    unfolding flat_at_def r0_def by (auto simp: entry root_task_def)
  show "flat_live actions D {} r0"
    unfolding flat_live_def r0_def act by auto
qed

lemma flat_start:
  assumes set: "flat_setup orc actions c D"
  shows "flat_inv orc actions D (start c (init_state actions ctx))"
  unfolding start_def
  by (rule flat_activated [OF flat_at_start [OF set] wf_cfgD(7) [OF flat_setupD(1) [OF set]] loop_top_effect])

lemma flat_inv_runs:
  assumes set: "flat_setup orc actions c D"
    and run: "script_runs orc c v (start c (init_state actions ctx)) es r"
  shows "flat_inv orc actions D r"
  using run
proof (induction rule: script_runs.induct)
  case script_refl
  show ?case by (rule flat_start [OF set])
next
  case (script_step es r e r')
  have "failing.run_ok c v r \<or> task_exceptions (state r) = []"
    using nesting.holds_throughout(2) [OF script_runs_runs [OF script_step(1)] streams_ok_init]
    by (auto simp: failing.run_ok_def)
  from flat_inv_step [OF set script_step.IH this script_step(2,3)] show ?case .
qed

section \<open>The end of a run\<close>

lemma flat_end:
  assumes set: "flat_setup orc actions c D" and inv: "flat_inv orc actions D r" and m: "main r = Returned res"
  shows "res = None \<longleftrightarrow> (\<forall>a \<in> set actions. D (ref a) \<noteq> Some Fatal)"
    and "res = None \<Longrightarrow> completed_tasks (state r) = ref ` set actions \<times> {ROOT_STREAM}"
    and "res = None \<Longrightarrow> a \<in> set actions \<Longrightarrow> dep \<in> set (depends_on a) \<Longrightarrow>
      incoming (state r) (ref a) ROOT_STREAM (dep_parts dep) = marker_from D (dep_parts dep)"
    and "res = Some x \<Longrightarrow> x \<noteq> [] \<and> (\<forall>y. dict_get x y \<noteq> None \<longrightarrow> D y = Some Fatal)"
proof -
  from inv obtain Rel where at: "flat_at orc actions D Rel r"
    and live: "\<not> cancelling (main r) \<longrightarrow> flat_live actions D Rel r" by (auto simp: flat_inv_def)
  note c = flat_setupD(1) [OF set]
  have none: "Rel = ref ` set actions" if "res = None"
  proof -
    from inv m that have e: "task_exceptions (state r) = []" "queue (state r) = []" "pending r = []"
      by (auto simp: flat_inv_def)
    then have act: "active r = []" by (simp add: active_def)
    from live m that have lv: "flat_live actions D Rel r" by (simp add: cancelling_def)
    have "ref ` set actions \<subseteq> Rel"
    proof (rule topological_covers [OF wf_cfgD(10) [OF c] wf_cfgD(9) [OF c]])
      fix a assume "a \<in> set actions" "dep_src ` set (depends_on a) \<subseteq> Rel"
      with lv act have "(ref a, ROOT_STREAM) \<in> completed_tasks (state r)" by (auto simp: flat_live_def)
      with lv e show "ref a \<in> Rel" by (auto simp: flat_live_def)
    qed
    with coreD(3) [OF flat_atD(2) [OF at]] show ?thesis by blast
  qed
  have some: "x \<noteq> [] \<and> (\<forall>y. dict_get x y \<noteq> None \<longrightarrow> D y = Some Fatal)" if "res = Some x" for x
    using inv m that flat_atD(7) [OF at] by (auto simp: flat_inv_def cancelling_def)
  then show "res = Some x \<Longrightarrow> x \<noteq> [] \<and> (\<forall>y. dict_get x y \<noteq> None \<longrightarrow> D y = Some Fatal)" .
  show "completed_tasks (state r) = ref ` set actions \<times> {ROOT_STREAM}" if "res = None"
    using none [OF that] flat_atD(5,6) [OF at] by blast
  show "incoming (state r) (ref a) ROOT_STREAM (dep_parts dep) = marker_from D (dep_parts dep)"
    if "res = None" "a \<in> set actions" "dep \<in> set (depends_on a)" for a dep
  proof -
    have "dep_src dep \<in> ref ` set actions"
      using wf_cfgD(1) [OF c] that(2,3) by (simp add: wf_deps_def)
    then show ?thesis
      using coreD(5) [OF flat_atD(2) [OF at] that(2,3)] none [OF that(1)] by simp
  qed
  show "res = None \<longleftrightarrow> (\<forall>a \<in> set actions. D (ref a) \<noteq> Some Fatal)"
  proof
    assume "res = None"
    with none live m show "\<forall>a \<in> set actions. D (ref a) \<noteq> Some Fatal"
      by (auto simp: flat_live_def cancelling_def)
  next
    assume ok: "\<forall>a \<in> set actions. D (ref a) \<noteq> Some Fatal"
    show "res = None"
    proof (cases res)
      case (Some x)
      with some obtain y z xs where "x = (y, z) # xs" "D y = Some Fatal" by (cases x) fastforce+
      moreover have "D y = Some Fatal \<Longrightarrow> y \<in> ref ` set actions" for y
        using set by (auto simp: flat_setup_def)
      ultimately show ?thesis using ok by auto
    qed
  qed
qed

section \<open>Every run ends\<close>

definition main_weight :: "main_point \<Rightarrow> nat" where
  "main_weight m = (case m of AtYield _ \<Rightarrow> 3 | AtWait \<Rightarrow> 2 | AtCancel \<Rightarrow> 1 | Returned _ \<Rightarrow> 0)"

definition remaining :: "stmt list \<Rightarrow> run \<Rightarrow> nat" where
  "remaining actions r =
     (if cancelling (main r) then 0 else 8 * card (unspawned actions r)) +
     sum_list (map weight (pending r)) + main_weight (main r)"

lemma finite_unspawned [simp]: "finite (unspawned actions r)"
  by (simp add: unspawned_def)

lemma sum_list_live:
  "sum_list (map weight (filter (\<lambda>p. p \<noteq> Done) ps)) + length (filter (\<lambda>p. p = Done) ps) =
     sum_list (map weight ps)"
proof -
  show ?thesis by (induction ps) auto
qed

lemma remaining_activated:
  assumes at: "flat_at orc actions D Rel r" and nc: "\<not> cancelling (main r)" and act: "activated c r r'"
    and nr: "\<not> (\<exists>x. main r = Returned x)"
  shows "remaining actions r' \<le> remaining actions r \<and>
     ((main r = AtWait \<longrightarrow> Done \<in> set (pending r)) \<longrightarrow> remaining actions r' < remaining actions r)"
  using act unfolding activated_def
proof (elim disjE exE conjE)
  fix k assume sp: "spawned c k (discard_done_tasks r) r'" and y: "\<forall>m. main r' = AtYield m \<longrightarrow> 0 < k"
  let ?q = "queue (state r)" and ?live = "filter (\<lambda>p. p \<noteq> Done) (pending r)"
  have ps: "pending r' = ?live @ map Fresh (take k ?q)" and k: "k \<le> length ?q"
    and comp: "completed_tasks (state r') = completed_tasks (state r)"
    using sp by (simp_all add: spawned_def discard_done_tasks_def)
  have w: "sum_list (map weight (pending r')) + length (filter (\<lambda>p. p = Done) (pending r)) =
      sum_list (map weight (pending r)) + 4 * k"
    using sum_list_live [of "pending r"] k by (simp add: ps weight_def comp_def sum_list_triv)
  let ?T = "task_ref ` set (take k ?q)"
  have d: "distinct (map task_ref ?q)" and disj: "set (map task_ref ?q) \<inter> set (concat (map co_refs (pending r))) = {}"
    using flat_atD(1) [OF at] by (auto simp: active_def)
  have T: "?T \<subseteq> unspawned actions r"
  proof
    fix x assume "x \<in> ?T"
    then have x: "x \<in> set (map task_ref ?q)" by (auto dest: in_set_takeD)
    then have xa: "x \<in> set (active r)" by (simp add: active_def)
    with coreD(2) [OF flat_atD(2) [OF at]] have "x \<in> ref ` set actions" by blast
    moreover have "(x, ROOT_STREAM) \<notin> completed_tasks (state r)" using flat_atD(5) [OF at] xa by force
    ultimately show "x \<in> unspawned actions r" using x disj unfolding unspawned_def by blast
  qed
  have "concat (map co_refs (pending r')) = concat (map co_refs (pending r)) @ map task_ref (take k ?q)"
    by (simp add: ps active_live comp_def)
  then have "unspawned actions r' = unspawned actions r - ?T"
    by (auto simp: unspawned_def comp simp del: set_concat)
  moreover have "card ?T = k"
  proof -
    have "distinct (map task_ref (take k ?q))" using d by (simp add: take_map [symmetric])
    from distinct_card [OF this] k show ?thesis by simp
  qed
  ultimately have u: "card (unspawned actions r') + k = card (unspawned actions r)"
    using T card_mono [OF finite_unspawned T] by (simp add: card_Diff_subset)
  let ?done = "length (filter (\<lambda>p. p = Done) (pending r))"
  have "main_weight (main r') \<le> main_weight (main r) + ?done + 4 * k \<and>
     ((main r = AtWait \<longrightarrow> Done \<in> set (pending r)) \<longrightarrow>
        main_weight (main r') < main_weight (main r) + ?done + 4 * k)"
  proof (cases "main r")
    case AtWait
    have "Done \<in> set (pending r) \<Longrightarrow> 0 < ?done" by (auto simp: filter_empty_conv)
    with AtWait y show ?thesis by (auto simp: main_weight_def split: main_point.splits)
  next
    case (AtYield m)
    with y show ?thesis by (auto simp: main_weight_def split: main_point.splits)
  qed (use nc nr in \<open>auto simp: cancelling_def\<close>)
  moreover have "8 * card (unspawned actions r') + sum_list (map weight (pending r')) + ?done + 4 * k =
      8 * card (unspawned actions r) + sum_list (map weight (pending r))"
    using w u by simp
  ultimately show ?thesis using nc by (auto simp: remaining_def)
next
  assume "state r' = state r" "pending r' = pending r" "main r' = AtCancel"
  with nc nr show ?thesis
    by (cases "main r") (auto simp: remaining_def cancelling_def main_weight_def)
next
  fix x assume "state r' = state r" "pending r' = pending r" "main r' = Returned x"
  with nc nr show ?thesis
    by (cases "main r") (auto simp: remaining_def unspawned_def cancelling_def main_weight_def)
qed

lemma remaining_advances:
  "advances actions r r' \<Longrightarrow> main r' = main r \<Longrightarrow> remaining actions r' < remaining actions r"
  by (simp add: advances_def remaining_def)

lemma remaining_cancelled:
  assumes "main r = AtCancel" "i < length (pending r)" "pending r ! i \<noteq> Done"
    "pending r' = (pending r)[i := Done]" "main r' = AtCancel"
  shows "remaining actions r' < remaining actions r"
proof -
  have "weight Done < weight (pending r ! i)"
    using assms(3) by (cases "pending r ! i") (auto simp: weight_def split: point.splits)
  from weight_update [OF assms(2) this] assms show ?thesis by (simp add: remaining_def cancelling_def)
qed

lemma remaining_step:
  assumes set: "flat_setup orc actions c D" and inv: "flat_inv orc actions D r"
    and ev: "event_step c v e r = Some r'" and fol: "follows orc r e"
  shows "remaining actions r' < remaining actions r"
proof -
  from inv obtain Rel where at: "flat_at orc actions D Rel r" by (auto simp: flat_inv_def)
  show ?thesis
  proof (cases e)
    case MainWakes
    with ev have ms: "main_step c r = Some r'" by simp
    from main_step_effect [OF this] show ?thesis
    proof (elim disjE conjE)
      assume "main r \<noteq> AtCancel" "activated c r r'"
      with ms remaining_activated [OF at _ this(2)] show ?thesis
        by (auto simp: cancelling_def main_step_def split: main_point.splits if_splits)
    next
      assume "main r = AtCancel" "r' = r\<lparr>main := Returned (Some (task_exceptions (state r)))\<rparr>"
      then show ?thesis by (simp add: remaining_def cancelling_def main_weight_def)
    qed
  next
    case (Starts i)
    with ev obtain t where i: "i < length (pending r)" "pending r ! i = Fresh t"
      and r': "r' = put_coroutine i (schedule_task c v t (state r)) r"
      by (auto split: if_splits coroutine.splits)
    from start_step [OF set at i] show ?thesis
      by (intro remaining_advances) (auto simp: r' flat_next_def)
  next
    case (Answered i ans)
    with ev obtain f where i: "i < length (pending r)" "pending r ! i = Waiting f"
      and aw: "awaits (fr_point f) ans" and r': "r' = put_coroutine i (resume c v f ans (state r)) r"
      by (auto split: if_splits coroutine.splits)
    from fol Answered i have "script_answer orc f ans" by (simp add: follows_def)
    from answer_step [OF set at i aw this] show ?thesis
      by (intro remaining_advances) (auto simp: r' flat_next_def)
  next
    case (Cancelled i)
    with ev show ?thesis
      by (intro remaining_cancelled [of r i]) (auto split: if_splits coroutine.splits)
  qed
qed

lemma remaining_start:
  assumes set: "flat_setup orc actions c D"
  shows "remaining actions (start c (init_state actions ctx)) \<le> 8 * length actions + 2"
proof -
  let ?s = "init_state actions ctx"
  let ?r = "\<lparr>state = ?s\<lparr>queue := queue ?s @ entrypoints ?s\<rparr>, pending = [], main = AtWait\<rparr>"
  have "card (unspawned actions ?r) \<le> card (set (map ref actions))"
    by (intro card_mono) (auto simp: unspawned_def)
  also have "\<dots> \<le> length actions" using card_length [of "map ref actions"] by simp
  finally have "remaining actions ?r \<le> 8 * length actions + 2"
    by (simp add: remaining_def cancelling_def main_weight_def)
  moreover have "remaining actions (start c ?s) \<le> remaining actions ?r"
    using remaining_activated [OF flat_at_start(1) [OF set] _ loop_top_effect [of c]]
    unfolding start_def by (auto simp: cancelling_def)
  ultimately show ?thesis by simp
qed

lemma flat_length:
  assumes set: "flat_setup orc actions c D"
    and run: "script_runs orc c v (start c (init_state actions ctx)) es r"
  shows "length es + remaining actions r \<le> 8 * length actions + 2"
  using run
proof (induction rule: script_runs.induct)
  case script_refl
  show ?case using remaining_start [OF set] by simp
next
  case (script_step es r e r')
  from remaining_step [OF set flat_inv_runs [OF set script_step(1)] script_step(2,3)] script_step.IH
  show ?case by simp
qed

section \<open>No run is stuck\<close>

lemma flat_progress:
  assumes set: "flat_setup orc actions c D" and inv: "flat_inv orc actions D r" and run: "running (main r)"
  shows "\<exists>e r'. event_step c v e r = Some r' \<and> follows orc r e"
proof (cases "main r")
  case (AtYield n)
  then show ?thesis by (intro exI [of _ MainWakes]) (auto simp: main_step_def follows_def)
next
  case AtWait
  with inv obtain p ps where ps: "pending r = p # ps" by (auto simp: flat_inv_def neq_Nil_conv)
  from inv obtain Rel where at: "flat_at orc actions D Rel r" by (auto simp: flat_inv_def)
  show ?thesis
  proof (cases p)
    case (Fresh t)
    with ps AtWait show ?thesis by (intro exI [of _ "Starts 0"]) (auto simp: follows_def)
  next
    case Done
    with ps AtWait show ?thesis by (intro exI [of _ MainWakes]) (auto simp: main_step_def follows_def)
  next
    case (Waiting f)
    with flat_atD(4) [OF at, of p] ps obtain x where
      "f = root_frame x ExecAction \<or> (\<exists>e ctx. f = root_frame x (RunIf e ctx))"
      by (auto simp: frame_ok_def)
    then obtain ans where "awaits (fr_point f) ans" "script_answer orc f ans"
    proof (elim disjE exE)
      assume "f = root_frame x ExecAction"
      then show ?thesis
        by (intro that [of "AnsExec None (exec_outcome orc x)"])
          (auto simp: root_frame_def awaits_def script_answer_def)
    next
      fix e ctx assume "f = root_frame x (RunIf e ctx)"
      then show ?thesis
        by (intro that [of "AnsExpr (run_if_answer orc x)"])
          (auto simp: root_frame_def awaits_def script_answer_def)
    qed
    with Waiting ps AtWait show ?thesis
      by (intro exI [of _ "Answered 0 ans"]) (auto simp: follows_def)
  qed
next
  case AtCancel
  show ?thesis
  proof (cases "set (pending r) \<subseteq> {Done}")
    case True
    with AtCancel show ?thesis by (intro exI [of _ MainWakes]) (auto simp: main_step_def follows_def)
  next
    case False
    then obtain i where "i < length (pending r)" "pending r ! i \<noteq> Done"
      by (auto simp: subset_iff in_set_conv_nth)
    with AtCancel show ?thesis
      by (intro exI [of _ "Cancelled i"]) (auto simp: follows_def split: coroutine.splits)
  qed
qed (use run in auto)

section \<open>The specification of a validated workflow\<close>

lemma dom_decide_all: "dom (decide_all orc actions rs D) \<subseteq> dom D \<union> ref ` set actions"
proof (induction rs arbitrary: D)
  case (Cons r rs)
  show ?case
  proof (cases "find (\<lambda>a. ref a = r) actions")
    case None
    with Cons show ?thesis by simp
  next
    case (Some a)
    then have "r \<in> ref ` set actions" by (auto simp: find_Some_iff)
    then have "dom (D(r \<mapsto> decide orc actions (marker_from D) a)) \<union> ref ` set actions \<subseteq>
        dom D \<union> ref ` set actions" by auto
    with Cons [of "D(r \<mapsto> decide orc actions (marker_from D) a)"] Some show ?thesis
      by (simp only: decide_all.simps option.simps)
  qed
qed simp

lemma flat_setup_dispositions:
  assumes wf: "wf_deps actions" and fl: "flat actions" and dd: "distinct_deps actions"
    and init: "scheduler_init actions mp ctx ws ex = Inr (c, s)"
  shows "flat_setup orc actions c (dispositions orc actions (dict_keys (cfg_scopes c)))"
proof -
  note c = scheduler_init_wf(1) [OF wf init]
  have "dispositions orc actions (dict_keys (cfg_scopes c)) (ref a) =
      Some (decide orc actions (marker_from (dispositions orc actions (dict_keys (cfg_scopes c)))) a)"
    if "a \<in> set actions" for a
    using dispositions_equation [OF wf_cfgD(2,10,8) [OF c] that] wf_cfgD(9) [OF c] that by simp
  with c fl dd dom_decide_all [of orc actions "dict_keys (cfg_scopes c)" Map.empty] show ?thesis
    by (auto simp: flat_setup_def dispositions_def)
qed

text \<open>A run that is not over can be continued until it is.\<close>

lemma flat_returns:
  assumes set: "flat_setup orc actions c D"
    and run: "script_runs orc c v (start c (init_state actions ctx)) es r"
  shows "\<exists>es' r' res. script_runs orc c v (start c (init_state actions ctx)) (es @ es') r' \<and>
     main r' = Returned res"
  using run
proof (induction "remaining actions r" arbitrary: es r rule: less_induct)
  case less
  show ?case
  proof (cases "running (main r)")
    case True
    from flat_progress [OF set flat_inv_runs [OF set less.prems] True] obtain e r' where
      step: "event_step c v e r = Some r'" "follows orc r e" by blast
    from less.hyps [OF remaining_step [OF set flat_inv_runs [OF set less.prems] step]
        script_step [OF less.prems step]] show ?thesis by auto
  next
    case False
    then obtain res where "main r = Returned res" by (cases "main r") auto
    with less.prems show ?thesis by (metis append_Nil2)
  qed
qed

end
