(* ===== verification/Examples.thy ===== *)
theory Examples
  imports Flat_Refinement
begin

text \<open>
  Small workflows and runs of them, on which the properties of the development are instantiated.
\<close>

definition step :: "string \<Rightarrow> string list \<Rightarrow> stmt" where
  "step r deps = \<lparr>ref = r, action = ''core.transform.reshape'', args = [], depends_on = deps,
     run_if = None, join_strategy = JoinAll, expr_refs = [], condition_refs = []\<rparr>"

definition control :: "string \<Rightarrow> string \<Rightarrow> string list \<Rightarrow> stmt" where
  "control r act deps = (step r deps)\<lparr>action := act\<rparr>"

text \<open>Coercions that accept strings as expressions and integers as integers.\<close>

definition plain_coercions :: coercions where
  "plain_coercions = \<lparr>
     as_expression = (\<lambda>x. case x of VStr e \<Rightarrow> Some e | _ \<Rightarrow> None),
     as_int = (\<lambda>x. case x of VInt i \<Rightarrow> Some i | _ \<Rightarrow> None),
     as_float = (\<lambda>_. None),
     as_bool = (\<lambda>x. case x of VBool b \<Rightarrow> Some b | _ \<Rightarrow> None),
     as_strategy = (\<lambda>_. None), as_stored = (\<lambda>_. None), as_json = (\<lambda>_. None)\<rparr>"

definition init_of :: "stmt list \<Rightarrow> cfg \<times> st" where
  "init_of actions = projr (scheduler_init actions 4 empty_ctx (Some ''ws'') ''exec'')"

section \<open>An error branch\<close>

text \<open>The first action fails, its error branch runs and its success branch is skipped.\<close>

definition branch_flow :: "stmt list" where
  "branch_flow = [step ''a'' [], step ''b'' [''a''], step ''c'' [''a.error'']]"

definition branch_script :: script where
  "branch_script = \<lparr>run_if_answer = (\<lambda>_. Inr VNone),
     exec_outcome = (\<lambda>x. if x = ''a'' then Some TaskUnreachable else None)\<rparr>"

definition branch_events :: "event list" where
  "branch_events = [Starts 0, Answered 0 (AnsExec None (Some TaskUnreachable)), MainWakes, Starts 0,
     Starts 1, Answered 1 (AnsExec None None), MainWakes]"

abbreviation branch_cfg :: cfg where "branch_cfg \<equiv> fst (init_of branch_flow)"

definition branch_end :: run where
  "branch_end = the (script_events branch_script branch_cfg plain_coercions branch_events
     (start branch_cfg (snd (init_of branch_flow))))"

lemma branch_valid: "validate_structure branch_flow = Inr ()"
  by code_simp

lemma branch_flat: "flat branch_flow" "distinct_deps branch_flow"
  by code_simp+

lemma branch_init: "scheduler_init branch_flow 4 empty_ctx (Some ''ws'') ''exec'' =
    Inr (branch_cfg, snd (init_of branch_flow))"
  by code_simp

lemma branch_run:
  "script_runs branch_script branch_cfg plain_coercions
     (start branch_cfg (snd (init_of branch_flow))) branch_events branch_end"
proof (rule script_runs_events)
  have "script_events branch_script branch_cfg plain_coercions branch_events
     (start branch_cfg (snd (init_of branch_flow))) \<noteq> None" by code_simp
  then show "script_events branch_script branch_cfg plain_coercions branch_events
     (start branch_cfg (snd (init_of branch_flow))) = Some branch_end"
    by (auto simp: branch_end_def)
qed

lemma branch_main: "main branch_end = Returned None"
  by code_simp

end
