(* ===== verification/Gather_Order.thy ===== *)
theory Gather_Order
  imports Sched_Streams
begin

text \<open>
  Scatter and gather. The streams of a scatter arrive at the gather in an arbitrary order: with an
  item, after an error without an error path, or skipped. The gather collects what they bring in the
  order of the scattered collection, whatever the order of arrival, and finishes with the last one.
\<close>

section \<open>Slots\<close>

datatype arrival = Item stored | Failed exn error_info | Dropped

fun slot :: "arrival \<Rightarrow> pyval" where
  "slot (Item x) = VStored x"
| "slot (Failed e d) = VStored (inline (dump_error d))"
| "slot Dropped = VStr GATHER_UNSET"

fun gathered :: "arrival \<Rightarrow> stored list" where
  "gathered (Item x) = [x]"
| "gathered (Failed e d) = [inline (dump_error d)]"
| "gathered Dropped = []"

text \<open>The list of the gather in its parent stream: not there yet, or with the given slots.\<close>

definition holds_slots :: "st \<Rightarrow> stream \<Rightarrow> string \<Rightarrow> nat \<Rightarrow> (nat \<Rightarrow> pyval) \<Rightarrow> bool" where
  "holds_slots s u r n f \<longleftrightarrow>
     (\<exists>ctx. dict_get (streams s) u = Some ctx \<and>
        (dict_get (ACTIONS ctx) r = None \<and> (\<forall>i < n. f i = VStr GATHER_UNSET) \<or>
         dict_get (ACTIONS ctx) r = Some (from_result (VList (map f [0..<n])))))"

lemma from_result_VList:
  "(from_result (VList xs))\<lparr>result := InlineObject (VList ys) ''list''\<rparr> = from_result (VList ys)"
  "result (from_result (VList xs)) = InlineObject (VList xs) ''list''"
  "collection_index (from_result v) = None"
  by (simp_all add: from_result_def task_result_of_def inline_def)

lemma store_slot_app:
  assumes "dict_get (streams s) u = Some ctx" and "dict_get (ACTIONS ctx) r = Some (from_result (VList xs))"
    and "i < length xs"
  shows "store_slot u r (int i) x s = (Inr (), put_action u r (from_result (VList (xs[i := x]))) s)"
  using assms
  by (simp add: store_slot_def get_context_def lookup_def set_action_def from_result_VList)

lemma map_upd_slot: "i < n \<Longrightarrow> (map f [0..<n])[i := x] = map (f(i := x)) [0..<n]"
  by (rule nth_equalityI) (auto simp: nth_list_update)

lemma place_slot:
  assumes h: "holds_slots s u r n f" and i: "i < n"
    and n: "length (dict_get_default (task_streams s) k []) = n"
  shows "\<exists>ss. bind (init_slots u r k) (\<lambda>_. store_slot u r (int i) x) s = (Inr (), s\<lparr>streams := ss\<rparr>) \<and>
     holds_slots (s\<lparr>streams := ss\<rparr>) u r n (f(i := x))"
proof -
  from h obtain ctx where ctx: "dict_get (streams s) u = Some ctx"
    and acts: "dict_get (ACTIONS ctx) r = None \<and> (\<forall>i < n. f i = VStr GATHER_UNSET) \<or>
       dict_get (ACTIONS ctx) r = Some (from_result (VList (map f [0..<n])))"
    by (auto simp: holds_slots_def)
  define s1 where "s1 = (if dict_get (ACTIONS ctx) r = None
      then put_action u r (from_result (VList (replicate n (VStr GATHER_UNSET)))) s else s)"
  have init: "init_slots u r k s = (Inr (), s1)"
    using ctx n by (simp add: init_slots_def get_context_def set_action_def s1_def)
  have unset: "replicate n (VStr GATHER_UNSET) = map f [0..<n]" if "\<forall>i < n. f i = VStr GATHER_UNSET"
    using that by (intro nth_equalityI) auto
  obtain ctx1 where ctx1: "dict_get (streams s1) u = Some ctx1"
    "dict_get (ACTIONS ctx1) r = Some (from_result (VList (map f [0..<n])))"
    using ctx acts unset by (auto simp: s1_def put_action_def)
  let ?s2 = "put_action u r (from_result (VList (map (f(i := x)) [0..<n]))) s1"
  have "bind (init_slots u r k) (\<lambda>_. store_slot u r (int i) x) s = (Inr (), ?s2)"
    using store_slot_app [OF ctx1, of i x] i by (simp add: bind_def init map_upd_slot)
  moreover have "?s2 = s\<lparr>streams := streams ?s2\<rparr>"
    using ctx ctx1 by (auto simp: put_action_def s1_def)
  moreover have "holds_slots ?s2 u r n (f(i := x))"
    using ctx1 by (auto simp: holds_slots_def put_action_def)
  ultimately show ?thesis by metis
qed

section \<open>One arrival\<close>

definition item_stream :: "string \<Rightarrow> stream \<Rightarrow> nat \<Rightarrow> stream" where
  "item_stream sc u i = stream_new sc (Idx (int i)) (Some u)"

text \<open>
  The \<open>i\<close>-th stream reaches the gather: its item has been evaluated, or it is skipping, with or
  without a recorded exception.
\<close>

definition arrive ::
  "cfg \<Rightarrow> coercions \<Rightarrow> stmt \<Rightarrow> gather_args \<Rightarrow> string \<Rightarrow> stream \<Rightarrow> (nat \<Rightarrow> arrival) \<Rightarrow> nat \<Rightarrow> outcome m" where
  "arrive c v a ga sc u arr i =
     (case arr i of
        Item x \<Rightarrow> gather_item_finish c v (mk_task (ref a) (item_stream sc u i)) ga u sc (int i) x
      | _ \<Rightarrow> handle_gather c v (mk_task (ref a) (item_stream sc u i)) a True)"

fun arrive_all ::
  "cfg \<Rightarrow> coercions \<Rightarrow> stmt \<Rightarrow> gather_args \<Rightarrow> string \<Rightarrow> stream \<Rightarrow> (nat \<Rightarrow> arrival) \<Rightarrow> nat list
     \<Rightarrow> outcome list m" where
  "arrive_all c v a ga sc u arr [] = ret []"
| "arrive_all c v a ga sc u arr (i # is) =
     bind (arrive c v a ga sc u arr i) (\<lambda>r.
     bind (arrive_all c v a ga sc u arr is) (\<lambda>rs. ret (r # rs)))"

text \<open>The state after the streams in \<open>A\<close> have arrived, out of \<open>n\<close>.\<close>

definition gather_at :: "stmt \<Rightarrow> string \<Rightarrow> stream \<Rightarrow> (nat \<Rightarrow> arrival) \<Rightarrow> nat \<Rightarrow> nat set \<Rightarrow> st \<Rightarrow> bool" where
  "gather_at a sc u arr n A s \<longleftrightarrow>
     dict_get (open_streams s) (sc, u) = Some (int n - int (card A)) \<and>
     length (dict_get_default (task_streams s) (sc, u) []) = n \<and>
     holds_slots s u (ref a) n (\<lambda>i. if i \<in> A then slot (arr i) else VStr GATHER_UNSET) \<and>
     (\<forall>i < n. dict_get (stream_hierarchy s) (item_stream sc u i) = Some (Some u) \<and>
        dict_get (stream_exceptions s) (item_stream sc u i) =
          (case arr i of Failed e d \<Rightarrow> Some (e, d) | _ \<Rightarrow> None))"

text \<open>What follows an arrival: the gather is finished by the last stream.\<close>

definition closing :: "cfg \<Rightarrow> coercions \<Rightarrow> stmt \<Rightarrow> gather_args \<Rightarrow> string \<Rightarrow> stream \<Rightarrow> outcome m" where
  "closing c v a ga sc u =
     bind (item open_streams (sc, u)) (\<lambda>n.
       if n = 0 then gather_result_start c v (ref a) u ga else ret Finished)"

lemma bind_close_one:
  "dict_get (open_streams s) k = Some n \<Longrightarrow>
     bind (close_one k) f s = f () (s\<lparr>open_streams := dict_set k (n - 1) (open_streams s)\<rparr>)"
  by (simp add: close_one_def bind_assoc)

lemma item_stream_simps [simp]:
  "item_stream sc u i \<noteq> ROOT_STREAM" "\<not> is_skip_stream (item_stream sc u i)" "item_stream sc u i \<noteq> []"
  by (simp_all add: item_stream_def) (simp add: stream_new_def)

lemma gather_at_placed:
  assumes g: "gather_at a sc u arr n A s" and i: "i < n" "i \<notin> A" and A: "finite A"
    and h: "holds_slots (s\<lparr>streams := ss\<rparr>) u (ref a) n
      ((\<lambda>j. if j \<in> A then slot (arr j) else VStr GATHER_UNSET)(i := slot (arr i)))"
  shows "gather_at a sc u arr n (insert i A)
     (s\<lparr>open_streams := dict_set (sc, u) (int n - int (card A) - 1) (open_streams s), streams := ss\<rparr>)"
proof -
  have "(\<lambda>j. if j \<in> A then slot (arr j) else VStr GATHER_UNSET)(i := slot (arr i)) =
      (\<lambda>j. if j \<in> insert i A then slot (arr j) else VStr GATHER_UNSET)" by auto
  with h g i A show ?thesis by (auto simp: gather_at_def holds_slots_def)
qed

lemma arrive_step:
  assumes g: "gather_at a sc u arr n A s" and i: "i < n" "i \<notin> A" and A: "finite A"
    and ga: "parse_gather_args v (args a) = Inr ga" and sc: "plain_ref sc"
  shows "\<exists>s'. arrive c v a ga sc u arr i s = closing c v a ga sc u s' \<and>
     gather_at a sc u arr n (insert i A) s'"
proof -
  let ?s1 = "s\<lparr>open_streams := dict_set (sc, u) (int n - int (card A) - 1) (open_streams s)\<rparr>"
  let ?f = "\<lambda>j. if j \<in> A then slot (arr j) else VStr GATHER_UNSET"
  let ?t = "mk_task (ref a) (item_stream sc u i)"
  have open1: "bind (close_one (sc, u)) k s = k () ?s1" for k :: "unit \<Rightarrow> outcome m"
    using g by (intro bind_close_one) (simp add: gather_at_def)
  have h: "holds_slots ?s1 u (ref a) n ?f" and len: "length (dict_get_default (task_streams ?s1) (sc, u) []) = n"
    using g by (auto simp: gather_at_def holds_slots_def)
  have par: "dict_get (stream_hierarchy s) (item_stream sc u i) = Some (Some u)"
    and exc: "dict_get (stream_exceptions s) (item_stream sc u i) =
      (case arr i of Failed e d \<Rightarrow> Some (e, d) | _ \<Rightarrow> None)"
    using g i by (auto simp: gather_at_def)
  have leaf: "stream_leaf (item_stream sc u i) = Inr (sc, Idx (int i))"
    unfolding item_stream_def by (rule leaf_of_new [OF sc])
  obtain ctx where ctx: "dict_get (streams s) u = Some ctx" using g by (auto simp: gather_at_def holds_slots_def)
  have placed: "\<exists>ss. bind (init_slots u (ref a) (sc, u)) (\<lambda>_. bind (store_slot u (ref a) (int i) (slot (arr i))) k) ?s1 =
       k () (?s1\<lparr>streams := ss\<rparr>) \<and> gather_at a sc u arr n (insert i A) (?s1\<lparr>streams := ss\<rparr>)"
    for k :: "unit \<Rightarrow> outcome m"
  proof -
    from place_slot [OF h i(1) len, of "slot (arr i)"] obtain ss where
      ss: "bind (init_slots u (ref a) (sc, u)) (\<lambda>_. store_slot u (ref a) (int i) (slot (arr i))) ?s1 =
        (Inr (), ?s1\<lparr>streams := ss\<rparr>)" "holds_slots (?s1\<lparr>streams := ss\<rparr>) u (ref a) n (?f(i := slot (arr i)))"
      by blast
    have "bind (init_slots u (ref a) (sc, u)) (\<lambda>_. bind (store_slot u (ref a) (int i) (slot (arr i))) k) ?s1 =
        k () (?s1\<lparr>streams := ss\<rparr>)"
      unfolding bind_assoc [symmetric] by (subst bind_def) (simp add: ss(1))
    moreover have "gather_at a sc u arr n (insert i A) (?s1\<lparr>streams := ss\<rparr>)"
      using gather_at_placed [OF g i A, of ss] ss(2) by (simp add: holds_slots_def)
    ultimately show ?thesis by blast
  qed
  show ?thesis
  proof (cases "arr i")
    case (Item x)
    have "arrive c v a ga sc u arr i s = bind (init_slots u (ref a) (sc, u)) (\<lambda>_.
        bind (store_slot u (ref a) (int i) (slot (arr i))) (\<lambda>_. closing c v a ga sc u)) ?s1"
      by (simp add: arrive_def Item gather_item_finish_def closing_def open1 cong: if_cong)
    with placed show ?thesis by metis
  next
    case (Failed e d)
    have "arrive c v a ga sc u arr i s = bind (init_slots u (ref a) (sc, u)) (\<lambda>_.
        bind (store_slot u (ref a) (int i) (slot (arr i))) (\<lambda>_. closing c v a ga sc u)) ?s1"
      using par exc leaf ctx ga
      by (simp add: arrive_def Failed handle_gather_def handle_gather_skip_stream_def closing_def
          get_parent_stream_id_safe_def get_context_def bind_assoc leaf_index_def open1 cong: if_cong)
    with placed show ?thesis by metis
  next
    case Dropped
    have "arrive c v a ga sc u arr i s = closing c v a ga sc u ?s1"
      using par exc leaf ctx ga
      by (simp add: arrive_def Dropped handle_gather_def handle_gather_skip_stream_def closing_def
          get_parent_stream_id_safe_def get_context_def bind_assoc open1 cong: if_cong)
    moreover have "gather_at a sc u arr n (insert i A) ?s1"
    proof -
      have "?f(i := slot (arr i)) = ?f" using i Dropped by auto
      with gather_at_placed [OF g i A, of "streams s"] g show ?thesis by (simp add: gather_at_def)
    qed
    ultimately show ?thesis by blast
  qed
qed

section \<open>All arrivals\<close>

lemma filter_slots:
  "filter (\<lambda>x. x \<noteq> VStr GATHER_UNSET) (map (\<lambda>i. slot (arr i)) is) = map VStored (concat (map (gathered \<circ> arr) is))"
proof (induction "is")
  case (Cons i "is")
  then show ?case by (cases "arr i") auto
qed simp

lemma validate_stored_all: "map_result (validate_stored v) (map VStored xs) = Inr xs"
  by (induction xs) (auto simp: validate_stored_def required_def)

lemma closing_last:
  assumes g: "gather_at a sc u arr n {0..<n} s" and ws: "cfg_workspace_id c = Some ws"
  shows "\<exists>tr s'. closing c v a ga sc u s = (Inr (Wait (FinalizeGather ga (concat (map (gathered \<circ> arr) [0..<n]))
     (action_collection_prefix ws (cfg_wf_exec_id c) u (ref a)) u tr)), s')"
proof -
  have eq: "map (\<lambda>i. if i \<in> {0..<n} then slot (arr i) else VStr GATHER_UNSET) [0..<n] = map (\<lambda>i. slot (arr i)) [0..<n]"
    by simp
  from g obtain ctx where ctx: "dict_get (streams s) u = Some ctx" and
    acts: "dict_get (ACTIONS ctx) (ref a) = None \<and> (\<forall>i < n. slot (arr i) = VStr GATHER_UNSET) \<or>
       dict_get (ACTIONS ctx) (ref a) = Some (from_result (VList (map (\<lambda>i. slot (arr i)) [0..<n])))"
    unfolding gather_at_def holds_slots_def eq by auto
  have op: "dict_get (open_streams s) (sc, u) = Some 0" using g by (simp add: gather_at_def)
  have none: "concat (map (gathered \<circ> arr) [0..<n]) = []" if "\<forall>i < n. slot (arr i) = VStr GATHER_UNSET"
  proof -
    have "gathered (arr i) = []" if "slot (arr i) = VStr GATHER_UNSET" for i using that by (cases "arr i") auto
    with that show ?thesis by simp
  qed
  show ?thesis
  proof (cases "dict_get (ACTIONS ctx) (ref a)")
    case None
    with acts none ctx op ws show ?thesis
      by (auto simp: closing_def gather_result_start_def get_context_def set_action_def bind_assoc lookup_def
          put_action_def workspace_id_def)
  next
    case (Some tr)
    with acts have tr: "tr = from_result (VList (map (\<lambda>i. slot (arr i)) [0..<n]))" by auto
    with Some ctx op ws show ?thesis
      by (simp add: closing_def gather_result_start_def get_context_def lookup_def filter_slots
          validate_stored_all workspace_id_def)
  qed
qed

lemma closing_before:
  "gather_at a sc u arr n A s \<Longrightarrow> card A < n \<Longrightarrow> closing c v a ga sc u s = (Inr Finished, s)"
  by (simp add: gather_at_def closing_def)

lemma arrive_all_order:
  assumes g: "gather_at a sc u arr n A s" and "is": "distinct is" "is \<noteq> []" "set is = {0..<n} - A" and A: "A \<subseteq> {0..<n}"
    and ga: "parse_gather_args v (args a) = Inr ga" and sc: "plain_ref sc" and ws: "cfg_workspace_id c = Some ws"
  shows "\<exists>tr s'. arrive_all c v a ga sc u arr is s =
     (Inr (replicate (length is - 1) Finished @
        [Wait (FinalizeGather ga (concat (map (gathered \<circ> arr) [0..<n]))
          (action_collection_prefix ws (cfg_wf_exec_id c) u (ref a)) u tr)]), s')"
  using g "is" A
proof (induction "is" arbitrary: A s)
  case (Cons i "is")
  have fin: "finite A" using Cons.prems(5) by (rule finite_subset) simp
  have i: "i < n" "i \<notin> A" using Cons.prems(4) by auto
  from arrive_step [OF Cons.prems(1) i fin ga sc] obtain s1 where
    s1: "arrive c v a ga sc u arr i s = closing c v a ga sc u s1" "gather_at a sc u arr n (insert i A) s1" by blast
  have sub: "insert i A \<subseteq> {0..<n}" using i Cons.prems(5) by simp
  show ?case
  proof (cases "is = []")
    case True
    with Cons.prems(4,5) i have "insert i A = {0..<n}" by auto
    with s1 closing_last [of a sc u arr n s1 c ws v ga] ws True show ?thesis by (auto simp: bind_def comp_def)
  next
    case False
    have rest: "set is = {0..<n} - insert i A" using Cons.prems(2,4) by auto
    moreover from False have "set is \<noteq> {}" by simp
    ultimately have "insert i A \<noteq> {0..<n}" by (metis Diff_cancel)
    with sub have "insert i A \<subset> {0..<n}" by (rule psubsetI)
    from psubset_card_mono [OF _ this] have "card (insert i A) < n" by simp
    from closing_before [OF s1(2) this] have now: "arrive c v a ga sc u arr i s = (Inr Finished, s1)"
      unfolding s1(1) .
    have d: "distinct is" using Cons.prems(2) by simp
    from Cons.IH [OF s1(2) d False rest sub] obtain tr s' where
      "arrive_all c v a ga sc u arr is s1 = (Inr (replicate (length is - 1) Finished @
        [Wait (FinalizeGather ga (concat (map (gathered \<circ> arr) [0..<n]))
          (action_collection_prefix ws (cfg_wf_exec_id c) u (ref a)) u tr)]), s')" by blast
    moreover have "replicate (length is) Finished = Finished # replicate (length is - 1) Finished"
      using False by (cases "is") simp_all
    ultimately show ?thesis using now by (simp add: bind_def comp_def)
  qed
qed simp

end
