(* ===== verification/Loop_Reset.thy ===== *)
theory Loop_Reset
  imports Gather_Order Flat_Steps
begin

text \<open>
  Loops. What \<open>_reset_loop_iteration_state\<close> leaves behind for the next iteration: the members of the
  loop wait for their dependencies inside the loop, the edges between them are pending, the streams
  of the scatters inside the loop and all streams below them are gone, and nested loops start from
  zero. The results of the actions stay. For a gather inside a loop that is a flaw, because a gather
  does not overwrite its result but assigns into it.
\<close>

section \<open>The streams that are removed\<close>

definition under :: "(stream, stream option) dict \<Rightarrow> (stream \<times> stream) set" where
  "under h = {(x, p). (x, Some p) \<in> set h}"

definition scattered :: "region \<Rightarrow> stream \<Rightarrow> st \<Rightarrow> stream set" where
  "scattered g sid s =
     \<Union> {set ss | r u ss. ((r, u), ss) \<in> set (task_streams s) \<and> r \<in> set (members g) \<and> stream_within u sid}"

definition dropped :: "region \<Rightarrow> stream \<Rightarrow> st \<Rightarrow> stream set" where
  "dropped g sid s = {x. \<exists>y \<in> scattered g sid s. (x, y) \<in> (under (stream_hierarchy s))\<^sup>*}"

lemma set_fold_set_add: "set (fold set_add xs acc) = set xs \<union> set acc"
  by (induction xs arbitrary: acc) auto

lemma scatter_streams_set: "set (scatter_streams g sid s) = scattered g sid s"
proof -
  have "set (fold (\<lambda>((r, u), ss) acc.
         if r \<in> set (members g) \<and> stream_within u sid then fold set_add ss acc else acc) ts acc) =
      set acc \<union> \<Union> {set ss | r u ss. ((r, u), ss) \<in> set ts \<and> r \<in> set (members g) \<and> stream_within u sid}"
    for ts acc
  proof (induction ts arbitrary: acc)
    case (Cons e ts)
    obtain r u ss where e: "e = ((r, u), ss)" by (metis prod.exhaust)
    show ?case by (auto simp: e Cons set_fold_set_add)
  qed auto
  from this [of "task_streams s" "[]"] show ?thesis
    unfolding scatter_streams_def scattered_def by (simp only: list.set Un_empty_left)
qed

lemma close_pass_sound: "x \<in> set (close_pass h R) \<Longrightarrow> \<exists>y \<in> set R. (x, y) \<in> (under h)\<^sup>*"
proof -
  have "x \<in> set (close_pass h' R) \<Longrightarrow> \<exists>y \<in> set R. (x, y) \<in> (under h)\<^sup>*" if "set h' \<subseteq> set h" for h'
    using that
  proof (induction h' arbitrary: R)
    case (Cons e h')
    obtain cand parent where e: "e = (cand, parent)" by (cases e)
    show ?case
    proof (cases "\<exists>p. parent = Some p \<and> p \<in> set R")
      case True
      then obtain p where p: "parent = Some p" "p \<in> set R" by blast
      from Cons.IH [of "set_add cand R"] Cons.prems p obtain y where
        y: "y \<in> insert cand (set R)" "(x, y) \<in> (under h)\<^sup>*" by (auto simp: e close_pass_Cons)
      have "(cand, p) \<in> under h" using Cons.prems(2) p by (auto simp: under_def e)
      with y p show ?thesis by (metis insertE rtrancl.rtrancl_into_rtrancl)
    next
      case False
      with Cons.IH [of R] Cons.prems show ?thesis by (auto simp: e close_pass_Cons split: option.splits)
    qed
  qed (auto simp: close_pass_def)
  then show "x \<in> set (close_pass h R) \<Longrightarrow> \<exists>y \<in> set R. (x, y) \<in> (under h)\<^sup>*" by blast
qed

lemma close_pass_child: "(x, Some p) \<in> set h \<Longrightarrow> p \<in> set R \<Longrightarrow> x \<in> set (close_pass h R)"
proof (induction h arbitrary: R)
  case (Cons e h)
  obtain cand parent where e: "e = (cand, parent)" by (cases e)
  let ?R = "case parent of None \<Rightarrow> R | Some q \<Rightarrow> if q \<in> set R then set_add cand R else R"
  have "p \<in> set ?R" using Cons.prems(2) by (auto split: option.splits)
  show ?case
  proof (cases "(x, Some p) = e")
    case True
    with e Cons.prems(2) have "x \<in> set ?R" by (auto simp: e)
    with close_pass_mono show ?thesis by (auto simp: e close_pass_Cons)
  next
    case False
    with Cons.IH [OF _ \<open>p \<in> set ?R\<close>] Cons.prems(1) show ?thesis by (auto simp: e close_pass_Cons)
  qed
qed simp

lemma close_streams_set: "set (close_streams h R) = {x. \<exists>y \<in> set R. (x, y) \<in> (under h)\<^sup>*}"
proof (induction h R rule: close_streams.induct)
  case (1 h R)
  show ?case
  proof (cases "set (close_pass h R) = set R")
    case True
    then have "close_streams h R = R" by (simp add: close_streams.simps [of h R])
    moreover have "x \<in> set R" if "(x, y) \<in> (under h)\<^sup>*" "y \<in> set R" for x y
      using that
    proof (induction rule: converse_rtrancl_induct)
      case (step x z)
      then have "x \<in> set (close_pass h R)" by (intro close_pass_child) (auto simp: under_def)
      with True show ?case by simp
    qed
    ultimately show ?thesis by auto
  next
    case False
    then have "close_streams h R = close_streams h (close_pass h R)"
      by (simp add: close_streams.simps [of h R] Let_def)
    moreover have "(\<exists>y \<in> set (close_pass h R). (x, y) \<in> (under h)\<^sup>*) \<longleftrightarrow> (\<exists>y \<in> set R. (x, y) \<in> (under h)\<^sup>*)" for x
      using close_pass_sound [of _ h R] close_pass_mono [of R h] by (meson rtrancl_trans subsetD)
    ultimately show ?thesis using 1 [OF refl False] by simp
  qed
qed

lemma cleanup_eq:
  "cleanup_loop_descendant_streams g sid s =
     (if scattered g sid s = {} then s
      else remove_streams (close_streams (stream_hierarchy s) (scatter_streams g sid s)) s)"
  using scatter_streams_set [of g sid s] unfolding cleanup_loop_descendant_streams_def Let_def
  by (metis set_empty)

lemma dropped_eq: "set (close_streams (stream_hierarchy s) (scatter_streams g sid s)) = dropped g sid s"
  by (simp add: close_streams_set scatter_streams_set dropped_def)

lemma cleanup_streams:
  "dict_get (streams (cleanup_loop_descendant_streams g sid s)) u =
     (if u \<in> dropped g sid s then None else dict_get (streams s) u)"
  "dict_get (stream_hierarchy (cleanup_loop_descendant_streams g sid s)) u =
     (if u \<in> dropped g sid s then None else dict_get (stream_hierarchy s) u)"
  by (auto simp: cleanup_eq remove_streams_def dict_get_filter_key dropped_eq dropped_def)

section \<open>The members of the loop\<close>

definition inside :: "region \<Rightarrow> stmt \<Rightarrow> int" where
  "inside g a = int (length (filter (\<lambda>dep. dep_src dep \<in> set (members g)) (depends_on a)))"

lemma internal_deps_eq: "deps_parse a \<Longrightarrow> internal_deps g a = Inr (inside g a)"
proof -
  assume "deps_parse a"
  then have "\<forall>dep \<in> set (depends_on a). \<exists>p. components dep = Inr p" by (simp add: deps_parse_def)
  then have "map_result edge_components_from_dep ds = Inr (map dep_parts ds)"
    if "set ds \<subseteq> set (depends_on a)" for ds
    using that by (induction ds) (auto simp: components_def dep_parts_def split: sum.splits)
  from this [of "depends_on a"] show ?thesis
    by (simp add: internal_deps_def inside_def filter_map comp_def case_prod_beta dep_src_def)
qed

lemma reset_members:
  assumes "\<forall>r \<in> set ms. \<forall>a. dict_get (cfg_tasks c) r = Some a \<longrightarrow> deps_parse a"
  shows "\<exists>ig. for_all (reset_member c g sid) ms s =
       (Inr (), s\<lparr>completed_tasks := completed_tasks s - set ms \<times> {sid}, indegrees := ig\<rparr>) \<and>
     (\<forall>r \<in> set ms. \<forall>a. dict_get (cfg_tasks c) r = Some a \<longrightarrow> dict_get ig (r, sid) = Some (inside g a)) \<and>
     (\<forall>k. k \<notin> set ms \<times> {sid} \<longrightarrow> dict_get ig k = dict_get (indegrees s) k)"
  using assms
proof (induction ms arbitrary: s)
  case Nil
  show ?case by (intro exI [of _ "indegrees s"]) simp
next
  case (Cons r ms)
  define s1 where "s1 = (case dict_get (cfg_tasks c) r of
      None \<Rightarrow> s\<lparr>completed_tasks := completed_tasks s - {(r, sid)}\<rparr>
    | Some a \<Rightarrow> s\<lparr>completed_tasks := completed_tasks s - {(r, sid)},
        indegrees := dict_set (r, sid) (inside g a) (indegrees s)\<rparr>)"
  have one: "reset_member c g sid r s = (Inr (), s1)"
    using Cons.prems
    by (auto simp: reset_member_def s1_def internal_deps_eq split: option.splits)
  have "\<forall>r \<in> set ms. \<forall>a. dict_get (cfg_tasks c) r = Some a \<longrightarrow> deps_parse a"
    using Cons.prems by simp
  from Cons.IH [where s = s1, OF this] obtain ig where
    ig: "for_all (reset_member c g sid) ms s1 =
      (Inr (), s1\<lparr>completed_tasks := completed_tasks s1 - set ms \<times> {sid}, indegrees := ig\<rparr>)"
    "\<forall>r \<in> set ms. \<forall>a. dict_get (cfg_tasks c) r = Some a \<longrightarrow> dict_get ig (r, sid) = Some (inside g a)"
    "\<forall>k. k \<notin> set ms \<times> {sid} \<longrightarrow> dict_get ig k = dict_get (indegrees s1) k" by (elim exE conjE) (rule that)
  have "completed_tasks s1 - set ms \<times> {sid} = completed_tasks s - set (r # ms) \<times> {sid}"
    by (auto simp: s1_def split: option.splits)
  then have "s1\<lparr>completed_tasks := completed_tasks s1 - set ms \<times> {sid}, indegrees := ig\<rparr> =
      s\<lparr>completed_tasks := completed_tasks s - set (r # ms) \<times> {sid}, indegrees := ig\<rparr>"
    by (cases "dict_get (cfg_tasks c) r") (simp_all add: s1_def)
  then have run: "for_all (reset_member c g sid) (r # ms) s =
      (Inr (), s\<lparr>completed_tasks := completed_tasks s - set (r # ms) \<times> {sid}, indegrees := ig\<rparr>)"
    using ig(1) by (simp add: bind_def one)
  have "dict_get ig (r, sid) = Some (inside g a)" if "dict_get (cfg_tasks c) r = Some a" for a
    using ig(2,3) that by (cases "r \<in> set ms") (auto simp: s1_def)
  moreover have "dict_get ig k = dict_get (indegrees s) k" if "k \<notin> set (r # ms) \<times> {sid}" for k
    using ig(3) that by (cases k) (auto simp: s1_def split: option.splits)
  ultimately show ?case using run ig(2) by (intro exI [of _ ig]) auto
qed

section \<open>The state of the next iteration\<close>

lemma tracking_marker:
  assumes "edge_stream e = sid" "edge_src e \<in> set (members g)" "edge_dst e \<in> set (members g)"
  shows "edge_marker (reset_tracking g sid s) e = PENDING"
proof -
  let ?f = "\<lambda>e m. if edge_stream e = sid \<and> edge_src e \<in> set (members g) \<and> edge_dst e \<in> set (members g)
      then PENDING else m"
  have "map_of (map (\<lambda>(e, m). (e, ?f e m)) d) e = map_option (?f e) (map_of d e)" for d
    by (induction d) auto
  with assms show ?thesis
    by (auto simp: edge_marker_def reset_tracking_def Let_def dict_get_default_def split: option.splits)
qed

lemma reset_effect:
  assumes "\<forall>r \<in> set (members g). \<forall>a. dict_get (cfg_tasks c) r = Some a \<longrightarrow> deps_parse a"
  obtains s' where "reset_loop_iteration_state c g sid s = (Inr (), s')"
    "\<And>r a. r \<in> set (members g) \<Longrightarrow> dict_get (cfg_tasks c) r = Some a \<Longrightarrow>
      dict_get (indegrees s') (r, sid) = Some (inside g a)"
    "\<And>e. edge_stream e = sid \<Longrightarrow> edge_src e \<in> set (members g) \<Longrightarrow> edge_dst e \<in> set (members g) \<Longrightarrow>
      edge_marker s' e = PENDING"
    "\<And>r. r \<in> set (members g) \<Longrightarrow> (r, sid) \<notin> completed_tasks s'"
    "\<And>u. dict_get (streams s') u = (if u \<in> dropped g sid s then None else dict_get (streams s) u)"
    "\<And>r u. r \<in> set (members g) \<Longrightarrow> stream_within u sid \<Longrightarrow> dict_get (loop_indices s') (r, u) = None"
proof -
  let ?s1 = "reset_tracking g sid (cleanup_loop_descendant_streams g sid s)"
  from reset_members [of "members g" c g sid ?s1, OF assms] obtain ig where
    ig: "for_all (reset_member c g sid) (members g) ?s1 =
      (Inr (), ?s1\<lparr>completed_tasks := completed_tasks ?s1 - set (members g) \<times> {sid}, indegrees := ig\<rparr>)"
    "\<forall>r \<in> set (members g). \<forall>a. dict_get (cfg_tasks c) r = Some a \<longrightarrow> dict_get ig (r, sid) = Some (inside g a)"
    by (elim exE conjE)
  let ?s' = "?s1\<lparr>completed_tasks := completed_tasks ?s1 - set (members g) \<times> {sid}, indegrees := ig,
      loop_indices := dict_filter
           (\<lambda>k _. \<not> (fst k \<in> set (members g) \<and> stream_within (snd k) sid)) (loop_indices ?s1)\<rparr>"
  show ?thesis
  proof (rule that [of ?s'])
    show "reset_loop_iteration_state c g sid s = (Inr (), ?s')"
      by (simp add: reset_loop_iteration_state_def bind_def ig(1))
    show "dict_get (streams ?s') u = (if u \<in> dropped g sid s then None else dict_get (streams s) u)" for u
      using cleanup_streams(1) by (simp add: reset_tracking_def Let_def)
    show "edge_marker ?s' e = PENDING"
      if "edge_stream e = sid" "edge_src e \<in> set (members g)" "edge_dst e \<in> set (members g)" for e
      using tracking_marker [OF that] by (simp add: edge_marker_def)
    show "dict_get (loop_indices ?s') (r, u) = None" if "r \<in> set (members g)" "stream_within u sid" for r u
      using that by (simp add: dict_get_filter_key)
  qed (use ig(2) in auto)
qed

text \<open>A gather that finds a result of an earlier iteration assigns into it.\<close>

lemma stale_gather:
  assumes "dict_get (streams s) u = Some ctx" and "dict_get (ACTIONS ctx) (task_ref t) = Some tr"
    and "dict_get (open_streams s) (sc, u) = Some n"
  shows "is_externalized tr \<Longrightarrow> fst (gather_item_finish c v t ga u sc idx x s) = Inl (PyError ValueError)"
    and "result tr = InlineObject (VList ys) tn \<Longrightarrow> collection_index tr = None \<Longrightarrow> int (length ys) \<le> idx \<Longrightarrow>
      fst (gather_item_finish c v t ga u sc idx x s) = Inl (PyError IndexError)"
proof -
  let ?s = "s\<lparr>open_streams := dict_set (sc, u) (n - 1) (open_streams s)\<rparr>"
  have start: "gather_item_finish c v t ga u sc idx x s =
      bind (store_slot u (task_ref t) idx (VStored x)) (\<lambda>_. bind (item open_streams (sc, u)) (\<lambda>n.
       if n = 0 then gather_result_start c v (task_ref t) u ga else ret Finished)) ?s"
    using assms by (simp add: gather_item_finish_def bind_close_one init_slots_def get_context_def bind_assoc)
  show "is_externalized tr \<Longrightarrow> fst (gather_item_finish c v t ga u sc idx x s) = Inl (PyError ValueError)"
    using assms unfolding start
    by (cases "result tr") (auto simp: is_externalized_def store_slot_def get_context_def lookup_def
        get_data_def bind_assoc)
  show "result tr = InlineObject (VList ys) tn \<Longrightarrow> collection_index tr = None \<Longrightarrow> int (length ys) \<le> idx \<Longrightarrow>
      fst (gather_item_finish c v t ga u sc idx x s) = Inl (PyError IndexError)"
    using assms unfolding start
    by (simp add: store_slot_def get_context_def lookup_def get_data_def bind_assoc py_store_def py_index_def)
qed

end
