(* ===== verification/Dsl_Theorems.thy ===== *)
theory Dsl_Theorems
  imports Examples Loop_Reset
begin

text \<open>
  The properties of the identifiers and of the validator, with the constructor of the scheduler,
  which relies on what the validator checks.
\<close>

section \<open>Workflows with control flow\<close>

definition loop_flow :: "stmt list" where
  "loop_flow = [control ''start'' LOOP_START [], step ''body'' [''start''],
     (control ''stop'' LOOP_END [''body''])\<lparr>args := [(''condition'', VStr ''again'')]\<rparr>]"

definition cyclic_flow :: "stmt list" where
  "cyclic_flow = [step ''a'' [], step ''b'' [''a'', ''c''], step ''c'' [''b'']]"

lemma loop_flow_valid: "validate_structure loop_flow = Inr ()"
  by code_simp

lemma cyclic_flow_valid: "validate_structure cyclic_flow = Inr ()" "flat cyclic_flow"
  by code_simp+

section \<open>Identifiers\<close>

text \<open>
  The leaf of a stream identifier made from an action reference is that reference
  and the index, for items as well as for skipped scatters.
\<close>

theorem stream_leaf_round_trip:
  assumes "slug scope"
  shows "stream_leaf (stream_new scope ix base) = Inr (scope, ix)"
  using assms by (intro leaf_of_new slug_plain)

theorem stream_leaf_round_trip_witness:
  "stream_leaf (stream_new ''each'' (Idx 12) (Some ROOT_STREAM)) = Inr (''each'', Idx 12)"
  by (rule stream_leaf_round_trip) code_simp

text \<open>
  Different items, scatters or parents have different stream identifiers, and none of them is
  the root stream or its own parent.
\<close>

theorem stream_ids_distinct:
  assumes "slug s" and "slug t"
  shows "(stream_new s i (Some b) = stream_new t j (Some c) \<longleftrightarrow> s = t \<and> i = j \<and> b = c) \<and>
     stream_new s i (Some b) \<noteq> b \<and> stream_new s i (Some b) \<noteq> ROOT_STREAM"
  using assms stream_new_inject [OF slug_plain slug_plain] stream_new_not_base by simp

theorem stream_ids_distinct_witness:
  "stream_new ''x'' (Idx 1) (Some ROOT_STREAM) \<noteq> stream_new ''x'' (Idx 11) (Some ROOT_STREAM)"
proof -
  have "slug ''x''" by code_simp
  from stream_ids_distinct [OF this this] show ?thesis by simp
qed

text \<open>
  The textual test that a stream lies within another one is the prefix order on
  the lists of their segments, so it never confuses \<open>x:1\<close> with \<open>x:11\<close>.
\<close>

theorem stream_within_is_prefix:
  "stream_within s base \<longleftrightarrow> prefix (stream_parts base) (stream_parts s)"
  by (rule stream_within_parts)

text \<open>
  A dependency written from a reference and an edge type reads back as those; the
  plain reference means its success edge.
\<close>

theorem dependency_round_trip:
  assumes "slug r"
  shows "edge_components_from_dep (dep_from_edge_components r ty) = Inr (r, ty) \<and>
     edge_components_from_dep r = Inr (r, SUCCESS)"
  using assms components_of_dep [of r ty] components_plain [of r] slug_no_dot [of r]
  by (auto simp: components_def split: sum.splits)

theorem dependency_round_trip_witness:
  "edge_components_from_dep (dep_from_edge_components ''step_1'' ERROR) = Inr (''step_1'', ERROR)"
proof -
  have "slug ''step_1''" by code_simp
  from dependency_round_trip [OF this, of ERROR] show ?thesis by simp
qed

section \<open>Scopes\<close>

text \<open>
  C14. Assigning the scopes visits every action once, each after all its dependencies, and the
  scopes form a tree in which the scope of every action has its place.
\<close>

theorem scopes_assigned_in_order:
  assumes "to_adjacency actions = Inr adj" and "distinct (map ref actions)"
    and "ROOT_SCOPE \<notin> ref ` set actions"
    and "assign_action_scopes actions adj = Inr (scopes, h, openers)"
  shows "distinct (dict_keys scopes) \<and> set (dict_keys scopes) = ref ` set actions \<and>
     topological actions (dict_keys scopes) \<and> scope_tree h \<and> snd ` set scopes \<subseteq> set (dict_keys h)"
  using assign_action_scopes_topological [OF assms(1,2,4)] assign_action_scopes_tree [OF assms]
  by simp

definition loop_adj :: "(string, string list) dict" where
  "loop_adj = projr (to_adjacency loop_flow)"

definition loop_scopes :: "(string, string) dict \<times> hierarchy \<times> (string, string) dict" where
  "loop_scopes = projr (assign_action_scopes loop_flow loop_adj)"

lemma loop_flow_scopes:
  "to_adjacency loop_flow = Inr loop_adj" "distinct (map ref loop_flow)"
  "ROOT_SCOPE \<notin> ref ` set loop_flow"
  "assign_action_scopes loop_flow loop_adj =
     Inr (fst loop_scopes, fst (snd loop_scopes), snd (snd loop_scopes))"
  by code_simp+

theorem scopes_assigned_in_order_witness:
  "topological loop_flow (dict_keys (fst loop_scopes)) \<and> scope_tree (fst (snd loop_scopes))"
  using scopes_assigned_in_order [OF loop_flow_scopes] by simp

text \<open>
  A cycle is reported only when there is one: then no list of all the actions has every action
  after its dependencies.
\<close>

theorem cycle_report_correct:
  assumes "to_adjacency actions = Inr adj" and "distinct (map ref actions)"
    and "assign_action_scopes actions adj = Inl (Dsl CycleDetected)"
  shows "\<not> (\<exists>vs. topological actions vs \<and> set vs = ref ` set actions)"
proof -
  have nc: "assign_loop actions adj s \<noteq> Inl (Dsl CycleDetected)" for s
    by (rule assign_loop_not_cycle)
  with assms(3) obtain s where s: "assign_loop actions adj (init_scopes actions) = Inr s"
    by (cases "assign_loop actions adj (init_scopes actions)") (auto simp: assign_action_scopes_def)
  from cycle_detected_no_order [OF assms s] show ?thesis by blast
qed

theorem cycle_report_correct_witness:
  "\<not> (\<exists>vs. topological cyclic_flow vs \<and> set vs = ref ` set cyclic_flow)"
  by (rule cycle_report_correct [of _ "projr (to_adjacency cyclic_flow)"]) code_simp+

text \<open>
  Assigning scopes never fails because an action would belong to two scopes, whatever the graph:
  each action is visited once, so the check the documentation of the method announces is dead.
\<close>

theorem multiple_scopes_never_reported:
  assumes "to_adjacency actions = Inr adj" and "distinct (map ref actions)"
  shows "assign_action_scopes actions adj \<noteq> Inl (Dsl (MultipleScopes x))"
proof -
  have "assign_loop actions adj (init_scopes actions) \<noteq> Inl (Dsl (MultipleScopes x))"
    by (rule assign_loop_not_multiple [OF walk_inv_init [OF assms(2)] assms(2) to_adjacency_succs [OF assms(1)]])
  then show ?thesis
    by (cases "assign_loop actions adj (init_scopes actions)") (auto simp: assign_action_scopes_def)
qed

theorem multiple_scopes_never_reported_witness:
  "assign_action_scopes cyclic_flow (projr (to_adjacency cyclic_flow)) \<noteq> Inl (Dsl (MultipleScopes ''b''))"
  by (rule multiple_scopes_never_reported) code_simp+

section \<open>Accepted definitions\<close>

text \<open>
  C7. Every loop of an accepted definition is closed by exactly one loop end, and every action in the
  scope of the loop or in a scope below it has a path of success edges to that loop end. So when the
  loop end runs, nothing of the iteration is left to run.
\<close>

theorem accepted_loops_synchronize:
  assumes "validate_structure actions = Inr ()" and "l \<in> set actions" and "action l = LOOP_START"
  shows "\<exists>adj scopes h openers. to_adjacency actions = Inr adj \<and>
     assign_action_scopes actions adj = Inr (scopes, h, openers) \<and>
     (\<exists>e \<in> set actions. action e = LOOP_END \<and>
        resolve_closed_loop_scope e scopes h openers = Inr (ref l) \<and>
        (\<forall>e' \<in> set actions. action e' = LOOP_END \<longrightarrow>
           resolve_closed_loop_scope e' scopes h openers = Inr (ref l) \<longrightarrow> ref e' = ref e) \<and>
        (\<forall>r sc. (r, sc) \<in> set scopes \<longrightarrow> (sc, ref l) \<in> (parent_rel h)\<^sup>* \<longrightarrow>
           (r, ref e) \<in> (success_edges actions)\<^sup>*))"
proof -
  have op: "is_scope_opener (action l)" using assms(3) by (simp add: is_scope_opener_def)
  have "\<exists>a \<in> set actions. is_scope_opener (action a)" by (rule bexI [where x = l]) (rule op assms(2))+
  then obtain adj scopes h openers where
    sc: "to_adjacency actions = Inr adj" "assign_action_scopes actions adj = Inr (scopes, h, openers)"
      "validate_loop_scope_synchronization actions scopes h openers = Inr ()"
    by (rule validated_scopes [OF validate_structure_wf(5) [OF assms(1)]]) (rule that)
  have "distinct (map ref actions)" using validate_structure_wf(1) [OF assms(1)] by (simp add: wf_deps_def)
  from openers_of_assignment [OF sc(1) this sc(2) assms(2) op] assms(3)
  have "dict_get openers (ref l) = Some LOOP_START" by simp
  from loop_synchronized [OF sc(3) this] sc(1,2) show ?thesis by (intro exI conjI)
qed

theorem accepted_loops_synchronize_witness:
  "\<exists>e \<in> set loop_flow. action e = LOOP_END \<and>
     (\<forall>r sc. (r, sc) \<in> set (fst loop_scopes) \<longrightarrow> (sc, ''start'') \<in> (parent_rel (fst (snd loop_scopes)))\<^sup>* \<longrightarrow>
        (r, ref e) \<in> (success_edges loop_flow)\<^sup>*)"
proof -
  have "control ''start'' LOOP_START [] \<in> set loop_flow" "action (control ''start'' LOOP_START []) = LOOP_START"
    by (simp_all add: loop_flow_def control_def)
  from accepted_loops_synchronize [OF loop_flow_valid this] show ?thesis
  proof (elim exE conjE bexE, goal_cases)
    case (1 adj scopes h openers e)
    have "(scopes, h, openers) = loop_scopes"
      using 1(1,2) loop_flow_scopes(1,4) by simp
    then have "scopes = fst loop_scopes" "h = fst (snd loop_scopes)"
      by (metis fst_conv snd_conv)+
    with 1(3,4,7) show ?case by (intro bexI [where x = e]) (simp_all add: control_def step_def)
  qed
qed



section \<open>The constructor of the scheduler\<close>

lemma flat_step_returns:
  assumes "walk_inv actions s" and "distinct (map ref actions)" and "flat actions"
    and "\<And>r. dict_get_default adj r [] = succs_with (\<lambda>r _. r) actions r"
  shows "\<exists>s'. assign_loop actions adj s = Inr s'"
  using assms
proof (induction actions adj s rule: assign_loop.induct)
  case (1 actions adj s)
  show ?case
  proof (cases "sc_queue s")
    case Nil
    then show ?thesis by (simp add: assign_loop.simps [of actions adj s])
  next
    case (Cons rc q)
    obtain r cur where rc: "rc = (r, cur)" by (cases rc)
    let ?s = "s\<lparr>sc_queue := q\<rparr>"
    have r: "r \<in> ref ` set actions" "r \<notin> set (visited s)" using "1.prems"(1) Cons rc by (auto simp: walk_inv_def)
    then obtain st where st: "getitem (map (\<lambda>a. (ref a, a)) (rev actions)) r = Inr st" "st \<in> set actions"
      using lookup_stmt [OF "1.prems"(2)] by (metis imageE)
    from "1.prems"(3) st(2) have kind: "\<not> is_scope_opener (action st)" "\<not> is_scope_closer (action st)"
      by (auto simp: flat_def is_scope_opener_def is_scope_closer_def)
    have none: "dict_get (sc_scopes t) r = None" if "sc_scopes t = sc_scopes s" for t
      using r that by (simp add: dict_get_eq_None_iff)
    have rel: "raises_only (\<lambda>_. False) (release n ns t)"
      if "set ns \<subseteq> dom (dict_get (sc_indegrees t))" for n ns t
      using that by (induction n ns t rule: release.induct) (auto simp: subset_insertI2 split: option.splits)
    have "set (succs_with (\<lambda>r _. r) actions r) \<subseteq> dom (dict_get (sc_indegrees s))"
      using "1.prems"(1) by (auto simp: succs_with_def walk_inv_def)
    then have "raises_only (\<lambda>_. False) (scope_step actions adj r cur ?s)"
      unfolding scope_step_def st(1) rbind_simps "1.prems"(4)
      by (auto simp: enter_scope_def kind assign_scope_new none intro!: raises_only_bind rel)
    then obtain u where u: "scope_step actions adj r cur ?s = Inr u"
      by (cases "scope_step actions adj r cur ?s") auto
    have "walk_inv actions u" using walk_inv_step [OF "1.prems"(1) Cons [unfolded rc] u "1.prems"(2,4)] by simp
    from "1.IH" [OF Cons rc [symmetric] u this "1.prems"(2-4)] u Cons rc show ?thesis
      by (simp add: assign_loop.simps [of actions adj s])
  qed
qed

lemma adj_temp_returns: "wf_deps actions \<Longrightarrow> \<exists>d. adj_temp actions = Inr d"
proof -
  assume wf: "wf_deps actions"
  have "raises_only (\<lambda>_. False) (components dep)" if "a \<in> set actions" "dep \<in> set (depends_on a)" for a dep
    using wf that by (fastforce simp: wf_deps_def)
  then have "raises_only (\<lambda>_. False) (adj_temp actions)"
    unfolding adj_temp_def fold_result_nested
    by (intro raises_only_fold_result [where I = "\<lambda>_. True"])
      (auto intro!: raises_only_bind split: prod.splits)
  then show ?thesis by (cases "adj_temp actions") auto
qed

text \<open>
  C9. For an accepted definition without scatter and loops the constructor of the scheduler returns
  exactly when the dependencies have no cycle, and raises the cycle error otherwise. So acceptance
  does not imply that the workflow can be started: the validator looks for cycles only if there is a
  scatter or a loop.
\<close>

theorem accepted_starts_iff_acyclic:
  assumes "validate_structure actions = Inr ()" and "flat actions" and "1 \<le> mp"
  shows "if \<exists>vs. topological actions vs \<and> set vs = ref ` set actions
     then \<exists>c s. scheduler_init actions mp ctx ws ex = Inr (c, s)
     else scheduler_init actions mp ctx ws ex = Inl (Dsl CycleDetected)"
proof -
  note wf = validate_structure_wf(1) [OF assms(1)]
  then have d: "distinct (map ref actions)" by (simp add: wf_deps_def)
  from adjacency_returns [OF wf] obtain adj where adj: "to_adjacency actions = Inr adj"
    by (auto simp: to_adjacency_def)
  from adj_temp_returns [OF wf] obtain tmp where tmp: "adj_temp actions = Inr tmp" by blast
  from flat_step_returns [OF walk_inv_init [OF d] d assms(2) to_adjacency_succs [OF adj]] obtain s where
    s: "assign_loop actions adj (init_scopes actions) = Inr s" by blast
  have fold: "fold_result (build_region t sc h) as [] = Inr []" if "set as \<subseteq> set actions" for t sc h as
    using that assms(2) by (induction as) (auto simp: build_region_def flat_def)
  have regions: "build_loop_regions actions t sc h = Inr []" for t sc h
    unfolding build_loop_regions_def by (rule fold) simp
  show ?thesis
  proof (cases "sc_visited s = length actions")
    case True
    then have sc: "assign_action_scopes actions adj = Inr (sc_scopes s, sc_hierarchy s, sc_openers s)"
      by (simp add: assign_action_scopes_def s)
    from assign_action_scopes_topological [OF adj d sc]
    have "\<exists>vs. topological actions vs \<and> set vs = ref ` set actions" by blast
    with assms(3) show ?thesis by (simp add: scheduler_init_def tmp adj sc regions)
  next
    case False
    then have sc: "assign_action_scopes actions adj = Inl (Dsl CycleDetected)"
      by (simp add: assign_action_scopes_def s)
    from cycle_detected_no_order [OF adj d sc s]
    have "\<not> (\<exists>vs. topological actions vs \<and> set vs = ref ` set actions)" by blast
    with assms(3) show ?thesis by (simp add: scheduler_init_def tmp adj sc)
  qed
qed

theorem accepted_starts_iff_acyclic_witness:
  "validate_structure cyclic_flow = Inr () \<and>
   \<not> (\<exists>vs. topological cyclic_flow vs \<and> set vs = ref ` set cyclic_flow)"
proof -
  have raises: "scheduler_init cyclic_flow 4 empty_ctx None ''exec'' = Inl (Dsl CycleDetected)" by code_simp
  from accepted_starts_iff_acyclic [OF cyclic_flow_valid, of 4 empty_ctx None "''exec''"]
  show ?thesis unfolding raises using cyclic_flow_valid by (auto split: if_splits)
qed

end
