(* ===== verification/Sched_Theorems.thy ===== *)
theory Sched_Theorems
  imports Dsl_Theorems
begin

text \<open>
  The properties of the scheduler for arbitrary workflows: along every interleaving, and of single
  handlers.
\<close>

section \<open>Runs\<close>

abbreviation loop_cfg :: cfg where "loop_cfg \<equiv> fst (init_of loop_flow)"

text \<open>One iteration of the loop and the beginning of the second.\<close>

definition loop_events :: "event list" where
  "loop_events = [Starts 0, Answered 0 (AnsExec None None), MainWakes,
     Starts 0, Answered 0 (AnsExec None None), MainWakes,
     Starts 0, Answered 0 (AnsExpr (Inr (VBool True))), Answered 0 (AnsExec None None), MainWakes,
     Starts 0]"

definition loop_mid :: run where
  "loop_mid = the (run_events loop_cfg plain_coercions loop_events (start loop_cfg (snd (init_of loop_flow))))"

lemma loop_init: "snd (init_of loop_flow) = init_state loop_flow empty_ctx"
  by code_simp

lemma loop_run: "runs loop_cfg plain_coercions (start loop_cfg (init_state loop_flow empty_ctx)) loop_events loop_mid"
proof -
  have "run_events loop_cfg plain_coercions loop_events (start loop_cfg (snd (init_of loop_flow))) \<noteq> None"
    by code_simp
  then show ?thesis by (auto simp: runs_iff_run_events loop_mid_def loop_init)
qed

lemma loop_index_now: "dict_get (loop_indices (state loop_mid)) (''start'', ROOT_STREAM) = Some 1"
  by code_simp

text \<open>
  C4. Bounds. There are never more coroutines than \<open>max_pending_tasks\<close>, in any run of any workflow.
\<close>

theorem pending_tasks_bounded:
  assumes "runs c v (start c s) es r"
  shows "length (pending r) \<le> cfg_max_pending c"
  using assms by (rule runs_pending_cap)

theorem pending_tasks_bounded_witness: "length (pending loop_mid) \<le> 4"
proof -
  have "cfg_max_pending loop_cfg = 4" by code_simp
  with pending_tasks_bounded [OF loop_run] show ?thesis by simp
qed

lemma runs_continue: "runs c v r0 es r \<Longrightarrow> runs c v r0 (es @ es') r' \<Longrightarrow> runs c v r es' r'"
  by (simp add: runs_iff_run_events run_events_append)

lemma activated_none: "activated c r r' \<Longrightarrow> main r' = Returned None \<Longrightarrow> task_exceptions (state r') = []"
  unfolding activated_def by (elim disjE exE conjE) (simp_all add: stops_at_def)

lemma returned_none: "runs c v (start c s) es r \<Longrightarrow> main r = Returned None \<longrightarrow> task_exceptions (state r) = []"
proof (erule runs_invariant [where I = "\<lambda>r. main r = Returned None \<longrightarrow> task_exceptions (state r) = []"])
  show "main (start c s) = Returned None \<longrightarrow> task_exceptions (state (start c s)) = []"
    unfolding start_def by (intro impI activated_none [OF loop_top_effect])
next
  fix e r r' assume I: "main r = Returned None \<longrightarrow> task_exceptions (state r) = []"
    and ev: "event_step c v e r = Some r'"
  show "main r' = Returned None \<longrightarrow> task_exceptions (state r') = []"
  proof (cases e)
    case MainWakes
    with ev have "main_step c r = Some r'" by simp
    from main_step_effect [OF this] show ?thesis by (auto dest: activated_none)
  qed (use ev I in \<open>auto simp: put_coroutine_def split: if_splits coroutine.splits\<close>)
qed

text \<open>
  C5. A failure is never lost. Once an exception of the workflow is recorded, at every later moment
  there is one, and if \<open>start\<close> returns it does not return \<^const>\<open>None\<close>.
\<close>

theorem failure_is_reported:
  assumes "runs c v (start c (init_state actions ctx)) es r" and "task_exceptions (state r) \<noteq> []"
    and "runs c v (start c (init_state actions ctx)) (es @ es') r'"
  shows "task_exceptions (state r') \<noteq> [] \<and> main r' \<noteq> Returned None"
proof -
  have "failing.run_ok c v r"
    using nesting.holds_throughout(2) [OF assms(1) streams_ok_init] assms(2)
    by (auto simp: failing.run_ok_def)
  with runs_continue [OF assms(1,3)] have "failing.run_ok c v r'"
    by (rule runs_invariant) (rule failing.run_ok_step)
  then have "task_exceptions (state r') \<noteq> []" by (simp add: failing.run_ok_def)
  with returned_none [OF assms(3)] show ?thesis by blast
qed

definition failed_events :: "event list" where
  "failed_events = [Starts 0, Answered 0 (AnsExec None (Some TaskUnreachable))]"

definition failed_flow :: "stmt list" where
  "failed_flow = [step ''a'' [], step ''b'' [''a'']]"

definition failed_run :: run where
  "failed_run = the (run_events (fst (init_of failed_flow)) plain_coercions failed_events
     (start (fst (init_of failed_flow)) (init_state failed_flow empty_ctx)))"

theorem failure_is_reported_witness: "task_exceptions (state failed_run) \<noteq> [] \<and> main failed_run \<noteq> Returned None"
proof -
  have "run_events (fst (init_of failed_flow)) plain_coercions failed_events
     (start (fst (init_of failed_flow)) (init_state failed_flow empty_ctx)) \<noteq> None" by code_simp
  then have run: "runs (fst (init_of failed_flow)) plain_coercions
      (start (fst (init_of failed_flow)) (init_state failed_flow empty_ctx)) failed_events failed_run"
    by (auto simp: runs_iff_run_events failed_run_def)
  have exc: "task_exceptions (state failed_run) \<noteq> []" by code_simp
  show ?thesis by (rule failure_is_reported [OF run exc, of "[]"]) (simp add: run)
qed

text \<open>
  C6. In every state of every run, looking up the result of an action from a stream returns, and it
  returns the result of the nearest stream on the way to the root that has one, or nothing if none
  has.
\<close>

theorem action_result_is_nearest:
  assumes "runs c v (start c (init_state actions ctx)) es r"
  shows "\<exists>res. get_stream_aware_action_result (state r) x sid = Some res \<and>
     nearest_result (state r) x sid res"
  using nesting.holds_throughout(1) [OF assms streams_ok_init] by (rule action_result_nearest)

theorem action_result_is_nearest_witness:
  "\<exists>res. get_stream_aware_action_result (state loop_mid) ''start'' ROOT_STREAM = Some res \<and>
     nearest_result (state loop_mid) ''start'' ROOT_STREAM res"
  using loop_run by (rule action_result_is_nearest)

text \<open>
  C17. Bounds. In every state of every run the index of a loop is below the \<open>max_iterations\<close> of a
  loop end of that loop, and so below the cap of the platform.
\<close>

theorem loop_index_bounded:
  assumes "runs c v (start c (init_state actions ctx)) es r"
    and "dict_get (loop_indices (state r)) (x, sid) = Some i"
  shows "below_limit c v x i \<and> i < MAX_DO_WHILE_ITERATIONS"
proof -
  have "index_ok c v (init_state actions ctx)" by (simp add: index_ok_def init_state_def)
  from looping.holds_throughout(1) [OF assms(1) this] have ok: "index_ok c v (state r)" .
  moreover have "((x, sid), i) \<in> set (loop_indices (state r))" using assms(2) by (rule map_of_SomeD)
  ultimately have "below_limit c v x i" unfolding index_ok_def by fastforce
  with index_ok_bound [OF ok assms(2)] show ?thesis by simp
qed

theorem loop_index_bounded_witness: "below_limit loop_cfg plain_coercions ''start'' 1"
  using loop_index_bounded [OF loop_run loop_index_now] by simp



section \<open>Releasing the successors of a task\<close>

text \<open>
  C19. What \<open>_queue_tasks\<close> does, when every successor waits for at least the edges from the task:
  each outgoing edge is marked, skipped if it is listed as unreachable and visited otherwise, and no
  other edge changes; the indegree of each successor drops by the number of edges to it; and exactly
  the successors whose indegree reaches zero are queued behind the queue, each once.
\<close>

theorem queue_tasks_correct:
  assumes "\<forall>n \<in> set (dict_get_default (cfg_adj c) (task_ref t) []). \<exists>i.
      indegree c s (fst n, stream_id t) = Some i \<and>
      int (edges_to (dict_get_default (cfg_adj c) (task_ref t) []) (fst n)) \<le> i"
  shows "\<exists>es ind new. (let ns = dict_get_default (cfg_adj c) (task_ref t) [] in
     queue_tasks c t un s = (Inr (), s\<lparr>edges := es, indegrees := ind,
        queue := queue s @ map (successor t) new\<rparr>) \<and>
     (\<forall>e. dict_get_default es e PENDING =
        (if e \<in> out_edge t ` set ns then (if e \<in> set un then SKIPPED else VISITED) else edge_marker s e)) \<and>
     (\<forall>n \<in> set ns. dict_get ind (fst n, stream_id t) =
        map_option (\<lambda>i. i - int (edges_to ns (fst n))) (indegree c s (fst n, stream_id t))) \<and>
     distinct new \<and>
     set new = {r \<in> fst ` set ns. indegree c s (r, stream_id t) = Some (int (edges_to ns r))})"
proof (rule queue_tasks_effect [OF assms, of un], goal_cases)
  case (1 es ind new)
  show ?case unfolding Let_def using 1 by (intro exI [of _ es] exI [of _ ind] exI [of _ new]) simp
qed

theorem queue_tasks_correct_witness:
  "\<exists>new. set new = {r \<in> {''b'', ''c''}. indegree branch_cfg (snd (init_of branch_flow)) (r, ROOT_STREAM) = Some 1} \<and>
     queue (snd (queue_tasks branch_cfg (mk_task ''a'' ROOT_STREAM) [] (snd (init_of branch_flow)))) =
       map (successor (mk_task ''a'' ROOT_STREAM)) new"
proof -
  let ?t = "mk_task ''a'' ROOT_STREAM" and ?s = "snd (init_of branch_flow)"
  have ns: "dict_get_default (cfg_adj branch_cfg) (task_ref ?t) [] = [(''b'', SUCCESS), (''c'', ERROR)]" by code_simp
  have "\<forall>n \<in> set (dict_get_default (cfg_adj branch_cfg) (task_ref ?t) []). \<exists>i.
      indegree branch_cfg ?s (fst n, stream_id ?t) = Some i \<and>
      int (edges_to (dict_get_default (cfg_adj branch_cfg) (task_ref ?t) []) (fst n)) \<le> i"
  proof -
    have "indegree branch_cfg ?s (''b'', ROOT_STREAM) = Some 1" "indegree branch_cfg ?s (''c'', ROOT_STREAM) = Some 1"
      by code_simp+
    then show ?thesis unfolding ns by simp
  qed
  from queue_tasks_correct [OF this, of "[]"] show ?thesis
    unfolding Let_def ns
  proof (elim exE conjE, goal_cases)
    case (1 es ind new)
    have "queue ?s = []" by code_simp
    with 1(1) have "queue (snd (queue_tasks branch_cfg ?t [] ?s)) = map (successor ?t) new" by simp
    with 1(5) show ?case by (intro exI [of _ new]) auto
  qed
qed

end
