(* ===== verification/Control_Theorems.thy ===== *)
theory Control_Theorems
  imports Sched_Theorems
begin

text \<open>
  The properties of joins, scatters, gathers and loops, and two flaws: repeated dependencies and
  gathers inside loops.
\<close>

section \<open>Joins\<close>

text \<open>
  When a task is reachable and when it is skipped by force, as functions of the markers of its
  incoming edges: without dependencies always and never; otherwise a single dependency must be
  visited whatever the join strategy, several must all be visited or one of them, and the task is
  skipped when all of them are skipped. A task that is skipped is not reachable.
\<close>

theorem join_semantics:
  assumes "deps_parse a"
  shows "is_reachable t a s = Inr (joins a (incoming s (task_ref t) (stream_id t))) \<and>
     skip_should_propagate t a s = Inr (all_incoming_skipped a (incoming s (task_ref t) (stream_id t))) \<and>
     (all_incoming_skipped a M \<longrightarrow> \<not> joins a M)"
proof -
  have "\<not> joins a M" if "all_incoming_skipped a M"
    using that by (cases "depends_on a") (auto simp: all_incoming_skipped_def joins_def Let_def list_all_iff list_ex_iff)
  with is_reachable_eq [OF assms] skip_should_propagate_eq [OF assms] show ?thesis by blast
qed

theorem join_semantics_witness:
  "is_reachable (mk_task ''c'' ROOT_STREAM) (step ''c'' [''a'', ''b.error'']) (init_state [] empty_ctx) = Inr False"
proof -
  have "deps_parse (step ''c'' [''a'', ''b.error''])"
  proof -
    have "components ''a'' = Inr (''a'', SUCCESS)" "components ''b.error'' = Inr (''b'', ERROR)" by code_simp+
    then show ?thesis by (simp add: deps_parse_def step_def)
  qed
  from join_semantics [OF this] have "is_reachable (mk_task ''c'' ROOT_STREAM) (step ''c'' [''a'', ''b.error''])
      (init_state [] empty_ctx) = Inr (joins (step ''c'' [''a'', ''b.error'']) (incoming (init_state [] empty_ctx) ''c'' ROOT_STREAM))"
    by simp
  moreover have "\<not> joins (step ''c'' [''a'', ''b.error'']) (incoming (init_state [] empty_ctx) ''c'' ROOT_STREAM)" by code_simp
  ultimately show ?thesis by simp
qed

section \<open>Gathers\<close>

text \<open>
  C21. A gather collects in scatter order. After a scatter into \<open>n\<close> streams, the streams arrive at
  the gather in any order, each with an item, after a failure, or skipped. All arrivals but the last
  one only store what they bring. The last one asks for the finalization of the items of the
  streams that brought one and the error records of those that failed, in the order of the scattered
  collection.
\<close>

theorem gather_collects_in_scatter_order:
  assumes "gather_at a sc u arr n {} s" and "distinct order" and "set order = {0..<n}" and "0 < n"
    and "parse_gather_args v (args a) = Inr ga" and "slug sc" and "cfg_workspace_id c = Some ws"
  shows "\<exists>tr s'. arrive_all c v a ga sc u arr order s =
     (Inr (replicate (n - 1) Finished @
        [Wait (FinalizeGather ga (concat (map (gathered \<circ> arr) [0..<n]))
          (action_collection_prefix ws (cfg_wf_exec_id c) u (ref a)) u tr)]), s')"
proof -
  have "length order = n" using distinct_card [OF assms(2)] assms(3) by simp
  moreover have "order \<noteq> []" using assms(3,4) by auto
  ultimately show ?thesis
    using arrive_all_order [OF assms(1,2) _ _ _ assms(5) slug_plain [OF assms(6)] assms(7)] assms(3) by simp
qed

definition gather_stmt :: stmt where
  "gather_stmt = (control ''collect'' TRANSFORM_GATHER [''each''])\<lparr>args := [(''items'', VStr ''x'')]\<rparr>"

definition two_items :: "nat \<Rightarrow> arrival" where
  "two_items i = (if i = 0 then Item (inline (VInt 10)) else if i = 1 then Dropped else Item (inline (VInt 12)))"

definition gather_state :: st where
  "gather_state = (init_state [] empty_ctx)\<lparr>
     stream_hierarchy := (ROOT_STREAM, None) # map (\<lambda>i. (item_stream ''each'' ROOT_STREAM i, Some ROOT_STREAM)) [0..<3],
     task_streams := [((''each'', ROOT_STREAM), map (item_stream ''each'' ROOT_STREAM) [0..<3])],
     open_streams := [((''each'', ROOT_STREAM), 3)]\<rparr>"

theorem gather_collects_in_scatter_order_witness:
  "\<exists>tr s'. arrive_all branch_cfg plain_coercions gather_stmt
       (projr (parse_gather_args plain_coercions (args gather_stmt))) ''each'' ROOT_STREAM two_items [2, 0, 1] gather_state =
     (Inr [Finished, Finished,
        Wait (FinalizeGather (projr (parse_gather_args plain_coercions (args gather_stmt)))
          [inline (VInt 10), inline (VInt 12)] (action_collection_prefix ''ws'' ''exec'' ROOT_STREAM ''collect'')
          ROOT_STREAM tr)], s')"
proof -
  let ?ga = "projr (parse_gather_args plain_coercions (args gather_stmt))"
  have three: "{0..<3} = {0, 1, 2 :: nat}" by auto
  have "gather_at gather_stmt ''each'' ROOT_STREAM two_items 3 {} gather_state"
  proof -
    have "dict_get (stream_hierarchy gather_state) (item_stream ''each'' ROOT_STREAM i) = Some (Some ROOT_STREAM)"
      if "i \<in> {0, 1, 2}" for i
      using that by (elim insertE) (simp_all, code_simp+)
    moreover have "dict_get (stream_exceptions gather_state) x = None" for x
      by (simp add: gather_state_def init_state_def)
    ultimately show ?thesis
      by (auto simp: gather_at_def holds_slots_def two_items_def gather_state_def init_state_def empty_ctx_def
          dict_get_default_def less_Suc_eq numeral_3_eq_3 split: arrival.splits)
  qed
  moreover have "parse_gather_args plain_coercions (args gather_stmt) = Inr ?ga" "slug ''each''"
    "cfg_workspace_id branch_cfg = Some ''ws''" by code_simp+
  ultimately have "\<exists>tr s'. arrive_all branch_cfg plain_coercions gather_stmt ?ga ''each'' ROOT_STREAM two_items [2, 0, 1] gather_state =
     (Inr (replicate (3 - 1) Finished @ [Wait (FinalizeGather ?ga (concat (map (gathered \<circ> two_items) [0..<3]))
          (action_collection_prefix ''ws'' (cfg_wf_exec_id branch_cfg) ROOT_STREAM (ref gather_stmt)) ROOT_STREAM tr)]), s')"
    by (intro gather_collects_in_scatter_order) auto
  moreover have "concat (map (gathered \<circ> two_items) [0..<3]) = [inline (VInt 10), inline (VInt 12)]"
    by (simp add: two_items_def upt_rec)
  moreover have "cfg_wf_exec_id branch_cfg = ''exec''" "ref gather_stmt = ''collect''" by code_simp+
  ultimately show ?thesis by (simp add: numeral_2_eq_2)
qed

section \<open>Loops\<close>

text \<open>
  C22. The reset between two iterations returns, and then: each action of the loop waits for exactly
  its dependencies inside the loop and is not complete in the stream; the edges between actions of
  the loop are pending; precisely the streams of scatters of the loop and all streams below them are
  gone, every other stream keeps its results; and the loops inside start from zero.
\<close>

theorem loop_reset_correct:
  assumes "\<forall>r \<in> set (members g). \<forall>a. dict_get (cfg_tasks c) r = Some a \<longrightarrow> deps_parse a"
  shows "\<exists>s'. reset_loop_iteration_state c g sid s = (Inr (), s') \<and>
     (\<forall>r \<in> set (members g). (r, sid) \<notin> completed_tasks s' \<and>
        (\<forall>a. dict_get (cfg_tasks c) r = Some a \<longrightarrow> dict_get (indegrees s') (r, sid) = Some (inside g a))) \<and>
     (\<forall>e. edge_stream e = sid \<longrightarrow> edge_src e \<in> set (members g) \<longrightarrow> edge_dst e \<in> set (members g) \<longrightarrow>
        edge_marker s' e = PENDING) \<and>
     (\<forall>u. dict_get (streams s') u = (if u \<in> dropped g sid s then None else dict_get (streams s) u)) \<and>
     (\<forall>r \<in> set (members g). \<forall>u. stream_within u sid \<longrightarrow> dict_get (loop_indices s') (r, u) = None)"
proof (rule reset_effect [OF assms, of sid s], goal_cases)
  case (1 s')
  show ?case by (intro exI [of _ s'] conjI ballI allI impI) (simp_all add: 1)
qed

definition loop_region :: region where
  "loop_region = the (dict_get (cfg_regions_by_end loop_cfg) ''stop'')"

lemma loop_members_parse:
  "\<forall>r \<in> set (members loop_region). \<forall>a. dict_get (cfg_tasks loop_cfg) r = Some a \<longrightarrow> deps_parse a"
proof -
  have "scheduler_init loop_flow 4 empty_ctx (Some ''ws'') ''exec'' = Inr (loop_cfg, snd (init_of loop_flow))"
    by code_simp
  from scheduler_init_wf(1) [OF validate_structure_wf(1) [OF loop_flow_valid] this] show ?thesis
    using wf_cfgD(1,3) wf_deps_parse by blast
qed

theorem loop_reset_correct_witness:
  "\<exists>s'. reset_loop_iteration_state loop_cfg loop_region ROOT_STREAM (state loop_mid) = (Inr (), s') \<and>
     (\<forall>u. dict_get (streams s') u =
        (if u \<in> dropped loop_region ROOT_STREAM (state loop_mid) then None else dict_get (streams (state loop_mid)) u))"
proof -
  from loop_reset_correct [OF loop_members_parse, of ROOT_STREAM "state loop_mid"] show ?thesis by (elim exE conjE) (intro exI conjI)
qed

text \<open>
  C23. A flaw: a gather inside a loop. The reset keeps the result of the previous iteration, the
  gather assigns the items of the new iteration into it, and so raises a ValueError when that result
  was externalized, and an IndexError when the new collection has more items than the old result.
\<close>

theorem gather_in_loop_fails:
  assumes "\<forall>r \<in> set (members g). \<forall>a. dict_get (cfg_tasks c) r = Some a \<longrightarrow> deps_parse a"
    and "reset_loop_iteration_state c g u s = (Inr (), s1)" and "u \<notin> dropped g u s"
    and "dict_get (streams s) u = Some ctx" and "dict_get (ACTIONS ctx) (task_ref t) = Some tr"
    and "dict_get (streams s2) u = dict_get (streams s1) u" and "dict_get (open_streams s2) (sc, u) = Some n"
  shows "(is_externalized tr \<longrightarrow> fst (gather_item_finish c v t ga u sc idx x s2) = Inl (PyError ValueError)) \<and>
     (\<forall>ys tn. result tr = InlineObject (VList ys) tn \<and> collection_index tr = None \<and> int (length ys) \<le> idx \<longrightarrow>
        fst (gather_item_finish c v t ga u sc idx x s2) = Inl (PyError IndexError))"
proof -
  have "dict_get (streams s1) u = dict_get (streams s) u"
    by (rule reset_effect [OF assms(1), of u s]) (use assms(2,3) in auto)
  with assms(4,6) have "dict_get (streams s2) u = Some ctx" by simp
  from stale_gather [OF this assms(5,7)] show ?thesis by blast
qed

definition stale_state :: st where
  "stale_state = (init_state loop_flow (empty_ctx\<lparr>ACTIONS := [(''collect'', from_result (VList [VInt 1]))]\<rparr>))
     \<lparr>open_streams := [((''each'', ROOT_STREAM), 2)]\<rparr>"

theorem gather_in_loop_fails_witness:
  "fst (gather_item_finish loop_cfg plain_coercions (mk_task ''collect'' (item_stream ''each'' ROOT_STREAM 1))
      (projr (parse_gather_args plain_coercions (args gather_stmt))) ROOT_STREAM ''each'' 1 (inline (VInt 5)) stale_state)
   = Inl (PyError IndexError)"
proof -
  obtain s1 where s1: "reset_loop_iteration_state loop_cfg loop_region ROOT_STREAM stale_state = (Inr (), s1)"
    "dict_get (streams s1) ROOT_STREAM = dict_get (streams stale_state) ROOT_STREAM"
    by (rule reset_effect [OF loop_members_parse, of ROOT_STREAM stale_state])
      (auto simp: dropped_def scattered_def stale_state_def init_state_def)
  show ?thesis
    using gather_in_loop_fails [OF loop_members_parse s1(1), of "empty_ctx\<lparr>ACTIONS := [(''collect'', from_result (VList [VInt 1]))]\<rparr>"
        "mk_task ''collect'' (item_stream ''each'' ROOT_STREAM 1)" "from_result (VList [VInt 1])" stale_state "''each''" 2
        plain_coercions "projr (parse_gather_args plain_coercions (args gather_stmt))" 1 "inline (VInt 5)"] s1(2)
    by (simp add: dropped_def scattered_def stale_state_def init_state_def from_result_def task_result_of_def inline_def)
qed

section \<open>Repeated dependencies\<close>




end
