(* ===== verification/Storage_Collection.thy ===== *)
theory Storage_Collection
  imports Dsl_Types
begin

text \<open>
  Stored objects and collections (\<open>storage/object.py\<close>, \<open>storage/collection.py\<close>,
  \<open>storage/utils.py\<close>, \<open>storage/backends\<close>). A large value is serialized and uploaded, a
  large collection is split into chunks with a manifest that lists them; every reference carries a
  digest that is verified when the content is read back, possibly from a cache.

  The serializer, the hash function, and which entries the cache library drops are parameters. The
  object store maps a bucket and a key to the content last uploaded there. Contents are strings.
\<close>

section \<open>The environment and the state\<close>

type_synonym content = string

record env =
  dumps :: "pyval \<Rightarrow> py_error + content"
  loads :: "content \<Rightarrow> py_error + pyval"
  compute_sha256 :: "content \<Rightarrow> string"
  expire :: "(string, content) dict \<Rightarrow> (string, content) dict"
  evict :: "(string, content) dict \<Rightarrow> (string, content) dict"
  workflow_bucket :: string
  config_chunk_size :: int
  threshold_bytes :: int
  externalization_enabled :: bool

record store =
  blobs :: "(string \<times> string, content) dict"
  cache :: "(string, content) dict"

type_synonym 'a io = "store \<Rightarrow> (exn + 'a) \<times> store"

definition io_return :: "'a \<Rightarrow> 'a io" where
  "io_return x = (\<lambda>w. (Inr x, w))"

definition io_raise :: "exn \<Rightarrow> 'a io" where
  "io_raise e = (\<lambda>w. (Inl e, w))"

definition io_bind :: "'a io \<Rightarrow> ('a \<Rightarrow> 'b io) \<Rightarrow> 'b io" where
  "io_bind f g = (\<lambda>w. case f w of (Inl e, w') \<Rightarrow> (Inl e, w') | (Inr x, w') \<Rightarrow> g x w')"

definition io_lift :: "py_error + 'a \<Rightarrow> 'a io" where
  "io_lift r = (case r of Inl e \<Rightarrow> io_raise (PyError e) | Inr x \<Rightarrow> io_return x)"

fun io_map :: "('a \<Rightarrow> 'b io) \<Rightarrow> 'a list \<Rightarrow> 'b list io" where
  "io_map f [] = io_return []"
| "io_map f (x # xs) = io_bind (f x) (\<lambda>y. io_bind (io_map f xs) (\<lambda>ys. io_return (y # ys)))"

lemma io_simps [simp]:
  "io_bind (io_return x) g = g x" "io_bind (io_raise e) g = io_raise e"
  "io_lift (Inr x) = io_return x" "io_lift (Inl pe) = io_raise (PyError pe)"
  by (simp_all add: io_bind_def io_return_def io_raise_def io_lift_def)

lemma io_app: "io_return x w = (Inr x, w)" "io_raise e w = (Inl e, w)"
  by (simp_all add: io_return_def io_raise_def)

lemma io_bind_app: "f w = (Inr x, w') \<Longrightarrow> io_bind f g w = g x w'" "f w = (Inl e, w') \<Longrightarrow> io_bind f g w = (Inl e, w')"
  by (simp_all add: io_bind_def)

lemma io_return_eq: "io_return x w = (r, w') \<longleftrightarrow> r = Inr x \<and> w' = w"
  by (auto simp: io_return_def)

lemma io_bind_InrE:
  assumes "io_bind f g w = (Inr y, w')"
  obtains x w1 where "f w = (Inr x, w1)" "g x w1 = (Inr y, w')"
  using assms by (auto simp: io_bind_def split: prod.splits sum.splits)

section \<open>The object store and the cache\<close>

definition upload_file :: "content \<Rightarrow> string \<Rightarrow> string \<Rightarrow> unit io" where
  "upload_file c k b = (\<lambda>w. (Inr (), w\<lparr>blobs := dict_set (b, k) c (blobs w)\<rparr>))"

definition download_file :: "string \<Rightarrow> string \<Rightarrow> content io" where
  "download_file k b = (\<lambda>w.
     (case dict_get (blobs w) (b, k) of
        None \<Rightarrow> Inl (ForeignError ''FileNotFoundError'' k) | Some c \<Rightarrow> Inr c, w))"

definition MAX_CACHEABLE_BLOB_SIZE :: nat where
  "MAX_CACHEABLE_BLOB_SIZE = 50 * 1024 * 1024"

definition BLOB_CACHE_MAX_BYTES :: nat where
  "BLOB_CACHE_MAX_BYTES = 500 * 1024 * 1024"

text \<open>\<open>SizedMemoryCache\<close>: reading drops expired entries, writing drops entries to make room.\<close>

definition cache_get :: "env \<Rightarrow> string \<Rightarrow> content option io" where
  "cache_get v k = (\<lambda>w. (Inr (dict_get (expire v (cache w)) k), w\<lparr>cache := expire v (cache w)\<rparr>))"

definition cache_set :: "env \<Rightarrow> string \<Rightarrow> content \<Rightarrow> unit io" where
  "cache_set v k c = (\<lambda>w.
     (Inr (), w\<lparr>cache := (if length c > BLOB_CACHE_MAX_BYTES then expire v (cache w)
                         else evict v (dict_set k c (expire v (cache w))))\<rparr>))"

definition cached_blob_download :: "env \<Rightarrow> string \<Rightarrow> string \<Rightarrow> string \<Rightarrow> content io" where
  "cached_blob_download v sha b k =
     io_bind (cache_get v sha) (\<lambda>hit.
       case hit of
         Some c \<Rightarrow> io_return c
       | None \<Rightarrow>
           io_bind (download_file k b) (\<lambda>c.
           io_bind (if length c \<le> MAX_CACHEABLE_BLOB_SIZE then cache_set v sha c else io_return ()) (\<lambda>_.
             io_return c)))"

text \<open>The content a reference points to, verified against its digest.\<close>

definition fetch_verified :: "env \<Rightarrow> object_ref \<Rightarrow> content io" where
  "fetch_verified v r =
     io_bind (cached_blob_download v (sha256 r) (bucket r) (key r)) (\<lambda>c.
       if compute_sha256 v c \<noteq> sha256 r then io_raise (PyError ValueError) else io_return c)"

definition store_blob :: "env \<Rightarrow> string \<Rightarrow> string \<Rightarrow> pyval \<Rightarrow> object_ref io" where
  "store_blob v b k x =
     io_bind (io_lift (dumps v x)) (\<lambda>c.
     io_bind (upload_file c k b) (\<lambda>_.
       io_return (ObjectRef b k (int (length c)) (compute_sha256 v c))))"

section \<open>Manifests and chunks\<close>

definition kind_value :: "element_kind \<Rightarrow> string" where
  "kind_value ek = (case ek of ValueElements \<Rightarrow> ''value'' | StoredObjectElements \<Rightarrow> ''stored_object'')"

record manifest =
  mf_count :: int
  mf_chunk_size :: int
  mf_element_kind :: element_kind
  mf_chunks :: "object_ref list"

definition dump_ref :: "object_ref \<Rightarrow> pyval" where
  "dump_ref r = VDict [(''backend'', VStr ''s3''), (''bucket'', VStr (bucket r)), (''key'', VStr (key r)),
     (''size_bytes'', VInt (size_bytes r)), (''sha256'', VStr (sha256 r)),
     (''content_type'', VStr ''application/json''), (''encoding'', VStr ''json'')]"

definition dump_manifest :: "manifest \<Rightarrow> pyval" where
  "dump_manifest m = VDict [(''kind'', VStr ''tracecat.collection_manifest''), (''version'', VInt 1),
     (''count'', VInt (mf_count m)), (''chunk_size'', VInt (mf_chunk_size m)),
     (''element_kind'', VStr (kind_value (mf_element_kind m))),
     (''chunks'', VList (map dump_ref (mf_chunks m)))]"

definition dump_chunk :: "int \<Rightarrow> pyval list \<Rightarrow> pyval" where
  "dump_chunk start items = VDict [(''kind'', VStr ''tracecat.collection_chunk''), (''version'', VInt 1),
     (''start'', VInt start), (''items'', VList items)]"

text \<open>
  \<open>model_validate\<close>: the fields without a default must be there, with values of their types. The
  coercions of pydantic's lax mode (a string of digits for an integer) are not modelled: the
  documents read here are the ones the code wrote.
\<close>

definition str_field :: "(string, pyval) dict \<Rightarrow> string \<Rightarrow> py_error + string" where
  "str_field d k = (case dict_get d k of Some (VStr s) \<Rightarrow> Inr s | _ \<Rightarrow> Inl ValidationError)"

definition int_field :: "(string, pyval) dict \<Rightarrow> string \<Rightarrow> py_error + int" where
  "int_field d k = (case dict_get d k of Some (VInt i) \<Rightarrow> Inr i | _ \<Rightarrow> Inl ValidationError)"

definition list_field :: "(string, pyval) dict \<Rightarrow> string \<Rightarrow> py_error + pyval list" where
  "list_field d k = (case dict_get d k of Some (VList xs) \<Rightarrow> Inr xs | _ \<Rightarrow> Inl ValidationError)"

definition literal_field :: "(string, pyval) dict \<Rightarrow> string \<Rightarrow> string \<Rightarrow> py_error + unit" where
  "literal_field d k s =
     (case dict_get d k of None \<Rightarrow> Inr () | Some x \<Rightarrow> if x = VStr s then Inr () else Inl ValidationError)"

definition parse_kind :: "string \<Rightarrow> py_error + element_kind" where
  "parse_kind s = (if s = ''value'' then Inr ValueElements
     else if s = ''stored_object'' then Inr StoredObjectElements else Inl ValidationError)"

definition encoding_field :: "(string, pyval) dict \<Rightarrow> py_error + unit" where
  "encoding_field d =
     (case dict_get d ''encoding'' of None \<Rightarrow> Inr ()
      | Some x \<Rightarrow> if x \<in> {VStr ''json'', VStr ''json+zstd'', VStr ''json+gzip''} then Inr () else Inl ValidationError)"

fun parse_ref :: "pyval \<Rightarrow> py_error + object_ref" where
  "parse_ref (VDict d) =
     rbind (literal_field d ''backend'' ''s3'') (\<lambda>_.
     rbind (encoding_field d) (\<lambda>_.
     rbind (str_field d ''bucket'') (\<lambda>b.
     rbind (str_field d ''key'') (\<lambda>k.
     rbind (int_field d ''size_bytes'') (\<lambda>n.
     rbind (str_field d ''sha256'') (\<lambda>h. Inr (ObjectRef b k n h)))))))"
| "parse_ref _ = Inl ValidationError"

fun parse_manifest :: "pyval \<Rightarrow> py_error + manifest" where
  "parse_manifest (VDict d) =
     rbind (literal_field d ''kind'' ''tracecat.collection_manifest'') (\<lambda>_.
     rbind (int_field d ''count'') (\<lambda>n.
     rbind (int_field d ''chunk_size'') (\<lambda>k.
     rbind (rbind (str_field d ''element_kind'') parse_kind) (\<lambda>ek.
     rbind (rbind (list_field d ''chunks'') (map_result parse_ref)) (\<lambda>cs.
       Inr \<lparr>mf_count = n, mf_chunk_size = k, mf_element_kind = ek, mf_chunks = cs\<rparr>)))))"
| "parse_manifest _ = Inl ValidationError"

fun parse_chunk :: "pyval \<Rightarrow> py_error + (int \<times> pyval list)" where
  "parse_chunk (VDict d) =
     rbind (literal_field d ''kind'' ''tracecat.collection_chunk'') (\<lambda>_.
     rbind (int_field d ''start'') (\<lambda>i.
     rbind (list_field d ''items'') (\<lambda>xs. Inr (i, xs))))"
| "parse_chunk _ = Inl ValidationError"

lemma parse_dump_ref [simp]: "parse_ref (dump_ref r) = Inr r"
  by (cases r) (simp add: dump_ref_def str_field_def int_field_def literal_field_def encoding_field_def)

lemma map_parse_dump_ref [simp]: "map_result parse_ref (map dump_ref rs) = Inr rs"
  by (induction rs) simp_all

lemma parse_dump_manifest [simp]: "parse_manifest (dump_manifest m) = Inr m"
  by (cases "mf_element_kind m")
    (simp_all add: dump_manifest_def str_field_def int_field_def list_field_def literal_field_def parse_kind_def
      kind_value_def)

lemma parse_dump_chunk [simp]: "parse_chunk (dump_chunk i xs) = Inr (i, xs)"
  by (simp add: dump_chunk_def int_field_def list_field_def literal_field_def)

section \<open>Handles as documents\<close>

text \<open>
  \<open>stored.model_dump()\<close> and \<open>StoredObjectValidator.validate_python\<close>: the \<open>type\<close> field selects
  the class, an absent \<open>typename\<close> is filled in by the class's validator.
\<close>

definition opt_str :: "string option \<Rightarrow> pyval" where
  "opt_str s = (case s of None \<Rightarrow> VNone | Some t \<Rightarrow> VStr t)"

definition opt_int :: "int option \<Rightarrow> pyval" where
  "opt_int i = (case i of None \<Rightarrow> VNone | Some j \<Rightarrow> VInt j)"

fun dump_stored :: "stored \<Rightarrow> pyval" where
  "dump_stored (InlineObject x tn) =
     VDict [(''typename'', VStr tn), (''type'', VStr ''inline''), (''data'', x)]"
| "dump_stored (ExternalObject r tn) =
     VDict [(''typename'', opt_str tn), (''type'', VStr ''external''), (''ref'', dump_ref r)]"
| "dump_stored (CollectionObject r count chunk_size ek sv ix tn) =
     VDict [(''typename'', VStr tn), (''type'', VStr ''collection''), (''manifest_ref'', dump_ref r),
       (''count'', VInt count), (''chunk_size'', VInt chunk_size), (''element_kind'', VStr (kind_value ek)),
       (''schema_version'', VInt sv), (''index'', opt_int ix)]"

definition typename_field :: "(string, pyval) dict \<Rightarrow> py_error + string option" where
  "typename_field d = (case dict_get d ''typename'' of
     None \<Rightarrow> Inr None | Some VNone \<Rightarrow> Inr None | Some (VStr s) \<Rightarrow> Inr (Some s) | _ \<Rightarrow> Inl ValidationError)"

definition index_field :: "(string, pyval) dict \<Rightarrow> py_error + int option" where
  "index_field d = (case dict_get d ''index'' of
     None \<Rightarrow> Inr None | Some VNone \<Rightarrow> Inr None | Some (VInt i) \<Rightarrow> Inr (Some i) | _ \<Rightarrow> Inl ValidationError)"

definition any_field :: "(string, pyval) dict \<Rightarrow> string \<Rightarrow> py_error + pyval" where
  "any_field d k = (case dict_get d k of None \<Rightarrow> Inl ValidationError | Some x \<Rightarrow> Inr x)"

definition or_default :: "'a option \<Rightarrow> 'a \<Rightarrow> 'a" where
  "or_default x y = (case x of None \<Rightarrow> y | Some z \<Rightarrow> z)"

definition parse_inline :: "(string, pyval) dict \<Rightarrow> py_error + stored" where
  "parse_inline d =
     rbind (typename_field d) (\<lambda>tn.
     rbind (any_field d ''data'') (\<lambda>x. Inr (InlineObject x (or_default tn (type_name x)))))"

definition parse_external :: "(string, pyval) dict \<Rightarrow> py_error + stored" where
  "parse_external d =
     rbind (typename_field d) (\<lambda>tn.
     rbind (rbind (any_field d ''ref'') parse_ref) (\<lambda>r. Inr (ExternalObject r tn)))"

definition parse_collection :: "(string, pyval) dict \<Rightarrow> py_error + stored" where
  "parse_collection d =
     rbind (typename_field d) (\<lambda>tn.
     rbind (rbind (any_field d ''manifest_ref'') parse_ref) (\<lambda>r.
     rbind (int_field d ''count'') (\<lambda>n.
     rbind (int_field d ''chunk_size'') (\<lambda>k.
     rbind (rbind (str_field d ''element_kind'') parse_kind) (\<lambda>ek.
     rbind (case dict_get d ''schema_version'' of None \<Rightarrow> Inr 1 | Some _ \<Rightarrow> int_field d ''schema_version'') (\<lambda>sv.
     rbind (index_field d) (\<lambda>ix.
       Inr (CollectionObject r n k ek sv ix (or_default tn ''list'')))))))))"

fun parse_stored :: "pyval \<Rightarrow> py_error + stored" where
  "parse_stored (VStored st) = Inr st"
| "parse_stored (VDict d) =
     (if dict_get d ''type'' = Some (VStr ''inline'') then parse_inline d
      else if dict_get d ''type'' = Some (VStr ''external'') then parse_external d
      else if dict_get d ''type'' = Some (VStr ''collection'') then parse_collection d
      else Inl ValidationError)"
| "parse_stored _ = Inl ValidationError"

lemma parse_dump_stored [simp]: "parse_stored (dump_stored st) = Inr st"
proof (cases st)
  case (InlineObject x tn)
  then show ?thesis by (simp add: parse_inline_def typename_field_def any_field_def or_default_def)
next
  case (ExternalObject r tn)
  then show ?thesis
    by (cases tn) (simp_all add: parse_external_def typename_field_def any_field_def opt_str_def)
next
  case (CollectionObject r n k ek sv ix tn)
  then show ?thesis
    by (cases ek; cases ix)
      (simp_all add: parse_collection_def typename_field_def any_field_def int_field_def str_field_def
        index_field_def parse_kind_def kind_value_def opt_int_def or_default_def)
qed

section \<open>Storing a collection\<close>

text \<open>
  \<open>math.ceil(count / chunk_size)\<close>, exact as long as the quotient of the floats is, and Python's
  slice, where a negative bound counts from the end.
\<close>

definition ZeroDivisionError :: exn where
  "ZeroDivisionError = ForeignError ''ZeroDivisionError'' []"

definition num_chunks :: "int \<Rightarrow> int \<Rightarrow> int" where
  "num_chunks count chunk_size = (if count > 0 then - ((- count) div chunk_size) else 1)"

definition slice_bound :: "pyval list \<Rightarrow> int \<Rightarrow> nat" where
  "slice_bound xs i = nat (if i < 0 then i + int (length xs) else i)"

definition slice :: "pyval list \<Rightarrow> int \<Rightarrow> int \<Rightarrow> pyval list" where
  "slice xs i j = take (slice_bound xs j - slice_bound xs i) (drop (slice_bound xs i) xs)"

definition chunk_key :: "string \<Rightarrow> int \<Rightarrow> string" where
  "chunk_key pre i = pre @ ''/chunks/'' @ show_int i @ ''.json''"

definition manifest_key :: "string \<Rightarrow> string" where
  "manifest_key pre = pre @ ''/manifest.json''"

definition store_chunk :: "env \<Rightarrow> string \<Rightarrow> string \<Rightarrow> pyval list \<Rightarrow> int \<Rightarrow> int \<Rightarrow> object_ref io" where
  "store_chunk v b pre items chunk_size i =
     (let start = i * chunk_size; stop = min (start + chunk_size) (int (length items)) in
      store_blob v b (chunk_key pre i) (dump_chunk start (slice items start stop)))"

definition py_or :: "int option \<Rightarrow> int \<Rightarrow> int" where
  "py_or x d = (case x of None \<Rightarrow> d | Some i \<Rightarrow> if i = 0 then d else i)"

definition store_collection ::
  "env \<Rightarrow> string \<Rightarrow> pyval list \<Rightarrow> element_kind \<Rightarrow> int option \<Rightarrow> stored io" where
  "store_collection v pre items ek chunk_size_arg =
     (let chunk_size = py_or chunk_size_arg (config_chunk_size v); b = workflow_bucket v;
          count = int (length items) in
      if count > 0 \<and> chunk_size = 0 then io_raise ZeroDivisionError else
      io_bind (io_map (store_chunk v b pre items chunk_size) [0..num_chunks count chunk_size - 1]) (\<lambda>refs.
      io_bind (store_blob v b (manifest_key pre)
          (dump_manifest \<lparr>mf_count = count, mf_chunk_size = chunk_size, mf_element_kind = ek, mf_chunks = refs\<rparr>)) (\<lambda>r.
        io_return (CollectionObject r count chunk_size ek 1 None ''list''))))"

section \<open>Reading a collection\<close>

definition fetch_manifest :: "env \<Rightarrow> object_ref \<Rightarrow> manifest io" where
  "fetch_manifest v r =
     io_bind (fetch_verified v r) (\<lambda>c. io_bind (io_lift (loads v c)) (\<lambda>x. io_lift (parse_manifest x)))"

definition fetch_chunk :: "env \<Rightarrow> object_ref \<Rightarrow> (int \<times> pyval list) io" where
  "fetch_chunk v r =
     io_bind (fetch_verified v r) (\<lambda>c. io_bind (io_lift (loads v c)) (\<lambda>x. io_lift (parse_chunk x)))"

definition fetch_chunk_item :: "env \<Rightarrow> object_ref \<Rightarrow> int \<Rightarrow> pyval io" where
  "fetch_chunk_item v r i =
     io_bind (fetch_chunk v r) (\<lambda>(_, xs).
       if i < 0 \<or> i \<ge> int (length xs) then io_raise (PyError IndexError) else io_return (xs ! nat i))"

definition page_of_chunk ::
  "env \<Rightarrow> manifest \<Rightarrow> int \<Rightarrow> int \<Rightarrow> int \<Rightarrow> int \<Rightarrow> pyval list io" where
  "page_of_chunk v m chunk_size offset stop i =
     io_bind (io_lift (py_nth (mf_chunks m) i)) (\<lambda>r.
     io_bind (fetch_chunk v r) (\<lambda>(_, xs).
       let start = i * chunk_size in
       io_return (slice xs (max 0 (offset - start)) (min (int (length xs)) (stop - start)))))"

definition get_collection_page ::
  "env \<Rightarrow> object_ref \<Rightarrow> int \<Rightarrow> int \<Rightarrow> int \<Rightarrow> int option \<Rightarrow> pyval list io" where
  "get_collection_page v manifest_ref count chunk_size offset limit =
     (if offset < 0 then io_raise (PyError ValueError)
      else if offset \<ge> count then io_return []
      else if limit = Some 0 then io_return []
      else
        (let lim = (case limit of None \<Rightarrow> count - offset | Some l \<Rightarrow> l); stop = min (offset + lim) count in
         io_bind (fetch_manifest v manifest_ref) (\<lambda>m.
         if chunk_size = 0 then io_raise ZeroDivisionError else
         io_bind (io_map (page_of_chunk v m chunk_size offset stop)
             [offset div chunk_size..(stop - 1) div chunk_size]) (\<lambda>pages.
           io_return (concat pages)))))"

text \<open>
  \<open>retrieve_stored_object\<close>, \<open>get_collection_item\<close> and \<open>materialize_collection_values\<close> call
  each other, through the elements of a collection of stored objects, so the latter two take the
  former as an argument. The nesting of handles bounds the calls; fuel stands for it, and running out
  of it is a RecursionError. The references of the model name the one backend there is, which is why
  \<open>get_object_storage_for\<close> always selects it.
\<close>

definition NoReturnIO :: exn where
  "NoReturnIO = ForeignError ''RecursionError'' []"

definition retrieve_external :: "env \<Rightarrow> object_ref \<Rightarrow> pyval io" where
  "retrieve_external v r = io_bind (fetch_verified v r) (\<lambda>c. io_lift (loads v c))"

definition get_collection_item ::
  "env \<Rightarrow> (stored \<Rightarrow> pyval io) \<Rightarrow> object_ref \<Rightarrow> int \<Rightarrow> int \<Rightarrow> element_kind \<Rightarrow> int \<Rightarrow> pyval io" where
  "get_collection_item v retrieve manifest_ref count chunk_size ek i =
     (let j = (if i < 0 then count + i else i) in
      if j < 0 \<or> j \<ge> count then io_raise (PyError IndexError)
      else
        io_bind (fetch_manifest v manifest_ref) (\<lambda>m.
        if chunk_size = 0 then io_raise ZeroDivisionError else
        io_bind (io_lift (py_nth (mf_chunks m) (j div chunk_size))) (\<lambda>r.
        io_bind (fetch_chunk_item v r (j mod chunk_size)) (\<lambda>x.
          if ek = ValueElements then io_return x
          else io_bind (io_lift (parse_stored x)) retrieve))))"

definition materialize_collection_values ::
  "env \<Rightarrow> (stored \<Rightarrow> pyval io) \<Rightarrow> object_ref \<Rightarrow> int \<Rightarrow> int \<Rightarrow> element_kind \<Rightarrow> int \<Rightarrow> int option \<Rightarrow> pyval list io" where
  "materialize_collection_values v retrieve manifest_ref count chunk_size ek offset limit =
     io_bind (get_collection_page v manifest_ref count chunk_size offset limit) (\<lambda>xs.
       if ek = ValueElements then io_return xs
       else io_map (\<lambda>x. io_bind (io_lift (parse_stored x)) retrieve) xs)"

fun retrieve_stored_object :: "nat \<Rightarrow> env \<Rightarrow> stored \<Rightarrow> pyval io" where
  "retrieve_stored_object 0 v st = io_raise NoReturnIO"
| "retrieve_stored_object (Suc n) v (InlineObject x tn) = io_return x"
| "retrieve_stored_object (Suc n) v (ExternalObject r tn) = retrieve_external v r"
| "retrieve_stored_object (Suc n) v (CollectionObject r count chunk_size ek sv ix tn) =
     (case ix of
        Some i \<Rightarrow> get_collection_item v (retrieve_stored_object n v) r count chunk_size ek i
      | None \<Rightarrow> io_bind (materialize_collection_values v (retrieve_stored_object n v) r count chunk_size ek 0 None)
          (\<lambda>xs. io_return (VList xs)))"

section \<open>The storage backend\<close>

definition s3_store :: "env \<Rightarrow> string \<Rightarrow> pyval \<Rightarrow> stored io" where
  "s3_store v k x =
     io_bind (io_lift (dumps v x)) (\<lambda>c.
       if int (length c) \<le> threshold_bytes v then io_return (inline x)
       else
         (let sha = compute_sha256 v c in
          io_bind (upload_file c k (workflow_bucket v)) (\<lambda>_.
            io_return (ExternalObject (ObjectRef (workflow_bucket v) k (int (length c)) sha) (Some (type_name x))))))"

definition inline_store :: "string \<Rightarrow> pyval \<Rightarrow> stored io" where
  "inline_store k x = io_return (inline x)"

text \<open>\<open>S3ObjectStorage.retrieve\<close> makes the same distinction as \<open>retrieve_stored_object\<close>.\<close>

definition s3_retrieve :: "nat \<Rightarrow> env \<Rightarrow> stored \<Rightarrow> pyval io" where
  "s3_retrieve n v st = retrieve_stored_object n v st"

fun inline_retrieve :: "stored \<Rightarrow> pyval io" where
  "inline_retrieve (InlineObject x tn) = io_return x"
| "inline_retrieve st = io_raise (ForeignError ''NotImplementedError'' [])"

text \<open>\<open>get_object_storage\<close> selects the backend by the configuration.\<close>

definition storage_store :: "env \<Rightarrow> string \<Rightarrow> pyval \<Rightarrow> stored io" where
  "storage_store v k x = (if externalization_enabled v then s3_store v k x else inline_store k x)"

definition storage_retrieve :: "nat \<Rightarrow> env \<Rightarrow> stored \<Rightarrow> pyval io" where
  "storage_retrieve n v st = (if externalization_enabled v then s3_retrieve n v st else inline_retrieve st)"

definition resolve_to_inline :: "nat \<Rightarrow> env \<Rightarrow> stored \<Rightarrow> stored io" where
  "resolve_to_inline n v st =
     (case st of InlineObject x tn \<Rightarrow> io_return st
      | _ \<Rightarrow> io_bind (retrieve_stored_object n v st) (\<lambda>x. io_return (inline x)))"

end
