(* ===== verification/Storage_Laws.thy ===== *)
theory Storage_Laws
  imports Storage_Collection
begin

text \<open>
  What the storage relies on from the libraries it calls, and what follows for the operations:
  reading what was stored, for single values, pages and items of collections.
\<close>

section \<open>The laws of the libraries\<close>

text \<open>
  Values that survive serialization: no stored objects or error records inside, and no key twice in
  a dictionary. Floats are left out because a value of the model need not be one of Python's.
\<close>

fun storable :: "pyval \<Rightarrow> bool" where
  "storable VNone = True"
| "storable (VBool b) = True"
| "storable (VInt i) = True"
| "storable (VStr s) = True"
| "storable (VList xs) = list_all storable xs"
| "storable (VDict d) = (distinct (map fst d) \<and> list_all (\<lambda>(k, x). storable x) d)"
| "storable _ = False"

text \<open>
  Reading back what the serializer wrote, if it wrote it (it raises for integers beyond 64 bits); the
  cache library only ever drops entries; no two contents have one digest.
\<close>

definition codec_ok :: "env \<Rightarrow> bool" where
  "codec_ok v \<longleftrightarrow> (\<forall>x c. storable x \<longrightarrow> dumps v x = Inr c \<longrightarrow> loads v c = Inr x)"

definition cache_lib_ok :: "env \<Rightarrow> bool" where
  "cache_lib_ok v \<longleftrightarrow> (\<forall>c. map_of (expire v c) \<subseteq>\<^sub>m map_of c \<and> map_of (evict v c) \<subseteq>\<^sub>m map_of c)"

definition hash_ok :: "env \<Rightarrow> bool" where
  "hash_ok v \<longleftrightarrow> inj (compute_sha256 v)"

text \<open>A cache whose entries have the digests they are filed under.\<close>

definition honest :: "env \<Rightarrow> store \<Rightarrow> bool" where
  "honest v w \<longleftrightarrow> (\<forall>k c. dict_get (cache w) k = Some c \<longrightarrow> compute_sha256 v c = k)"

definition holds_blob :: "env \<Rightarrow> store \<Rightarrow> object_ref \<Rightarrow> pyval \<Rightarrow> bool" where
  "holds_blob v w r x \<longleftrightarrow> storable x \<and> (\<exists>c. dumps v x = Inr c \<and>
     dict_get (blobs w) (bucket r, key r) = Some c \<and> sha256 r = compute_sha256 v c)"

section \<open>Reading leaves the store alone\<close>

definition yields :: "env \<Rightarrow> store \<Rightarrow> 'a io \<Rightarrow> 'a \<Rightarrow> bool" where
  "yields v w f x \<longleftrightarrow> (\<exists>w'. f w = (Inr x, w') \<and> blobs w' = blobs w \<and> honest v w')"

lemma yields_return: "honest v w \<Longrightarrow> yields v w (io_return x) x"
  by (simp add: yields_def io_app)

lemma yields_bind:
  assumes "yields v w f x"
    and "\<And>w'. blobs w' = blobs w \<Longrightarrow> honest v w' \<Longrightarrow> yields v w' (g x) y"
  shows "yields v w (io_bind f g) y"
proof -
  from assms(1) obtain w' where w': "f w = (Inr x, w')" "blobs w' = blobs w" "honest v w'"
    by (auto simp: yields_def)
  from assms(2) [OF w'(2,3)] w' show ?thesis by (auto simp: yields_def io_bind_def)
qed

lemma yields_map:
  assumes "honest v w"
    and "\<And>x w'. x \<in> set xs \<Longrightarrow> blobs w' = blobs w \<Longrightarrow> honest v w' \<Longrightarrow> yields v w' (f x) (g x)"
  shows "yields v w (io_map f xs) (map g xs)"
  using assms
proof (induction xs arbitrary: w)
  case Nil
  then show ?case by (simp add: yields_return)
next
  case (Cons x xs)
  show ?case
    unfolding io_map.simps list.map
  proof (rule yields_bind [where x = "g x"], goal_cases)
    case 1
    show ?case by (rule Cons.prems(2)) (simp_all add: Cons.prems(1))
  next
    case (2 w')
    show ?case
      by (rule yields_bind [OF Cons.IH yields_return]) (use 2 Cons.prems(2) in auto)
  qed
qed

text \<open>The same for values that depend on more than the argument.\<close>

definition always :: "env \<Rightarrow> store \<Rightarrow> 'a io \<Rightarrow> 'a \<Rightarrow> bool" where
  "always v w f x \<longleftrightarrow> (\<forall>u. blobs u = blobs w \<longrightarrow> honest v u \<longrightarrow> yields v u f x)"

lemma alwaysI: "(\<And>u. blobs u = blobs w \<Longrightarrow> honest v u \<Longrightarrow> yields v u f x) \<Longrightarrow> always v w f x"
  by (simp add: always_def)

lemma alwaysD: "always v w f x \<Longrightarrow> blobs u = blobs w \<Longrightarrow> honest v u \<Longrightarrow> yields v u f x"
  by (simp add: always_def)

lemma always_cong: "blobs u = blobs w \<Longrightarrow> always v u f x = always v w f x"
  by (simp add: always_def)

lemma yields_map2:
  assumes "list_all2 (\<lambda>x. always v w (f x)) xs ys" and "blobs u = blobs w" "honest v u"
  shows "yields v u (io_map f xs) ys"
  using assms
proof (induction arbitrary: u rule: list_all2_induct)
  case Nil
  then show ?case by (simp add: yields_return)
next
  case (Cons x xs y ys)
  show ?case
    unfolding io_map.simps
  proof (rule yields_bind [OF alwaysD [OF Cons.hyps(1) Cons.prems]], goal_cases)
    case (1 u')
    show ?case by (rule yields_bind [OF Cons.IH yields_return]) (use 1 Cons.prems in auto)
  qed
qed

lemma honest_sub:
  assumes "honest v w" and "map_of c \<subseteq>\<^sub>m map_of (cache w)"
  shows "honest v (w\<lparr>cache := c\<rparr>)"
  using assms by (auto simp: honest_def map_le_def) (metis domI)

lemma yields_cache_get:
  "cache_lib_ok v \<Longrightarrow> honest v w \<Longrightarrow> yields v w (cache_get v k) (dict_get (expire v (cache w)) k)"
  by (simp add: yields_def cache_get_def honest_sub cache_lib_ok_def)

lemma yields_cache_set:
  assumes lib: "cache_lib_ok v" and h: "honest v w" and k: "compute_sha256 v c = k"
  shows "yields v w (cache_set v k c) ()"
proof -
  let ?e = "expire v (cache w)"
  have e: "honest v (w\<lparr>cache := ?e\<rparr>)" using lib h by (simp add: honest_sub cache_lib_ok_def)
  then have "honest v (w\<lparr>cache := dict_set k c ?e\<rparr>)" using k by (auto simp: honest_def)
  moreover have "map_of (evict v (dict_set k c ?e)) \<subseteq>\<^sub>m map_of (dict_set k c ?e)"
    using lib unfolding cache_lib_ok_def by blast
  ultimately have "honest v (w\<lparr>cache := evict v (dict_set k c ?e)\<rparr>)"
    using honest_sub [of v "w\<lparr>cache := dict_set k c ?e\<rparr>"] by simp
  with e show ?thesis by (simp add: yields_def cache_set_def)
qed

lemma yields_download:
  "honest v w \<Longrightarrow> dict_get (blobs w) (b, k) = Some c \<Longrightarrow> yields v w (download_file k b) c"
  by (simp add: yields_def download_file_def)

lemma fetch_verified_yields:
  assumes lib: "cache_lib_ok v" and hash: "hash_ok v" and h: "honest v w"
    and bl: "dict_get (blobs w) (bucket r, key r) = Some d" "sha256 r = compute_sha256 v d"
  shows "yields v w (fetch_verified v r) d"
proof -
  let ?hit = "dict_get (expire v (cache w)) (sha256 r)"
  have "honest v (w\<lparr>cache := expire v (cache w)\<rparr>)" using lib h by (simp add: honest_sub cache_lib_ok_def)
  then have hit: "c = d" if "?hit = Some c" for c
    using that hash bl(2) by (auto simp: honest_def hash_ok_def dest: injD)
  have "yields v w (cached_blob_download v (sha256 r) (bucket r) (key r)) d"
    unfolding cached_blob_download_def
  proof (rule yields_bind [OF yields_cache_get [OF lib h]], goal_cases)
    case (1 w')
    show ?case
    proof (cases ?hit)
      case (Some c)
      with hit 1 show ?thesis by (simp add: yields_return)
    next
      case None
      have "yields v w' (io_bind (download_file (key r) (bucket r)) (\<lambda>c.
          io_bind (if length c \<le> MAX_CACHEABLE_BLOB_SIZE then cache_set v (sha256 r) c else io_return ())
            (\<lambda>_. io_return c))) d"
      proof (rule yields_bind [OF yields_download [where c = d]], goal_cases)
        case (3 w'')
        show ?case
          by (rule yields_bind [of _ _ _ "()"])
            (use 3 in \<open>simp_all add: yields_cache_set lib bl(2) yields_return\<close>)
      qed (use 1 bl in simp_all)
      with None show ?thesis by simp
    qed
  qed
  then show ?thesis
    unfolding fetch_verified_def by (rule yields_bind) (simp add: bl(2) yields_return)
qed

lemma fetch_parsed:
  assumes "cache_lib_ok v" "hash_ok v" "codec_ok v" "honest v w" "holds_blob v w r x"
  shows "parse_manifest x = Inr m \<Longrightarrow> yields v w (fetch_manifest v r) m"
    and "parse_chunk x = Inr p \<Longrightarrow> yields v w (fetch_chunk v r) p"
    and "yields v w (retrieve_external v r) x"
proof -
  from assms(5) obtain c where c: "dumps v x = Inr c" "storable x"
    "dict_get (blobs w) (bucket r, key r) = Some c" "sha256 r = compute_sha256 v c"
    by (auto simp: holds_blob_def)
  then have l: "loads v c = Inr x" using assms(3) by (simp add: codec_ok_def)
  note f = yields_bind [OF fetch_verified_yields [OF assms(1,2,4) c(3,4)]]
  show "parse_manifest x = Inr m \<Longrightarrow> yields v w (fetch_manifest v r) m"
    "parse_chunk x = Inr p \<Longrightarrow> yields v w (fetch_chunk v r) p"
    "yields v w (retrieve_external v r) x"
    unfolding fetch_manifest_def fetch_chunk_def retrieve_external_def
    by (rule f; simp add: l yields_return)+
qed

section \<open>Slices\<close>

definition chunk_of :: "pyval list \<Rightarrow> int \<Rightarrow> int \<Rightarrow> pyval list" where
  "chunk_of xs k i = slice xs (i * k) (min (i * k + k) (int (length xs)))"

text \<open>With bounds that are not negative a slice is a segment between two natural numbers.\<close>

definition segment :: "'a list \<Rightarrow> nat \<Rightarrow> nat \<Rightarrow> 'a list" where
  "segment xs a b = take (b - a) (drop a xs)"

lemma slice_segment: "0 \<le> i \<Longrightarrow> 0 \<le> j \<Longrightarrow> slice xs i j = segment xs (nat i) (nat j)"
  by (simp add: slice_def slice_bound_def segment_def)

lemma segment_append:
  assumes "a \<le> b" "b \<le> c"
  shows "segment xs a b @ segment xs b c = segment xs a c"
proof -
  have "c - a = (b - a) + (c - b)" using assms by simp
  then have "segment xs a c = take (b - a) (drop a xs) @ take (c - b) (drop (b - a) (drop a xs))"
    unfolding segment_def by (simp only: take_add)
  also have "drop (b - a) (drop a xs) = drop b xs" using assms by simp
  finally show ?thesis by (simp add: segment_def)
qed

lemma segment_segment: "segment (segment xs a b) c d = segment xs (a + c) (min b (a + d))"
proof -
  have "min (d - c) (b - a - c) = min b (a + d) - (a + c)" by linarith
  then show ?thesis by (simp only: segment_def drop_take take_take drop_drop add.commute)
qed

lemma length_segment: "b \<le> length xs \<Longrightarrow> length (segment xs a b) = b - a"
  by (simp add: segment_def)

lemma segment_empty: "b \<le> a \<Longrightarrow> segment xs a b = []"
  by (simp add: segment_def)

lemma segment_full: "segment xs 0 (length xs) = xs"
  by (simp add: segment_def)

lemma nth_segment: "a + i < b \<Longrightarrow> b \<le> length xs \<Longrightarrow> segment xs a b ! i = xs ! (a + i)"
  by (simp add: segment_def)

end
