(* ===== verification/Storage_Rounds.thy ===== *)
theory Storage_Rounds
  imports Storage_Laws
begin

text \<open>
  Storing and reading back: what \<open>store_collection\<close> leaves in the object store, and that pages,
  items and whole collections read from it are the elements that were stored.
\<close>

section \<open>What storing leaves behind\<close>

text \<open>A step of the io monad that raised or did nothing but set blobs outside the given keys.\<close>

lemma store_blob_cases:
  assumes "store_blob v b k x w = (Inr r, w')"
  obtains c where "dumps v x = Inr c" "r = ObjectRef b k (int (length c)) (compute_sha256 v c)"
    "w' = w\<lparr>blobs := dict_set (b, k) c (blobs w)\<rparr>"
  using assms
  by (cases "dumps v x") (simp_all add: store_blob_def io_bind_def upload_file_def io_app)

lemma store_blob_holds:
  assumes "store_blob v b k x w = (Inr r, w')" and "storable x"
  shows "holds_blob v w' r x"
  using assms by (elim store_blob_cases) (simp add: holds_blob_def)

lemma store_blob_keeps:
  assumes "store_blob v b k x w = (Inr r, w')" and "holds_blob v w s y" and "key s \<noteq> k"
  shows "holds_blob v w' s y"
  using assms by (elim store_blob_cases) (auto simp: holds_blob_def)

lemma store_blob_key: "store_blob v b k x w = (Inr r, w') \<Longrightarrow> key r = k"
  by (elim store_blob_cases) simp

lemma store_blob_cache: "store_blob v b k x w = (Inr r, w') \<Longrightarrow> cache w' = cache w"
  by (elim store_blob_cases) simp

lemma show_int_inj: "0 \<le> i \<Longrightarrow> 0 \<le> j \<Longrightarrow> show_int i = show_int j \<longleftrightarrow> i = j"
  unfolding show_int_def by (metis digits_value_show_nat eq_nat_nat_iff not_le option.inject)

lemma chunk_key_inj: "0 \<le> i \<Longrightarrow> 0 \<le> j \<Longrightarrow> chunk_key pre i = chunk_key pre j \<longleftrightarrow> i = j"
  by (simp add: chunk_key_def show_int_inj)

lemma chunk_manifest_key: "chunk_key pre i \<noteq> manifest_key pre"
  by (simp add: chunk_key_def manifest_key_def)

text \<open>The chunks are stored one after the other and none overwrites another.\<close>

lemma store_chunks:
  assumes "io_map (store_chunk v b pre xs k) is w = (Inr rs, w')"
    and "list_all storable xs" and "distinct is" and "\<forall>i\<in>set is. 0 \<le> i"
  shows "list_all2 (\<lambda>i r. holds_blob v w' r (dump_chunk (i * k) (chunk_of xs k i)) \<and> key r = chunk_key pre i) is rs
    \<and> cache w' = cache w \<and>
    (\<forall>s y. holds_blob v w s y \<longrightarrow> key s \<notin> chunk_key pre ` set is \<longrightarrow> holds_blob v w' s y)"
  using assms
proof (induction "is" arbitrary: w rs)
  case Nil
  then show ?case by (simp add: io_app)
next
  case (Cons i "is")
  let ?x = "dump_chunk (i * k) (chunk_of xs k i)"
  have c: "store_chunk v b pre xs k i = store_blob v b (chunk_key pre i) ?x"
    by (simp add: store_chunk_def chunk_of_def Let_def)
  from Cons.prems(1) obtain r w1 rs' where
    r: "store_blob v b (chunk_key pre i) ?x w = (Inr r, w1)" and
    rs: "io_map (store_chunk v b pre xs k) is w1 = (Inr rs', w')" "rs = r # rs'"
    by (auto simp: c io_bind_def io_app split: prod.splits sum.splits)
  have "storable ?x"
    using Cons.prems(2) by (auto simp: dump_chunk_def chunk_of_def slice_def list_all_iff dest!: in_set_takeD in_set_dropD)
  with r have h: "holds_blob v w1 r ?x" "key r = chunk_key pre i"
    by (simp_all add: store_blob_holds store_blob_key)
  have IH: "list_all2 (\<lambda>i r. holds_blob v w' r (dump_chunk (i * k) (chunk_of xs k i)) \<and> key r = chunk_key pre i) is rs'"
    "cache w' = cache w1"
    "\<And>s y. holds_blob v w1 s y \<Longrightarrow> key s \<notin> chunk_key pre ` set is \<Longrightarrow> holds_blob v w' s y"
    using Cons.IH [OF rs(1)] Cons.prems by simp_all
  have "chunk_key pre i \<notin> chunk_key pre ` set is" using Cons.prems(3,4) by (auto simp: chunk_key_inj)
  with IH(3) h have "holds_blob v w' r ?x" by simp
  moreover have "holds_blob v w' s y" if "holds_blob v w s y" "key s \<notin> chunk_key pre ` set (i # is)" for s y
    using IH(3) store_blob_keeps [OF r that(1)] that(2) by simp
  ultimately show ?case using IH(1,2) h(2) rs(2) store_blob_cache [OF r] by simp
qed

text \<open>A collection in the store: a manifest and its chunks.\<close>

definition holds_collection :: "env \<Rightarrow> store \<Rightarrow> object_ref \<Rightarrow> pyval list \<Rightarrow> int \<Rightarrow> element_kind \<Rightarrow> bool" where
  "holds_collection v w r xs k ek \<longleftrightarrow> (\<exists>rs.
     holds_blob v w r (dump_manifest \<lparr>mf_count = int (length xs), mf_chunk_size = k, mf_element_kind = ek, mf_chunks = rs\<rparr>) \<and>
     int (length rs) = num_chunks (int (length xs)) k \<and>
     (\<forall>i < length rs. holds_blob v w (rs ! i) (dump_chunk (int i * k) (chunk_of xs k (int i)))))"

lemma storable_manifest: "storable (dump_manifest m)"
  by (auto simp: dump_manifest_def dump_ref_def list_all_iff)

lemma num_chunks_pos:
  assumes "0 < k"
  shows "0 < num_chunks (int n) k" and "int n \<le> num_chunks (int n) k * k"
proof -
  have "int n \<le> - ((- int n) div k) * k"
    using assms pos_mod_sign [of k "- int n"] by (simp add: minus_mult_div_eq_mod [symmetric] algebra_simps)
  then show "int n \<le> num_chunks (int n) k * k" using assms by (auto simp: num_chunks_def)
  have "(- int n) div k < 0" if "0 < n" using that assms by (simp add: pos_imp_zdiv_neg_iff)
  then show "0 < num_chunks (int n) k" by (auto simp: num_chunks_def)
qed

lemma store_collection_holds:
  assumes run: "store_collection v pre xs ek ca w = (Inr h, w')"
    and st: "list_all storable xs" and k: "k = py_or ca (config_chunk_size v)" "0 < k"
  shows "\<exists>r. h = CollectionObject r (int (length xs)) k ek 1 None ''list'' \<and>
    holds_collection v w' r xs k ek \<and> cache w' = cache w \<and>
    (\<forall>s y. holds_blob v w s y \<longrightarrow> key s \<notin> range (chunk_key pre) \<longrightarrow> key s \<noteq> manifest_key pre \<longrightarrow> holds_blob v w' s y)"
proof -
  let ?n = "num_chunks (int (length xs)) k"
  let ?m = "\<lambda>rs. \<lparr>mf_count = int (length xs), mf_chunk_size = k, mf_element_kind = ek, mf_chunks = rs\<rparr>"
  from run k(2) obtain rs w1 r where
    rs: "io_map (store_chunk v (workflow_bucket v) pre xs k) [0..?n - 1] w = (Inr rs, w1)" and
    r: "store_blob v (workflow_bucket v) (manifest_key pre) (dump_manifest (?m rs)) w1 = (Inr r, w')" and
    h: "h = CollectionObject r (int (length xs)) k ek 1 None ''list''"
    unfolding store_collection_def k(1) [symmetric]
    by (auto simp: Let_def io_bind_def io_app split: prod.splits sum.splits if_splits)
  have c: "list_all2 (\<lambda>i r. holds_blob v w1 r (dump_chunk (i * k) (chunk_of xs k i)) \<and> key r = chunk_key pre i) [0..?n - 1] rs"
    "cache w1 = cache w"
    "\<And>s y. holds_blob v w s y \<Longrightarrow> key s \<notin> chunk_key pre ` set [0..?n - 1] \<Longrightarrow> holds_blob v w1 s y"
    using store_chunks [OF rs st] by simp_all
  have len: "int (length rs) = ?n"
    using list_all2_lengthD [OF c(1)] num_chunks_pos(1) [OF k(2), of "length xs"] by simp
  have "holds_blob v w' (rs ! i) (dump_chunk (int i * k) (chunk_of xs k (int i)))" if "i < length rs" for i
  proof -
    have "[0..?n - 1] ! i = int i" using that len by (simp add: nth_upto)
    then show ?thesis
      using list_all2_nthD2 [OF c(1) that] store_blob_keeps [OF r] chunk_manifest_key by simp
  qed
  moreover have "holds_blob v w' r (dump_manifest (?m rs))" by (rule store_blob_holds [OF r storable_manifest])
  moreover have "holds_blob v w' s y"
    if "holds_blob v w s y" "key s \<notin> range (chunk_key pre)" "key s \<noteq> manifest_key pre" for s y
    using c(3) [OF that(1)] that(2,3) store_blob_keeps [OF r] by blast
  ultimately show ?thesis
    using h len c(2) store_blob_cache [OF r] unfolding holds_collection_def by auto
qed

section \<open>Reading pages and items\<close>

text \<open>The pages cut from consecutive chunks join up.\<close>

lemma concat_segments:
  assumes "\<And>i. B i \<le> B (i + 1 :: int)" and "p \<le> q + 1"
  shows "concat (map (\<lambda>i. segment xs (nat (B i)) (nat (B (i + 1)))) [p..q]) = segment xs (nat (B p)) (nat (B (q + 1)))"
proof -
  have up: "B i \<le> B j" if "i \<le> j" for i j
    using that
  proof (induction j rule: int_ge_induct)
    case (step j)
    from step.IH assms(1) [of j] show ?case by simp
  qed simp
  from assms(2) have "p - 1 \<le> q" by simp
  then show ?thesis
  proof (induction q rule: int_ge_induct)
    case base
    then show ?case by (simp add: segment_empty)
  next
    case (step j)
    have "[p..j + 1] = [p..j] @ [j + 1]" using step.hyps by (simp add: upto_rec2)
    moreover have "nat (B p) \<le> nat (B (j + 1))" "nat (B (j + 1)) \<le> nat (B (j + 1 + 1))"
      using up step.hyps by (simp_all add: nat_mono)
    ultimately show ?case using step.IH by (simp add: segment_append)
  qed
qed

lemma chunk_of_segment:
  assumes "0 \<le> i" "0 < k" "i * k \<le> int (length xs)"
  shows "chunk_of xs k i = segment xs (nat (i * k)) (nat (min (i * k + k) (int (length xs))))"
    and "int (length (chunk_of xs k i)) = min k (int (length xs) - i * k)"
proof -
  have ik: "0 \<le> i * k" using assms by simp
  show c: "chunk_of xs k i = segment xs (nat (i * k)) (nat (min (i * k + k) (int (length xs))))"
    unfolding chunk_of_def using ik assms(2) by (intro slice_segment) simp_all
  have "nat (min (i * k + k) (int (length xs))) \<le> length xs" by simp
  then show "int (length (chunk_of xs k i)) = min k (int (length xs) - i * k)"
    unfolding c using ik assms(2,3) by (simp add: length_segment of_nat_diff nat_le_eq_zle)
qed

text \<open>The part of a page that lies in one chunk.\<close>

lemma page_part:
  assumes i: "0 \<le> i" "0 < k" "i * k < stop" and off: "0 \<le> off" and stop: "stop \<le> int (length xs)"
  shows "slice (chunk_of xs k i) (max 0 (off - i * k)) (min (int (length (chunk_of xs k i))) (stop - i * k)) =
    segment xs (nat (max off (i * k))) (nat (min stop (i * k + k)))"
proof -
  let ?c = "chunk_of xs k i" and ?s = "i * k"
  have s: "0 \<le> ?s" "?s \<le> int (length xs)" using i stop by simp_all
  note c = chunk_of_segment [OF i(1,2) s(2)]
  define a b where "a = max 0 (off - ?s)" and "b = min (int (length ?c)) (stop - ?s)"
  have ab: "0 \<le> a" "0 \<le> b" unfolding a_def b_def using i(3) by simp_all
  have "slice ?c a b = segment ?c (nat a) (nat b)" by (rule slice_segment [OF ab])
  also have "\<dots> = segment xs (nat ?s + nat a) (min (nat (min (?s + k) (int (length xs)))) (nat ?s + nat b))"
    unfolding c(1) by (rule segment_segment)
  also have "nat ?s + nat a = nat (max off ?s)"
    using s ab by (simp add: nat_add_distrib [symmetric] a_def max_def)
  also have "min (nat (min (?s + k) (int (length xs)))) (nat ?s + nat b) = nat (min stop (?s + k))"
  proof -
    have "nat ?s + nat b = nat (?s + b)" using s(1) ab(2) by (simp add: nat_add_distrib)
    moreover have "min (min (?s + k) (int (length xs))) (?s + b) = min stop (?s + k)"
      unfolding b_def c(2) using stop by linarith
    ultimately show ?thesis by (metis nat_mono min_of_mono monoI)
  qed
  finally show ?thesis unfolding a_def b_def .
qed

text \<open>The pages of the chunks make the page of the collection, also when the limit is negative.\<close>

lemma page_pieces:
  assumes k: "0 < k" and off: "0 \<le> off" "off < int (length xs)" and stop: "stop \<le> int (length xs)"
  shows "concat (map (\<lambda>i. segment xs (nat (max off (i * k))) (nat (min stop (i * k + k))))
      [off div k..(stop - 1) div k]) = segment xs (nat off) (nat stop)"
proof (cases "stop \<le> off")
  case True
  then have "segment xs (nat (max off (i * k))) (nat (min stop (i * k + k))) = []" for i
    by (intro segment_empty nat_mono) simp
  with True show ?thesis by (simp add: segment_empty nat_mono)
next
  case False
  define B where "B i = max off (min stop (i * k))" for i
  let ?p = "off div k" and ?q = "(stop - 1) div k"
  have lo: "?p * k \<le> off" "off < (?p + 1) * k" and hi: "?q * k \<le> stop - 1" "stop - 1 < (?q + 1) * k"
    using k pos_mod_bound [OF k, of off] pos_mod_sign [OF k, of off]
      pos_mod_bound [OF k, of "stop - 1"] pos_mod_sign [OF k, of "stop - 1"]
    by (simp_all add: minus_mult_div_eq_mod [symmetric] algebra_simps)
  have pq: "?p \<le> ?q" using k False by (intro zdiv_mono1) simp_all
  have piece: "max off (i * k) = B i" "min stop (i * k + k) = B (i + 1)" if "i \<in> set [?p..?q]" for i
  proof -
    have "i * k \<le> ?q * k" "(?p + 1) * k \<le> (i + 1) * k" using that k by (simp_all only: set_upto) (simp_all add: mult_right_mono)
    then have "i * k \<le> stop - 1" "off < (i + 1) * k" using lo hi by linarith+
    moreover have "(i + 1) * k = i * k + k" by (simp add: algebra_simps)
    ultimately show "max off (i * k) = B i" "min stop (i * k + k) = B (i + 1)"
      using False unfolding B_def by linarith+
  qed
  have "concat (map (\<lambda>i. segment xs (nat (max off (i * k))) (nat (min stop (i * k + k)))) [?p..?q]) =
    concat (map (\<lambda>i. segment xs (nat (B i)) (nat (B (i + 1)))) [?p..?q])"
    using piece by (intro arg_cong [of _ _ concat] map_cong) simp_all
  also have "\<dots> = segment xs (nat (B ?p)) (nat (B (?q + 1)))"
  proof (rule concat_segments)
    have "(i + 1) * k = i * k + k" for i by (simp add: algebra_simps)
    with k show "B i \<le> B (i + 1)" for i by (simp add: B_def)
    show "?p \<le> ?q + 1" using pq by simp
  qed
  also have "B ?p = off" using lo False by (simp add: B_def)
  also have "B (?q + 1) = stop" using hi False by (simp add: B_def)
  finally show ?thesis .
qed

text \<open>A store from which the collection can be read.\<close>

definition libs_ok :: "env \<Rightarrow> bool" where
  "libs_ok v \<longleftrightarrow> cache_lib_ok v \<and> hash_ok v \<and> codec_ok v"

definition serves :: "env \<Rightarrow> store \<Rightarrow> object_ref \<Rightarrow> pyval list \<Rightarrow> int \<Rightarrow> element_kind \<Rightarrow> bool" where
  "serves v w r xs k ek \<longleftrightarrow> libs_ok v \<and> honest v w \<and> holds_collection v w r xs k ek \<and> 0 < k"

lemma holds_blob_cong: "blobs u = blobs w \<Longrightarrow> holds_blob v u s x = holds_blob v w s x"
  by (simp add: holds_blob_def)

lemma serves_step: "serves v w r xs k ek \<Longrightarrow> blobs u = blobs w \<Longrightarrow> honest v u \<Longrightarrow> serves v u r xs k ek"
  by (simp add: serves_def holds_collection_def holds_blob_def)

lemma read_manifest:
  assumes "serves v w r xs k ek"
  obtains m where "int (length (mf_chunks m)) = num_chunks (int (length xs)) k"
    "yields v w (fetch_manifest v r) m"
    "\<And>u i. blobs u = blobs w \<Longrightarrow> honest v u \<Longrightarrow> i < length (mf_chunks m) \<Longrightarrow>
      yields v u (fetch_chunk v (mf_chunks m ! i)) (int i * k, chunk_of xs k (int i))"
proof -
  from assms obtain rs where rs:
    "holds_blob v w r (dump_manifest \<lparr>mf_count = int (length xs), mf_chunk_size = k, mf_element_kind = ek, mf_chunks = rs\<rparr>)"
    "int (length rs) = num_chunks (int (length xs)) k"
    "\<And>i. i < length rs \<Longrightarrow> holds_blob v w (rs ! i) (dump_chunk (int i * k) (chunk_of xs k (int i)))"
    and ok: "cache_lib_ok v" "hash_ok v" "codec_ok v" "honest v w"
    unfolding serves_def libs_ok_def holds_collection_def by auto
  show thesis
  proof (rule that [of "\<lparr>mf_count = int (length xs), mf_chunk_size = k, mf_element_kind = ek, mf_chunks = rs\<rparr>"])
    show "yields v w (fetch_manifest v r) \<lparr>mf_count = int (length xs), mf_chunk_size = k, mf_element_kind = ek, mf_chunks = rs\<rparr>"
      by (rule fetch_parsed(1) [OF ok rs(1)]) simp
    show "yields v u (fetch_chunk v (mf_chunks \<lparr>mf_count = int (length xs), mf_chunk_size = k, mf_element_kind = ek, mf_chunks = rs\<rparr> ! i))
        (int i * k, chunk_of xs k (int i))"
      if "blobs u = blobs w" "honest v u"
        "i < length (mf_chunks \<lparr>mf_count = int (length xs), mf_chunk_size = k, mf_element_kind = ek, mf_chunks = rs\<rparr>)" for u i
    proof -
      have "holds_blob v u (rs ! i) (dump_chunk (int i * k) (chunk_of xs k (int i)))"
        using that rs(3) by (simp add: holds_blob_cong [OF that(1)])
      from fetch_parsed(2) [OF ok(1-3) that(2) this parse_dump_chunk] show ?thesis by simp
    qed
  qed (use rs(2) in simp)
qed

lemma chunk_index:
  assumes "int (length cs) = num_chunks (int (length xs)) k" "0 \<le> i" "i * k < int (length xs)" "0 < k"
  shows "nat i < length cs" "py_nth cs i = Inr (cs ! nat i)"
proof -
  have "i * k < num_chunks (int (length xs)) k * k"
    using assms(3) num_chunks_pos(2) [OF assms(4), of "length xs"] by linarith
  then have "i < num_chunks (int (length xs)) k" using assms(4) by simp
  then show "nat i < length cs" using assms(1,2) by simp
  then show "py_nth cs i = Inr (cs ! nat i)"
    using assms(2) py_index_nat [of "nat i" "length cs"] by (simp add: py_nth_def)
qed

lemma page_yields:
  assumes sv: "serves v w r xs k ek" and off: "0 \<le> off"
  shows "yields v w (get_collection_page v r (int (length xs)) k off limit)
    (segment xs (nat off) (nat (case limit of None \<Rightarrow> int (length xs) | Some l \<Rightarrow> min (off + l) (int (length xs)))))"
proof (cases "int (length xs) \<le> off \<or> limit = Some 0")
  case True
  have "segment xs (nat off) (nat (case limit of None \<Rightarrow> int (length xs) | Some l \<Rightarrow> min (off + l) (int (length xs)))) = []"
    using True by (intro segment_empty) (auto split: option.splits)
  with True sv off show ?thesis by (auto simp: get_collection_page_def yields_return serves_def)
next
  case False
  define stop where "stop = (case limit of None \<Rightarrow> int (length xs) | Some l \<Rightarrow> min (off + l) (int (length xs)))"
  have st: "min (off + (case limit of None \<Rightarrow> int (length xs) - off | Some l \<Rightarrow> l)) (int (length xs)) = stop"
    by (simp add: stop_def split: option.splits)
  have stop: "stop \<le> int (length xs)" by (simp add: stop_def split: option.splits)
  from sv have k: "0 < k" and h: "honest v w" by (simp_all add: serves_def)
  obtain m where m: "int (length (mf_chunks m)) = num_chunks (int (length xs)) k" "yields v w (fetch_manifest v r) m"
    "\<And>u i. blobs u = blobs w \<Longrightarrow> honest v u \<Longrightarrow> i < length (mf_chunks m) \<Longrightarrow>
      yields v u (fetch_chunk v (mf_chunks m ! i)) (int i * k, chunk_of xs k (int i))"
    by (rule read_manifest [OF sv]) blast
  let ?g = "\<lambda>i. segment xs (nat (max off (i * k))) (nat (min stop (i * k + k)))"
  have part: "yields v u (page_of_chunk v m k off stop i) (?g i)"
    if i: "i \<in> set [off div k..(stop - 1) div k]" and u: "blobs u = blobs w" "honest v u" for i u
  proof -
    have "0 \<le> off div k" using off k by (simp add: pos_imp_zdiv_nonneg_iff)
    then have i0: "0 \<le> i" using i by simp
    have "i * k \<le> (stop - 1) div k * k" using i k by simp
    also have "\<dots> \<le> stop - 1" using k pos_mod_sign [of k "stop - 1"] by (simp add: minus_mult_div_eq_mod [symmetric] algebra_simps)
    finally have lt: "i * k < stop" by simp
    have "i * k < int (length xs)" using lt stop by simp
    note ci = chunk_index [OF m(1) i0 this k]
    have "yields v u (fetch_chunk v (mf_chunks m ! nat i)) (i * k, chunk_of xs k i)"
      using m(3) [OF u ci(1)] i0 by simp
    then have "yields v u (io_bind (fetch_chunk v (mf_chunks m ! nat i)) (\<lambda>(_, ys).
        let start = i * k in io_return (slice ys (max 0 (off - start)) (min (int (length ys)) (stop - start))))) (?g i)"
      by (rule yields_bind) (simp add: Let_def page_part [OF i0 k lt off stop] yields_return)
    then show ?thesis by (simp add: page_of_chunk_def ci(2))
  qed
  have "yields v w (io_bind (fetch_manifest v r) (\<lambda>m. if k = 0 then io_raise ZeroDivisionError else
      io_bind (io_map (page_of_chunk v m k off stop) [off div k..(stop - 1) div k]) (\<lambda>pages. io_return (concat pages))))
    (segment xs (nat off) (nat stop))"
  proof (rule yields_bind [OF m(2)], goal_cases)
    case (1 u)
    have "yields v u (io_map (page_of_chunk v m k off stop) [off div k..(stop - 1) div k])
        (map ?g [off div k..(stop - 1) div k])"
      by (rule yields_map) (use 1 part in simp_all)
    then have "yields v u (io_bind (io_map (page_of_chunk v m k off stop) [off div k..(stop - 1) div k])
        (\<lambda>pages. io_return (concat pages))) (segment xs (nat off) (nat stop))"
      by (rule yields_bind)
        (use False off k stop in \<open>simp add: yields_return page_pieces\<close>)
    with k show ?case by simp
  qed
  then show ?thesis
    using False off unfolding get_collection_page_def Let_def stop_def [symmetric] st by simp
qed

text \<open>The item at a position, and what it stands for in a collection of handles.\<close>

definition element_ok :: "env \<Rightarrow> store \<Rightarrow> (stored \<Rightarrow> pyval io) \<Rightarrow> element_kind \<Rightarrow> pyval \<Rightarrow> pyval \<Rightarrow> bool" where
  "element_ok v w retrieve ek x y \<longleftrightarrow>
     (if ek = ValueElements then y = x
      else always v w (io_bind (io_lift (parse_stored x)) retrieve) y)"

lemma item_in_chunk:
  assumes "0 < k" "0 \<le> j" "j < int (length xs)"
  shows "j mod k < int (length (chunk_of xs k (j div k)))"
    and "chunk_of xs k (j div k) ! nat (j mod k) = xs ! nat j"
    and "0 \<le> j div k" and "j div k * k \<le> j"
proof -
  have d: "j = j div k * k + j mod k" by simp
  have m: "0 \<le> j mod k" "j mod k < k" using assms(1) by simp_all
  show i0: "0 \<le> j div k" using assms by (simp add: pos_imp_zdiv_nonneg_iff)
  show le: "j div k * k \<le> j" using d m by linarith
  note c = chunk_of_segment [OF i0 assms(1), of xs]
  show l: "j mod k < int (length (chunk_of xs k (j div k)))"
    using c(2) le assms(3) d m by linarith
  have nn: "0 \<le> j div k * k" using i0 assms(1) by simp
  let ?b = "nat (min (j div k * k + k) (int (length xs)))"
  have "nat (j div k * k) + nat (j mod k) = nat j" using d nn m by (metis nat_add_distrib)
  moreover have "nat j < ?b"
  proof -
    have "j < min (j div k * k + k) (int (length xs))" using d m assms(3) by linarith
    then show ?thesis using assms(2) by linarith
  qed
  ultimately show "chunk_of xs k (j div k) ! nat (j mod k) = xs ! nat j"
    using c(1) le assms(3) nth_segment [of "nat (j div k * k)" "nat (j mod k)" ?b xs] by simp
qed

lemma fetch_item:
  assumes sv: "serves v w r xs k ek" and j: "0 \<le> j" "j < int (length xs)"
  obtains m where "yields v w (fetch_manifest v r) m"
    "\<And>u. blobs u = blobs w \<Longrightarrow> honest v u \<Longrightarrow>
      yields v u (io_bind (io_lift (py_nth (mf_chunks m) (j div k))) (\<lambda>r. fetch_chunk_item v r (j mod k))) (xs ! nat j)"
proof -
  from sv have k: "0 < k" by (simp add: serves_def)
  obtain m where m: "int (length (mf_chunks m)) = num_chunks (int (length xs)) k" "yields v w (fetch_manifest v r) m"
    "\<And>u i. blobs u = blobs w \<Longrightarrow> honest v u \<Longrightarrow> i < length (mf_chunks m) \<Longrightarrow>
      yields v u (fetch_chunk v (mf_chunks m ! i)) (int i * k, chunk_of xs k (int i))"
    by (rule read_manifest [OF sv]) blast
  note it = item_in_chunk [OF k j]
  have "j div k * k < int (length xs)" using it(4) j(2) by simp
  note ci = chunk_index [OF m(1) it(3) this k]
  show thesis
  proof (rule that [OF m(2)])
    fix u assume u: "blobs u = blobs w" "honest v u"
    have "yields v u (fetch_chunk v (mf_chunks m ! nat (j div k))) (j div k * k, chunk_of xs k (j div k))"
      using m(3) [OF u ci(1)] it(3) by simp
    then have "yields v u (fetch_chunk_item v (mf_chunks m ! nat (j div k)) (j mod k)) (xs ! nat j)"
      unfolding fetch_chunk_item_def
      by (rule yields_bind) (use it(1,2) pos_mod_sign [OF k, of j] in \<open>simp add: yields_return\<close>)
    then show "yields v u (io_bind (io_lift (py_nth (mf_chunks m) (j div k))) (\<lambda>r. fetch_chunk_item v r (j mod k))) (xs ! nat j)"
      by (simp add: ci(2))
  qed
qed

lemma io_bind_assoc: "io_bind (io_bind f g) h = io_bind f (\<lambda>x. io_bind (g x) h)"
  by (simp add: io_bind_def fun_eq_iff split: prod.splits sum.splits)

lemma item_yields:
  assumes sv: "serves v w r xs k ek" and j: "j = (if i < 0 then int (length xs) + i else i)" "0 \<le> j" "j < int (length xs)"
    and el: "element_ok v w retrieve ek (xs ! nat j) y"
  shows "yields v w (get_collection_item v retrieve r (int (length xs)) k ek i) y"
proof -
  from sv have k: "0 < k" by (simp add: serves_def)
  obtain m where m: "yields v w (fetch_manifest v r) m"
    "\<And>u. blobs u = blobs w \<Longrightarrow> honest v u \<Longrightarrow>
      yields v u (io_bind (io_lift (py_nth (mf_chunks m) (j div k))) (\<lambda>r. fetch_chunk_item v r (j mod k))) (xs ! nat j)"
    by (rule fetch_item [OF sv j(2,3)]) blast
  let ?e = "\<lambda>x. if ek = ValueElements then io_return x else io_bind (io_lift (parse_stored x)) retrieve"
  have elem: "yields v u (?e (xs ! nat j)) y" if "blobs u = blobs w" "honest v u" for u
    using el that by (auto simp: element_ok_def yields_return intro: alwaysD split: if_splits)
  have "yields v w (io_bind (fetch_manifest v r) (\<lambda>m. if k = 0 then io_raise ZeroDivisionError else
      io_bind (io_lift (py_nth (mf_chunks m) (j div k))) (\<lambda>r. io_bind (fetch_chunk_item v r (j mod k)) ?e))) y"
  proof (rule yields_bind [OF m(1)], goal_cases)
    case (1 u)
    have "yields v u (io_bind (io_bind (io_lift (py_nth (mf_chunks m) (j div k))) (\<lambda>r. fetch_chunk_item v r (j mod k))) ?e) y"
      by (rule yields_bind [OF m(2) [OF 1]], rule elem) (use 1 in simp_all)
    with k show ?case by (simp only: io_bind_assoc) simp
  qed
  then show ?thesis using j unfolding get_collection_item_def Let_def j(1) [symmetric] by (simp add: not_le not_less)
qed

lemma list_all2_segment: "list_all2 P xs ys \<Longrightarrow> list_all2 P (segment xs a b) (segment ys a b)"
  by (simp add: segment_def list_all2_takeI list_all2_dropI)

lemma materialize_yields:
  assumes sv: "serves v w r xs k ek" and off: "0 \<le> off" and el: "list_all2 (element_ok v w retrieve ek) xs ys"
  shows "yields v w (materialize_collection_values v retrieve r (int (length xs)) k ek off limit)
    (segment ys (nat off) (nat (case limit of None \<Rightarrow> int (length xs) | Some l \<Rightarrow> min (off + l) (int (length xs)))))"
  unfolding materialize_collection_values_def
proof (rule yields_bind [OF page_yields [OF sv off]], goal_cases)
  case (1 u)
  let ?b = "nat (case limit of None \<Rightarrow> int (length xs) | Some l \<Rightarrow> min (off + l) (int (length xs)))"
  show ?case
  proof (cases "ek = ValueElements")
    case True
    with el have "ys = xs" by (auto simp: element_ok_def list_all2_conv_all_nth intro: nth_equalityI)
    with True 1 show ?thesis by (simp add: yields_return)
  next
    case False
    with el have "list_all2 (\<lambda>x. always v w (io_bind (io_lift (parse_stored x)) retrieve)) xs ys"
      by (simp add: element_ok_def [abs_def])
    with False show ?thesis
      by (simp add: yields_map2 [OF list_all2_segment 1])
  qed
qed

text \<open>Retrieving the handle of a collection, or of one of its items.\<close>

lemma retrieve_collection:
  assumes sv: "serves v w r xs k ek" and el: "list_all2 (element_ok v w (retrieve_stored_object n v) ek) xs ys"
  shows "yields v w (retrieve_stored_object (Suc n) v (CollectionObject r (int (length xs)) k ek sv' None tn)) (VList ys)"
proof -
  have "length ys = length xs" using el by (simp add: list_all2_lengthD)
  then have "yields v w (materialize_collection_values v (retrieve_stored_object n v) r (int (length xs)) k ek 0 None) ys"
    using materialize_yields [OF sv order.refl el, of None] by (simp add: segment_def)
  then show ?thesis by (simp, elim yields_bind) (simp add: yields_return)
qed

lemma retrieve_item:
  assumes sv: "serves v w r xs k ek" and el: "list_all2 (element_ok v w (retrieve_stored_object n v) ek) xs ys"
    and j: "j = (if i < 0 then int (length xs) + i else i)" "0 \<le> j" "j < int (length xs)"
  shows "yields v w (retrieve_stored_object (Suc n) v (CollectionObject r (int (length xs)) k ek sv' (Some i) tn)) (ys ! nat j)"
  using item_yields [OF sv j] list_all2_nthD [OF el, of "nat j"] j(2,3) by simp

end
