(* ===== verification/Storage_Activities.thy ===== *)
theory Storage_Activities
  imports Storage_Rounds Sched_Handlers
begin

text \<open>
  The activities of \<open>dsl/action.py\<close> that put collections into storage and take task results out of
  it: materializing a task result and a whole execution context, evaluating the collection of a
  scatter, synchronizing the results of child workflows and finalizing a gather. The expression
  engine, the check that an exception is a transport failure, and the validation of a document as an
  error record are arguments.
\<close>

section \<open>Collections of handles\<close>

definition collection_item_key :: "string \<Rightarrow> int \<Rightarrow> string" where
  "collection_item_key pre i = pre @ ''/items/'' @ show_int i @ ''.json''"

definition store_item :: "env \<Rightarrow> string \<Rightarrow> nat \<times> pyval \<Rightarrow> pyval io" where
  "store_item v pre = (\<lambda>(i, x).
     io_bind (storage_store v (collection_item_key pre (int i)) x) (\<lambda>st. io_return (dump_stored st)))"

definition store_collection_as_refs :: "env \<Rightarrow> string \<Rightarrow> pyval list \<Rightarrow> stored io" where
  "store_collection_as_refs v pre items =
     io_bind (io_map (store_item v pre) (enumerate 0 items)) (\<lambda>refs.
       store_collection v pre refs StoredObjectElements None)"

section \<open>Materializing\<close>

record mat_result =
  mat_value :: pyval
  mat_result_typename :: string
  mat_error :: pyval
  mat_error_typename :: "string option"
  mat_interaction :: pyval
  mat_interaction_id :: "string option"
  mat_interaction_type :: "string option"

record mat_ctx =
  mat_ACTIONS :: "(string, mat_result) dict option"
  mat_TRIGGER :: "pyval option"
  mat_ENV :: "pyval option"
  mat_SECRETS :: "pyval option"
  mat_VARS :: "pyval option"
  mat_var :: "pyval option"

fun collection_at :: "int \<Rightarrow> stored \<Rightarrow> stored" where
  "collection_at i (CollectionObject r n k ek sv ix tn) = CollectionObject r n k ek sv (Some i) tn"
| "collection_at i st = st"

definition raw_result :: "nat \<Rightarrow> env \<Rightarrow> task_result \<Rightarrow> pyval io" where
  "raw_result n v tr =
     (case result tr of
        InlineObject x tn \<Rightarrow>
          (case (collection_index tr, x) of (Some i, VList xs) \<Rightarrow> io_lift (py_nth xs i) | _ \<Rightarrow> io_return x)
      | ExternalObject r tn \<Rightarrow> storage_retrieve n v (result tr)
      | CollectionObject r count chunk_size ek sv ix tn \<Rightarrow>
          (case collection_index tr of
             Some i \<Rightarrow> storage_retrieve n v (collection_at i (result tr))
           | None \<Rightarrow> io_bind (materialize_collection_values v (retrieve_stored_object n v) r count chunk_size ek 0 None)
               (\<lambda>xs. io_return (VList xs))))"

definition materialize_task_result :: "nat \<Rightarrow> env \<Rightarrow> task_result \<Rightarrow> mat_result io" where
  "materialize_task_result n v tr =
     io_bind (raw_result n v tr) (\<lambda>x. io_return
       \<lparr>mat_value = x, mat_result_typename = result_typename tr, mat_error = error tr,
        mat_error_typename = error_typename tr, mat_interaction = interaction tr,
        mat_interaction_id = interaction_id tr, mat_interaction_type = interaction_type tr\<rparr>)"

text \<open>
  \<open>materialize_context\<close>. The retrievals run concurrently in the code; they change nothing but the
  cache, and here they run one after the other. Any exception becomes an application error, marked as
  retryable when a transport failure caused it.
\<close>

definition truthy :: "pyval option \<Rightarrow> pyval option" where
  "truthy x = (case x of None \<Rightarrow> None | Some y \<Rightarrow> if py_bool y then Some y else None)"

definition materialize_error :: "(exn \<Rightarrow> bool) \<Rightarrow> exn \<Rightarrow> exn" where
  "materialize_error retryable e =
     (if retryable e then ForeignError ''StorageMaterializationError'' ''Failed to materialize context''
      else ApplicationError ''Failed to materialize context'' [])"

definition io_catch :: "(exn \<Rightarrow> exn) \<Rightarrow> 'a io \<Rightarrow> 'a io" where
  "io_catch h f = (\<lambda>w. case f w of (Inl e, w') \<Rightarrow> (Inl (h e), w') | (Inr x, w') \<Rightarrow> (Inr x, w'))"

definition materialize_trigger :: "nat \<Rightarrow> env \<Rightarrow> stored option \<Rightarrow> pyval option io" where
  "materialize_trigger n v trigger =
     (case trigger of
        None \<Rightarrow> io_return None
      | Some st \<Rightarrow>
          if py_bool (VStored st) then io_bind (retrieve_stored_object n v st) (\<lambda>x. io_return (Some x))
          else io_return None)"

definition materialize_context :: "nat \<Rightarrow> env \<Rightarrow> (exn \<Rightarrow> bool) \<Rightarrow> exec_ctx \<Rightarrow> mat_ctx io" where
  "materialize_context n v retryable ctx =
     io_bind (io_catch (materialize_error retryable)
       (io_bind (io_map (\<lambda>(r, tr). io_bind (materialize_task_result n v tr) (\<lambda>x. io_return (r, x))) (ACTIONS ctx)) (\<lambda>actions.
        io_bind (materialize_trigger n v (TRIGGER ctx)) (\<lambda>trigger. io_return (actions, trigger)))))
     (\<lambda>(actions, trigger). io_return
       \<lparr>mat_ACTIONS = (if actions = [] then None else Some actions), mat_TRIGGER = trigger,
        mat_ENV = truthy (ENV ctx), mat_SECRETS = truthy (SECRETS ctx), mat_VARS = truthy (VARS ctx),
        mat_var = truthy (local_var ctx)\<rparr>)"

section \<open>The collection of a scatter\<close>

text \<open>
  \<open>is_iterable\<close> on the values an expression evaluates to, which are JSON values: lists are, strings
  and mappings are not.
\<close>

fun is_iterable :: "pyval \<Rightarrow> bool" where
  "is_iterable (VList xs) = True"
| "is_iterable _ = False"

definition scatter_items :: "pyval \<Rightarrow> pyval list io" where
  "scatter_items x =
     (let y = (if x = VNone then VList [] else x) in
      if \<not> is_iterable y then io_raise (ApplicationError ''Scatter collection is not iterable'' [])
      else io_lift (iterate_value y))"

definition evaluate_scatter_input ::
  "nat \<Rightarrow> env \<Rightarrow> (exn \<Rightarrow> bool) \<Rightarrow> (pyval \<Rightarrow> mat_ctx \<Rightarrow> exn + pyval) \<Rightarrow> pyval \<Rightarrow> exec_ctx \<Rightarrow> string \<Rightarrow> stored io" where
  "evaluate_scatter_input n v retryable eval_templated_object collection ctx k =
     io_bind (materialize_context n v retryable ctx) (\<lambda>operand.
     io_bind (case eval_templated_object collection operand of Inl e \<Rightarrow> io_raise e | Inr x \<Rightarrow> io_return x) (\<lambda>x.
     io_bind (scatter_items x) (\<lambda>items.
       if externalization_enabled v then store_collection_as_refs v k items
       else io_return (InlineObject (VList items) ''list''))))"

section \<open>Joining results\<close>

definition synchronize_collection_object_activity :: "nat \<Rightarrow> env \<Rightarrow> stored list \<Rightarrow> string \<Rightarrow> stored io" where
  "synchronize_collection_object_activity n v collection k =
     (if externalization_enabled v
      then io_bind (io_map (\<lambda>(i, st). io_bind (storage_retrieve n v st) (\<lambda>x. store_item v k (i, x)))
             (enumerate 0 collection)) (\<lambda>refs.
           store_collection v k refs StoredObjectElements None)
      else io_bind (io_map (storage_retrieve n v) collection) (\<lambda>xs.
             io_return (InlineObject (VList xs) ''list'')))"

text \<open>An error record is one already, or a mapping that validates as one.\<close>

fun as_error_info :: "((string, pyval) dict \<Rightarrow> error_info option) \<Rightarrow> pyval \<Rightarrow> error_info option" where
  "as_error_info validate (VErr e) = Some e"
| "as_error_info validate (VDict d) = validate d"
| "as_error_info validate _ = None"

definition is_error_info :: "((string, pyval) dict \<Rightarrow> error_info option) \<Rightarrow> pyval \<Rightarrow> bool" where
  "is_error_info validate x =
     (case x of VErr e \<Rightarrow> True | VDict d \<Rightarrow> validate d \<noteq> None | _ \<Rightarrow> False)"

fun partition_errors ::
  "((string, pyval) dict \<Rightarrow> error_info option) \<Rightarrow> pyval list \<Rightarrow> pyval list \<times> error_info list" where
  "partition_errors validate [] = ([], [])"
| "partition_errors validate (x # xs) =
     (let (rs, es) = partition_errors validate xs in
      case as_error_info validate x of Some e \<Rightarrow> (rs, e # es) | None \<Rightarrow> (x # rs, es))"

definition sort_out ::
  "((string, pyval) dict \<Rightarrow> error_info option) \<Rightarrow> error_strategy \<Rightarrow> pyval list \<Rightarrow> pyval list \<times> error_info list" where
  "sort_out validate strategy xs =
     (case strategy of
        PARTITION \<Rightarrow> partition_errors validate xs
      | DROP \<Rightarrow> (filter (\<lambda>x. \<not> is_error_info validate x) xs, [])
      | INCLUDE \<Rightarrow> (xs, [])
      | RAISE \<Rightarrow> partition_errors validate xs)"

definition finalize_gather_activity ::
  "nat \<Rightarrow> env \<Rightarrow> ((string, pyval) dict \<Rightarrow> error_info option) \<Rightarrow> stored list \<Rightarrow> string \<Rightarrow> bool \<Rightarrow> error_strategy \<Rightarrow> finalized io" where
  "finalize_gather_activity n v validate collection k drop_nulls strategy =
     io_bind (io_map (storage_retrieve n v) collection) (\<lambda>xs.
       let ys = (if drop_nulls then filter (\<lambda>x. x \<noteq> VNone) xs else xs);
           (results, errors) = sort_out validate strategy ys in
       io_bind (if externalization_enabled v then store_collection_as_refs v k results
                else io_return (InlineObject (VList results) ''list'')) (\<lambda>st.
         io_return \<lparr>fin_result = st, fin_errors = errors\<rparr>))"

end
