(* ===== verification/Storage_Handles.thy ===== *)
theory Storage_Handles
  imports Storage_Activities
begin

text \<open>
  The interface of the storage backends (\<open>ObjectStorage\<close> of \<open>storage/object.py\<close>) as a locale: a
  handle that was handed out stands for the value it was made from, and storing touches no other
  key. Both backends provide it, and with it the collections of handles that the activities store
  stand for the values they were given.
\<close>

section \<open>What a handle stands for\<close>

fun stands_for :: "env \<Rightarrow> store \<Rightarrow> stored \<Rightarrow> pyval \<Rightarrow> bool" where
  "stands_for v w (InlineObject y tn) x = (y = x)"
| "stands_for v w (ExternalObject r tn) x = holds_blob v w r x"
| "stands_for v w (CollectionObject r n k ek sv ix tn) x = False"

fun kept_under :: "string set \<Rightarrow> stored \<Rightarrow> bool" where
  "kept_under ks (ExternalObject r tn) = (key r \<in> ks)"
| "kept_under ks _ = True"

definition only_writes :: "env \<Rightarrow> string set \<Rightarrow> store \<Rightarrow> store \<Rightarrow> bool" where
  "only_writes v ks w w' \<longleftrightarrow> cache w' = cache w \<and>
     (\<forall>r x. holds_blob v w r x \<longrightarrow> key r \<notin> ks \<longrightarrow> holds_blob v w' r x)"

lemma only_writes_refl [simp]: "only_writes v ks w w"
  by (simp add: only_writes_def)

lemma only_writes_trans:
  "only_writes v ks w1 w2 \<Longrightarrow> only_writes v ks' w2 w3 \<Longrightarrow> only_writes v (ks \<union> ks') w1 w3"
  by (auto simp: only_writes_def)

lemma only_writes_mono: "only_writes v ks w w' \<Longrightarrow> ks \<subseteq> ks' \<Longrightarrow> only_writes v ks' w w'"
  unfolding only_writes_def by blast

lemma stands_for_kept:
  assumes "stands_for v w st x" "kept_under ks st" "only_writes v ks' w w'" "ks \<inter> ks' = {}"
  shows "stands_for v w' st x"
  using assms by (cases st) (auto simp: only_writes_def)

lemma only_writes_honest: "only_writes v ks w w' \<Longrightarrow> honest v w' = honest v w"
  by (simp add: only_writes_def honest_def)

lemma kept_under_mono: "kept_under ks st \<Longrightarrow> ks \<subseteq> ks' \<Longrightarrow> kept_under ks' st"
  by (cases st) auto

lemma stands_for_yields:
  assumes "libs_ok v" "stands_for v w st x"
  shows "always v w (retrieve_stored_object (Suc n) v st) x"
proof (rule alwaysI)
  fix u assume u: "blobs u = blobs w" "honest v u"
  show "yields v u (retrieve_stored_object (Suc n) v st) x"
  proof (cases st)
    case (ExternalObject r tn)
    then have "holds_blob v u r x" using assms(2) holds_blob_cong [OF u(1)] by simp
    then show ?thesis
      using fetch_parsed(3) [OF _ _ _ u(2)] assms(1) ExternalObject by (simp add: libs_ok_def)
  qed (use assms u in \<open>simp_all add: yields_return\<close>)
qed

lemma storable_dump_ref [simp]: "storable (dump_ref r)"
  by (simp add: dump_ref_def)

lemma storable_dump_stored: "stands_for v w st x \<Longrightarrow> storable x \<Longrightarrow> storable (dump_stored st)"
  by (cases st) (auto simp: opt_str_def split: option.split)

section \<open>The interface of the backends\<close>

locale object_storage =
  fixes store :: "env \<Rightarrow> string \<Rightarrow> pyval \<Rightarrow> stored io"
  assumes stored: "store v k x w = (Inr st, w') \<Longrightarrow> storable x \<Longrightarrow>
    stands_for v w' st x \<and> kept_under {k} st \<and> only_writes v {k} w w'"
begin

text \<open>Handles stored under distinct keys, one after the other.\<close>

lemma store_each:
  assumes "io_map (\<lambda>(k, x). io_bind (store v k x) (\<lambda>st. io_return (dump_stored st))) kxs w = (Inr refs, w')"
    and "distinct (map fst kxs)" and "list_all (\<lambda>(k, x). storable x) kxs"
  shows "only_writes v (fst ` set kxs) w w' \<and> (\<exists>sts. refs = map dump_stored sts \<and>
    list_all2 (\<lambda>st (k, x). stands_for v w' st x \<and> kept_under {k} st) sts kxs)"
  using assms
proof (induction kxs arbitrary: w refs)
  case Nil
  then show ?case by (simp add: io_app)
next
  case (Cons kx kxs)
  obtain k x where kx: "kx = (k, x)" by (cases kx)
  from Cons.prems(1) obtain st w1 refs' where
    st: "store v k x w = (Inr st, w1)" and
    rs: "io_map (\<lambda>(k, x). io_bind (store v k x) (\<lambda>st. io_return (dump_stored st))) kxs w1 = (Inr refs', w')"
      "refs = dump_stored st # refs'"
    by (auto simp: kx io_return_eq elim!: io_bind_InrE)
  from stored [OF st] Cons.prems(3) have s: "stands_for v w1 st x" "kept_under {k} st" "only_writes v {k} w w1"
    by (simp_all add: kx)
  from Cons.IH [OF rs(1)] Cons.prems obtain sts where
    IH: "only_writes v (fst ` set kxs) w1 w'" "refs' = map dump_stored sts"
      "list_all2 (\<lambda>st (k, x). stands_for v w' st x \<and> kept_under {k} st) sts kxs"
    by auto
  have "{k} \<inter> fst ` set kxs = {}" using Cons.prems(2) by (auto simp: kx)
  with s IH(1) have "stands_for v w' st x" by (blast intro: stands_for_kept)
  then have "list_all2 (\<lambda>st (k, x). stands_for v w' st x \<and> kept_under {k} st) (st # sts) (kx # kxs)"
    using s(2) IH(3) by (simp add: kx)
  moreover have "only_writes v (fst ` set (kx # kxs)) w w'"
    using only_writes_trans [OF s(3) IH(1)] by (simp add: kx)
  moreover have "refs = map dump_stored (st # sts)" using rs(2) IH(2) by simp
  ultimately show ?case by blast
qed

end

interpretation inline_backend: object_storage "\<lambda>v. inline_store"
  by unfold_locales (auto simp: inline_store_def io_app inline_def)

lemma s3_stored:
  assumes "s3_store v k x w = (Inr st, w')" "storable x"
  shows "stands_for v w' st x \<and> kept_under {k} st \<and> only_writes v {k} w w'"
proof (cases "dumps v x")
  case (Inl e)
  with assms show ?thesis by (simp add: s3_store_def io_app)
next
  case (Inr c)
  with assms show ?thesis
    by (auto simp: s3_store_def io_bind_def upload_file_def io_app inline_def only_writes_def holds_blob_def
        split: if_splits)
qed

interpretation s3_backend: object_storage s3_store
  by unfold_locales (rule s3_stored)

interpretation backend: object_storage storage_store
proof
  fix v k x w st w'
  assume "storage_store v k x w = (Inr st, w')" "storable x"
  then show "stands_for v w' st x \<and> kept_under {k} st \<and> only_writes v {k} w w'"
    using inline_backend.stored [of k x w st w' v] s3_backend.stored [of v k x w st w']
    by (simp add: storage_store_def split: if_splits)
qed

section \<open>Collections of handles\<close>

lemma item_key_inj: "0 \<le> i \<Longrightarrow> 0 \<le> j \<Longrightarrow> collection_item_key pre i = collection_item_key pre j \<longleftrightarrow> i = j"
  by (simp add: collection_item_key_def show_int_inj)

lemma item_key_other: "collection_item_key pre i \<noteq> chunk_key pre j" "collection_item_key pre i \<noteq> manifest_key pre"
  by (simp_all add: collection_item_key_def chunk_key_def manifest_key_def)

definition item_keys :: "string \<Rightarrow> string set" where
  "item_keys pre = range (\<lambda>i. collection_item_key pre (int i))"

text \<open>What is written for a collection: its items, its chunks and its manifest.\<close>

definition collection_keys :: "string \<Rightarrow> string set" where
  "collection_keys pre = item_keys pre \<union> range (chunk_key pre) \<union> {manifest_key pre}"

lemma io_map_map: "io_map f (map g xs) = io_map (\<lambda>x. f (g x)) xs"
  by (induction xs) simp_all

lemma store_items:
  assumes run: "io_map (store_item v pre) (enumerate 0 xs) w = (Inr refs, w')" and st: "list_all storable xs"
  obtains sts where "refs = map dump_stored sts" "list_all2 (stands_for v w') sts xs"
    "list_all (kept_under (item_keys pre)) sts" "only_writes v (item_keys pre) w w'"
proof -
  let ?kxs = "map (\<lambda>(i, x). (collection_item_key pre (int i), x)) (enumerate 0 xs)"
  have "store_item v pre = (\<lambda>ix. (\<lambda>(k, x). io_bind (storage_store v k x) (\<lambda>st. io_return (dump_stored st)))
      ((\<lambda>(i, x). (collection_item_key pre (int i), x)) ix))"
    by (simp add: store_item_def fun_eq_iff split: prod.splits)
  then have "io_map (\<lambda>(k, x). io_bind (storage_store v k x) (\<lambda>st. io_return (dump_stored st))) ?kxs w = (Inr refs, w')"
    using run unfolding io_map_map by simp
  moreover have "map fst ?kxs = map (\<lambda>i. collection_item_key pre (int i)) [0..<length xs]"
    by (rule nth_equalityI) (simp_all add: nth_enumerate_eq)
  then have "distinct (map fst ?kxs)" by (simp add: distinct_map inj_on_def item_key_inj)
  moreover have "list_all (\<lambda>(k, x). storable x) ?kxs"
    using st by (auto simp: list_all_iff in_set_enumerate_eq)
  ultimately obtain sts where s: "only_writes v (fst ` set ?kxs) w w'" "refs = map dump_stored sts"
    "list_all2 (\<lambda>st (k, x). stands_for v w' st x \<and> kept_under {k} st) sts ?kxs"
    using backend.store_each by blast
  have sub: "fst ` set ?kxs \<subseteq> item_keys pre" by (auto simp: item_keys_def)
  have "list_all2 (stands_for v w') sts xs"
    using s(3) by (auto simp: list_all2_conv_all_nth nth_enumerate_eq)
  moreover have "list_all (kept_under (item_keys pre)) sts"
  proof -
    have "kept_under (item_keys pre) (sts ! i)" if "i < length sts" for i
    proof -
      from s(3) that have "kept_under {fst (?kxs ! i)} (sts ! i)" "i < length ?kxs"
        by (auto simp: list_all2_conv_all_nth split: prod.splits)
      moreover from this(2) have "fst (?kxs ! i) \<in> item_keys pre" using sub nth_mem by blast
      ultimately show ?thesis by (blast intro: kept_under_mono)
    qed
    then show ?thesis by (simp add: list_all_length)
  qed
  moreover have "only_writes v (item_keys pre) w w'" by (rule only_writes_mono [OF s(1) sub])
  ultimately show thesis using that s(2) by blast
qed

text \<open>Storing the items as handles, then the handles as a collection.\<close>

lemma store_refs:
  assumes run: "store_collection v pre (map dump_stored sts) StoredObjectElements None w = (Inr h, w')"
    and ok: "libs_ok v" "honest v w" "0 < config_chunk_size v" "list_all storable xs"
    and sts: "list_all2 (stands_for v w) sts xs" "list_all (kept_under (item_keys pre)) sts"
  obtains r where "h = CollectionObject r (int (length xs)) (config_chunk_size v) StoredObjectElements 1 None ''list''"
    "serves v w' r (map dump_stored sts) (config_chunk_size v) StoredObjectElements"
    "list_all2 (element_ok v w' (retrieve_stored_object (Suc n) v) StoredObjectElements) (map dump_stored sts) xs"
    "only_writes v (collection_keys pre) w w'"
proof -
  have len: "length sts = length xs" using sts(1) by (rule list_all2_lengthD)
  have "list_all storable (map dump_stored sts)"
    using sts(1) ok(4) by (fastforce simp: list_all_length list_all2_conv_all_nth intro: storable_dump_stored)
  from store_collection_holds [OF run this, of "config_chunk_size v"] obtain r where
    r: "h = CollectionObject r (int (length xs)) (config_chunk_size v) StoredObjectElements 1 None ''list''"
      "holds_collection v w' r (map dump_stored sts) (config_chunk_size v) StoredObjectElements" "cache w' = cache w"
      "\<forall>s y. holds_blob v w s y \<longrightarrow> key s \<notin> range (chunk_key pre) \<longrightarrow> key s \<noteq> manifest_key pre \<longrightarrow> holds_blob v w' s y"
    using ok(3) len by (auto simp: py_or_def)
  have w: "only_writes v (range (chunk_key pre) \<union> {manifest_key pre}) w w'"
    using r(3,4) by (simp add: only_writes_def)
  have disj: "item_keys pre \<inter> (range (chunk_key pre) \<union> {manifest_key pre}) = {}"
    by (auto simp: item_keys_def item_key_other item_key_other(2) [symmetric])
  have "always v w' (retrieve_stored_object (Suc n) v (sts ! i)) (xs ! i)" if "i < length xs" for i
  proof -
    have "stands_for v w (sts ! i) (xs ! i)" "kept_under (item_keys pre) (sts ! i)"
      using sts that len by (simp_all add: list_all2_conv_all_nth list_all_length)
    from stands_for_kept [OF this w disj] show ?thesis by (rule stands_for_yields [OF ok(1)])
  qed
  then have "list_all2 (element_ok v w' (retrieve_stored_object (Suc n) v) StoredObjectElements) (map dump_stored sts) xs"
    using len by (simp add: list_all2_conv_all_nth element_ok_def)
  moreover have "serves v w' r (map dump_stored sts) (config_chunk_size v) StoredObjectElements"
    using r(2) ok only_writes_honest [OF w] by (simp add: serves_def)
  moreover have "only_writes v (collection_keys pre) w w'" using w by (auto simp: only_writes_def collection_keys_def)
  ultimately show thesis using that r(1) by blast
qed

text \<open>What a scatter stores, and what reading the handle or one of its items gives.\<close>

definition reads_as :: "env \<Rightarrow> store \<Rightarrow> stored \<Rightarrow> pyval list \<Rightarrow> bool" where
  "reads_as v w st xs \<longleftrightarrow>
     (\<forall>n. always v w (storage_retrieve (n + 2) v st) (VList xs)) \<and>
     (\<forall>n tr. result tr = st \<longrightarrow> collection_index tr = None \<longrightarrow> always v w (raw_result (n + 2) v tr) (VList xs)) \<and>
     (\<forall>n i tr. i < length xs \<longrightarrow> result tr = st \<longrightarrow> collection_index tr = Some (int i) \<longrightarrow>
        always v w (raw_result (n + 2) v tr) (xs ! i))"

lemma inline_reads_as: "reads_as v w (InlineObject (VList xs) tn) xs"
  by (simp add: reads_as_def always_def storage_retrieve_def s3_retrieve_def raw_result_def py_nth_def yields_return)

lemma element_ok_cong: "blobs u = blobs w \<Longrightarrow> element_ok v u = element_ok v w"
  by (simp add: fun_eq_iff element_ok_def always_def)

lemma collection_reads_as:
  assumes ext: "externalization_enabled v"
    and sv: "serves v w r refs k StoredObjectElements" and len: "length refs = length xs"
    and el: "\<And>n. list_all2 (element_ok v w (retrieve_stored_object (Suc n) v) StoredObjectElements) refs xs"
  shows "reads_as v w (CollectionObject r (int (length xs)) k StoredObjectElements 1 None tn) xs"
proof -
  have cong: "serves v u r refs k StoredObjectElements"
    "list_all2 (element_ok v u (retrieve_stored_object (Suc n) v) StoredObjectElements) refs xs"
    if "blobs u = blobs w" "honest v u" for u n
    using serves_step [OF sv that] el [of n] element_ok_cong [OF that(1)] by simp_all
  have whole: "yields v u (retrieve_stored_object (Suc (Suc n)) v (CollectionObject r (int (length xs)) k StoredObjectElements 1 None tn)) (VList xs)"
    if "blobs u = blobs w" "honest v u" for u n
    using retrieve_collection [OF cong(1) [OF that] cong(2) [OF that, of n]] len by simp
  have item: "yields v u (retrieve_stored_object (Suc (Suc n)) v (CollectionObject r (int (length xs)) k StoredObjectElements 1 (Some (int i)) tn)) (xs ! i)"
    if "blobs u = blobs w" "honest v u" "i < length xs" for u n i
    using retrieve_item [OF cong(1) [OF that(1,2)] cong(2) [OF that(1,2), of n], of "int i" "int i"] len that(3) by simp
  have mat: "yields v u (materialize_collection_values v (retrieve_stored_object (Suc (Suc n)) v) r (int (length xs)) k StoredObjectElements 0 None) xs"
    if "blobs u = blobs w" "honest v u" for u n
    using materialize_yields [OF cong(1) [OF that] order.refl cong(2) [OF that, of "Suc n"], of None] len
    by (simp add: segment_full)
  show ?thesis
    unfolding reads_as_def
  proof (intro conjI allI impI alwaysI, goal_cases)
    case (1 n u)
    with whole [of u n] ext show ?case by (simp add: storage_retrieve_def s3_retrieve_def)
  next
    case (2 n tr u)
    then show ?case by (simp add: raw_result_def) (rule yields_bind [OF mat], simp_all add: yields_return)
  next
    case (3 n i tr u)
    with item [of u i n] ext show ?case by (simp add: raw_result_def storage_retrieve_def s3_retrieve_def)
  qed
qed

lemma store_collection_as_refs_reads:
  assumes run: "store_collection_as_refs v pre xs w = (Inr h, w')"
    and ok: "externalization_enabled v" "libs_ok v" "honest v w" "0 < config_chunk_size v" "list_all storable xs"
  shows "reads_as v w' h xs \<and> only_writes v (collection_keys pre) w w'"
proof -
  from run obtain refs w1 where
    r: "io_map (store_item v pre) (enumerate 0 xs) w = (Inr refs, w1)"
      "store_collection v pre refs StoredObjectElements None w1 = (Inr h, w')"
    unfolding store_collection_as_refs_def by (elim io_bind_InrE)
  from store_items [OF r(1) ok(5)] obtain sts where
    s: "refs = map dump_stored sts" "list_all2 (stands_for v w1) sts xs"
      "list_all (kept_under (item_keys pre)) sts" "only_writes v (item_keys pre) w w1" by blast
  have h1: "honest v w1" using ok(3) only_writes_honest [OF s(4)] by simp
  note sr = store_refs [OF r(2) [unfolded s(1)] ok(2) h1 ok(4,5) s(2,3)]
  obtain r where h: "h = CollectionObject r (int (length xs)) (config_chunk_size v) StoredObjectElements 1 None ''list''"
    "serves v w' r (map dump_stored sts) (config_chunk_size v) StoredObjectElements"
    "only_writes v (collection_keys pre) w1 w'"
    by (rule sr)
  have "list_all2 (element_ok v w' (retrieve_stored_object (Suc n) v) StoredObjectElements) (map dump_stored sts) xs" for n
    by (rule sr [of n])
  then have "reads_as v w' h xs"
    unfolding h(1) using list_all2_lengthD [OF s(2)] by (intro collection_reads_as [OF ok(1) h(2)]) simp_all
  moreover have "only_writes v (collection_keys pre) w w'"
    by (rule only_writes_mono [OF only_writes_trans [OF s(4) h(3)]]) (auto simp: collection_keys_def)
  ultimately show ?thesis by simp
qed

end
