(* ===== verification/Storage_Codec.thy ===== *)
theory Storage_Codec
  imports Storage_Handles
begin

text \<open>
  A concrete environment that meets the laws asked of the libraries: a self-delimiting text form for
  values with its reader, the identity as digest, and a cache that drops nothing. It shows that the
  laws can be met together and is what the examples run with.
\<close>

definition enc_str :: "string \<Rightarrow> string" where
  "enc_str s = show_nat (length s) @ CHR '':'' # s"

fun enc :: "pyval \<Rightarrow> string" where
  "enc (VBool b) = (if b then ''t'' else ''f'')"
| "enc (VInt i) = (if i < 0 then ''m'' else ''i'') @ show_nat (nat \<bar>i\<bar>) @ '':''"
| "enc (VStr s) = CHR ''s'' # enc_str s"
| "enc (VList xs) = CHR ''l'' # concat (map enc xs) @ ''.''"
| "enc (VDict d) = CHR ''d'' # concat (map (\<lambda>(k, x). CHR ''k'' # enc_str k @ enc x) d) @ ''.''"
| "enc _ = ''n''"

definition dec_nat :: "string \<Rightarrow> (nat \<times> string) option" where
  "dec_nat s = (case (digits_value 0 (takeWhile (\<lambda>c. c \<noteq> CHR '':'') s), dropWhile (\<lambda>c. c \<noteq> CHR '':'') s) of
     (Some n, _ # r) \<Rightarrow> Some (n, r) | _ \<Rightarrow> None)"

definition dec_str :: "string \<Rightarrow> (string \<times> string) option" where
  "dec_str s = (case dec_nat s of None \<Rightarrow> None | Some (n, r) \<Rightarrow> Some (take n r, drop n r))"

fun dec :: "nat \<Rightarrow> string \<Rightarrow> (pyval \<times> string) option"
and dec_list :: "nat \<Rightarrow> string \<Rightarrow> (pyval list \<times> string) option"
and dec_dict :: "nat \<Rightarrow> string \<Rightarrow> ((string \<times> pyval) list \<times> string) option" where
  "dec (Suc n) (c # s) =
     (if c = CHR ''n'' then Some (VNone, s)
      else if c = CHR ''t'' then Some (VBool True, s)
      else if c = CHR ''f'' then Some (VBool False, s)
      else if c = CHR ''i'' then map_option (\<lambda>(k, r). (VInt (int k), r)) (dec_nat s)
      else if c = CHR ''m'' then map_option (\<lambda>(k, r). (VInt (- int k), r)) (dec_nat s)
      else if c = CHR ''s'' then map_option (\<lambda>(t, r). (VStr t, r)) (dec_str s)
      else if c = CHR ''l'' then map_option (\<lambda>(xs, r). (VList xs, r)) (dec_list n s)
      else if c = CHR ''d'' then map_option (\<lambda>(d, r). (VDict d, r)) (dec_dict n s)
      else None)"
| "dec _ _ = None"
| "dec_list (Suc n) (c # s) =
     (if c = CHR ''.'' then Some ([], s)
      else case dec n (c # s) of None \<Rightarrow> None
        | Some (x, r) \<Rightarrow> map_option (\<lambda>(xs, r). (x # xs, r)) (dec_list n r))"
| "dec_list _ _ = None"
| "dec_dict (Suc n) (c # s) =
     (if c = CHR ''.'' then Some ([], s)
      else case dec_str s of None \<Rightarrow> None
        | Some (k, r) \<Rightarrow>
            (case dec n r of None \<Rightarrow> None
             | Some (x, r) \<Rightarrow> map_option (\<lambda>(d, r). ((k, x) # d, r)) (dec_dict n r)))"
| "dec_dict _ _ = None"

lemma colon_show: "c \<in> set (show_nat n) \<Longrightarrow> c \<noteq> CHR '':''"
  using show_nat_chars(1) by metis

lemma dec_nat_show: "dec_nat (show_nat n @ CHR '':'' # r) = Some (n, r)"
  by (simp add: dec_nat_def takeWhile_append2 dropWhile_append2 colon_show)

lemma dec_str_enc: "dec_str (enc_str s @ r) = Some (s, r)"
  by (simp add: dec_str_def enc_str_def dec_nat_show)

text \<open>A value is read back whatever follows it, with fuel for its length.\<close>

definition reads_back :: "pyval \<Rightarrow> bool" where
  "reads_back x \<longleftrightarrow> (\<forall>n r. length (enc x) \<le> n \<longrightarrow> dec n (enc x @ r) = Some (x, r))"

lemma enc_head: "\<exists>c s. enc x = c # s \<and> c \<noteq> CHR ''.''"
  by (cases x) auto

lemma reads_list:
  assumes "\<And>x. x \<in> set xs \<Longrightarrow> reads_back x" and "length (concat (map enc xs)) < n"
  shows "dec_list n (concat (map enc xs) @ CHR ''.'' # r) = Some (xs, r)"
  using assms
proof (induction xs arbitrary: n)
  case Nil
  then show ?case by (cases n) simp_all
next
  case (Cons x xs)
  obtain m where n: "n = Suc m" using Cons.prems(2) by (cases n) simp_all
  obtain c s where e: "enc x = c # s" "c \<noteq> CHR ''.''" using enc_head by blast
  have "dec m (enc x @ concat (map enc xs) @ CHR ''.'' # r) = Some (x, concat (map enc xs) @ CHR ''.'' # r)"
    using Cons.prems by (simp add: reads_back_def n)
  moreover have "dec_list m (concat (map enc xs) @ CHR ''.'' # r) = Some (xs, r)"
    using Cons.prems e by (intro Cons.IH) (auto simp: n)
  ultimately show ?case using e by (simp add: n)
qed

lemma reads_dict:
  assumes "\<And>k x. (k, x) \<in> set d \<Longrightarrow> reads_back x"
    and "length (concat (map (\<lambda>(k, x). CHR ''k'' # enc_str k @ enc x) d)) < n"
  shows "dec_dict n (concat (map (\<lambda>(k, x). CHR ''k'' # enc_str k @ enc x) d) @ CHR ''.'' # r) = Some (d, r)"
  using assms
proof (induction d arbitrary: n)
  case Nil
  then show ?case by (cases n) simp_all
next
  case (Cons kx d)
  obtain k x where kx: "kx = (k, x)" by (cases kx)
  obtain m where n: "n = Suc m" using Cons.prems(2) by (cases n) simp_all
  let ?d = "concat (map (\<lambda>(k, x). CHR ''k'' # enc_str k @ enc x) d) @ CHR ''.'' # r"
  have "reads_back x" using Cons.prems(1) [of k x] by (simp add: kx)
  then have "dec m (enc x @ ?d) = Some (x, ?d)" using Cons.prems(2) by (simp add: reads_back_def n kx)
  moreover have "dec_dict m ?d = Some (d, r)" using Cons.prems by (intro Cons.IH) (auto simp: n kx)
  ultimately show ?case by (simp add: n kx dec_str_enc)
qed

lemma storable_reads_back: "storable x \<Longrightarrow> reads_back x"
proof (induction x rule: storable.induct)
  case (5 xs)
  then have "\<And>x. x \<in> set xs \<Longrightarrow> reads_back x" by (auto simp: list_all_iff)
  then show ?case
    unfolding reads_back_def [of "VList xs"]
  proof (intro allI impI)
    fix n r assume *: "\<And>x. x \<in> set xs \<Longrightarrow> reads_back x" and "length (enc (VList xs)) \<le> n"
    then obtain m where "n = Suc m" "length (enc (VList xs)) \<le> Suc m" by (cases n) simp_all
    with * show "dec n (enc (VList xs) @ r) = Some (VList xs, r)" by (simp add: reads_list)
  qed
next
  case (6 d)
  then have "\<And>k x. (k, x) \<in> set d \<Longrightarrow> reads_back x" by (auto simp: list_all_iff)
  then show ?case
    unfolding reads_back_def [of "VDict d"]
  proof (intro allI impI)
    fix n r assume *: "\<And>k x. (k, x) \<in> set d \<Longrightarrow> reads_back x" and "length (enc (VDict d)) \<le> n"
    then obtain m where "n = Suc m" "length (enc (VDict d)) \<le> Suc m" by (cases n) simp_all
    with * show "dec n (enc (VDict d) @ r) = Some (VDict d, r)" by (simp add: reads_dict)
  qed
qed (auto simp: reads_back_def dec_nat_show dec_str_enc dest!: Suc_le_D)

definition sample_env :: "bool \<Rightarrow> int \<Rightarrow> int \<Rightarrow> env" where
  "sample_env ext chunk threshold =
     \<lparr>dumps = (\<lambda>x. if storable x then Inr (enc x) else Inl TypeError),
      loads = (\<lambda>c. case dec (length c) c of Some (x, []) \<Rightarrow> Inr x | _ \<Rightarrow> Inl ValueError),
      compute_sha256 = (\<lambda>c. c), expire = (\<lambda>d. d), evict = (\<lambda>d. d), workflow_bucket = ''wf'',
      config_chunk_size = chunk, threshold_bytes = threshold, externalization_enabled = ext\<rparr>"

definition empty_store :: store where
  "empty_store = \<lparr>blobs = [], cache = []\<rparr>"

definition sample_items :: "pyval list" where
  "sample_items = [VInt 1, VStr ''two'', VNone, VList [VInt 4], VInt (- 5)]"

lemma honest_empty: "honest v empty_store"
  by (simp add: honest_def empty_store_def)

lemma sample_libs_ok: "libs_ok (sample_env ext chunk threshold)"
proof -
  have "dec (length (enc x)) (enc x) = Some (x, [])" if "storable x" for x
    using storable_reads_back [OF that] unfolding reads_back_def by (metis append_Nil2 order_refl)
  then show ?thesis
    by (auto simp: libs_ok_def cache_lib_ok_def hash_ok_def codec_ok_def sample_env_def split: if_splits)
qed

end
