(* ===== verification/Storage_Retry.thy ===== *)
theory Storage_Retry
  imports Prelude
begin

text \<open>
  Retrying storage operations (\<open>storage/utils.py\<close>). An exception links to others: the members of an
  exception group, its cause and its context, in any shape, cycles included. Exceptions are objects
  of a heap, known by their identity; the search for a transport failure visits each object once.
\<close>

section \<open>The search\<close>

record exc_object =
  is_http_client_error :: bool
  group_exceptions :: "nat list"
  exc_cause :: "nat option"
  exc_context :: "nat option"

type_synonym exc_heap = "(nat, exc_object) dict"

text \<open>
  The stack has its top first: the members of a group are pushed in order, then the cause, then the
  context. An exception that is no group has no members.
\<close>

function search_transport_error :: "exc_heap \<Rightarrow> nat list \<Rightarrow> nat option list \<Rightarrow> bool" where
  "search_transport_error h seen [] = False"
| "search_transport_error h seen (None # stack) = search_transport_error h seen stack"
| "search_transport_error h seen (Some a # stack) =
     (if a \<in> set seen then search_transport_error h seen stack
      else
        (case dict_get h a of
           None \<Rightarrow> search_transport_error h seen stack
         | Some x \<Rightarrow>
             if is_http_client_error x then True
             else search_transport_error h (a # seen)
               (exc_context x # exc_cause x # rev (map Some (group_exceptions x)) @ stack)))"
  by pat_completeness auto

lemma unseen_decreases:
  "a \<notin> set seen \<Longrightarrow> dict_get h a = Some x \<Longrightarrow>
    card (fst ` set h - insert a (set seen)) < card (fst ` set h - set seen)"
  by (rule psubset_card_mono) (force dest: map_of_SomeD)+

termination search_transport_error
  by (relation "measures [\<lambda>(h, seen, stack). card (set (dict_keys h) - set seen), \<lambda>(h, seen, stack). length stack]")
    (simp_all add: unseen_decreases)

definition is_retryable_storage_transport_error :: "exc_heap \<Rightarrow> nat \<Rightarrow> bool" where
  "is_retryable_storage_transport_error h e = search_transport_error h [] [Some e]"

section \<open>What it finds\<close>

definition linked :: "exc_heap \<Rightarrow> nat \<Rightarrow> nat set" where
  "linked h a = (case dict_get h a of None \<Rightarrow> {}
     | Some x \<Rightarrow> set (group_exceptions x) \<union> set_option (exc_cause x) \<union> set_option (exc_context x))"

definition links :: "exc_heap \<Rightarrow> (nat \<times> nat) set" where
  "links h = {(a, b). b \<in> linked h a}"

definition transport_failure :: "exc_heap \<Rightarrow> nat \<Rightarrow> bool" where
  "transport_failure h a \<longleftrightarrow> (\<exists>x. dict_get h a = Some x \<and> is_http_client_error x)"

definition leads_to_failure :: "exc_heap \<Rightarrow> nat set \<Rightarrow> bool" where
  "leads_to_failure h as \<longleftrightarrow> (\<exists>a\<in>as. \<exists>b. (a, b) \<in> (links h)\<^sup>* \<and> transport_failure h b)"

definition on_stack :: "nat option list \<Rightarrow> nat set" where
  "on_stack stack = {a. Some a \<in> set stack}"

lemma on_stack_simps [simp]:
  "on_stack [] = {}" "on_stack (None # s) = on_stack s" "on_stack (Some a # s) = insert a (on_stack s)"
  "on_stack (x # s) = set_option x \<union> on_stack s" "on_stack (s @ t) = on_stack s \<union> on_stack t"
  "on_stack (rev s) = on_stack s" "on_stack (map Some as) = set as"
  by (auto simp: on_stack_def)

lemma leads_step: "leads_to_failure h (insert a as) \<longleftrightarrow>
    transport_failure h a \<or> leads_to_failure h (linked h a \<union> as)"
proof -
  have "(\<exists>b. (a, b) \<in> (links h)\<^sup>* \<and> transport_failure h b) \<longleftrightarrow>
      transport_failure h a \<or> (\<exists>c\<in>linked h a. \<exists>b. (c, b) \<in> (links h)\<^sup>* \<and> transport_failure h b)"
    by (auto simp: links_def elim: converse_rtranclE intro: converse_rtrancl_into_rtrancl)
  then show ?thesis by (auto simp: leads_to_failure_def)
qed

text \<open>Nothing is lost by skipping objects seen before: their links are seen or still on the stack.\<close>

definition explored :: "exc_heap \<Rightarrow> nat set \<Rightarrow> nat set \<Rightarrow> bool" where
  "explored h seen todo \<longleftrightarrow>
     (\<forall>a\<in>seen. \<not> transport_failure h a \<and> linked h a \<subseteq> seen \<union> todo \<union> {b. dict_get h b = None})"

lemma explored_leads:
  assumes "explored h seen todo" "a \<in> seen"
  shows "leads_to_failure h (insert a todo) = leads_to_failure h todo"
proof -
  have "b \<in> seen \<or> dict_get h b = None \<or> (\<exists>c\<in>todo. (c, b) \<in> (links h)\<^sup>*)" if "(a, b) \<in> (links h)\<^sup>*" for b
    using that
  proof (induction rule: rtrancl_induct)
    case (step b c)
    have "c \<in> linked h b" using step.hyps(2) by (simp add: links_def)
    with step.IH show ?case
    proof (elim disjE)
      assume "b \<in> seen"
      with assms(1) \<open>c \<in> linked h b\<close> show ?thesis unfolding explored_def by blast
    next
      assume "dict_get h b = None"
      with \<open>c \<in> linked h b\<close> show ?thesis by (simp add: linked_def)
    next
      assume "\<exists>c\<in>todo. (c, b) \<in> (links h)\<^sup>*"
      with step.hyps(2) show ?thesis by (meson rtrancl_into_rtrancl)
    qed
  qed (use assms(2) in simp)
  then have "leads_to_failure h todo" if "(a, b) \<in> (links h)\<^sup>*" "transport_failure h b" for b
    using that assms(1) unfolding leads_to_failure_def explored_def transport_failure_def by force
  then show ?thesis unfolding leads_to_failure_def by blast
qed

lemma search_correct:
  "explored h (set seen) (on_stack stack) \<Longrightarrow>
    search_transport_error h seen stack = leads_to_failure h (on_stack stack)"
proof (induction h seen stack rule: search_transport_error.induct)
  case (1 h seen)
  then show ?case by (simp add: leads_to_failure_def)
next
  case (2 h seen stack)
  then show ?case by simp
next
  case (3 h seen a stack)
  show ?case
  proof (cases "a \<in> set seen")
    case True
    then have e: "explored h (set seen) (on_stack stack)"
      using "3.prems" by (auto simp: explored_def)
    with True "3.IH"(1) explored_leads [OF e True] show ?thesis by simp
  next
    case False
    show ?thesis
    proof (cases "dict_get h a")
      case None
      then have a: "\<not> transport_failure h a" "linked h a = {}" by (simp_all add: transport_failure_def linked_def)
      have "explored h (set seen) (on_stack stack)"
        using "3.prems" None by (auto simp: explored_def)
      then show ?thesis using False None "3.IH"(2) a by (simp add: leads_step)
    next
      case (Some x)
      show ?thesis
      proof (cases "is_http_client_error x")
        case True
        with Some have "transport_failure h a" by (simp add: transport_failure_def)
        with True Some False show ?thesis by (simp add: leads_step)
      next
        case no: False
        let ?s = "exc_context x # exc_cause x # rev (map Some (group_exceptions x)) @ stack"
        have a: "\<not> transport_failure h a" using no Some by (simp add: transport_failure_def)
        have s: "on_stack ?s = linked h a \<union> on_stack stack" using Some by (auto simp: linked_def)
        have "explored h (set (a # seen)) (on_stack ?s)"
          using "3.prems" a unfolding s explored_def by auto
        from "3.IH"(3) [OF False Some no this] show ?thesis
          using False Some no a by (simp add: leads_step s del: on_stack_simps(4))
      qed
    qed
  qed
qed

section \<open>The retry loop\<close>

text \<open>
  The outcome of each attempt is given; the loop returns what the caller sees, and the delays it
  slept through in between. Running out of attempts without a value would be the \<open>RuntimeError\<close> at
  the end of the function.
\<close>

definition STORAGE_TRANSPORT_RETRY_ATTEMPTS :: nat where
  "STORAGE_TRANSPORT_RETRY_ATTEMPTS = 3"

definition STORAGE_TRANSPORT_RETRY_BASE_DELAY_SECONDS :: rat where
  "STORAGE_TRANSPORT_RETRY_BASE_DELAY_SECONDS = 1 / 4"

definition retry_delay :: "nat \<Rightarrow> rat" where
  "retry_delay attempt = STORAGE_TRANSPORT_RETRY_BASE_DELAY_SECONDS * 2 ^ (attempt - 1)"

fun retry_loop ::
  "nat \<Rightarrow> ('e \<Rightarrow> bool) \<Rightarrow> (nat \<Rightarrow> 'e + 'a) \<Rightarrow> nat list \<Rightarrow> ('e + 'a) option \<times> rat list" where
  "retry_loop max_attempts retryable fn [] = (None, [])"
| "retry_loop max_attempts retryable fn (attempt # rest) =
     (case fn attempt of
        Inr x \<Rightarrow> (Some (Inr x), [])
      | Inl e \<Rightarrow>
          if attempt \<ge> max_attempts \<or> \<not> retryable e then (Some (Inl e), [])
          else (let (r, delays) = retry_loop max_attempts retryable fn rest in (r, retry_delay attempt # delays)))"

definition retry_storage_transport_error ::
  "('e \<Rightarrow> bool) \<Rightarrow> (nat \<Rightarrow> 'e + 'a) \<Rightarrow> ('e + 'a) option \<times> rat list" where
  "retry_storage_transport_error retryable fn =
     (let max_attempts = max 1 STORAGE_TRANSPORT_RETRY_ATTEMPTS in
      retry_loop max_attempts retryable fn [1..<max_attempts + 1])"

text \<open>The attempt that settles it: the first that does not end in a transport failure, or the last.\<close>

definition settles :: "('e \<Rightarrow> bool) \<Rightarrow> 'e + 'a \<Rightarrow> bool" where
  "settles retryable r = (case r of Inr _ \<Rightarrow> True | Inl e \<Rightarrow> \<not> retryable e)"

lemma retry_loop_settled:
  assumes "n \<le> k" "k \<le> m" "\<forall>i. n \<le> i \<longrightarrow> i < k \<longrightarrow> \<not> settles retryable (fn i)" "k = m \<or> settles retryable (fn k)"
  shows "retry_loop m retryable fn [n..<m + 1] = (Some (fn k), map retry_delay [n..<k])"
  using assms
proof (induction "k - n" arbitrary: n)
  case 0
  then have n: "n = k" by simp
  then have "[n..<m + 1] = n # [n + 1..<m + 1]" using "0.prems"(2) by (simp add: upt_conv_Cons)
  then show ?case using "0.prems"(4) n by (auto simp: settles_def split: sum.splits)
next
  case (Suc d)
  then have n: "n < k" "[n..<m + 1] = n # [Suc n..<m + 1]" "[n..<k] = n # [Suc n..<k]" by (simp_all add: upt_conv_Cons)
  have "\<not> settles retryable (fn n)" using Suc.prems(3) n(1) by simp
  then obtain e where e: "fn n = Inl e" "retryable e" by (auto simp: settles_def split: sum.splits)
  have "retry_loop m retryable fn [Suc n..<m + 1] = (Some (fn k), map retry_delay [Suc n..<k])"
    using Suc n(1) by (intro Suc.hyps(1)) simp_all
  with e n Suc.prems(2) show ?case by simp
qed

lemma first_settling:
  obtains k where "1 \<le> k" "k \<le> 3" "\<forall>i. 1 \<le> i \<longrightarrow> i < k \<longrightarrow> \<not> settles retryable (fn i)"
    "k = (3::nat) \<or> settles retryable (fn k)"
proof -
  consider "settles retryable (fn 1)" | "\<not> settles retryable (fn 1)" "settles retryable (fn 2)"
    | "\<not> settles retryable (fn 1)" "\<not> settles retryable (fn 2)" by blast
  then show thesis
  proof cases
    case 1
    then show thesis by (intro that [of 1]) simp_all
  next
    case 2
    have "\<forall>i. 1 \<le> i \<longrightarrow> i < 2 \<longrightarrow> \<not> settles retryable (fn i)"
      using 2(1) by (metis One_nat_def less_2_cases not_one_le_zero)
    with 2 show thesis by (intro that [of 2]) simp_all
  next
    case 3
    have "i = Suc 0 \<or> i = 2" if "1 \<le> i" "i < 3" for i :: nat using that by auto
    with 3 show thesis by (intro that [of 3]) auto
  qed
qed

end
