(* ===== verification/Storage_Theorems.thy ===== *)
theory Storage_Theorems
  imports Storage_Codec Storage_Retry
begin

text \<open>
  The properties of the storage component. The laws of the serializer, the hash and the cache library
  are the hypotheses \<open>libs_ok\<close>; \<open>honest\<close> says that the cache holds contents under their own
  digests.
\<close>

section \<open>When storing raises\<close>

definition serializer_error :: "env \<Rightarrow> exn \<Rightarrow> bool" where
  "serializer_error v e \<longleftrightarrow> (\<exists>x pe. dumps v x = Inl pe \<and> e = PyError pe)"

definition io_raises :: "(exn \<Rightarrow> bool) \<Rightarrow> 'a io \<Rightarrow> bool" where
  "io_raises P f \<longleftrightarrow> (\<forall>w e w'. f w = (Inl e, w') \<longrightarrow> P e)"

lemma io_raises_return: "io_raises P (io_return x)"
  by (simp add: io_raises_def io_app)

lemma io_raises_bind: "io_raises P f \<Longrightarrow> (\<And>x. io_raises P (g x)) \<Longrightarrow> io_raises P (io_bind f g)"
  unfolding io_raises_def io_bind_def by (auto split: prod.splits sum.splits)

lemma io_raises_map: "(\<And>x. io_raises P (f x)) \<Longrightarrow> io_raises P (io_map f xs)"
  by (induction xs) (simp_all add: io_raises_return io_raises_bind)

lemma io_raises_dumps: "io_raises (serializer_error v) (io_lift (dumps v x))"
  by (cases "dumps v x") (auto simp: io_raises_def io_app serializer_error_def)

lemma io_raises_upload: "io_raises P (upload_file c k b)"
  by (simp add: io_raises_def upload_file_def)

lemmas io_raises_intros = io_raises_return io_raises_bind io_raises_map io_raises_dumps io_raises_upload

lemma store_blob_raises: "io_raises (serializer_error v) (store_blob v b k x)"
  unfolding store_blob_def by (intro io_raises_intros)

lemma store_collection_raises:
  assumes "0 < py_or ca (config_chunk_size v)"
  shows "io_raises (serializer_error v) (store_collection v pre xs ek ca)"
proof -
  have "io_raises (serializer_error v) (store_chunk v b pre xs k i)" for b k i
    by (simp add: store_chunk_def Let_def store_blob_raises)
  then show ?thesis using assms unfolding store_collection_def Let_def
    by (simp add: io_raises_intros store_blob_raises)
qed

lemma storage_store_raises: "io_raises (serializer_error v) (storage_store v k x)"
  by (auto simp: storage_store_def s3_store_def inline_store_def Let_def intro!: io_raises_intros)

lemma store_collection_as_refs_raises:
  "0 < config_chunk_size v \<Longrightarrow> io_raises (serializer_error v) (store_collection_as_refs v pre xs)"
  unfolding store_collection_as_refs_def
  by (auto simp: store_item_def py_or_def intro!: io_raises_intros storage_store_raises store_collection_raises)

section \<open>Collections\<close>



text \<open>
  C26. Single items. In a store that holds a collection, an index in range, negative ones counting
  from the end, gives the item at that position; any other index raises an IndexError before anything
  is read, whatever the store holds.
\<close>

theorem collection_item_correct:
  assumes "serves v w r xs k ValueElements"
  shows "case py_index (length xs) i of
    Some j \<Rightarrow> yields v w (get_collection_item v retrieve r (int (length xs)) k ValueElements i) (xs ! j)
  | None \<Rightarrow> get_collection_item v retrieve r (int (length xs)) k ValueElements i u = (Inl (PyError IndexError), u)"
proof -
  let ?j = "if i < 0 then int (length xs) + i else i"
  show ?thesis
  proof (cases "0 \<le> ?j \<and> ?j < int (length xs)")
    case True
    then have "py_index (length xs) i = Some (nat ?j)" by (simp add: py_index_def Let_def)
    moreover have "yields v w (get_collection_item v retrieve r (int (length xs)) k ValueElements i) (xs ! nat ?j)"
      using True by (intro item_yields [OF assms refl]) (simp_all add: element_ok_def)
    ultimately show ?thesis by simp
  next
    case False
    then have "py_index (length xs) i = None" by (auto simp: py_index_def Let_def)
    moreover have "?j < 0 \<or> int (length xs) \<le> ?j" using False by linarith
    ultimately show ?thesis by (simp only: get_collection_item_def Let_def if_True io_app option.case)
  qed
qed

definition io_undefined :: "stored \<Rightarrow> pyval io" where
  "io_undefined st = io_raise NoReturnIO"

text \<open>The store of an example: what storing the sample items leaves behind.\<close>

definition sample_store :: store where
  "sample_store = snd (store_collection (sample_env True 2 0) ''p'' sample_items ValueElements None empty_store)"

definition sample_manifest :: object_ref where
  "sample_manifest =
     (case fst (store_collection (sample_env True 2 0) ''p'' sample_items ValueElements None empty_store) of
        Inr (CollectionObject r _ _ _ _ _ _) \<Rightarrow> r | _ \<Rightarrow> ObjectRef [] [] 0 [])"

lemma sample_serves: "serves (sample_env True 2 0) sample_store sample_manifest sample_items 2 ValueElements"
proof -
  let ?v = "sample_env True 2 0"
  obtain res w' where run: "store_collection ?v ''p'' sample_items ValueElements None empty_store = (res, w')"
    by (cases "store_collection ?v ''p'' sample_items ValueElements None empty_store")
  have "\<not> isl (fst (store_collection ?v ''p'' sample_items ValueElements None empty_store))" by code_simp
  then obtain h where h: "res = Inr h" using run by (cases res) simp_all
  have "list_all storable sample_items" by (simp add: sample_items_def)
  from store_collection_holds [OF run [unfolded h] this, of 2] obtain r where
    "h = CollectionObject r (int (length sample_items)) 2 ValueElements 1 None ''list''"
    "holds_collection ?v w' r sample_items 2 ValueElements" "cache w' = cache empty_store"
    by (auto simp: py_or_def sample_env_def)
  then show ?thesis
    using sample_libs_ok honest_empty run h
    by (simp add: serves_def sample_store_def sample_manifest_def honest_def)
qed

theorem collection_item_correct_witness:
  "serves (sample_env True 2 0) sample_store sample_manifest sample_items 2 ValueElements \<and>
   yields (sample_env True 2 0) sample_store
     (get_collection_item (sample_env True 2 0) io_undefined sample_manifest 5 2 ValueElements (- 1)) (VInt (- 5)) \<and>
   get_collection_item (sample_env True 2 0) io_undefined sample_manifest 5 2 ValueElements 5 empty_store =
     (Inl (PyError IndexError), empty_store)"
proof -
  have len: "length sample_items = 5" by (simp add: sample_items_def)
  note t = collection_item_correct [OF sample_serves, where retrieve = io_undefined and u = empty_store, unfolded len]
  have "py_index 5 (- 1) = Some 4" "py_index 5 5 = None" "sample_items ! 4 = VInt (- 5)" by code_simp+
  then show ?thesis using t [of "- 1"] t [of 5] sample_serves by simp
qed

section \<open>Joining and scattering through storage\<close>

text \<open>A list goes to storage as a collection of handles, or inline when externalization is off.\<close>

definition list_store :: "env \<Rightarrow> string \<Rightarrow> pyval list \<Rightarrow> stored io" where
  "list_store v k xs = (if externalization_enabled v then store_collection_as_refs v k xs
     else io_return (InlineObject (VList xs) ''list''))"

lemma list_store_correct:
  assumes "libs_ok v" "honest v w" "0 < config_chunk_size v" "list_all storable xs"
  shows "io_raises (serializer_error v) (list_store v k xs)"
    and "list_store v k xs w = (Inr h, w') \<Longrightarrow>
      reads_as v w' h xs \<and> only_writes v (collection_keys k) w w' \<and> honest v w'"
proof -
  show "io_raises (serializer_error v) (list_store v k xs)"
    unfolding list_store_def by (simp add: store_collection_as_refs_raises [OF assms(3)] io_raises_return)
  assume "list_store v k xs w = (Inr h, w')"
  then have "reads_as v w' h xs \<and> only_writes v (collection_keys k) w w'"
    using store_collection_as_refs_reads [OF _ _ assms]
    by (auto simp: list_store_def io_return_eq inline_reads_as split: if_splits)
  with assms(2) only_writes_honest show "reads_as v w' h xs \<and> only_writes v (collection_keys k) w w' \<and> honest v w'"
    by blast
qed

lemma sort_out_subset: "set (fst (sort_out validate strategy xs)) \<subseteq> set xs"
proof -
  have "set (fst (partition_errors validate xs)) \<subseteq> set xs"
    by (induction xs) (auto simp: case_prod_beta split: option.splits)
  then show ?thesis by (auto simp: sort_out_def split: error_strategy.splits)
qed

text \<open>
  C27. Finalizing a gather. When the items of the gather can be retrieved, with values \<open>xs\<close>, the
  activity raises nothing but what the serializer raises; otherwise the errors it returns are those
  the strategy sets apart, and the handle it returns reads as the remaining values in order, whole,
  as a task result and item by item, with externalization on (a collection of handles, chunked) and
  off (an inline list) alike. Nothing outside the keys of the collection is overwritten.
\<close>

theorem finalize_gather_correct:
  assumes "libs_ok v" "honest v w" "0 < config_chunk_size v" "list_all storable xs"
    and "list_all2 (\<lambda>st. always v w (storage_retrieve n v st)) sts xs"
    and "ys = (if drop_nulls then filter (\<lambda>x. x \<noteq> VNone) xs else xs)"
  shows "case finalize_gather_activity n v validate sts k drop_nulls strategy w of
    (Inl e, w') \<Rightarrow> serializer_error v e
  | (Inr f, w') \<Rightarrow> fin_errors f = snd (sort_out validate strategy ys) \<and>
      reads_as v w' (fin_result f) (fst (sort_out validate strategy ys)) \<and>
      (\<forall>r x. holds_blob v w r x \<longrightarrow> key r \<notin> collection_keys k \<longrightarrow> holds_blob v w' r x)"
proof -
  from yields_map2 [OF assms(5) refl assms(2)] obtain w1 where
    w1: "io_map (storage_retrieve n v) sts w = (Inr xs, w1)" "blobs w1 = blobs w" "honest v w1"
    by (auto simp: yields_def)
  obtain rs es where so: "sort_out validate strategy ys = (rs, es)" by (cases "sort_out validate strategy ys")
  have "set rs \<subseteq> set xs"
    using sort_out_subset [of validate strategy ys] so assms(6) by (auto split: if_splits)
  then have st: "list_all storable rs" using assms(4) by (auto simp: list_all_iff)
  have run: "finalize_gather_activity n v validate sts k drop_nulls strategy w =
      io_bind (list_store v k rs) (\<lambda>st. io_return \<lparr>fin_result = st, fin_errors = es\<rparr>) w1"
    using w1(1) unfolding finalize_gather_activity_def
    by (simp add: io_bind_app assms(6) [symmetric] so list_store_def Let_def)
  note ls = list_store_correct [OF assms(1) w1(3) assms(3) st, of k]
  show ?thesis
  proof (cases "list_store v k rs w1")
    case (Pair res w')
    show ?thesis
    proof (cases res)
      case (Inl e)
      then show ?thesis using ls(1) Pair unfolding run io_raises_def io_bind_def by fastforce
    next
      case (Inr h)
      with ls(2) Pair have "reads_as v w' h rs \<and> only_writes v (collection_keys k) w1 w'" by blast
      then show ?thesis
        using Pair Inr so unfolding run
        by (simp add: io_bind_def io_app only_writes_def holds_blob_cong [OF w1(2)])
    qed
  qed
qed

theorem finalize_gather_correct_witness:
  "list_all2 (\<lambda>st. always (sample_env True 2 0) empty_store (storage_retrieve 3 (sample_env True 2 0) st))
     (map inline sample_items) sample_items \<and>
   \<not> isl (fst (finalize_gather_activity 3 (sample_env True 2 0) (\<lambda>_. None) (map inline sample_items) ''k'' True DROP empty_store)) \<and>
   (case finalize_gather_activity 3 (sample_env True 2 0) (\<lambda>_. None) (map inline sample_items) ''k'' True DROP empty_store of
    (Inl e, w') \<Rightarrow> serializer_error (sample_env True 2 0) e
  | (Inr f, w') \<Rightarrow> fin_errors f = [] \<and>
      reads_as (sample_env True 2 0) w' (fin_result f) [VInt 1, VStr ''two'', VList [VInt 4], VInt (- 5)] \<and>
      (\<forall>r x. holds_blob (sample_env True 2 0) empty_store r x \<longrightarrow> key r \<notin> collection_keys ''k'' \<longrightarrow>
        holds_blob (sample_env True 2 0) w' r x))"
proof -
  let ?v = "sample_env True 2 0"
  have k: "0 < config_chunk_size ?v" by (simp add: sample_env_def)
  have st: "list_all storable sample_items" by (simp add: sample_items_def)
  have ret: "list_all2 (\<lambda>st. always ?v empty_store (storage_retrieve 3 ?v st)) (map inline sample_items) sample_items"
    by (simp add: list_all2_conv_all_nth always_def yields_return storage_retrieve_def s3_retrieve_def inline_def
        eval_nat_numeral)
  have run: "\<not> isl (fst (finalize_gather_activity 3 ?v (\<lambda>_. None) (map inline sample_items) ''k'' True DROP empty_store))"
    by code_simp
  have so: "sort_out (\<lambda>_. None) DROP (if True then filter (\<lambda>x. x \<noteq> VNone) sample_items else sample_items) =
      ([VInt 1, VStr ''two'', VList [VInt 4], VInt (- 5)], [])"
    by (simp add: sort_out_def is_error_info_def sample_items_def)
  from finalize_gather_correct [OF sample_libs_ok honest_empty k st ret refl,
      where drop_nulls = True and strategy = DROP and validate = "\<lambda>_. None" and k = "''k''", unfolded so fst_conv snd_conv] ret run
  show ?thesis by simp
qed

text \<open>
  C28. Scattering through storage. When the collection of a scatter evaluates to a list, the activity
  raises nothing but what the serializer raises, and otherwise the task result that the scheduler
  gives to the stream of the i-th item materializes to the i-th item, with externalization on or off.
\<close>

theorem scatter_item_materializes:
  assumes "libs_ok v" "honest v w1" "0 < config_chunk_size v" "list_all storable xs"
    and "materialize_context n v retryable ctx w = (Inr operand, w1)"
    and "eval collection operand = Inr (VList xs)" and "i < length xs"
  shows "case evaluate_scatter_input n v retryable eval collection ctx k w of
    (Inl e, w') \<Rightarrow> serializer_error v e
  | (Inr st, w') \<Rightarrow> yields v w' (materialize_task_result (m + 2) v (from_collection_item st (int i) tn))
      \<lparr>mat_value = xs ! i, mat_result_typename = tn, mat_error = VNone, mat_error_typename = None,
       mat_interaction = VNone, mat_interaction_id = None, mat_interaction_type = None\<rparr>"
proof -
  have run: "evaluate_scatter_input n v retryable eval collection ctx k w = list_store v k xs w1"
    using assms(5,6) by (simp add: evaluate_scatter_input_def scatter_items_def io_bind_app list_store_def Let_def)
  note ls = list_store_correct [OF assms(1-4), of k]
  show ?thesis
  proof (cases "list_store v k xs w1")
    case (Pair res w')
    show ?thesis
    proof (cases res)
      case (Inl e)
      then show ?thesis using ls(1) Pair unfolding run io_raises_def by fastforce
    next
      case (Inr h)
      let ?tr = "from_collection_item h (int i) tn"
      have "reads_as v w' h xs \<and> honest v w'" using ls(2) Pair Inr by blast
      then have "yields v w' (raw_result (m + 2) v ?tr) (xs ! i)"
        using assms(7) unfolding reads_as_def
        by (auto simp: from_collection_item_def task_result_of_def intro!: alwaysD [of v w'])
      then have "yields v w' (materialize_task_result (m + 2) v ?tr)
        \<lparr>mat_value = xs ! i, mat_result_typename = tn, mat_error = VNone, mat_error_typename = None,
         mat_interaction = VNone, mat_interaction_id = None, mat_interaction_type = None\<rparr>"
        unfolding materialize_task_result_def
        by (rule yields_bind) (simp add: yields_return from_collection_item_def task_result_of_def)
      then show ?thesis using Pair Inr by (simp add: run)
    qed
  qed
qed

theorem scatter_item_materializes_witness:
  "materialize_context 3 (sample_env True 2 0) (\<lambda>_. False) empty_ctx empty_store =
     (Inr \<lparr>mat_ACTIONS = None, mat_TRIGGER = None, mat_ENV = None, mat_SECRETS = None, mat_VARS = None, mat_var = None\<rparr>,
      empty_store) \<and>
   \<not> isl (fst (evaluate_scatter_input 3 (sample_env True 2 0) (\<lambda>_. False) (\<lambda>c _. Inr c) (VList sample_items)
      empty_ctx ''k'' empty_store)) \<and>
   (case evaluate_scatter_input 3 (sample_env True 2 0) (\<lambda>_. False) (\<lambda>c _. Inr c) (VList sample_items)
      empty_ctx ''k'' empty_store of
    (Inl e, w') \<Rightarrow> serializer_error (sample_env True 2 0) e
  | (Inr st, w') \<Rightarrow> yields (sample_env True 2 0) w'
      (materialize_task_result (0 + 2) (sample_env True 2 0) (from_collection_item st (int 3) ''list''))
      \<lparr>mat_value = VList [VInt 4], mat_result_typename = ''list'', mat_error = VNone, mat_error_typename = None,
       mat_interaction = VNone, mat_interaction_id = None, mat_interaction_type = None\<rparr>)"
proof -
  let ?v = "sample_env True 2 0"
  have k: "0 < config_chunk_size ?v" by (simp add: sample_env_def)
  have st: "list_all storable sample_items" "3 < length sample_items" "sample_items ! 3 = VList [VInt 4]"
    by (simp_all add: sample_items_def)
  have ctx: "materialize_context 3 ?v (\<lambda>_. False) empty_ctx empty_store =
     (Inr \<lparr>mat_ACTIONS = None, mat_TRIGGER = None, mat_ENV = None, mat_SECRETS = None, mat_VARS = None, mat_var = None\<rparr>,
      empty_store)"
    by (simp add: materialize_context_def empty_ctx_def materialize_trigger_def truthy_def io_catch_def io_app io_bind_def)
  have run: "\<not> isl (fst (evaluate_scatter_input 3 ?v (\<lambda>_. False) (\<lambda>c _. Inr c) (VList sample_items)
      empty_ctx ''k'' empty_store))" by code_simp
  from scatter_item_materializes [OF sample_libs_ok honest_empty k st(1) ctx,
      where eval = "\<lambda>c _. Inr c" and collection = "VList sample_items" and i = 3 and k = "''k''" and m = 0
        and tn = "''list''", unfolded st(3)] st(2) ctx run
  show ?thesis by simp
qed

section \<open>Integrity\<close>

lemma fetch_verified_digest: "fetch_verified v r u = (Inr c, u') \<Longrightarrow> compute_sha256 v c = sha256 r"
  by (auto simp: fetch_verified_def io_return_eq io_app elim!: io_bind_InrE split: if_splits)

text \<open>
  C29. Integrity. Let a reference carry the digest of the content a value was serialized to. However
  the object store and the cache have changed since, whatever they hold under that reference, reading
  it gives that value or raises: no other value is ever returned.
\<close>

theorem retrieval_integrity:
  assumes "hash_ok v" "codec_ok v" "storable x" "dumps v x = Inr c" "sha256 r = compute_sha256 v c"
    and "retrieve_stored_object (Suc n) v (ExternalObject r tn) u = (Inr y, u')"
  shows "y = x"
proof -
  from assms(6) obtain d u1 where d: "fetch_verified v r u = (Inr d, u1)" "io_lift (loads v d) u1 = (Inr y, u')"
    by (auto simp: retrieve_external_def elim!: io_bind_InrE)
  then have "compute_sha256 v d = compute_sha256 v c" using fetch_verified_digest assms(5) by simp
  then have "d = c" using assms(1) by (simp add: hash_ok_def inj_eq)
  then have "loads v d = Inr x" using assms(2-4) by (simp add: codec_ok_def)
  with d(2) show ?thesis by (simp add: io_app)
qed

theorem retrieval_integrity_witness:
  "dumps (sample_env True 2 0) (VInt 7) = Inr ''i7:'' \<and>
   fst (retrieve_stored_object (Suc 0) (sample_env True 2 0) (ExternalObject (ObjectRef ''b'' ''k'' 3 ''i7:'') None)
     \<lparr>blobs = [((''b'', ''k''), ''i7:'')], cache = [(''other'', ''junk'')]\<rparr>) = Inr (VInt 7)"
proof -
  let ?v = "sample_env True 2 0" and ?r = "ObjectRef ''b'' ''k'' 3 ''i7:''"
  let ?w = "\<lparr>blobs = [((''b'', ''k''), ''i7:'')], cache = [(''other'', ''junk'')]\<rparr>"
  have d: "dumps ?v (VInt 7) = Inr ''i7:''" "\<not> isl (loads ?v ''i7:'')" by code_simp+
  then obtain z where z: "loads ?v ''i7:'' = Inr z" by (cases "loads ?v ''i7:''") simp_all
  have e: "compute_sha256 ?v = (\<lambda>c. c)" "expire ?v = (\<lambda>d. d)" "evict ?v = (\<lambda>d. d)" by (simp_all add: sample_env_def)
  have "hash_ok ?v" "codec_ok ?v" using sample_libs_ok by (simp_all add: libs_ok_def)
  note integrity = retrieval_integrity [OF this _ d(1), of ?r 0 None ?w]
  obtain u' where run: "retrieve_stored_object (Suc 0) ?v (ExternalObject ?r None) ?w = (Inr z, u')"
    by (simp add: retrieve_external_def fetch_verified_def cached_blob_download_def cache_get_def cache_set_def
        download_file_def io_bind_def io_app e z MAX_CACHEABLE_BLOB_SIZE_def BLOB_CACHE_MAX_BYTES_def)
  from integrity [OF _ _ run] have "z = VInt 7" by (simp add: e)
  with run d(1) show ?thesis by simp
qed

text \<open>
  A corrupted download stays in the cache. The content is filed under the digest the caller
  expects before the digest is verified. When what the object store returned has another digest and
  fits into the cache, the read raises, and so does the next read of the same reference, even when the
  object store holds the right content by then, for as long as the cache library keeps the entry.
\<close>

theorem corrupted_download_is_cached:
  assumes "\<forall>d. expire v d = d" "\<forall>d. evict v d = d"
    and "dict_get (cache w) (sha256 r) = None" "dict_get (blobs w) (bucket r, key r) = Some c"
    and "compute_sha256 v c \<noteq> sha256 r" "length c \<le> MAX_CACHEABLE_BLOB_SIZE"
  shows "\<exists>w1. fetch_verified v r w = (Inl (PyError ValueError), w1) \<and>
    (\<forall>repaired. fst (fetch_verified v r (w1\<lparr>blobs := repaired\<rparr>)) = Inl (PyError ValueError))"
proof -
  let ?w1 = "w\<lparr>cache := dict_set (sha256 r) c (cache w)\<rparr>"
  have "length c \<le> BLOB_CACHE_MAX_BYTES"
    using assms(6) by (simp add: MAX_CACHEABLE_BLOB_SIZE_def BLOB_CACHE_MAX_BYTES_def)
  then have "cached_blob_download v (sha256 r) (bucket r) (key r) w = (Inr c, ?w1)"
    using assms by (simp add: cached_blob_download_def cache_get_def cache_set_def download_file_def io_bind_def io_app)
  then have "fetch_verified v r w = (Inl (PyError ValueError), ?w1)"
    using assms(5) by (simp add: fetch_verified_def io_bind_def io_app)
  moreover have "fst (fetch_verified v r (?w1\<lparr>blobs := repaired\<rparr>)) = Inl (PyError ValueError)" for repaired
    using assms(1,5) by (simp add: fetch_verified_def cached_blob_download_def cache_get_def io_bind_def io_app)
  ultimately show ?thesis by blast
qed

theorem corrupted_download_is_cached_witness:
  "\<exists>w1. fetch_verified (sample_env True 2 0) (ObjectRef ''b'' ''k'' 3 ''i7:'')
       \<lparr>blobs = [((''b'', ''k''), ''broken'')], cache = []\<rparr> = (Inl (PyError ValueError), w1) \<and>
    (\<forall>repaired. fst (fetch_verified (sample_env True 2 0) (ObjectRef ''b'' ''k'' 3 ''i7:'') (w1\<lparr>blobs := repaired\<rparr>)) =
      Inl (PyError ValueError))"
  by (rule corrupted_download_is_cached [where c = "''broken''"])
    (simp_all add: sample_env_def MAX_CACHEABLE_BLOB_SIZE_def)

section \<open>Handles as documents\<close>

text \<open>
  Documents. A stored-object handle of any kind, a manifest and a chunk each read back from the
  document written for them as what they were.
\<close>

theorem stored_documents_round_trip:
  "parse_stored (dump_stored st) = Inr st \<and> parse_manifest (dump_manifest m) = Inr m \<and>
   parse_chunk (dump_chunk i xs) = Inr (i, xs)"
  by simp

section \<open>Retrying\<close>

text \<open>
  C32. Which failures are retried. The search through an exception's causes, contexts and groups
  answers true exactly when a transport failure can be reached along these links. It ends on every
  heap of exceptions, cyclic ones included, since the definition is total.
\<close>

theorem retryable_iff_reachable:
  "is_retryable_storage_transport_error h e \<longleftrightarrow> (\<exists>b. (e, b) \<in> (links h)\<^sup>* \<and> transport_failure h b)"
proof -
  have "explored h (set []) (on_stack [Some e])" by (simp add: explored_def)
  from search_correct [OF this] show ?thesis
    by (simp add: is_retryable_storage_transport_error_def leads_to_failure_def)
qed

text \<open>
  C33. The retry loop. There are at most three attempts. The caller gets the outcome of the first
  attempt that does not end in a transport failure, or of the third, after delays of 0.25 seconds
  that double; the RuntimeError at the end of the function is never reached.
\<close>

theorem retry_first_settling_attempt:
  "\<exists>k \<le> 3. 1 \<le> k \<and> retry_storage_transport_error retryable fn = (Some (fn k), map (\<lambda>i. 2 ^ (i - 1) / 4) [1..<k]) \<and>
    (k = 3 \<or> settles retryable (fn k)) \<and> \<not> (\<exists>i < k. 1 \<le> i \<and> settles retryable (fn i))"
proof -
  obtain k where k: "1 \<le> k" "k \<le> 3" "\<forall>i. 1 \<le> i \<longrightarrow> i < k \<longrightarrow> \<not> settles retryable (fn i)"
    "k = (3::nat) \<or> settles retryable (fn k)"
    by (rule first_settling)
  have "retry_delay = (\<lambda>i. 2 ^ (i - 1) / 4)"
    by (simp add: fun_eq_iff retry_delay_def STORAGE_TRANSPORT_RETRY_BASE_DELAY_SECONDS_def)
  then have "retry_storage_transport_error retryable fn = (Some (fn k), map (\<lambda>i. 2 ^ (i - 1) / 4) [1..<k])"
    using retry_loop_settled [OF k] unfolding retry_storage_transport_error_def
    by (simp add: STORAGE_TRANSPORT_RETRY_ATTEMPTS_def del: upt_Suc)
  with k show ?thesis by blast
qed

end
