(* ===== verification/Permit_Semaphore.thy ===== *)
theory Permit_Semaphore
  imports Dsl_Types
begin

text \<open>
  Concurrency permits (\<open>tiers/semaphore.py\<close>, \<open>tiers/permits.py\<close>, \<open>tiers/limits_cache.py\<close>,
  \<open>tiers/service.py\<close>, \<open>tiers/access.py\<close>, \<open>tiers/activities.py\<close>). Each organization has
  a sorted set in Redis per kind of permit, with the holders as members and the time of their last
  sign of life as scores. The scripts run atomically in Redis, so a run of the system is a sequence
  of operations, each with the time its client read before the call.
\<close>

section \<open>Redis\<close>

text \<open>
  A sorted set maps members to scores; a key without a set stands for the empty one. The strings hold
  the cached limits. Which strings have expired by the time of a read is a parameter of the reading
  operation.
\<close>

type_synonym zset = "(string, int) dict"

record redis =
  zsets :: "(string, zset) dict"
  strings :: "(string, string) dict"

definition zset_of :: "redis \<Rightarrow> string \<Rightarrow> zset" where
  "zset_of r k = dict_get_default (zsets r) k []"

definition put_zset :: "string \<Rightarrow> zset \<Rightarrow> redis \<Rightarrow> redis" where
  "put_zset k z r = r\<lparr>zsets := dict_set k z (zsets r)\<rparr>"

definition zscore :: "redis \<Rightarrow> string \<Rightarrow> string \<Rightarrow> int option" where
  "zscore r k m = dict_get (zset_of r k) m"

definition zadd :: "string \<Rightarrow> int \<Rightarrow> string \<Rightarrow> redis \<Rightarrow> redis" where
  "zadd k score m r = put_zset k (dict_set m score (zset_of r k)) r"

definition zrem :: "string \<Rightarrow> string \<Rightarrow> redis \<Rightarrow> redis" where
  "zrem k m r = put_zset k (dict_pop m (zset_of r k)) r"

definition zcard :: "redis \<Rightarrow> string \<Rightarrow> nat" where
  "zcard r k = length (zset_of r k)"

text \<open>\<open>ZREMRANGEBYSCORE key -inf max\<close> removes the scores up to \<open>max\<close>, which is included.\<close>

definition zremrangebyscore :: "string \<Rightarrow> int \<Rightarrow> redis \<Rightarrow> redis" where
  "zremrangebyscore k mx r = put_zset k (dict_filter (\<lambda>_ score. \<not> score \<le> mx) (zset_of r k)) r"

section \<open>The semaphore\<close>

datatype permit_scope = WORKFLOW_PERMIT | ACTION_PERMIT

definition scope_text :: "permit_scope \<Rightarrow> string" where
  "scope_text sc = (case sc of WORKFLOW_PERMIT \<Rightarrow> ''workflow'' | ACTION_PERMIT \<Rightarrow> ''action'')"

definition semaphore_key :: "string \<Rightarrow> permit_scope \<Rightarrow> string" where
  "semaphore_key org sc = ''tier:org:'' @ org @ '':'' @ scope_text sc @ ''-semaphore''"

definition DEFAULT_TTL_SECONDS :: int where
  "DEFAULT_TTL_SECONDS = 300"

record acquire_result =
  acquired :: bool
  current_count :: int

definition acquire_script :: "string \<Rightarrow> string \<Rightarrow> int \<Rightarrow> int \<Rightarrow> int \<Rightarrow> redis \<Rightarrow> acquire_result \<times> redis" where
  "acquire_script k wf_id limit now ttl r =
     (let r1 = zremrangebyscore k (now - ttl) r in
      if zscore r1 k wf_id \<noteq> None then
        (let r2 = zadd k now wf_id r1 in (\<lparr>acquired = True, current_count = int (zcard r2 k)\<rparr>, r2))
      else
        (let count = int (zcard r1 k) in
         if count \<ge> limit then (\<lparr>acquired = False, current_count = count\<rparr>, r1)
         else (\<lparr>acquired = True, current_count = count + 1\<rparr>, zadd k now wf_id r1)))"

definition heartbeat_script :: "string \<Rightarrow> string \<Rightarrow> int \<Rightarrow> redis \<Rightarrow> bool \<times> redis" where
  "heartbeat_script k permit_id now r =
     (if zscore r k permit_id = None then (False, r) else (True, zadd k now permit_id r))"

definition sem_acquire ::
  "int \<Rightarrow> permit_scope \<Rightarrow> string \<Rightarrow> string \<Rightarrow> int \<Rightarrow> int \<Rightarrow> redis \<Rightarrow> acquire_result \<times> redis" where
  "sem_acquire ttl sc org permit_id limit now r = acquire_script (semaphore_key org sc) permit_id limit now ttl r"

definition sem_release :: "permit_scope \<Rightarrow> string \<Rightarrow> string \<Rightarrow> redis \<Rightarrow> redis" where
  "sem_release sc org permit_id r = zrem (semaphore_key org sc) permit_id r"

definition sem_heartbeat :: "permit_scope \<Rightarrow> string \<Rightarrow> string \<Rightarrow> int \<Rightarrow> redis \<Rightarrow> bool \<times> redis" where
  "sem_heartbeat sc org permit_id now r = heartbeat_script (semaphore_key org sc) permit_id now r"

definition sem_get_count :: "int \<Rightarrow> permit_scope \<Rightarrow> string \<Rightarrow> int \<Rightarrow> redis \<Rightarrow> nat \<times> redis" where
  "sem_get_count ttl sc org now r =
     (let k = semaphore_key org sc; r1 = zremrangebyscore k (now - ttl) r in (zcard r1 k, r1))"

section \<open>Effective limits\<close>

record limits =
  api_rate_limit :: "int option"
  api_burst_capacity :: "int option"
  max_concurrent_workflows :: "int option"
  max_action_executions_per_workflow :: "int option"
  max_concurrent_actions :: "int option"

definition DEFAULT_LIMITS :: limits where
  "DEFAULT_LIMITS = \<lparr>api_rate_limit = None, api_burst_capacity = None, max_concurrent_workflows = None,
     max_action_executions_per_workflow = None, max_concurrent_actions = None\<rparr>"

text \<open>
  The rows of the database that decide: an organization may have a row with its own limits, which may
  point to a tier; otherwise the active default tier counts.
\<close>

record tier_db =
  org_rows :: "(string, limits \<times> limits option) dict"
  default_tier :: "limits option"

datatype tier_error =
    DefaultTierNotConfiguredError
  | InvalidOrganizationConcurrencyCapError permit_scope string int

definition get_org_tier_and_resolved_tier :: "tier_db \<Rightarrow> string \<Rightarrow> tier_error + (limits option \<times> limits)" where
  "get_org_tier_and_resolved_tier db org =
     (let row = dict_get (org_rows db) org in
      case row of
        Some (own, Some tier) \<Rightarrow> Inr (Some own, tier)
      | _ \<Rightarrow>
          (case default_tier db of
             None \<Rightarrow> Inl DefaultTierNotConfiguredError
           | Some tier \<Rightarrow> Inr (map_option fst row, tier)))"

definition resolve_limit :: "(limits \<Rightarrow> int option) \<Rightarrow> limits option \<Rightarrow> limits \<Rightarrow> int option" where
  "resolve_limit field own tier =
     (case (case own of None \<Rightarrow> None | Some l \<Rightarrow> field l) of Some i \<Rightarrow> Some i | None \<Rightarrow> field tier)"

definition get_effective_limits :: "bool \<Rightarrow> tier_db \<Rightarrow> string \<Rightarrow> tier_error + limits" where
  "get_effective_limits multi_tenant db org =
     (if \<not> multi_tenant then Inr DEFAULT_LIMITS
      else
        rbind (get_org_tier_and_resolved_tier db org) (\<lambda>(own, tier).
          Inr \<lparr>api_rate_limit = resolve_limit api_rate_limit own tier,
               api_burst_capacity = resolve_limit api_burst_capacity own tier,
               max_concurrent_workflows = resolve_limit max_concurrent_workflows own tier,
               max_action_executions_per_workflow = resolve_limit max_action_executions_per_workflow own tier,
               max_concurrent_actions = resolve_limit max_concurrent_actions own tier\<rparr>))"

text \<open>
  The cache of limits in Redis. Its text form is a parameter: \<open>dump\<close> and \<open>load\<close> of the limits. An
  entry that does not load is dropped. \<open>visible\<close> says whether the entry is still there at the time
  of the read, and \<open>ttl\<close> is the configured lifetime; 0 turns the cache off. An exception of the
  client counts as an empty cache, which \<open>visible\<close> covers too.
\<close>

definition limits_cache_key :: "string \<Rightarrow> string" where
  "limits_cache_key org = ''tier:org:'' @ org @ '':effective-limits:v1''"

record limits_config =
  limits_dump :: "limits \<Rightarrow> string"
  limits_load :: "string \<Rightarrow> limits option"
  limits_ttl :: int
  multi_tenant :: bool
  permit_ttl :: int

definition get_effective_limits_cached ::
  "limits_config \<Rightarrow> bool \<Rightarrow> string \<Rightarrow> redis \<Rightarrow> limits option \<times> redis" where
  "get_effective_limits_cached cf visible org r =
     (if limits_ttl cf \<le> 0 then (None, r)
      else
        (case (if visible then dict_get (strings r) (limits_cache_key org) else None) of
           None \<Rightarrow> (None, r)
         | Some payload \<Rightarrow>
             (case limits_load cf payload of
                Some l \<Rightarrow> (Some l, r)
              | None \<Rightarrow> (None, r\<lparr>strings := dict_pop (limits_cache_key org) (strings r)\<rparr>))))"

definition set_effective_limits_cached :: "limits_config \<Rightarrow> string \<Rightarrow> limits \<Rightarrow> redis \<Rightarrow> redis" where
  "set_effective_limits_cached cf org l r =
     (if limits_ttl cf \<le> 0 then r
      else r\<lparr>strings := dict_set (limits_cache_key org) (limits_dump cf l) (strings r)\<rparr>)"

definition invalidate_effective_limits_cache :: "string \<Rightarrow> redis \<Rightarrow> redis" where
  "invalidate_effective_limits_cache org r = r\<lparr>strings := dict_pop (limits_cache_key org) (strings r)\<rparr>"

definition invalidate_effective_limits_cache_many :: "string list \<Rightarrow> redis \<Rightarrow> redis" where
  "invalidate_effective_limits_cache_many orgs r =
     (if orgs = [] then r else fold invalidate_effective_limits_cache orgs r)"

definition get_effective_limits_for_org ::
  "limits_config \<Rightarrow> tier_db \<Rightarrow> bool \<Rightarrow> string \<Rightarrow> redis \<Rightarrow> (tier_error + (limits \<times> string)) \<times> redis" where
  "get_effective_limits_for_org cf db visible org r =
     (let (hit, r1) = get_effective_limits_cached cf visible org r in
      case hit of
        Some l \<Rightarrow> (Inr (l, ''cache''), r1)
      | None \<Rightarrow>
          (case get_effective_limits (multi_tenant cf) db org of
             Inl e \<Rightarrow> (Inl e, r1)
           | Inr l \<Rightarrow> (Inr (l, ''db''), set_effective_limits_cached cf org l r1)))"

section \<open>The permit service\<close>

definition UNBOUNDED_CONCURRENCY_LIMIT :: int where
  "UNBOUNDED_CONCURRENCY_LIMIT = 2147483647"

definition normalize_concurrency_limit :: "int option \<Rightarrow> string \<Rightarrow> permit_scope \<Rightarrow> tier_error + int" where
  "normalize_concurrency_limit limit org sc =
     (case limit of
        None \<Rightarrow> Inr UNBOUNDED_CONCURRENCY_LIMIT
      | Some l \<Rightarrow> if l \<le> 0 then Inl (InvalidOrganizationConcurrencyCapError sc org l) else Inr l)"

definition limit_field :: "permit_scope \<Rightarrow> limits \<Rightarrow> int option" where
  "limit_field sc l =
     (case sc of WORKFLOW_PERMIT \<Rightarrow> max_concurrent_workflows l | ACTION_PERMIT \<Rightarrow> max_concurrent_actions l)"

record acquire_outcome =
  outcome_result :: acquire_result
  effective_limit :: int
  cap_source :: string

text \<open>\<open>acquire_workflow_permit\<close> and \<open>acquire_action_permit\<close> differ in the scope only.\<close>

definition acquire_permit ::
  "limits_config \<Rightarrow> tier_db \<Rightarrow> bool \<Rightarrow> permit_scope \<Rightarrow> string \<Rightarrow> string \<Rightarrow> int \<Rightarrow> redis \<Rightarrow>
   (tier_error + acquire_outcome) \<times> redis" where
  "acquire_permit cf db visible sc org permit_id now r =
     (case get_effective_limits_for_org cf db visible org r of
        (Inl e, r1) \<Rightarrow> (Inl e, r1)
      | (Inr (l, source), r1) \<Rightarrow>
          (case normalize_concurrency_limit (limit_field sc l) org sc of
             Inl e \<Rightarrow> (Inl e, r1)
           | Inr limit \<Rightarrow>
               (let (res, r2) = sem_acquire (permit_ttl cf) sc org permit_id limit now r1 in
                (Inr \<lparr>outcome_result = res, effective_limit = limit, cap_source = source\<rparr>, r2))))"

definition release_permit :: "permit_scope \<Rightarrow> string \<Rightarrow> string \<Rightarrow> redis \<Rightarrow> redis" where
  "release_permit sc org permit_id r = sem_release sc org permit_id r"

definition heartbeat_permit :: "permit_scope \<Rightarrow> string \<Rightarrow> string \<Rightarrow> int \<Rightarrow> redis \<Rightarrow> bool \<times> redis" where
  "heartbeat_permit sc org permit_id now r = sem_heartbeat sc org permit_id now r"

text \<open>The activity turns an invalid cap into an error that is not retried; others pass through.\<close>

definition acquire_permit_activity ::
  "limits_config \<Rightarrow> tier_db \<Rightarrow> bool \<Rightarrow> permit_scope \<Rightarrow> string \<Rightarrow> string \<Rightarrow> int \<Rightarrow> redis \<Rightarrow>
   (exn + acquire_result) \<times> redis" where
  "acquire_permit_activity cf db visible sc org permit_id now r =
     (case acquire_permit cf db visible sc org permit_id now r of
        (Inr oc, r1) \<Rightarrow> (Inr (outcome_result oc), r1)
      | (Inl (InvalidOrganizationConcurrencyCapError _ _ _), r1) \<Rightarrow>
          (Inl (ApplicationError ''InvalidOrganizationConcurrencyCap'' []), r1)
      | (Inl DefaultTierNotConfiguredError, r1) \<Rightarrow> (Inl (ForeignError ''DefaultTierNotConfiguredError'' []), r1))"

section \<open>Runs\<close>

text \<open>
  What clients do to the service. The database and the cache may change between operations, so every
  acquisition carries the database it reads and whether its cache entry is visible; invalidations and
  counts happen too.
\<close>

datatype permit_op =
    AcquireOp tier_db bool permit_scope string string int
  | ReleaseOp permit_scope string string
  | HeartbeatOp permit_scope string string int
  | CountOp permit_scope string int
  | InvalidateOp "string list"

fun permit_step :: "limits_config \<Rightarrow> permit_op \<Rightarrow> redis \<Rightarrow> redis" where
  "permit_step cf (AcquireOp db visible sc org i now) r = snd (acquire_permit_activity cf db visible sc org i now r)"
| "permit_step cf (ReleaseOp sc org i) r = release_permit sc org i r"
| "permit_step cf (HeartbeatOp sc org i now) r = snd (heartbeat_permit sc org i now r)"
| "permit_step cf (CountOp sc org now) r = snd (sem_get_count (permit_ttl cf) sc org now r)"
| "permit_step cf (InvalidateOp orgs) r = invalidate_effective_limits_cache_many orgs r"

definition permit_run :: "limits_config \<Rightarrow> permit_op list \<Rightarrow> redis \<Rightarrow> redis" where
  "permit_run cf ops r = fold (permit_step cf) ops r"

definition empty_redis :: redis where
  "empty_redis = \<lparr>zsets = [], strings = []\<rparr>"

end
