(* ===== verification/Permit_Laws.thy ===== *)
theory Permit_Laws
  imports Permit_Semaphore
begin

text \<open>
  Permits as leases: the abstract state of a semaphore maps each holder to the time of its last sign
  of life. The scripts implement operations on leases; what holds of all semaphores of that kind is
  proved in a locale.
\<close>

section \<open>Keys\<close>

lemma semaphore_key_inject: "semaphore_key o1 s1 = semaphore_key o2 s2 \<longleftrightarrow> o1 = o2 \<and> s1 = s2"
proof -
  have suffix: "rev (semaphore_key org sc) = rev ''-semaphore'' @ rev (scope_text sc) @ '':'' @ rev org @ rev ''tier:org:''"
    for org sc by (simp add: semaphore_key_def)
  show ?thesis
    by (subst rev_is_rev_conv [symmetric], unfold suffix) (cases s1; cases s2; simp add: scope_text_def)
qed

lemma zset_put [simp]: "zset_of (put_zset k z r) k' = (if k' = k then z else zset_of r k')"
  by (simp add: zset_of_def put_zset_def dict_get_default_def)

lemma strings_put [simp]: "strings (put_zset k z r) = strings r"
  by (simp add: put_zset_def)

lemma zset_strings [simp]: "zset_of (r\<lparr>strings := x\<rparr>) k = zset_of r k"
  by (simp add: zset_of_def)

section \<open>Leases\<close>

definition leases :: "permit_scope \<Rightarrow> string \<Rightarrow> redis \<Rightarrow> string \<rightharpoonup> int" where
  "leases sc org r = dict_get (zset_of r (semaphore_key org sc))"

definition well_kept :: "redis \<Rightarrow> bool" where
  "well_kept r \<longleftrightarrow> (\<forall>k. distinct (dict_keys (zset_of r k)))"

definition live :: "int \<Rightarrow> (string \<rightharpoonup> int) \<Rightarrow> (string \<rightharpoonup> int)" where
  "live deadline h = (\<lambda>i. case h i of None \<Rightarrow> None | Some t \<Rightarrow> if t \<le> deadline then None else Some t)"

lemma live_Some [simp]: "live d h i = Some t \<longleftrightarrow> h i = Some t \<and> d < t"
  by (auto simp: live_def split: option.splits)

lemma live_None: "live d h i = None \<longleftrightarrow> (\<forall>t. h i = Some t \<longrightarrow> t \<le> d)"
  by (auto simp: live_def split: option.splits)

lemma dom_live: "dom (live d h) \<subseteq> dom h"
  by (auto simp: dom_def)

lemma dict_filter_live: "distinct (dict_keys z) \<Longrightarrow> dict_get (dict_filter (\<lambda>_ t. \<not> t \<le> d) z) = live d (dict_get z)"
  by (rule ext) (simp add: dict_get_filter live_def split: option.splits)

lemma prune_zset [simp]:
  "zset_of (zremrangebyscore k d r) k' =
     (if k' = k then dict_filter (\<lambda>_ t. \<not> t \<le> d) (zset_of r k) else zset_of r k')"
  by (simp add: zremrangebyscore_def)

lemma zadd_zset [simp]:
  "zset_of (zadd k t i r) k' = (if k' = k then dict_set i t (zset_of r k) else zset_of r k')"
  by (simp add: zadd_def)

lemma zrem_zset [simp]:
  "zset_of (zrem k i r) k' = (if k' = k then dict_pop i (zset_of r k) else zset_of r k')"
  by (simp add: zrem_def)

lemma well_kept_ops [intro]:
  "well_kept r \<Longrightarrow> well_kept (zremrangebyscore k d r)"
  "well_kept r \<Longrightarrow> well_kept (zadd k t i r)"
  "well_kept r \<Longrightarrow> well_kept (zrem k i r)"
  "well_kept r \<Longrightarrow> well_kept (r\<lparr>strings := x\<rparr>)"
  by (auto simp: well_kept_def)

lemma zcard_card: "well_kept r \<Longrightarrow> zcard r (semaphore_key org sc) = card (dom (leases sc org r))"
  unfolding zcard_def leases_def well_kept_def
  by (metis dom_map_of_conv_image_fst distinct_card length_map set_map)

section \<open>The scripts on leases\<close>

definition acquire_spec :: "int \<Rightarrow> string \<Rightarrow> int \<Rightarrow> int \<Rightarrow> (string \<rightharpoonup> int) \<Rightarrow> bool \<times> (string \<rightharpoonup> int)" where
  "acquire_spec ttl i limit now h =
     (let h1 = live (now - ttl) h in
      if i \<in> dom h1 \<or> int (card (dom h1)) < limit then (True, h1(i \<mapsto> now)) else (False, h1))"

definition heartbeat_spec :: "string \<Rightarrow> int \<Rightarrow> (string \<rightharpoonup> int) \<Rightarrow> bool \<times> (string \<rightharpoonup> int)" where
  "heartbeat_spec i now h = (if i \<in> dom h then (True, h(i \<mapsto> now)) else (False, h))"

lemma leases_prune:
  "well_kept r \<Longrightarrow> leases sc org (zremrangebyscore (semaphore_key org sc) d r) = live d (leases sc org r)"
  by (simp add: leases_def well_kept_def dict_filter_live)

lemma leases_zadd: "leases sc org (zadd (semaphore_key org sc) t i r) = (leases sc org r)(i \<mapsto> t)"
  by (simp add: leases_def fun_eq_iff)

lemma leases_zrem: "leases sc org (zrem (semaphore_key org sc) i r) = (leases sc org r)(i := None)"
  by (simp add: leases_def fun_eq_iff dict_get_pop)

lemma sem_acquire_leases:
  assumes "well_kept r" "sem_acquire ttl sc org i limit now r = (res, r')"
  shows "well_kept r'" and "(acquired res, leases sc org r') = acquire_spec ttl i limit now (leases sc org r)"
    and "current_count res = int (card (dom (leases sc org r')))"
proof -
  let ?k = "semaphore_key org sc"
  let ?r1 = "zremrangebyscore ?k (now - ttl) r"
  let ?h1 = "live (now - ttl) (leases sc org r)"
  have w1: "well_kept ?r1" and l1: "leases sc org ?r1 = ?h1" using assms(1) by (auto simp: leases_prune)
  have z: "zscore ?r1 ?k i = ?h1 i" using l1 by (simp add: zscore_def leases_def)
  have c: "zcard ?r1 ?k = card (dom ?h1)" using zcard_card [OF w1] l1 by simp
  have fin: "finite (dom ?h1)" using l1 by (metis finite_dom_map_of leases_def)
  have w2: "well_kept (zadd ?k now i ?r1)" and l2: "leases sc org (zadd ?k now i ?r1) = ?h1(i \<mapsto> now)"
    using w1 l1 by (auto simp: leases_zadd)
  note c2 = zcard_card [OF w2, of org sc, unfolded l2]
  consider "i \<in> dom ?h1" | "i \<notin> dom ?h1" "limit \<le> int (card (dom ?h1))" | "i \<notin> dom ?h1" "\<not> limit \<le> int (card (dom ?h1))"
    by blast
  then have "well_kept r' \<and> (acquired res, leases sc org r') = acquire_spec ttl i limit now (leases sc org r) \<and>
      current_count res = int (card (dom (leases sc org r')))"
  proof cases
    case 1
    then have "zscore ?r1 ?k i \<noteq> None" using z by auto
    then have "res = \<lparr>acquired = True, current_count = int (zcard (zadd ?k now i ?r1) ?k)\<rparr>" "r' = zadd ?k now i ?r1"
      using assms(2) by (auto simp: sem_acquire_def acquire_script_def Let_def)
    then show ?thesis using 1 w2 l2 c2 by (simp add: acquire_spec_def Let_def)
  next
    case 2
    then have "zscore ?r1 ?k i = None" using z by auto
    then have "res = \<lparr>acquired = False, current_count = int (card (dom ?h1))\<rparr>" "r' = ?r1"
      using assms(2) 2 c by (auto simp: sem_acquire_def acquire_script_def Let_def)
    then show ?thesis using 2 w1 l1 by (auto simp: acquire_spec_def Let_def)
  next
    case 3
    then have "zscore ?r1 ?k i = None" using z by auto
    then have "res = \<lparr>acquired = True, current_count = int (card (dom ?h1)) + 1\<rparr>" "r' = zadd ?k now i ?r1"
      using assms(2) 3 c by (auto simp: sem_acquire_def acquire_script_def Let_def)
    then show ?thesis using 3 w2 l2 fin by (simp add: acquire_spec_def Let_def)
  qed
  then show "well_kept r'" "(acquired res, leases sc org r') = acquire_spec ttl i limit now (leases sc org r)"
    "current_count res = int (card (dom (leases sc org r')))" by simp_all
qed

lemma sem_heartbeat_leases:
  assumes "well_kept r" "sem_heartbeat sc org i now r = (ok, r')"
  shows "well_kept r'" and "(ok, leases sc org r') = heartbeat_spec i now (leases sc org r)"
proof -
  have "zscore r (semaphore_key org sc) i = leases sc org r i" by (simp add: zscore_def leases_def)
  with assms show "well_kept r'" "(ok, leases sc org r') = heartbeat_spec i now (leases sc org r)"
    by (auto simp: sem_heartbeat_def heartbeat_script_def heartbeat_spec_def leases_zadd split: if_splits)
qed

text \<open>An operation on one semaphore leaves the others alone.\<close>

lemma other_key:
  assumes "(sc', org') \<noteq> (sc, org)"
  shows "snd (sem_acquire ttl sc' org' i limit now r) = r' \<Longrightarrow> leases sc org r' = leases sc org r"
    and "snd (sem_heartbeat sc' org' i now r) = r' \<Longrightarrow> leases sc org r' = leases sc org r"
    and "leases sc org (sem_release sc' org' i r) = leases sc org r"
    and "leases sc org (snd (sem_get_count ttl sc' org' now r)) = leases sc org r"
  using assms
  by (auto simp: leases_def sem_acquire_def acquire_script_def sem_heartbeat_def heartbeat_script_def
      sem_release_def sem_get_count_def Let_def semaphore_key_inject)

section \<open>Semaphores with leases\<close>

locale lease_semaphore =
  fixes held :: "'s \<Rightarrow> string \<rightharpoonup> int" and invar :: "'s \<Rightarrow> bool" and ttl :: int
    and acquire :: "string \<Rightarrow> int \<Rightarrow> int \<Rightarrow> 's \<Rightarrow> acquire_result \<times> 's"
    and release :: "string \<Rightarrow> 's \<Rightarrow> 's"
    and heartbeat :: "string \<Rightarrow> int \<Rightarrow> 's \<Rightarrow> bool \<times> 's"
  assumes finite_held: "invar s \<Longrightarrow> finite (dom (held s))"
    and acquire_law: "invar s \<Longrightarrow> acquire i limit now s = (res, s') \<Longrightarrow>
      invar s' \<and> (acquired res, held s') = acquire_spec ttl i limit now (held s)"
    and release_law: "invar s \<Longrightarrow> invar (release i s) \<and> held (release i s) = (held s)(i := None)"
    and heartbeat_law: "invar s \<Longrightarrow> heartbeat i now s = (ok, s') \<Longrightarrow>
      invar s' \<and> (ok, held s') = heartbeat_spec i now (held s)"
begin

definition capped :: "int \<Rightarrow> 's \<Rightarrow> bool" where
  "capped limit s \<longleftrightarrow> invar s \<and> int (card (dom (held s))) \<le> limit"

lemma capped_acquire:
  assumes "capped m s" "limit \<le> m" "acquire i limit now s = (res, s')"
  shows "capped m s'"
proof -
  let ?h1 = "live (now - ttl) (held s)"
  have s: "invar s" "int (card (dom (held s))) \<le> m" using assms(1) by (simp_all add: capped_def)
  have fin: "finite (dom (held s))" using finite_held s(1) .
  have h1: "card (dom ?h1) \<le> card (dom (held s))" by (rule card_mono [OF fin dom_live])
  have fin1: "finite (dom ?h1)" using finite_subset [OF dom_live fin] .
  note a = acquire_law [OF s(1) assms(3)]
  have "int (card (dom (held s'))) \<le> m"
  proof (cases "i \<in> dom ?h1 \<or> int (card (dom ?h1)) < limit")
    case True
    then have "held s' = ?h1(i \<mapsto> now)" using a by (auto simp: acquire_spec_def Let_def)
    moreover have "int (card (insert i (dom ?h1))) \<le> m"
      using True h1 s(2) assms(2) fin1 by (cases "i \<in> dom ?h1") (auto simp: insert_absorb card_insert_if)
    ultimately show ?thesis by simp
  next
    case False
    then have "held s' = ?h1" using a by (auto simp: acquire_spec_def Let_def)
    with h1 s(2) show ?thesis by simp
  qed
  with a show ?thesis by (simp add: capped_def)
qed

lemma capped_release: "capped m s \<Longrightarrow> capped m (release i s)"
proof -
  assume s: "capped m s"
  then have "invar s" "finite (dom (held s))" using finite_held by (simp_all add: capped_def)
  moreover from this have "card (dom (held s) - {i}) \<le> card (dom (held s))" by (intro card_mono) auto
  ultimately show ?thesis using s release_law [of s i] by (simp add: capped_def)
qed

lemma capped_heartbeat: "capped m s \<Longrightarrow> heartbeat i now s = (ok, s') \<Longrightarrow> capped m s'"
  using heartbeat_law [of s i now ok s'] by (auto simp: capped_def heartbeat_spec_def insert_absorb split: if_splits)

text \<open>A lease that is renewed in time stays.\<close>

definition kept_since :: "int \<Rightarrow> string \<Rightarrow> 's \<Rightarrow> bool" where
  "kept_since t0 i s \<longleftrightarrow> invar s \<and> (\<exists>t \<ge> t0. held s i = Some t)"

lemma kept_acquire:
  assumes "kept_since t0 i s" "acquire j limit now s = (res, s')" "now < t0 + ttl" "j = i \<Longrightarrow> t0 \<le> now"
  shows "kept_since t0 i s'"
proof -
  from assms(1) obtain t where t: "invar s" "held s i = Some t" "t0 \<le> t" by (auto simp: kept_since_def)
  have "live (now - ttl) (held s) i = Some t" using t assms(3) by simp
  with acquire_law [OF t(1) assms(2)] t(3) assms(4) show ?thesis
    by (auto simp: kept_since_def acquire_spec_def Let_def split: if_splits)
qed

lemma kept_release: "kept_since t0 i s \<Longrightarrow> j \<noteq> i \<Longrightarrow> kept_since t0 i (release j s)"
  using release_law [of s j] by (auto simp: kept_since_def)

lemma kept_heartbeat:
  assumes "kept_since t0 i s" "heartbeat j now s = (ok, s')" "j = i \<Longrightarrow> t0 \<le> now"
  shows "kept_since t0 i s'"
  using assms heartbeat_law [of s j now ok s'] by (auto simp: kept_since_def heartbeat_spec_def split: if_splits)

text \<open>When enough leases are alive nobody else gets a permit.\<close>

lemma full_refuses:
  assumes "\<And>j. j \<in> J \<Longrightarrow> kept_since t0 j s" "invar s" "now < t0 + ttl" "i \<notin> dom (held s)" "limit \<le> int (card J)"
    and "acquire i limit now s = (res, s')"
  shows "\<not> acquired res"
proof -
  let ?h1 = "live (now - ttl) (held s)"
  have "J \<subseteq> dom ?h1"
  proof
    fix j assume "j \<in> J"
    from assms(1) [OF this] obtain t where "held s j = Some t" "t0 \<le> t" by (auto simp: kept_since_def)
    then have "?h1 j = Some t" using assms(3) by simp
    then show "j \<in> dom ?h1" by blast
  qed
  then have "card J \<le> card (dom ?h1)"
    using card_mono finite_subset [OF dom_live finite_held [OF assms(2)]] by blast
  then have "\<not> int (card (dom ?h1)) < limit" using assms(5) by linarith
  moreover have "i \<notin> dom ?h1" using assms(4) dom_live by blast
  ultimately show ?thesis
    using acquire_law [OF assms(2,6)] by (auto simp: acquire_spec_def Let_def)
qed

end

interpretation permits: lease_semaphore "leases sc org" well_kept ttl "sem_acquire ttl sc org"
  "sem_release sc org" "sem_heartbeat sc org" for sc org ttl
proof
  show "finite (dom (leases sc org s))" for s by (simp add: leases_def finite_dom_map_of)
  show "well_kept s' \<and> (acquired res, leases sc org s') = acquire_spec ttl i limit now (leases sc org s)"
    if "well_kept s" "sem_acquire ttl sc org i limit now s = (res, s')" for s s' i limit now res
    using sem_acquire_leases [OF that] by simp
  show "well_kept (sem_release sc org i s) \<and> leases sc org (sem_release sc org i s) = (leases sc org s)(i := None)"
    if "well_kept s" for s i using that by (auto simp: sem_release_def leases_zrem)
  show "well_kept s' \<and> (ok, leases sc org s') = heartbeat_spec i now (leases sc org s)"
    if "well_kept s" "sem_heartbeat sc org i now s = (ok, s')" for s s' i now ok
    using sem_heartbeat_leases [OF that] by simp
qed

end
