(* ===== verification/Permit_Runs.thy ===== *)
theory Permit_Runs
  imports Permit_Laws
begin

text \<open>
  Runs of the permit service: what an operation of any client does to the leases of one semaphore,
  and what therefore holds at the end of every run.
\<close>

section \<open>One acquisition\<close>

lemma leases_zsets: "zsets r1 = zsets r \<Longrightarrow> leases sc org r1 = leases sc org r"
  by (simp add: leases_def zset_of_def)

lemma well_kept_zsets: "zsets r1 = zsets r \<Longrightarrow> well_kept r1 = well_kept r"
  by (simp add: well_kept_def zset_of_def)

text \<open>Where the limits come from: the cache entry or the database.\<close>

definition limits_seen :: "limits_config \<Rightarrow> tier_db \<Rightarrow> string \<Rightarrow> redis \<Rightarrow> limits \<Rightarrow> bool" where
  "limits_seen cf db org r l \<longleftrightarrow> get_effective_limits (multi_tenant cf) db org = Inr l \<or>
     (\<exists>p. dict_get (strings r) (limits_cache_key org) = Some p \<and> limits_load cf p = Some l)"

lemma effective_limits_for_org:
  assumes "get_effective_limits_for_org cf db visible org r = (res, r1)"
  shows "zsets r1 = zsets r" and "res = Inr (l, src) \<Longrightarrow> limits_seen cf db org r l"
  using assms
  by (auto simp: get_effective_limits_for_org_def get_effective_limits_cached_def set_effective_limits_cached_def
      limits_seen_def Let_def split: option.splits sum.splits if_splits prod.splits)

lemma acquire_permit_cases:
  assumes "acquire_permit cf db visible sc org i now r = (res, r')"
  obtains (raised) e where "res = Inl e" "zsets r' = zsets r"
  | (asked) r1 l limit ar where "zsets r1 = zsets r" "strings r1 = strings r'" "limits_seen cf db org r l"
      "normalize_concurrency_limit (limit_field sc l) org sc = Inr limit"
      "sem_acquire (permit_ttl cf) sc org i limit now r1 = (ar, r')" "\<exists>src. res = Inr \<lparr>outcome_result = ar, effective_limit = limit, cap_source = src\<rparr>"
proof -
  obtain lr r1 where l: "get_effective_limits_for_org cf db visible org r = (lr, r1)"
    by (cases "get_effective_limits_for_org cf db visible org r")
  note z = effective_limits_for_org(1) [OF l]
  show thesis
  proof (cases lr)
    case (Inl e)
    with assms l z show thesis by (intro raised [of e]) (auto simp: acquire_permit_def)
  next
    case (Inr ls)
    obtain lim src where ls: "ls = (lim, src)" by (cases ls)
    note seen = effective_limits_for_org(2) [OF l Inr [unfolded ls]]
    show thesis
    proof (cases "normalize_concurrency_limit (limit_field sc lim) org sc")
      case (Inl e)
      with assms l z \<open>lr = Inr ls\<close> ls show thesis by (intro raised [of e]) (auto simp: acquire_permit_def)
    next
      case (Inr limit)
      obtain ar r2 where a: "sem_acquire (permit_ttl cf) sc org i limit now r1 = (ar, r2)"
        by (cases "sem_acquire (permit_ttl cf) sc org i limit now r1")
      have "strings r2 = strings r1"
        using a by (auto simp: sem_acquire_def acquire_script_def Let_def zadd_def zremrangebyscore_def split: if_splits)
      with assms l z \<open>lr = Inr ls\<close> ls Inr a seen show thesis
        by (intro asked [of r1 lim limit ar]) (auto simp: acquire_permit_def)
    qed
  qed
qed

lemma acquire_activity_cases:
  assumes "acquire_permit_activity cf db visible sc org i now r = (res, r')"
  obtains (raised) e where "res = Inl e" "zsets r' = zsets r"
  | (asked) r1 l limit ar where "zsets r1 = zsets r" "strings r1 = strings r'" "limits_seen cf db org r l"
      "normalize_concurrency_limit (limit_field sc l) org sc = Inr limit"
      "sem_acquire (permit_ttl cf) sc org i limit now r1 = (ar, r')" "res = Inr ar"
proof -
  obtain pr where p: "acquire_permit cf db visible sc org i now r = (pr, r')"
    using assms by (auto simp: acquire_permit_activity_def split: prod.splits sum.splits tier_error.splits)
  from p show thesis
  proof (cases rule: acquire_permit_cases)
    case (raised e)
    then have "isl res" using assms p by (cases e) (auto simp: acquire_permit_activity_def)
    with raised that(1) show thesis by (cases res) simp_all
  next
    case (asked r1 l limit ar)
    then have "res = Inr ar" using assms p by (auto simp: acquire_permit_activity_def)
    with asked that(2) show thesis by blast
  qed
qed

lemma acquire_activity_returns:
  assumes "get_effective_limits (multi_tenant cf) db org = Inr l0"
    and "\<And>l. limits_seen cf db org r l \<Longrightarrow> \<exists>x. limit_field sc l = Some x \<and> 0 < x"
  shows "\<exists>ar r'. acquire_permit_activity cf db visible sc org i now r = (Inr ar, r')"
proof -
  obtain lr r1 where l: "get_effective_limits_for_org cf db visible org r = (lr, r1)"
    by (cases "get_effective_limits_for_org cf db visible org r")
  then obtain lim src where lr: "lr = Inr (lim, src)"
    using assms(1) by (auto simp: get_effective_limits_for_org_def Let_def split: prod.splits option.splits)
  from assms(2) [OF effective_limits_for_org(2) [OF l lr]] obtain x where "limit_field sc lim = Some x" "0 < x" by blast
  then have "normalize_concurrency_limit (limit_field sc lim) org sc = Inr x" by (simp add: normalize_concurrency_limit_def)
  with l lr show ?thesis
    by (simp add: acquire_permit_activity_def acquire_permit_def split: prod.splits)
qed

section \<open>The cap\<close>

definition limit_at_most :: "int \<Rightarrow> permit_scope \<Rightarrow> limits \<Rightarrow> bool" where
  "limit_at_most m sc l \<longleftrightarrow> (\<exists>i. limit_field sc l = Some i \<and> i \<le> m)"

text \<open>Every database state that an acquisition for the organization sees caps the limit.\<close>

definition caps :: "limits_config \<Rightarrow> int \<Rightarrow> permit_scope \<Rightarrow> string \<Rightarrow> permit_op \<Rightarrow> bool" where
  "caps cf m sc org opn \<longleftrightarrow> (case opn of
     AcquireOp db visible sc' org' i now \<Rightarrow>
       org' = org \<longrightarrow> (\<forall>l. get_effective_limits (multi_tenant cf) db org = Inr l \<longrightarrow> limit_at_most m sc l)
   | _ \<Rightarrow> True)"

definition cached_at_most :: "limits_config \<Rightarrow> int \<Rightarrow> permit_scope \<Rightarrow> string \<Rightarrow> redis \<Rightarrow> bool" where
  "cached_at_most cf m sc org r \<longleftrightarrow> (\<forall>p l. dict_get (strings r) (limits_cache_key org) = Some p \<longrightarrow>
     limits_load cf p = Some l \<longrightarrow> limit_at_most m sc l)"

definition cap_inv :: "limits_config \<Rightarrow> int \<Rightarrow> permit_scope \<Rightarrow> string \<Rightarrow> redis \<Rightarrow> bool" where
  "cap_inv cf m sc org r \<longleftrightarrow> well_kept r \<and> int (card (dom (leases sc org r))) \<le> m \<and> cached_at_most cf m sc org r"

lemma limits_cache_key_inject: "limits_cache_key o1 = limits_cache_key o2 \<longleftrightarrow> o1 = o2"
  by (simp add: limits_cache_key_def)

lemma seen_at_most:
  assumes "cached_at_most cf m sc org r" "limits_seen cf db org r l"
    and "\<And>l. get_effective_limits (multi_tenant cf) db org = Inr l \<Longrightarrow> limit_at_most m sc l"
  shows "limit_at_most m sc l"
  using assms by (auto simp: limits_seen_def cached_at_most_def)

lemma cached_acquire:
  assumes load: "\<forall>l. limits_load cf (limits_dump cf l) = Some l"
    and c: "cached_at_most cf m sc org r" and op: "caps cf m sc org (AcquireOp db visible sc' org' i now)"
    and run: "acquire_permit_activity cf db visible sc' org' i now r = (res, r')"
  shows "cached_at_most cf m sc org r'"
proof -
  obtain lr r1 where l: "get_effective_limits_for_org cf db visible org' r = (lr, r1)"
    by (cases "get_effective_limits_for_org cf db visible org' r")
  have "strings r' = strings r1"
    using run l
    by (auto simp: acquire_permit_activity_def acquire_permit_def sem_acquire_def acquire_script_def Let_def zadd_def
        zremrangebyscore_def split: prod.splits sum.splits tier_error.splits if_splits)
  moreover have "cached_at_most cf m sc org r1"
    using l c op load
    by (auto simp: get_effective_limits_for_org_def get_effective_limits_cached_def set_effective_limits_cached_def
        cached_at_most_def caps_def Let_def limits_cache_key_inject dict_get_pop
        split: option.splits sum.splits if_splits prod.splits)
  ultimately show ?thesis by (simp add: cached_at_most_def)
qed

lemma cap_acquire:
  assumes load: "\<forall>l. limits_load cf (limits_dump cf l) = Some l"
    and inv: "cap_inv cf m sc org r" and op: "caps cf m sc org (AcquireOp db visible sc' org' i now)"
    and run: "acquire_permit_activity cf db visible sc' org' i now r = (res, r')"
  shows "cap_inv cf m sc org r'"
proof -
  have c: "cached_at_most cf m sc org r'" using cached_acquire [OF load _ op run] inv by (simp add: cap_inv_def)
  from run show ?thesis
  proof (cases rule: acquire_activity_cases)
    case raised
    with inv c show ?thesis
      using leases_zsets [OF raised(2)] well_kept_zsets [OF raised(2)] by (simp add: cap_inv_def)
  next
    case (asked r1 l limit ar)
    have w1: "well_kept r1" and l1: "leases sc org r1 = leases sc org r"
      using inv leases_zsets [OF asked(1)] well_kept_zsets [OF asked(1)] by (simp_all add: cap_inv_def)
    have w': "well_kept r'" using sem_acquire_leases(1) [OF w1 asked(5)] .
    show ?thesis
    proof (cases "(sc', org') = (sc, org)")
      case True
      have "limit_at_most m sc l"
        using seen_at_most [of cf m sc org r db l] inv op asked(3) True by (simp add: cap_inv_def caps_def)
      then have "limit \<le> m"
        using asked(4) True
        by (auto simp: limit_at_most_def normalize_concurrency_limit_def split: if_splits option.splits)
      moreover have "lease_semaphore.capped (leases sc org) well_kept m r1"
        using inv w1 l1 by (simp add: permits.capped_def cap_inv_def)
      ultimately have "lease_semaphore.capped (leases sc org) well_kept m r'"
        using permits.capped_acquire [of sc org m r1 limit "permit_ttl cf" i now ar r'] asked(5) True by simp
      then show ?thesis using c by (simp add: permits.capped_def cap_inv_def)
    next
      case False
      then have "leases sc org r' = leases sc org r1"
        using other_key(1) [OF False, of "permit_ttl cf" i limit now r1 r'] asked(5) by simp
      with inv l1 w' c show ?thesis by (simp add: cap_inv_def)
    qed
  qed
qed

lemma invalidate_strings:
  "dict_get (strings (fold invalidate_effective_limits_cache orgs r)) k = Some p \<Longrightarrow> dict_get (strings r) k = Some p"
proof (induction orgs arbitrary: r)
  case (Cons a orgs)
  then have "dict_get (strings (invalidate_effective_limits_cache a r)) k = Some p" by simp
  then show ?case by (simp add: invalidate_effective_limits_cache_def dict_get_pop split: if_splits)
qed simp

lemma invalidate_zsets: "zsets (fold invalidate_effective_limits_cache orgs r) = zsets r"
  by (induction orgs arbitrary: r) (simp_all add: invalidate_effective_limits_cache_def)

lemma many_zsets: "zsets (invalidate_effective_limits_cache_many orgs r) = zsets r"
  by (simp add: invalidate_effective_limits_cache_many_def invalidate_zsets)

lemma cached_invalidate:
  assumes "cached_at_most cf m sc org r"
  shows "cached_at_most cf m sc org (invalidate_effective_limits_cache_many orgs r)"
proof -
  have "dict_get (strings r) k = Some p"
    if "dict_get (strings (invalidate_effective_limits_cache_many orgs r)) k = Some p" for k p
    using that invalidate_strings [of orgs r k p]
    by (simp add: invalidate_effective_limits_cache_many_def split: if_splits)
  then show ?thesis using assms unfolding cached_at_most_def by blast
qed

lemma script_strings [simp]:
  "strings (zadd k t i r) = strings r" "strings (zrem k i r) = strings r" "strings (zremrangebyscore k d r) = strings r"
  by (simp_all add: zadd_def zrem_def zremrangebyscore_def)

lemma cap_count:
  assumes "cap_inv cf m sc org r"
  shows "cap_inv cf m sc org (snd (sem_get_count ttl sc' org' now r))"
proof (cases "(sc', org') = (sc, org)")
  case True
  let ?h = "leases sc org r"
  have fin: "finite (dom ?h)" by (simp add: leases_def finite_dom_map_of)
  have "card (dom (live (now - ttl) ?h)) \<le> card (dom ?h)" by (rule card_mono [OF fin dom_live])
  with assms True show ?thesis
    by (auto simp: cap_inv_def sem_get_count_def Let_def leases_prune cached_at_most_def)
next
  case False
  with assms other_key(4) [OF False] show ?thesis
    by (auto simp: cap_inv_def sem_get_count_def Let_def cached_at_most_def)
qed

lemma cap_release:
  assumes "cap_inv cf m sc org r"
  shows "cap_inv cf m sc org (release_permit sc' org' i r)"
proof (cases "(sc', org') = (sc, org)")
  case True
  have "lease_semaphore.capped (leases sc org) well_kept m (sem_release sc org i r)"
    using permits.capped_release [of sc org m r i] assms by (simp add: permits.capped_def cap_inv_def)
  with assms True show ?thesis
    by (auto simp: permits.capped_def cap_inv_def release_permit_def sem_release_def cached_at_most_def)
next
  case False
  with assms other_key(3) [OF False] show ?thesis
    by (auto simp: cap_inv_def release_permit_def sem_release_def cached_at_most_def)
qed

lemma cap_heartbeat:
  assumes "cap_inv cf m sc org r" "heartbeat_permit sc' org' i now r = (ok, r')"
  shows "cap_inv cf m sc org r'"
proof -
  have s: "strings r' = strings r"
    using assms(2) by (auto simp: heartbeat_permit_def sem_heartbeat_def heartbeat_script_def split: if_splits)
  have w: "well_kept r'"
    using assms sem_heartbeat_leases(1) by (auto simp: heartbeat_permit_def cap_inv_def)
  show ?thesis
  proof (cases "(sc', org') = (sc, org)")
    case True
    have "lease_semaphore.capped (leases sc org) well_kept m r'"
      using permits.capped_heartbeat [of sc org m r i now ok r'] assms True
      by (simp add: permits.capped_def cap_inv_def heartbeat_permit_def)
    with assms s show ?thesis by (simp add: permits.capped_def cap_inv_def cached_at_most_def)
  next
    case False
    have "leases sc org r' = leases sc org r"
      using other_key(2) [OF False, of i now r r'] assms(2) by (simp add: heartbeat_permit_def)
    with assms(1) s w show ?thesis by (simp add: cap_inv_def cached_at_most_def)
  qed
qed

lemma cap_step:
  assumes "\<forall>l. limits_load cf (limits_dump cf l) = Some l" "cap_inv cf m sc org r" "caps cf m sc org opn"
  shows "cap_inv cf m sc org (permit_step cf opn r)"
proof (cases opn)
  case (AcquireOp db visible sc' org' i now)
  obtain res r' where "acquire_permit_activity cf db visible sc' org' i now r = (res, r')"
    by (cases "acquire_permit_activity cf db visible sc' org' i now r")
  with cap_acquire [OF assms(1,2)] assms(3) AcquireOp show ?thesis by simp
next
  case (HeartbeatOp sc' org' i now)
  obtain ok r' where "heartbeat_permit sc' org' i now r = (ok, r')" by (cases "heartbeat_permit sc' org' i now r")
  with cap_heartbeat [OF assms(2)] HeartbeatOp show ?thesis by simp
next
  case (InvalidateOp orgs)
  have z: "zsets (permit_step cf opn r) = zsets r" by (simp add: InvalidateOp many_zsets)
  have "cached_at_most cf m sc org (permit_step cf opn r)"
    using cached_invalidate [of cf m sc org r orgs] assms(2) by (simp add: InvalidateOp cap_inv_def)
  then show ?thesis using assms(2) leases_zsets [OF z] well_kept_zsets [OF z] by (simp add: cap_inv_def)
next
  case (ReleaseOp sc' org' i)
  with cap_release [OF assms(2)] show ?thesis by simp
next
  case (CountOp sc' org' now)
  with cap_count [OF assms(2)] show ?thesis by simp
qed

lemma cap_run:
  assumes "\<forall>l. limits_load cf (limits_dump cf l) = Some l" "cap_inv cf m sc org r" "list_all (caps cf m sc org) ops"
  shows "cap_inv cf m sc org (permit_run cf ops r)"
  using assms(2,3)
proof (induction ops arbitrary: r)
  case (Cons opn ops)
  then show ?case using cap_step [OF assms(1)] by (simp add: permit_run_def)
qed (simp add: permit_run_def)

lemma cap_empty: "0 \<le> m \<Longrightarrow> cap_inv cf m sc org empty_redis"
  by (simp add: cap_inv_def well_kept_def zset_of_def empty_redis_def dict_get_default_def leases_def cached_at_most_def)

section \<open>Leases along a run\<close>

text \<open>
  An operation is harmless to a lease renewed at or after \<open>t0\<close>: it does not release it, its client's
  clock has not passed the end of the lease, and the clock of the holder has not gone back behind
  \<open>t0\<close>.
\<close>

definition harmless :: "limits_config \<Rightarrow> int \<Rightarrow> permit_scope \<Rightarrow> string \<Rightarrow> string \<Rightarrow> permit_op \<Rightarrow> bool" where
  "harmless cf t0 sc org i opn \<longleftrightarrow> (case opn of
     AcquireOp db visible sc' org' j now \<Rightarrow>
       (sc', org') = (sc, org) \<longrightarrow> now < t0 + permit_ttl cf \<and> (j = i \<longrightarrow> t0 \<le> now)
   | ReleaseOp sc' org' j \<Rightarrow> (sc', org', j) \<noteq> (sc, org, i)
   | HeartbeatOp sc' org' j now \<Rightarrow> (sc', org', j) = (sc, org, i) \<longrightarrow> t0 \<le> now
   | CountOp sc' org' now \<Rightarrow> (sc', org') = (sc, org) \<longrightarrow> now < t0 + permit_ttl cf
   | InvalidateOp orgs \<Rightarrow> True)"

definition holds_lease :: "permit_scope \<Rightarrow> string \<Rightarrow> int \<Rightarrow> string \<Rightarrow> redis \<Rightarrow> bool" where
  "holds_lease sc org t0 i r \<longleftrightarrow> well_kept r \<and> (\<exists>t \<ge> t0. leases sc org r i = Some t)"

lemma holds_lease_kept: "holds_lease sc org t0 i r = lease_semaphore.kept_since (leases sc org) well_kept t0 i r"
  by (simp add: holds_lease_def permits.kept_since_def)

lemma holds_lease_other: "holds_lease sc org t0 i r \<Longrightarrow> well_kept r' \<Longrightarrow> leases sc org r' = leases sc org r \<Longrightarrow> holds_lease sc org t0 i r'"
  by (simp add: holds_lease_def)

lemma lease_step:
  assumes h: "holds_lease sc org t0 i r" and op: "harmless cf t0 sc org i opn"
  shows "holds_lease sc org t0 i (permit_step cf opn r)"
proof (cases opn)
  case (AcquireOp db visible sc' org' j now)
  obtain res r' where run: "acquire_permit_activity cf db visible sc' org' j now r = (res, r')"
    by (cases "acquire_permit_activity cf db visible sc' org' j now r")
  then have "holds_lease sc org t0 i r'"
  proof (cases rule: acquire_activity_cases)
    case (raised e)
    with h leases_zsets [OF raised(2)] well_kept_zsets [OF raised(2)] show ?thesis by (simp add: holds_lease_def)
  next
    case (asked r1 l limit ar)
    have h1: "holds_lease sc org t0 i r1"
      using h leases_zsets [OF asked(1)] well_kept_zsets [OF asked(1)] by (simp add: holds_lease_def)
    show ?thesis
    proof (cases "(sc', org') = (sc, org)")
      case True
      with op AcquireOp permits.kept_acquire [of sc org t0 i r1 "permit_ttl cf" j limit now ar r'] h1 asked(5)
      show ?thesis by (simp add: holds_lease_kept harmless_def)
    next
      case False
      with h1 holds_lease_other [OF h1] other_key(1) [OF False, of "permit_ttl cf" j limit now r1 r'] asked(5)
        sem_acquire_leases(1) [OF _ asked(5)]
      show ?thesis by (simp add: holds_lease_def)
    qed
  qed
  with run AcquireOp show ?thesis by simp
next
  case (ReleaseOp sc' org' j)
  have w: "well_kept (sem_release sc' org' j r)" using h by (auto simp: holds_lease_def sem_release_def)
  show ?thesis
  proof (cases "(sc', org') = (sc, org)")
    case True
    with op ReleaseOp h permits.kept_release [of sc org t0 i r j] show ?thesis
      by (simp add: holds_lease_kept harmless_def release_permit_def)
  next
    case False
    with holds_lease_other [OF h w] other_key(3) [OF False] ReleaseOp show ?thesis by (simp add: release_permit_def)
  qed
next
  case (HeartbeatOp sc' org' j now)
  obtain ok r' where run: "sem_heartbeat sc' org' j now r = (ok, r')" by (cases "sem_heartbeat sc' org' j now r")
  have w: "well_kept r'" using sem_heartbeat_leases(1) [OF _ run] h by (simp add: holds_lease_def)
  have "holds_lease sc org t0 i r'"
  proof (cases "(sc', org') = (sc, org)")
    case True
    with op HeartbeatOp h run permits.kept_heartbeat [of sc org t0 i r j now ok r'] show ?thesis
      by (simp add: holds_lease_kept harmless_def)
  next
    case False
    with holds_lease_other [OF h w] other_key(2) [OF False, of j now r r'] run show ?thesis by simp
  qed
  with run HeartbeatOp show ?thesis by (simp add: heartbeat_permit_def)
next
  case (CountOp sc' org' now)
  have w: "well_kept (snd (sem_get_count (permit_ttl cf) sc' org' now r))"
    using h by (auto simp: holds_lease_def sem_get_count_def Let_def)
  show ?thesis
  proof (cases "(sc', org') = (sc, org)")
    case True
    with op CountOp h w show ?thesis
      by (auto simp: holds_lease_def harmless_def sem_get_count_def Let_def leases_prune)
  next
    case False
    with holds_lease_other [OF h w] other_key(4) [OF False] CountOp show ?thesis by simp
  qed
next
  case (InvalidateOp orgs)
  have z: "zsets (permit_step cf opn r) = zsets r" by (simp add: InvalidateOp many_zsets)
  with h leases_zsets [OF z] well_kept_zsets [OF z] show ?thesis by (simp add: holds_lease_def)
qed

lemma lease_run:
  assumes "holds_lease sc org t0 i r" "list_all (harmless cf t0 sc org i) ops"
  shows "holds_lease sc org t0 i (permit_run cf ops r)"
  using assms
proof (induction ops arbitrary: r)
  case (Cons opn ops)
  then show ?case using lease_step by (simp add: permit_run_def)
qed (simp add: permit_run_def)

end
