(* ===== verification/Permit_Wait.thy ===== *)
theory Permit_Wait
  imports Permit_Runs
begin

text \<open>
  The workflow's side of permits (\<open>dsl/workflow.py\<close>): the loop that waits for a permit with
  exponential backoff, the sleep between heartbeats, the identifier of an action's permit, and the
  limit on action executions. Times are rationals in seconds. The random jitter and the time an
  activity takes are sequences of numbers.
\<close>

record wait_config =
  backoff_base :: rat
  backoff_max :: rat
  max_wait :: rat

definition next_permit_backoff_seconds :: "wait_config \<Rightarrow> nat \<Rightarrow> rat \<Rightarrow> rat" where
  "next_permit_backoff_seconds wc attempt jitter =
     (let base = max (backoff_base wc) (1 / 10); max_backoff = max (backoff_max wc) base;
          exponential = min (base * 2 ^ attempt) max_backoff in
      exponential * jitter)"

definition next_permit_heartbeat_sleep_seconds :: "rat \<Rightarrow> rat \<Rightarrow> rat" where
  "next_permit_heartbeat_sleep_seconds heartbeat_interval jitter = max (heartbeat_interval * jitter) (1 / 10)"

definition action_permit_id :: "string \<Rightarrow> string \<Rightarrow> stmt \<Rightarrow> string" where
  "action_permit_id workflow_id stream task = workflow_id @ '':'' @ stream @ '':'' @ ref task"

definition is_executable_action :: "stmt \<Rightarrow> bool" where
  "is_executable_action task = (action task \<notin> {TRANSFORM_SCATTER, TRANSFORM_GATHER})"

definition permit_timeout :: "permit_scope \<Rightarrow> exn" where
  "permit_timeout sc = ApplicationError
     (case sc of WORKFLOW_PERMIT \<Rightarrow> ''WorkflowPermitTimeoutExceeded'' | ACTION_PERMIT \<Rightarrow> ''ActionPermitTimeoutExceeded'') []"

text \<open>
  \<open>_acquire_workflow_permit\<close> and \<open>_acquire_action_permit\<close>. \<open>answer n\<close> is what the activity returns
  in attempt \<open>n\<close> and \<open>took n\<close> its duration. The loop returns the attempt that got the permit, or the
  exception, and the time at which its last attempt began.
\<close>

fun acquire_loop ::
  "nat \<Rightarrow> permit_scope \<Rightarrow> wait_config \<Rightarrow> (nat \<Rightarrow> exn + acquire_result) \<Rightarrow> (nat \<Rightarrow> rat) \<Rightarrow> (nat \<Rightarrow> rat) \<Rightarrow>
   nat \<Rightarrow> rat \<Rightarrow> ((exn + nat) \<times> rat) option" where
  "acquire_loop 0 sc wc answer took jitter attempt began = None"
| "acquire_loop (Suc n) sc wc answer took jitter attempt began =
     (case answer attempt of
        Inl e \<Rightarrow> Some (Inl e, began)
      | Inr res \<Rightarrow>
          if acquired res then Some (Inr attempt, began)
          else
            (let elapsed = began + took attempt in
             if elapsed \<ge> max_wait wc then Some (Inl (permit_timeout sc), began)
             else
               (let sleep = min (next_permit_backoff_seconds wc attempt (jitter attempt)) (max_wait wc - elapsed) in
                acquire_loop n sc wc answer took jitter (attempt + 1) (elapsed + sleep))))"

text \<open>\<open>_check_action_execution_limit\<close>, on the number of executions counted so far.\<close>

definition check_action_execution_limit :: "limits option \<Rightarrow> int \<Rightarrow> (exn + unit) \<times> int" where
  "check_action_execution_limit tier_limits n =
     (case tier_limits of
        None \<Rightarrow> (Inr (), n)
      | Some l \<Rightarrow>
          (case max_action_executions_per_workflow l of
             None \<Rightarrow> (Inr (), n)
           | Some m \<Rightarrow> (if n + 1 > m then Inl (ApplicationError ''ActionExecutionLimitExceeded'' []) else Inr (), n + 1)))"

section \<open>The loop ends\<close>

lemma backoff_lower:
  assumes "4 / 5 \<le> j"
  shows "2 / 25 \<le> next_permit_backoff_seconds wc n j"
proof -
  define base where "base = max (backoff_base wc) (1 / 10)"
  have b: "1 / 10 \<le> base" by (simp add: base_def)
  have "base * 1 \<le> base * 2 ^ n" using b by (intro mult_left_mono) simp_all
  then have e: "1 / 10 \<le> min (base * 2 ^ n) (max (backoff_max wc) base)" using b by linarith
  have "1 / 10 * (4 / 5) \<le> min (base * 2 ^ n) (max (backoff_max wc) base) * j"
    by (rule mult_mono) (use e assms b in simp_all)
  then show ?thesis by (simp add: next_permit_backoff_seconds_def Let_def base_def)
qed

definition settled :: "exn + acquire_result \<Rightarrow> bool" where
  "settled a = (case a of Inl e \<Rightarrow> True | Inr res \<Rightarrow> acquired res)"

definition loop_result :: "permit_scope \<Rightarrow> nat \<Rightarrow> exn + acquire_result \<Rightarrow> exn + nat" where
  "loop_result sc k a = (case a of Inl e \<Rightarrow> Inl e | Inr res \<Rightarrow> if acquired res then Inr k else Inl (permit_timeout sc))"

lemma acquire_loop_ends:
  assumes "\<forall>n. 0 \<le> took n" "\<forall>n. 4 / 5 \<le> jitter n" "max_wait wc - began \<le> of_nat c * (2 / 25)"
  shows "\<exists>k \<le> c. \<exists>t \<ge> began. acquire_loop (c + 1) sc wc answer took jitter a began = Some (loop_result sc (a + k) (answer (a + k)), t) \<and>
    t \<le> max began (max_wait wc) \<and> (\<forall>i < k. \<not> settled (answer (a + i))) \<and>
    (settled (answer (a + k)) \<or> max_wait wc \<le> t + took (a + k))"
  using assms(3)
proof (induction c arbitrary: a began)
  case 0
  then have "max_wait wc \<le> began + took a" using assms(1) [rule_format, of a] by simp
  then show ?case
    by (intro exI [of _ 0]) (auto simp: loop_result_def settled_def split: sum.splits)
next
  case (Suc c)
  let ?el = "began + took a"
  show ?case
  proof (cases "settled (answer a) \<or> max_wait wc \<le> ?el")
    case True
    then show ?thesis
      by (intro exI [of _ 0]) (auto simp: loop_result_def settled_def split: sum.splits)
  next
    case False
    then obtain res where res: "answer a = Inr res" "\<not> acquired res" by (auto simp: settled_def split: sum.splits)
    define sl where "sl = min (next_permit_backoff_seconds wc a (jitter a)) (max_wait wc - ?el)"
    have took: "0 \<le> took a" using assms(1) by simp
    have "2 / 25 \<le> next_permit_backoff_seconds wc a (jitter a)" by (rule backoff_lower) (use assms(2) in simp)
    moreover have "of_nat (Suc c) * (2 / 25) = of_nat c * (2 / 25) + (2 / 25 :: rat)" by (simp add: algebra_simps)
    moreover have "0 \<le> of_nat c * (2 / 25 :: rat)" by simp
    ultimately have rest: "max_wait wc - (?el + sl) \<le> of_nat c * (2 / 25)" "0 \<le> sl" "?el + sl \<le> max_wait wc"
      using Suc.prems False took unfolding sl_def by linarith+
    have step: "acquire_loop (Suc c + 1) sc wc answer took jitter a began =
        acquire_loop (c + 1) sc wc answer took jitter (a + 1) (?el + sl)"
      using False res by (simp add: sl_def Let_def)
    from Suc.IH [OF rest(1), of "a + 1"] obtain k t where k: "k \<le> c" "?el + sl \<le> t"
      "acquire_loop (c + 1) sc wc answer took jitter (a + 1) (?el + sl) = Some (loop_result sc (a + 1 + k) (answer (a + 1 + k)), t)"
      "t \<le> max (?el + sl) (max_wait wc)" "\<forall>i < k. \<not> settled (answer (a + 1 + i))"
      "settled (answer (a + 1 + k)) \<or> max_wait wc \<le> t + took (a + 1 + k)" by blast
    have "\<not> settled (answer (a + i))" if "i < Suc k" for i
      using that k(5) False by (cases i) simp_all
    then show ?thesis
      using k rest took step by (intro exI [of _ "Suc k"] conjI exI [of _ t]) auto
  qed
qed

lemma wait_fuel:
  assumes "0 \<le> max_wait wc"
  shows "max_wait wc - 0 \<le> of_nat (nat \<lceil>max_wait wc * (25 / 2)\<rceil>) * (2 / 25)"
proof -
  have "0 \<le> \<lceil>max_wait wc * (25 / 2)\<rceil>" using assms by simp
  then have "max_wait wc * (25 / 2) \<le> of_nat (nat \<lceil>max_wait wc * (25 / 2)\<rceil>)"
    by (simp add: of_nat_nat le_of_int_ceiling)
  then show ?thesis by (simp add: field_simps)
qed

end
