(* ===== verification/Permit_Theorems.thy ===== *)
theory Permit_Theorems
  imports Permit_Wait Storage_Codec
begin

text \<open>The properties of concurrency permits.\<close>

section \<open>An example configuration\<close>

definition sample_dump :: "limits \<Rightarrow> string" where
  "sample_dump l = enc (VList (map opt_int [api_rate_limit l, api_burst_capacity l, max_concurrent_workflows l,
     max_action_executions_per_workflow l, max_concurrent_actions l]))"

fun int_or_none :: "pyval \<Rightarrow> int option" where
  "int_or_none (VInt i) = Some i"
| "int_or_none _ = None"

definition sample_load :: "string \<Rightarrow> limits option" where
  "sample_load s = (case dec (length s) s of
     Some (VList [a, b, c, d, e], []) \<Rightarrow> Some \<lparr>api_rate_limit = int_or_none a, api_burst_capacity = int_or_none b,
       max_concurrent_workflows = int_or_none c, max_action_executions_per_workflow = int_or_none d,
       max_concurrent_actions = int_or_none e\<rparr>
   | _ \<Rightarrow> None)"

definition sample_permits :: limits_config where
  "sample_permits = \<lparr>limits_dump = sample_dump, limits_load = sample_load, limits_ttl = 30, multi_tenant = True, permit_ttl = 300\<rparr>"

definition sample_db :: "int \<Rightarrow> tier_db" where
  "sample_db n = \<lparr>org_rows = [(''o'', (DEFAULT_LIMITS\<lparr>max_concurrent_actions := Some n\<rparr>, None))],
     default_tier = Some (DEFAULT_LIMITS\<lparr>max_concurrent_workflows := Some 5\<rparr>)\<rparr>"

lemma sample_cache_round_trip: "\<forall>l. limits_load sample_permits (limits_dump sample_permits l) = Some l"
proof
  fix l :: limits
  let ?x = "VList (map opt_int [api_rate_limit l, api_burst_capacity l, max_concurrent_workflows l,
     max_action_executions_per_workflow l, max_concurrent_actions l])"
  have o: "storable (opt_int i)" "int_or_none (opt_int i) = i" for i by (cases i; simp add: opt_int_def)+
  have "storable ?x" by (simp add: o)
  then have "dec (length (enc ?x)) (enc ?x) = Some (?x, [])"
    using storable_reads_back unfolding reads_back_def by (metis append_Nil2 order_refl)
  then show "limits_load sample_permits (limits_dump sample_permits l) = Some l"
    by (simp add: sample_permits_def sample_load_def sample_dump_def o)
qed

lemma sample_db_limits: "get_effective_limits (multi_tenant sample_permits) (sample_db n) ''o'' =
    Inr (DEFAULT_LIMITS\<lparr>max_concurrent_workflows := Some 5, max_concurrent_actions := Some n\<rparr>)"
  by (simp add: get_effective_limits_def sample_permits_def get_org_tier_and_resolved_tier_def sample_db_def
      resolve_limit_def DEFAULT_LIMITS_def)

section \<open>The semaphore\<close>

text \<open>
  C12. Refinement. The scripts that run in Redis implement leases. Acquiring drops the leases that ran
  out, succeeds exactly when the caller still has a lease or fewer than \<open>limit\<close> leases are left, and
  then renews the caller's lease; the count it returns is the number of leases afterwards. Releasing
  ends the lease, a heartbeat renews an existing one and never makes one, and counting returns the
  number of leases that have not run out. No operation touches another organization or the other kind
  of permit.
\<close>

theorem permit_scripts_refine_leases:
  assumes "well_kept r"
  shows "(case sem_acquire ttl sc org i limit now r of (res, r') \<Rightarrow> well_kept r' \<and>
      (acquired res, leases sc org r') = acquire_spec ttl i limit now (leases sc org r) \<and>
      current_count res = int (card (dom (leases sc org r'))) \<and>
      ((sc', org') \<noteq> (sc, org) \<longrightarrow> leases sc' org' r' = leases sc' org' r)) \<and>
    leases sc org (sem_release sc org i r) = (leases sc org r)(i := None) \<and>
    (case sem_heartbeat sc org i now r of (ok, r') \<Rightarrow> well_kept r' \<and>
      (ok, leases sc org r') = heartbeat_spec i now (leases sc org r)) \<and>
    fst (sem_get_count ttl sc org now r) = card (dom (live (now - ttl) (leases sc org r)))"
proof -
  obtain res r1 where a: "sem_acquire ttl sc org i limit now r = (res, r1)" by (cases "sem_acquire ttl sc org i limit now r")
  obtain ok r2 where h: "sem_heartbeat sc org i now r = (ok, r2)" by (cases "sem_heartbeat sc org i now r")
  have "(sc', org') \<noteq> (sc, org) \<longrightarrow> leases sc' org' r1 = leases sc' org' r"
    using other_key(1) [of sc org sc' org' ttl i limit now r r1] a by auto
  moreover have "fst (sem_get_count ttl sc org now r) = card (dom (live (now - ttl) (leases sc org r)))"
    using zcard_card [of "zremrangebyscore (semaphore_key org sc) (now - ttl) r" org sc] assms leases_prune [OF assms]
    by (auto simp: sem_get_count_def Let_def)
  ultimately show ?thesis
    using sem_acquire_leases [OF assms a] sem_heartbeat_leases [OF assms h] permits.release_law [OF assms] a h by simp
qed

theorem permit_scripts_refine_leases_witness:
  "acquire_spec 300 ''b'' 1 400 (leases ACTION_PERMIT ''o''
     \<lparr>zsets = [(semaphore_key ''o'' ACTION_PERMIT, [(''a'', 100)])], strings = []\<rparr>) = (True, [''b'' \<mapsto> 400]) \<and>
   (case sem_acquire 300 ACTION_PERMIT ''o'' ''b'' 1 400
       \<lparr>zsets = [(semaphore_key ''o'' ACTION_PERMIT, [(''a'', 100)])], strings = []\<rparr> of (res, r') \<Rightarrow>
      acquired res \<and> leases ACTION_PERMIT ''o'' r' = [''b'' \<mapsto> 400] \<and> current_count res = 1)"
proof -
  let ?r = "\<lparr>zsets = [(semaphore_key ''o'' ACTION_PERMIT, [(''a'', 100)])], strings = []\<rparr> :: redis"
  have w: "well_kept ?r" by (simp add: well_kept_def zset_of_def dict_get_default_def split: option.split)
  have l: "leases ACTION_PERMIT ''o'' ?r = [''a'' \<mapsto> 100]"
    by (simp add: leases_def zset_of_def dict_get_default_def fun_eq_iff)
  have "live 100 [''a'' \<mapsto> 100] = Map.empty" by (simp add: live_def fun_eq_iff)
  then have s: "acquire_spec 300 ''b'' 1 400 (leases ACTION_PERMIT ''o'' ?r) = (True, [''b'' \<mapsto> 400])"
    by (simp add: acquire_spec_def l)
  obtain res r' where a: "sem_acquire 300 ACTION_PERMIT ''o'' ''b'' 1 400 ?r = (res, r')"
    by (cases "sem_acquire 300 ACTION_PERMIT ''o'' ''b'' 1 400 ?r")
  show ?thesis
    using permit_scripts_refine_leases [OF w, where ttl = 300 and sc = ACTION_PERMIT and org = "''o''" and
      i = "''b''" and limit = 1 and now = 400] s a by simp
qed

text \<open>
  C34. The cap. Whatever clients do, in whatever order and with whatever clocks, an organization never
  holds more permits of a kind than the cap that the database states had whenever one was requested,
  directly or through the cache of limits.
\<close>

theorem permits_never_exceed_cap:
  assumes "\<forall>l. limits_load cf (limits_dump cf l) = Some l" "0 \<le> m" "list_all (caps cf m sc org) ops"
  shows "int (card (dom (leases sc org (permit_run cf ops empty_redis)))) \<le> m"
  using cap_run [OF assms(1) cap_empty [OF assms(2)] assms(3)] by (simp add: cap_inv_def)

theorem permits_never_exceed_cap_witness:
  "list_all (caps sample_permits 1 ACTION_PERMIT ''o'')
     [AcquireOp (sample_db 1) False ACTION_PERMIT ''o'' ''a'' 10, AcquireOp (sample_db 1) True ACTION_PERMIT ''o'' ''b'' 20] \<and>
   int (card (dom (leases ACTION_PERMIT ''o'' (permit_run sample_permits
     [AcquireOp (sample_db 1) False ACTION_PERMIT ''o'' ''a'' 10, AcquireOp (sample_db 1) True ACTION_PERMIT ''o'' ''b'' 20]
     empty_redis)))) \<le> 1"
proof -
  have "list_all (caps sample_permits 1 ACTION_PERMIT ''o'')
     [AcquireOp (sample_db 1) False ACTION_PERMIT ''o'' ''a'' 10, AcquireOp (sample_db 1) True ACTION_PERMIT ''o'' ''b'' 20]"
    by (simp add: caps_def sample_db_limits limit_at_most_def limit_field_def)
  with permits_never_exceed_cap [OF sample_cache_round_trip _ this] show ?thesis by simp
qed

text \<open>
  C35. Leases last. A permit that its holder renewed at \<open>t0\<close> is still held after any sequence of
  operations of others, as long as no client's clock has reached the end of the lease and the holder
  did not release it. In particular acquisitions of others never evict it.
\<close>

theorem renewed_lease_kept:
  assumes "holds_lease sc org t0 i r" "list_all (harmless cf t0 sc org i) ops"
  shows "holds_lease sc org t0 i (permit_run cf ops r)"
  by (rule lease_run [OF assms])

theorem renewed_lease_kept_witness:
  "holds_lease ACTION_PERMIT ''o'' 10 ''a''
     (permit_run sample_permits [AcquireOp (sample_db 1) True ACTION_PERMIT ''o'' ''b'' 309, CountOp ACTION_PERMIT ''o'' 309,
        HeartbeatOp ACTION_PERMIT ''o'' ''a'' 300]
      \<lparr>zsets = [(semaphore_key ''o'' ACTION_PERMIT, [(''a'', 10)])], strings = []\<rparr>)"
  by (rule renewed_lease_kept)
    (simp_all add: harmless_def sample_permits_def holds_lease_def well_kept_def leases_def zset_of_def
      dict_get_default_def split: option.split)

section \<open>Waiting\<close>

text \<open>
  C36. Waiting is bounded. With jitter of at least 0.8 the loop that waits for a permit returns after
  at most one attempt per 0.08 seconds of the maximal wait and one more. It has asked before in vain;
  what it returns is the answer to its last attempt: the permit, the exception of the activity, or the
  timeout when the maximal wait has passed. No attempt begins after the maximal wait.
\<close>

theorem permit_wait_bounded:
  assumes "\<forall>n. 0 \<le> took n" "\<forall>n. 4 / 5 \<le> jitter n" "0 \<le> max_wait wc"
  shows "\<exists>k \<le> nat \<lceil>max_wait wc * (25 / 2)\<rceil>. \<exists>t \<le> max_wait wc.
    acquire_loop (nat \<lceil>max_wait wc * (25 / 2)\<rceil> + 1) sc wc answer took jitter 0 0 =
      Some (loop_result sc k (answer k), t) \<and>
    (\<forall>i < k. \<not> settled (answer i)) \<and> (settled (answer k) \<or> max_wait wc \<le> t + took k)"
  using acquire_loop_ends [OF assms(1,2) wait_fuel [OF assms(3)], of sc answer 0] assms(3) by auto

theorem permit_wait_bounded_witness:
  "\<exists>k t. k \<le> 25 \<and> t \<le> 2 \<and>
    acquire_loop 26 ACTION_PERMIT \<lparr>backoff_base = 1, backoff_max = 30, max_wait = 2\<rparr>
      (\<lambda>n. Inr \<lparr>acquired = (n = 2), current_count = 1\<rparr>) (\<lambda>_. 0) (\<lambda>_. 1) 0 0 =
      Some (loop_result ACTION_PERMIT k (Inr \<lparr>acquired = (k = 2), current_count = 1\<rparr>), t) \<and>
    (k = 2 \<or> 2 \<le> t)"
proof -
  have n: "nat \<lceil>2 * (25 / 2) :: rat\<rceil> = 25" "25 + 1 = (26 :: nat)" by simp_all
  show ?thesis
    using permit_wait_bounded [of "\<lambda>_. 0" "\<lambda>_. 1" "\<lparr>backoff_base = 1, backoff_max = 30, max_wait = 2\<rparr>" ACTION_PERMIT
        "\<lambda>n. Inr \<lparr>acquired = (n = 2), current_count = 1\<rparr>", unfolded wait_config.select_convs n]
    by (auto simp: settled_def)
qed

text \<open>
  C37. Holders that wait. Let at every attempt to get a permit at least as many other leases be alive
  as the limit allows. Then waiting ends in the timeout, however often it is retried. This is the case
  of an action that runs a child workflow: it keeps its own permit, renewed by heartbeats, until the
  child has returned, while every action of the child waits for a permit of the same organization;
  with a limit of one, or as many nested or parallel children as the limit, no child can ever run.
\<close>

theorem held_permits_time_out:
  assumes "\<forall>n. answer n = fst (acquire_permit_activity cf (db n) (visible n) sc org i (now n) (world n))"
    and "\<forall>n. well_kept (world n) \<and> i \<notin> dom (leases sc org (world n)) \<and>
      (\<forall>j \<in> holders. holds_lease sc org (since n) j (world n)) \<and> now n < since n + permit_ttl cf"
    and "\<forall>n. \<exists>l. get_effective_limits (multi_tenant cf) (db n) org = Inr l"
    and "\<forall>n l. limits_seen cf (db n) org (world n) l \<longrightarrow>
      (\<exists>x. limit_field sc l = Some x \<and> 0 < x \<and> x \<le> int (card holders))"
    and "\<forall>n. 0 \<le> took n" "\<forall>n. 4 / 5 \<le> jitter n" "0 \<le> max_wait wc"
  shows "\<exists>t. acquire_loop (nat \<lceil>max_wait wc * (25 / 2)\<rceil> + 1) sc wc answer took jitter 0 0 = Some (Inl (permit_timeout sc), t)"
proof -
  have refused: "\<exists>res. answer n = Inr res \<and> \<not> acquired res" for n
  proof -
    obtain res r' where run: "acquire_permit_activity cf (db n) (visible n) sc org i (now n) (world n) = (res, r')"
      by (cases "acquire_permit_activity cf (db n) (visible n) sc org i (now n) (world n)")
    obtain l0 where l0: "get_effective_limits (multi_tenant cf) (db n) org = Inr l0" using assms(3) by blast
    have pos: "\<exists>x. limit_field sc l = Some x \<and> 0 < x" if "limits_seen cf (db n) org (world n) l" for l
      using assms(4) that by blast
    obtain ar where ar: "res = Inr ar"
      using run acquire_activity_returns [where r = "world n", OF l0 pos, where visible = "visible n" and i = i and now = "now n"]
      by auto
    have "\<not> acquired ar"
      using run
    proof (cases rule: acquire_activity_cases)
      case (asked r1 l limit ar')
      have z: "leases sc org r1 = leases sc org (world n)" "well_kept r1 = well_kept (world n)"
        using leases_zsets [OF asked(1)] well_kept_zsets [OF asked(1)] by simp_all
      obtain x where x: "limit_field sc l = Some x" "0 < x" "x \<le> int (card holders)" using assms(4) asked(3) by blast
      then have "limit \<le> int (card holders)" using asked(4) by (simp add: normalize_concurrency_limit_def)
      then have "\<not> acquired ar'"
        using permits.full_refuses [of holders sc org "since n" r1 "now n" "permit_ttl cf" i limit ar' r'] asked(5) assms(2) z
        by (auto simp: holds_lease_def permits.kept_since_def)
      with asked(6) ar show ?thesis by simp
    qed (use ar in simp)
    with run ar assms(1) show ?thesis by simp
  qed
  have r: "\<not> settled (answer n)" "loop_result sc n (answer n) = Inl (permit_timeout sc)" for n
    using refused [of n] by (auto simp: settled_def loop_result_def)
  show ?thesis
    using acquire_loop_ends [OF assms(5,6) wait_fuel [OF assms(7)], of sc answer 0] r by auto
qed

text \<open>A parent that waits for its child, with a limit of one permit.\<close>

theorem held_permits_time_out_witness:
  "\<exists>t. acquire_loop (nat \<lceil>120 * (25 / 2) :: rat\<rceil> + 1) ACTION_PERMIT
      \<lparr>backoff_base = 1, backoff_max = 30, max_wait = 120\<rparr>
      (\<lambda>n. fst (acquire_permit_activity sample_permits (sample_db 1) False ACTION_PERMIT ''o'' ''child'' (int n)
        \<lparr>zsets = [(semaphore_key ''o'' ACTION_PERMIT, [(''parent'', int n)])], strings = []\<rparr>))
      (\<lambda>_. 0) (\<lambda>_. 1) 0 0 = Some (Inl (permit_timeout ACTION_PERMIT), t)"
proof -
  let ?w = "\<lambda>n. \<lparr>zsets = [(semaphore_key ''o'' ACTION_PERMIT, [(''parent'', int n)])], strings = []\<rparr> :: redis"
  have w: "well_kept (?w n)" "leases ACTION_PERMIT ''o'' (?w n) = [''parent'' \<mapsto> int n]" for n
    by (simp_all add: well_kept_def leases_def zset_of_def dict_get_default_def fun_eq_iff split: option.split)
  have "\<exists>t. acquire_loop (nat \<lceil>max_wait \<lparr>backoff_base = 1, backoff_max = 30, max_wait = 120\<rparr> * (25 / 2)\<rceil> + 1) ACTION_PERMIT
      \<lparr>backoff_base = 1, backoff_max = 30, max_wait = 120\<rparr>
      (\<lambda>n. fst (acquire_permit_activity sample_permits (sample_db 1) False ACTION_PERMIT ''o'' ''child'' (int n) (?w n)))
      (\<lambda>_. 0) (\<lambda>_. 1) 0 0 = Some (Inl (permit_timeout ACTION_PERMIT), t)"
    by (rule held_permits_time_out [where holders = "{''parent''}" and since = int and cf = sample_permits and org = "''o''" and
        i = "''child''" and db = "\<lambda>_. sample_db 1" and visible = "\<lambda>_. False" and now = int and world = ?w])
      (auto simp: w holds_lease_def sample_db_limits limits_seen_def limit_field_def, simp_all add: sample_permits_def)
  then show ?thesis by simp
qed

end
