(* ===== verification/Py_Uuid.thy ===== *)
theory Py_Uuid
  imports Py_Strings "HOL-Library.Word"
begin

text \<open>
  Python's \<open>uuid.UUID\<close> as the program uses it: 128-bit identifiers, the canonical text
  \<open>str(u)\<close>, and the constructor that reads a text, which raises ValueError for anything that is
  not a hexadecimal number of 32 characters after braces, hyphens and the prefixes of URNs are removed.
\<close>

type_synonym uuid = "128 word"

section \<open>Hexadecimal numbers\<close>

definition hex_char :: "nat \<Rightarrow> char" where
  "hex_char n = (if n < 10 then char_of (48 + n) else char_of (87 + n))"

definition char_hex :: "char \<Rightarrow> nat option" where
  "char_hex c = (let n = of_char c :: nat in
     if 48 \<le> n \<and> n \<le> 57 then Some (n - 48)
     else if 97 \<le> n \<and> n \<le> 102 then Some (n - 87)
     else if 65 \<le> n \<and> n \<le> 70 then Some (n - 55)
     else None)"

fun hex_pad :: "nat \<Rightarrow> nat \<Rightarrow> string" where
  "hex_pad 0 n = []"
| "hex_pad (Suc k) n = hex_pad k (n div 16) @ [hex_char (n mod 16)]"

fun hex_value :: "nat \<Rightarrow> string \<Rightarrow> nat option" where
  "hex_value acc [] = Some acc"
| "hex_value acc (c # cs) =
     (case char_hex c of None \<Rightarrow> None | Some d \<Rightarrow> hex_value (16 * acc + d) cs)"

text \<open>\<open>int(s, 16)\<close>: white space, sign, an optional \<open>0x\<close>, digits with single underscores.\<close>

definition hex_prefix_removed :: "string \<Rightarrow> string" where
  "hex_prefix_removed s =
     (case s of z # x # r \<Rightarrow>
        if z = CHR ''0'' \<and> (x = CHR ''x'' \<or> x = CHR ''X'')
        then (case r of u # r' \<Rightarrow> if u = CHR ''_'' then r' else r | [] \<Rightarrow> [])
        else s
      | _ \<Rightarrow> s)"

definition py_int16 :: "string \<Rightarrow> py_error + int" where
  "py_int16 s =
     (let t = py_strip s;
          (neg, body) = (case t of
              [] \<Rightarrow> (False, [])
            | c # cs \<Rightarrow> if c = CHR ''-'' then (True, cs) else if c = CHR ''+'' then (False, cs)
                       else (False, t));
          segs = py_split (CHR ''_'') (hex_prefix_removed body)
      in if [] \<in> set segs then Inl ValueError
         else case hex_value 0 (concat segs) of
           None \<Rightarrow> Inl ValueError
         | Some n \<Rightarrow> Inr (if neg then - int n else int n))"

section \<open>Texts of identifiers\<close>

text \<open>\<open>s.replace(p, '')\<close> for a non-empty \<open>p\<close>.\<close>

fun py_remove_all :: "string \<Rightarrow> string \<Rightarrow> string" where
  "py_remove_all p [] = []"
| "py_remove_all p (c # cs) =
     (if p \<noteq> [] \<and> take (length p) (c # cs) = p then py_remove_all p (drop (length p) (c # cs))
      else c # py_remove_all p cs)"

definition strip_chars :: "char set \<Rightarrow> string \<Rightarrow> string" where
  "strip_chars C s = rev (dropWhile (\<lambda>c. c \<in> C) (rev (dropWhile (\<lambda>c. c \<in> C) s)))"

definition uuid_str :: "uuid \<Rightarrow> string" where
  "uuid_str u =
     (let h = hex_pad 32 (unat u) in
      take 8 h @ ''-'' @ take 4 (drop 8 h) @ ''-'' @ take 4 (drop 12 h) @ ''-'' @
      take 4 (drop 16 h) @ ''-'' @ drop 20 h)"

definition uuid_parse :: "string \<Rightarrow> py_error + uuid" where
  "uuid_parse s =
     (let h = filter (\<lambda>c. c \<noteq> CHR ''-'')
            (strip_chars {CHR ''{'', CHR ''}''} (py_remove_all ''uuid:'' (py_remove_all ''urn:'' s)))
      in if length h \<noteq> 32 then Inl ValueError
         else rbind (py_int16 h) (\<lambda>i.
           if 0 \<le> i \<and> i < 2 ^ 128 then Inr (word_of_int i) else Inl ValueError))"

section \<open>The text of an identifier reads back\<close>

lemma char_hex_hex_char [simp]: "n < 16 \<Longrightarrow> char_hex (hex_char n) = Some n"
  by (auto simp: char_hex_def hex_char_def)

lemma hex_value_append:
  "hex_value acc (s @ t) = (case hex_value acc s of None \<Rightarrow> None | Some a \<Rightarrow> hex_value a t)"
  by (induction s arbitrary: acc) (auto split: option.splits)

lemma hex_value_pad: "n < 16 ^ k \<Longrightarrow> hex_value 0 (hex_pad k n) = Some n"
  by (induction k arbitrary: n) (auto simp: hex_value_append less_mult_imp_div_less mult.commute)

lemma length_hex_pad [simp]: "length (hex_pad k n) = k"
  by (induction k arbitrary: n) auto

lemma hex_pad_chars: "c \<in> set (hex_pad k n) \<Longrightarrow> \<exists>d < 16. c = hex_char d"
  by (induction k arbitrary: n) (auto intro: exI [of _ "n mod 16" for n])

lemma hex_char_range:
  "d < 16 \<Longrightarrow> (48 \<le> (of_char (hex_char d) :: nat) \<and> (of_char (hex_char d) :: nat) \<le> 57) \<or>
     (97 \<le> (of_char (hex_char d) :: nat) \<and> (of_char (hex_char d) :: nat) \<le> 102)"
  by (auto simp: hex_char_def)

lemma hex_pad_range:
  "c \<in> set (hex_pad k n) \<Longrightarrow> (48 \<le> (of_char c :: nat) \<and> (of_char c :: nat) \<le> 57) \<or>
     (97 \<le> (of_char c :: nat) \<and> (of_char c :: nat) \<le> 102)"
  using hex_pad_chars hex_char_range by fastforce

lemma hex_pad_no_chars [simp]:
  "CHR ''-'' \<notin> set (hex_pad k n)" "CHR ''_'' \<notin> set (hex_pad k n)" "CHR ''+'' \<notin> set (hex_pad k n)"
  "CHR ''x'' \<notin> set (hex_pad k n)" "CHR ''X'' \<notin> set (hex_pad k n)" "CHR '':'' \<notin> set (hex_pad k n)"
  "CHR ''{'' \<notin> set (hex_pad k n)" "CHR ''}'' \<notin> set (hex_pad k n)" "CHR ''/'' \<notin> set (hex_pad k n)"
  "CHR '','' \<notin> set (hex_pad k n)" "CHR ''r'' \<notin> set (hex_pad k n)" "CHR ''t'' \<notin> set (hex_pad k n)"
  using hex_pad_range by fastforce+

lemma py_int16_hex_pad: "0 < k \<Longrightarrow> n < 16 ^ k \<Longrightarrow> py_int16 (hex_pad k n) = Inr (int n)"
proof -
  assume k: "0 < k" and n: "n < 16 ^ k"
  let ?h = "hex_pad k n"
  have strip: "py_strip ?h = ?h"
    by (rule py_strip_id) (use hex_pad_range in \<open>fastforce simp: py_space_def Let_def\<close>)
  have "?h \<noteq> []" using k by (metis length_hex_pad length_0_conv less_irrefl)
  then obtain c cs where c: "?h = c # cs" by (cases ?h) auto
  have sign: "c \<noteq> CHR ''-''" "c \<noteq> CHR ''+''"
    using hex_pad_no_chars [of k n] by (auto simp: c)
  have body: "hex_prefix_removed ?h = ?h"
    using hex_pad_no_chars(4,5) [of k n] unfolding hex_prefix_removed_def
    by (auto split: list.splits simp: c)
  have "(case ?h of [] \<Rightarrow> (False, []) | c # cs \<Rightarrow> if c = CHR ''-'' then (True, cs)
      else if c = CHR ''+'' then (False, cs) else (False, ?h)) = (False, ?h)"
    using sign by (simp add: c)
  moreover have "py_split (CHR ''_'') ?h = [?h]" by simp
  ultimately show ?thesis
    using strip body hex_value_pad [OF n] \<open>?h \<noteq> []\<close> unfolding py_int16_def by simp
qed

lemma py_remove_all_absent: "c \<in> set p \<Longrightarrow> c \<notin> set s \<Longrightarrow> py_remove_all p s = s"
proof (induction p s rule: py_remove_all.induct)
  case (2 p x xs)
  then have "take (length p) (x # xs) \<noteq> p" by (metis in_set_takeD)
  with 2 show ?case by auto
qed simp

lemma strip_chars_absent: "\<forall>c \<in> set s. c \<notin> C \<Longrightarrow> strip_chars C s = s"
proof -
  assume "\<forall>c \<in> set s. c \<notin> C"
  then have "dropWhile (\<lambda>c. c \<in> C) s = s" "dropWhile (\<lambda>c. c \<in> C) (rev s) = rev s"
    by (auto simp: dropWhile_eq_self_iff hd_rev)
  then show ?thesis by (simp add: strip_chars_def)
qed

lemma uuid_str_chars: "c \<in> set (uuid_str u) \<Longrightarrow> c = CHR ''-'' \<or> c \<in> set (hex_pad 32 (unat u))"
  by (auto simp: uuid_str_def Let_def dest: in_set_takeD in_set_dropD)

lemma uuid_str_digits: "filter (\<lambda>c. c \<noteq> CHR ''-'') (uuid_str u) = hex_pad 32 (unat u)"
proof -
  let ?h = "hex_pad 32 (unat u)"
  have keep: "filter (\<lambda>c. c \<noteq> CHR ''-'') t = t" if "set t \<subseteq> set ?h" for t
    using that hex_pad_no_chars(1) by (auto simp: filter_id_conv)
  have part: "set (take i (drop j ?h)) \<subseteq> set ?h" "set (take i ?h) \<subseteq> set ?h" "set (drop i ?h) \<subseteq> set ?h"
    for i j by (auto dest: in_set_takeD in_set_dropD)
  have "?h = take 8 ?h @ take 4 (drop 8 ?h) @ take 4 (drop 12 ?h) @ take 4 (drop 16 ?h) @ drop 20 ?h"
    using append_take_drop_id [of 4 "drop 16 ?h"] append_take_drop_id [of 4 "drop 12 ?h"]
      append_take_drop_id [of 4 "drop 8 ?h"] append_take_drop_id [of 8 ?h] by (simp del: append_take_drop_id)
  then show ?thesis
    unfolding uuid_str_def Let_def by (simp add: keep part)
qed

theorem uuid_parse_str [simp]: "uuid_parse (uuid_str u) = Inr u"
proof -
  have absent: "CHR '':'' \<notin> set (uuid_str u)" "\<forall>c \<in> set (uuid_str u). c \<notin> {CHR ''{'', CHR ''}''}"
    using uuid_str_chars [of _ u] hex_pad_no_chars [of 32 "unat u"] by fastforce+
  have "unat u < 2 ^ LENGTH(128)" by (rule unsigned_less)
  then have "py_int16 (hex_pad 32 (unat u)) = Inr (uint u)"
    by (subst py_int16_hex_pad) simp_all
  moreover have "0 \<le> uint u" "uint u < 2 ^ LENGTH(128)" by (simp, rule unsigned_less)
  ultimately show ?thesis
    using absent by (simp add: uuid_parse_def py_remove_all_absent [where c = "CHR '':''"]
        strip_chars_absent uuid_str_digits)
qed

lemma uuid_str_inject [simp]: "uuid_str u = uuid_str v \<longleftrightarrow> u = v"
  by (metis sum.inject(2) uuid_parse_str)

end
