(* ===== verification/Authz_Scopes.thy ===== *)
theory Authz_Scopes
  imports Py_Uuid
begin

text \<open>
  Roles and scopes: the \<open>Role\<close> of a request (\<open>auth/types.py\<close>), matching of granted against
  required scopes with the decorator \<open>require_scope\<close> (\<open>authz/controls.py\<close>), and the scopes of
  the preset roles with the backfill of old roles (\<open>authz/scopes.py\<close>). A frozenset of scopes is a
  set of strings.
\<close>

section \<open>Roles\<close>

datatype role_type = USER_ROLE | SERVICE_ROLE | SERVICE_ACCOUNT_ROLE

text \<open>
  The last two fields are the extra fields that roles of old workflow histories carry (the model
  allows extra fields).
\<close>

record role =
  role_type :: role_type
  workspace_id :: "uuid option"
  bound_workspace_id :: "uuid option"
  organization_id :: "uuid option"
  user_id :: "uuid option"
  service_account_id :: "uuid option"
  service_id :: string
  is_platform_superuser :: bool
  scopes :: "string set option"
  org_role :: "string option"
  workspace_role :: "string option"

text \<open>The literal type \<open>InternalServiceID\<close> of \<open>identifiers/__init__.py\<close>.\<close>

definition INTERNAL_SERVICE_IDS :: "string list" where
  "INTERNAL_SERVICE_IDS =
     [''tracecat-api'', ''tracecat-bootstrap'', ''tracecat-cli'', ''tracecat-executor'',
      ''tracecat-agent-executor'', ''tracecat-case-triggers'', ''tracecat-llm-gateway'',
      ''tracecat-mcp'', ''tracecat-runner'', ''tracecat-schedule-runner'', ''tracecat-service'',
      ''tracecat-ui'']"

definition validate_service_account_shape :: "role \<Rightarrow> py_error + role" where
  "validate_service_account_shape r =
     (if role_type r = SERVICE_ACCOUNT_ROLE \<and> organization_id r = None then Inl ValueError
      else if role_type r = SERVICE_ACCOUNT_ROLE \<and> service_account_id r = None then Inl ValueError
      else if role_type r = SERVICE_ACCOUNT_ROLE \<and> user_id r \<noteq> None then Inl ValueError
      else if bound_workspace_id r \<noteq> None \<and> workspace_id r \<noteq> bound_workspace_id r then Inl ValueError
      else Inr r)"

text \<open>
  The constructor: pydantic checks the service id against the literal type and runs the validator; a
  ValueError of the validator surfaces as a ValidationError.
\<close>

definition make_role :: "role \<Rightarrow> py_error + role" where
  "make_role r =
     (if service_id r \<notin> set INTERNAL_SERVICE_IDS then Inl ValidationError
      else case validate_service_account_shape r of Inl _ \<Rightarrow> Inl ValidationError | Inr r' \<Rightarrow> Inr r')"

definition is_privileged :: "role \<Rightarrow> bool" where
  "is_privileged r =
     (is_platform_superuser r \<or>
      (case scopes r of None \<Rightarrow> False | Some S \<Rightarrow> ''org:workspace:read'' \<in> S))"

definition actor_id :: "role \<Rightarrow> uuid option" where
  "actor_id r =
     (if role_type r = SERVICE_ACCOUNT_ROLE \<and> service_account_id r \<noteq> None then service_account_id r
      else user_id r)"

definition blank_role :: "role_type \<Rightarrow> string \<Rightarrow> role" where
  "blank_role t sid =
     \<lparr>role_type = t, workspace_id = None, bound_workspace_id = None, organization_id = None,
      user_id = None, service_account_id = None, service_id = sid, is_platform_superuser = False,
      scopes = None, org_role = None, workspace_role = None\<rparr>"

definition system_role :: "role" where
  "system_role = (blank_role SERVICE_ROLE ''tracecat-api'')\<lparr>scopes := Some {''*''}\<rparr>"

section \<open>Shell-style patterns\<close>

text \<open>
  \<open>fnmatch.fnmatch\<close> of the standard library on a case-sensitive file system. A pattern is read
  into tokens, where \<open>[\<dots>]\<close> is a class of characters and an opening bracket without a closing
  one is a literal. Ranges whose ends are in the wrong order are dropped; if an exclamation mark then
  comes first, the class is negated.
\<close>

datatype class_item = Single char | Range char char

datatype glob_token = Star | AnyChar | Lit char | CharClass bool "class_item list"

fun class_items :: "string \<Rightarrow> class_item list" where
  "class_items (a # h # b # cs) =
     (if h = CHR ''-'' then Range a b # class_items cs else Single a # class_items (h # b # cs))"
| "class_items (a # cs) = Single a # class_items cs"
| "class_items [] = []"

fun item_nonempty :: "class_item \<Rightarrow> bool" where
  "item_nonempty (Single _) = True"
| "item_nonempty (Range a b) = (of_char a \<le> (of_char b :: nat))"

fun in_item :: "class_item \<Rightarrow> char \<Rightarrow> bool" where
  "in_item (Single a) c = (c = a)"
| "in_item (Range a b) c = ((of_char a :: nat) \<le> of_char c \<and> (of_char c :: nat) \<le> of_char b)"

definition glob_class :: "string \<Rightarrow> glob_token" where
  "glob_class stuff =
     (if stuff \<noteq> [] \<and> hd stuff = CHR ''!''
      then CharClass True (filter item_nonempty (class_items (tl stuff)))
      else case filter item_nonempty (class_items stuff) of
        Single c # r \<Rightarrow> if c = CHR ''!'' then CharClass True r else CharClass False (Single c # r)
      | Range a b # r \<Rightarrow>
          if a = CHR ''!'' then CharClass True (Single (CHR ''-'') # Single b # r)
          else CharClass False (Range a b # r)
      | [] \<Rightarrow> CharClass False [])"

text \<open>
  The text after an opening bracket: the stuff of the class and what follows the closing bracket. A
  closing bracket in the first place, also after an exclamation mark, belongs to the class.
\<close>

definition class_split :: "string \<Rightarrow> (string \<times> string) option" where
  "class_split s =
     (let neg = (if s \<noteq> [] \<and> hd s = CHR ''!'' then [CHR ''!''] else []);
          s1 = drop (length neg) s;
          first = (if s1 \<noteq> [] \<and> hd s1 = CHR '']'' then [CHR '']''] else []);
          s2 = drop (length first) s1;
          inner = takeWhile (\<lambda>c. c \<noteq> CHR '']'') s2
      in case drop (length inner) s2 of
           [] \<Rightarrow> None
         | _ # rest \<Rightarrow> Some (neg @ first @ inner, rest))"

lemma class_split_shorter: "class_split s = Some (stuff, rest) \<Longrightarrow> length rest < length s"
proof -
  assume "class_split s = Some (stuff, rest)"
  then obtain n c where "drop n s = c # rest"
    by (auto simp: class_split_def Let_def drop_drop split: list.splits if_splits)
  then have "length (c # rest) \<le> length s" by (metis length_drop diff_le_self)
  then show ?thesis by simp
qed

function glob_tokens :: "string \<Rightarrow> glob_token list" where
  "glob_tokens [] = []"
| "glob_tokens (c # cs) =
     (if c = CHR ''*'' then
        (case glob_tokens cs of Star # ts \<Rightarrow> Star # ts | ts \<Rightarrow> Star # ts)
      else if c = CHR ''?'' then AnyChar # glob_tokens cs
      else if c = CHR ''['' then
        (case class_split cs of
           None \<Rightarrow> Lit c # glob_tokens cs
         | Some (stuff, rest) \<Rightarrow> glob_class stuff # glob_tokens rest)
      else Lit c # glob_tokens cs)"
  by pat_completeness auto
termination
  by (relation "measure length") (auto simp: less_Suc_eq dest: class_split_shorter)

fun token_accepts :: "glob_token \<Rightarrow> char \<Rightarrow> bool" where
  "token_accepts Star c = True"
| "token_accepts AnyChar c = True"
| "token_accepts (Lit a) c = (c = a)"
| "token_accepts (CharClass neg items) c = ((\<exists>i \<in> set items. in_item i c) \<noteq> neg)"

function (sequential) glob_match :: "glob_token list \<Rightarrow> string \<Rightarrow> bool" where
  "glob_match [] s = (s = [])"
| "glob_match (Star # ts) [] = glob_match ts []"
| "glob_match (Star # ts) (c # cs) = (glob_match ts (c # cs) \<or> glob_match (Star # ts) cs)"
| "glob_match (t # ts) [] = False"
| "glob_match (t # ts) (c # cs) = (token_accepts t c \<and> glob_match ts cs)"
  by pat_completeness auto
termination by (relation "measure (\<lambda>(ts, s). length ts + length s)") auto

definition fnmatch :: "string \<Rightarrow> string \<Rightarrow> bool" where
  "fnmatch name pat = glob_match (glob_tokens pat) name"

section \<open>Matching scopes\<close>

definition scope_char :: "char \<Rightarrow> bool" where
  "scope_char c =
     (let n = of_char c :: nat in
      (97 \<le> n \<and> n \<le> 122) \<or> (48 \<le> n \<and> n \<le> 57) \<or> c \<in> {CHR '':'', CHR ''_'', CHR ''.'', CHR ''*'', CHR ''-''})"

text \<open>
  \<open>SCOPE_PATTERN.match\<close>: the dollar sign also matches before a line feed that ends the text.
\<close>

definition validate_scope_string :: "string \<Rightarrow> bool" where
  "validate_scope_string s =
     (let body = (if s \<noteq> [] \<and> last s = CHR 0x0A then butlast s else s)
      in body \<noteq> [] \<and> (\<forall>c \<in> set body. scope_char c))"

definition ACTION_IMPLIES :: "(string, string list) dict" where
  "ACTION_IMPLIES = [(''update'', [''read''])]"

text \<open>\<open>s.rsplit(c, maxsplit=1)\<close>: the parts before and after the last separator.\<close>

definition py_rsplit1 :: "char \<Rightarrow> string \<Rightarrow> string list" where
  "py_rsplit1 c s =
     (case py_split1 c (rev s) of (a, None) \<Rightarrow> [s] | (a, Some b) \<Rightarrow> [rev b, rev a])"

definition implied_scopes :: "string \<Rightarrow> string list" where
  "implied_scopes granted =
     (if CHR ''*'' \<in> set granted then []
      else case py_rsplit1 (CHR '':'') granted of
        [pre, action] \<Rightarrow>
          (case dict_get ACTION_IMPLIES action of
             None \<Rightarrow> []
           | Some implied \<Rightarrow> map (\<lambda>a. pre @ '':'' @ a) implied)
      | _ \<Rightarrow> [])"

definition scope_matches :: "string \<Rightarrow> string \<Rightarrow> bool" where
  "scope_matches granted required =
     (if granted = ''*'' then True
      else if CHR ''*'' \<notin> set granted then
        (if granted = required then True else required \<in> set (implied_scopes granted))
      else fnmatch required granted)"

definition has_scope :: "string set \<Rightarrow> string \<Rightarrow> bool" where
  "has_scope user_scopes required = (\<exists>granted \<in> user_scopes. scope_matches granted required)"

definition has_all_scopes :: "string set \<Rightarrow> string set \<Rightarrow> bool" where
  "has_all_scopes user_scopes required = (\<forall>s \<in> required. has_scope user_scopes s)"

definition has_any_scope :: "string set \<Rightarrow> string set \<Rightarrow> bool" where
  "has_any_scope user_scopes required = (\<exists>s \<in> required. has_scope user_scopes s)"

definition get_missing_scopes :: "string set \<Rightarrow> string set \<Rightarrow> string set" where
  "get_missing_scopes user_scopes required = {s \<in> required. \<not> has_scope user_scopes s}"

section \<open>Requiring scopes\<close>

datatype scope_error = ScopeDenied (required_scopes: "string set") (missing_scopes: "string set")

definition require_action_scope :: "role option \<Rightarrow> string \<Rightarrow> scope_error + unit" where
  "require_action_scope ctx_role action_key =
     (let required = ''action:'' @ action_key @ '':execute'' in
      case ctx_role of
        None \<Rightarrow> Inl (ScopeDenied {required} {required})
      | Some r \<Rightarrow>
          (case scopes r of
             None \<Rightarrow> Inl (ScopeDenied {required} {required})
           | Some S \<Rightarrow>
               if ''*'' \<in> S then Inr ()
               else if \<not> has_scope S required then Inl (ScopeDenied {required} {required})
               else Inr ()))"

definition check_scopes ::
    "string set \<Rightarrow> bool \<Rightarrow> role option \<Rightarrow> role option \<Rightarrow> scope_error + unit" where
  "check_scopes required require_all ctx_role method_role =
     (if required = {} then Inr ()
      else case (case method_role of Some r \<Rightarrow> Some r | None \<Rightarrow> ctx_role) of
        None \<Rightarrow> Inl (ScopeDenied required required)
      | Some r \<Rightarrow>
          (case scopes r of
             None \<Rightarrow> Inl (ScopeDenied required required)
           | Some S \<Rightarrow>
               if ''*'' \<in> S then Inr ()
               else if require_all then
                 (let missing = get_missing_scopes S required in
                  if missing \<noteq> {} then Inl (ScopeDenied required missing) else Inr ())
               else if \<not> has_any_scope S required then Inl (ScopeDenied required required)
               else Inr ()))"

text \<open>
  A call of a decorated function, as the wrapper looks at it: the \<open>role\<close> attribute of the first
  positional argument, if there is such an argument and it has one (its value may be None), and the
  keyword argument \<open>role\<close>, if it is a \<open>Role\<close>. The async and the plain wrapper do the same.
\<close>

record call =
  arg0_role :: "role option option"
  kw_role :: "role option"

definition method_role_of :: "call \<Rightarrow> role option" where
  "method_role_of cl =
     (let method_role = (case arg0_role cl of Some r \<Rightarrow> r | None \<Rightarrow> None)
      in if method_role = None then kw_role cl else method_role)"

text \<open>
  The decorated function \<open>fn\<close> works on a state: when the check raises, the state is as before.
\<close>

definition require_scope ::
    "string list \<Rightarrow> bool \<Rightarrow> (call \<Rightarrow> 's \<Rightarrow> 'r \<times> 's) \<Rightarrow> role option \<Rightarrow> call \<Rightarrow> 's \<Rightarrow> (scope_error + 'r) \<times> 's"
where
  "require_scope scs require_all fn ctx_role cl s =
     (case check_scopes (set scs) require_all ctx_role (method_role_of cl) of
        Inl e \<Rightarrow> (Inl e, s)
      | Inr _ \<Rightarrow> (case fn cl s of (r, s') \<Rightarrow> (Inr r, s')))"

section \<open>Preset roles\<close>

definition VIEWER_SCOPES :: "string set" where
  "VIEWER_SCOPES = set
     [''inbox:read'', ''workflow:read'', ''integration:read'', ''case:read'', ''table:read'',
      ''schedule:read'', ''agent:read'', ''secret:read'', ''tag:read'', ''variable:read'',
      ''workspace:read'', ''workspace:member:read'']"

definition EDITOR_SCOPES :: "string set" where
  "EDITOR_SCOPES = VIEWER_SCOPES \<union> set
     [''workflow:sync'', ''workspace_sync:sync'', ''workflow:create'', ''workflow:update'',
      ''workflow:execute'', ''workflow:terminate'', ''integration:create'',
      ''integration:update'', ''case:create'', ''case:update'', ''table:create'',
      ''table:update'', ''schedule:create'', ''schedule:update'', ''agent:create'',
      ''agent:update'', ''agent:execute'', ''secret:create'', ''secret:update'', ''tag:create'',
      ''tag:update'', ''variable:create'', ''variable:update'', ''action:*:execute'']"

definition ADMIN_SCOPES :: "string set" where
  "ADMIN_SCOPES = EDITOR_SCOPES \<union> set
     [''workflow:delete'', ''case:delete'', ''table:delete'', ''schedule:delete'',
      ''secret:delete'', ''tag:delete'', ''variable:delete'', ''agent:delete'',
      ''integration:delete'', ''workspace:update'', ''workspace:delete'',
      ''workspace:member:invite'', ''workspace:member:remove'', ''workspace:member:update'',
      ''workspace:rbac:read'', ''workspace:rbac:manage'', ''workspace:service_account:read'',
      ''workspace:service_account:create'', ''workspace:service_account:update'',
      ''workspace:service_account:disable'', ''action:*:execute'']"

definition ORG_OWNER_SCOPES :: "string set" where
  "ORG_OWNER_SCOPES = set
     [''org:read'', ''org:update'', ''org:delete'', ''org:member:read'', ''org:member:invite'',
      ''org:member:remove'', ''org:member:update'', ''org:billing:read'', ''org:billing:update'',
      ''org:owner:assign'', ''org:rbac:read'', ''org:rbac:create'', ''org:rbac:update'',
      ''org:rbac:delete'', ''org:service_account:read'', ''org:service_account:create'',
      ''org:service_account:update'', ''org:service_account:disable'', ''org:settings:read'',
      ''org:settings:update'', ''org:settings:delete'', ''org:registry:read'',
      ''org:registry:create'', ''org:registry:update'', ''org:registry:delete'',
      ''org:workspace:read'', ''workspace:read'', ''workspace:create'', ''workspace:update'',
      ''workspace:delete'', ''workspace:member:read'', ''workspace:member:invite'',
      ''workspace:member:remove'', ''workspace:member:update'', ''workspace:rbac:read'',
      ''workspace:rbac:manage'', ''workspace:service_account:read'',
      ''workspace:service_account:create'', ''workspace:service_account:update'',
      ''workspace:service_account:disable'', ''inbox:read'', ''workflow:read'',
      ''workflow:sync'', ''workspace_sync:sync'', ''workflow:create'', ''workflow:update'',
      ''workflow:delete'', ''workflow:execute'', ''workflow:terminate'', ''integration:read'',
      ''integration:create'', ''integration:update'', ''integration:delete'', ''case:read'',
      ''case:create'', ''case:update'', ''case:delete'', ''table:read'', ''table:create'',
      ''table:update'', ''table:delete'', ''tag:read'', ''tag:create'', ''tag:update'',
      ''tag:delete'', ''variable:read'', ''variable:create'', ''variable:update'',
      ''variable:delete'', ''schedule:read'', ''schedule:create'', ''schedule:update'',
      ''schedule:delete'', ''agent:read'', ''agent:create'', ''agent:update'', ''agent:delete'',
      ''agent:execute'', ''secret:read'', ''secret:create'', ''secret:update'',
      ''secret:delete'', ''org:secret:read'', ''org:secret:create'', ''org:secret:update'',
      ''org:secret:delete'', ''action:*:execute'']"

definition ORG_ADMIN_SCOPES :: "string set" where
  "ORG_ADMIN_SCOPES = set
     [''org:read'', ''org:update'', ''org:member:read'', ''org:member:invite'',
      ''org:member:remove'', ''org:member:update'', ''org:billing:read'', ''org:rbac:read'',
      ''org:rbac:create'', ''org:rbac:update'', ''org:rbac:delete'',
      ''org:service_account:read'', ''org:service_account:create'',
      ''org:service_account:update'', ''org:service_account:disable'', ''org:settings:read'',
      ''org:settings:update'', ''org:settings:delete'', ''org:registry:read'',
      ''org:registry:create'', ''org:registry:update'', ''org:registry:delete'',
      ''org:workspace:read'', ''workspace:read'', ''workspace:create'', ''workspace:update'',
      ''workspace:delete'', ''workspace:member:read'', ''workspace:member:invite'',
      ''workspace:member:remove'', ''workspace:member:update'', ''workspace:rbac:read'',
      ''workspace:rbac:manage'', ''workspace:service_account:read'',
      ''workspace:service_account:create'', ''workspace:service_account:update'',
      ''workspace:service_account:disable'', ''inbox:read'', ''workflow:read'',
      ''workflow:sync'', ''workspace_sync:sync'', ''workflow:create'', ''workflow:update'',
      ''workflow:delete'', ''workflow:execute'', ''workflow:terminate'', ''integration:read'',
      ''integration:create'', ''integration:update'', ''integration:delete'', ''case:read'',
      ''case:create'', ''case:update'', ''case:delete'', ''table:read'', ''table:create'',
      ''table:update'', ''table:delete'', ''tag:read'', ''tag:create'', ''tag:update'',
      ''tag:delete'', ''variable:read'', ''variable:create'', ''variable:update'',
      ''variable:delete'', ''schedule:read'', ''schedule:create'', ''schedule:update'',
      ''schedule:delete'', ''agent:read'', ''agent:create'', ''agent:update'', ''agent:delete'',
      ''agent:execute'', ''secret:read'', ''secret:create'', ''secret:update'',
      ''secret:delete'', ''org:secret:read'', ''org:secret:create'', ''org:secret:update'',
      ''org:secret:delete'', ''action:*:execute'']"

definition ORG_MEMBER_SCOPES :: "string set" where
  "ORG_MEMBER_SCOPES = set
     [''org:read'', ''org:member:read'', ''org:registry:read'', ''agent:read'',
      ''agent:execute'', ''org:secret:read'']"

definition WORKSPACE_OPERATIONAL_SCOPES :: "string set" where
  "WORKSPACE_OPERATIONAL_SCOPES = set
     [''inbox:read'', ''workflow:read'', ''workflow:sync'', ''workspace_sync:sync'',
      ''workflow:create'', ''workflow:update'', ''workflow:delete'', ''workflow:execute'',
      ''workflow:terminate'', ''integration:read'', ''integration:create'',
      ''integration:update'', ''integration:delete'', ''case:read'', ''case:create'',
      ''case:update'', ''case:delete'', ''table:read'', ''table:create'', ''table:update'',
      ''table:delete'', ''variable:read'', ''variable:create'', ''variable:update'',
      ''variable:delete'', ''secret:read'', ''secret:create'', ''secret:update'',
      ''secret:delete'', ''agent:read'', ''agent:create'', ''agent:update'', ''agent:delete'',
      ''agent:execute'', ''schedule:read'', ''schedule:create'', ''schedule:update'',
      ''schedule:delete'', ''tag:read'', ''tag:create'', ''tag:update'', ''tag:delete'',
      ''workspace:read'', ''workspace:create'', ''workspace:delete'', ''workspace:member:read'',
      ''deduplicate:create'', ''action:*:execute'', ''org:secret:read'']"

definition PRESET_ROLE_SCOPES :: "(string, string set) dict" where
  "PRESET_ROLE_SCOPES =
     [(''workspace-viewer'', VIEWER_SCOPES),
      (''workspace-editor'', EDITOR_SCOPES),
      (''workspace-admin'', ADMIN_SCOPES),
      (''organization-owner'', ORG_OWNER_SCOPES),
      (''organization-admin'', ORG_ADMIN_SCOPES),
      (''organization-member'', ORG_MEMBER_SCOPES)]"

definition SERVICE_PRINCIPAL_SCOPES :: "(string, string set) dict" where
  "SERVICE_PRINCIPAL_SCOPES = map (\<lambda>sid. (sid, WORKSPACE_OPERATIONAL_SCOPES)) INTERNAL_SERVICE_IDS"

definition LEGACY_ORG_ROLE_TO_PRESET_SLUG :: "(string, string) dict" where
  "LEGACY_ORG_ROLE_TO_PRESET_SLUG =
     [(''owner'', ''organization-owner''), (''admin'', ''organization-admin''),
      (''member'', ''organization-member'')]"

definition LEGACY_WORKSPACE_ROLE_TO_PRESET_SLUG :: "(string, string) dict" where
  "LEGACY_WORKSPACE_ROLE_TO_PRESET_SLUG =
     [(''admin'', ''workspace-admin''), (''editor'', ''workspace-editor''),
      (''viewer'', ''workspace-viewer'')]"

definition legacy_scopes :: "(string, string) dict \<Rightarrow> string option \<Rightarrow> string set" where
  "legacy_scopes slugs legacy =
     (case legacy of
        None \<Rightarrow> {}
      | Some name \<Rightarrow>
          (case dict_get slugs name of
             None \<Rightarrow> {}
           | Some slug \<Rightarrow> dict_get_default PRESET_ROLE_SCOPES slug {}))"

definition backfill_legacy_role_scopes :: "role \<Rightarrow> role" where
  "backfill_legacy_role_scopes r =
     (if scopes r \<noteq> None \<and> scopes r \<noteq> Some {} then r
      else
        let found =
          (case role_type r of
             SERVICE_ROLE \<Rightarrow>
               (if service_id r \<noteq> [] then dict_get_default SERVICE_PRINCIPAL_SCOPES (service_id r) {} else {})
           | USER_ROLE \<Rightarrow>
               legacy_scopes LEGACY_ORG_ROLE_TO_PRESET_SLUG (org_role r) \<union>
               legacy_scopes LEGACY_WORKSPACE_ROLE_TO_PRESET_SLUG (workspace_role r)
           | SERVICE_ACCOUNT_ROLE \<Rightarrow> {})
        in if found = {} then r else r\<lparr>scopes := Some found\<rparr>)"

end
