(* ===== verification/Auth_Rbac.thy ===== *)
theory Auth_Rbac
  imports Authz_Scopes
begin

text \<open>
  The tables that decide what a user may do, and the code that reads and changes them: seeding of the
  preset roles (\<open>authz/seeding.py\<close>), the defaults of users in single-tenant deployments
  (\<open>organization/management.py\<close>), workspace memberships (\<open>authz/service.py\<close>), and the
  effective scopes of a role with their caches (\<open>auth/credentials.py\<close>). A statement of the
  database is an operation on lists of rows; a row keeps the columns that the code reads.
\<close>

section \<open>State\<close>

text \<open>A user or a group has a role in an organization, or only in one of its workspaces.\<close>

record assignment =
  as_org :: uuid
  as_subject :: uuid
  as_workspace :: "uuid option"
  as_role :: uuid

record api_key_row =
  key_account :: uuid
  key_salt :: string
  key_hashed :: string
  key_revoked :: bool
  last_used_at :: "int option"

record account_row =
  account_org :: uuid
  account_workspace :: "uuid option"
  account_disabled :: bool
  account_scopes :: "string set"

text \<open>
  Organizations have an active flag and a time of creation; a role has its organization and slug; a
  scope has its name and, if it is not of the platform, its organization.
\<close>

record auth_db =
  organizations :: "(uuid, bool \<times> int) dict"
  workspaces :: "(uuid, uuid) dict"
  org_memberships :: "(uuid \<times> uuid) list"
  memberships :: "(uuid \<times> uuid) list"
  role_rows :: "(uuid, uuid \<times> string option) dict"
  scope_rows :: "(uuid, string \<times> uuid option) dict"
  role_scope :: "(uuid \<times> uuid) list"
  user_assignments :: "assignment list"
  group_assignments :: "assignment list"
  group_members :: "(uuid \<times> uuid) list"
  api_keys :: "(string, api_key_row) dict"
  service_accounts :: "(uuid, account_row) dict"

text \<open>The request-scoped cache of memberships, from workspace ids as text to the user of the row.\<close>

record auth_cache =
  cached_memberships :: "(string, uuid) dict"
  membership_checked :: bool
  cache_user :: "uuid option"

record rls_context =
  rls_org :: "uuid option"
  rls_workspace :: "uuid option"
  rls_user :: "uuid option"
  rls_bypass :: bool

type_synonym scope_key = "uuid \<times> uuid \<times> uuid option"

record auth_state =
  db :: auth_db
  org_cache :: "(uuid, uuid option) dict"
  scope_cache :: "(scope_key, string set) dict"
  req_cache :: "auth_cache option"
  ctx_role :: "role option"
  rls :: rls_context

datatype auth_error = Http nat | Denied scope_error | Raised py_error

type_synonym 'a auth_m = "auth_state \<Rightarrow> (auth_error + 'a) \<times> auth_state"

definition areturn :: "'a \<Rightarrow> 'a auth_m" where
  "areturn x s = (Inr x, s)"

definition araise :: "auth_error \<Rightarrow> 'a auth_m" where
  "araise e s = (Inl e, s)"

definition abind :: "'a auth_m \<Rightarrow> ('a \<Rightarrow> 'b auth_m) \<Rightarrow> 'b auth_m" where
  "abind m f s = (case m s of (Inl e, s') \<Rightarrow> (Inl e, s') | (Inr x, s') \<Rightarrow> f x s')"

text \<open>
  What the environment decides: which cache entries have not expired or been evicted, the deployment
  mode, the ids that \<open>uuid4\<close> draws for preset roles, and the creation of the default organization
  (settings, workspace and tier of a new organization, by the services for them).
\<close>

record auth_env =
  org_live :: "uuid \<Rightarrow> bool"
  scope_live :: "scope_key \<Rightarrow> bool"
  multi_tenant :: bool
  new_role_id :: "string \<Rightarrow> uuid"
  make_default_org :: "auth_db \<Rightarrow> uuid \<times> auth_db"

section \<open>Cached lookups\<close>

text \<open>\<open>alru_cache\<close>: a live entry is the answer, otherwise the function runs and its result is kept.\<close>

definition alru :: "('k \<Rightarrow> bool) \<Rightarrow> ('k \<Rightarrow> 'v) \<Rightarrow> 'k \<Rightarrow> ('k, 'v) dict \<Rightarrow> 'v \<times> ('k, 'v) dict" where
  "alru live f k c =
     (case (if live k then dict_get c k else None) of
        Some v \<Rightarrow> (v, c)
      | None \<Rightarrow> (f k, dict_set k (f k) c))"

definition get_workspace_org_id :: "auth_env \<Rightarrow> uuid \<Rightarrow> uuid option auth_m" where
  "get_workspace_org_id env w s =
     (case alru (org_live env) (dict_get (workspaces (db s))) w (org_cache s) of
        (org, c) \<Rightarrow> (Inr org, s\<lparr>org_cache := c\<rparr>))"

text \<open>The scopes of a role, and the union of the query over user and group assignments.\<close>

definition role_scope_names :: "auth_db \<Rightarrow> uuid \<Rightarrow> string list" where
  "role_scope_names d rid =
     (if rid \<in> set (dict_keys (role_rows d))
      then [name. (r, sid) \<leftarrow> role_scope d, r = rid, (sid', name, _) \<leftarrow> scope_rows d, sid' = sid]
      else [])"

definition workspace_condition :: "uuid option \<Rightarrow> assignment \<Rightarrow> bool" where
  "workspace_condition ws a =
     (case ws of None \<Rightarrow> as_workspace a = None
      | Some _ \<Rightarrow> as_workspace a = None \<or> as_workspace a = ws)"

definition query_scopes :: "auth_db \<Rightarrow> scope_key \<Rightarrow> string set" where
  "query_scopes d k =
     (case k of (user, org, ws) \<Rightarrow>
        set [name. a \<leftarrow> user_assignments d, as_subject a = user, as_org a = org,
                   workspace_condition ws a, name \<leftarrow> role_scope_names d (as_role a)] \<union>
        set [name. a \<leftarrow> group_assignments d, (as_subject a, user) \<in> set (group_members d),
                   as_org a = org, workspace_condition ws a, name \<leftarrow> role_scope_names d (as_role a)])"

definition compute_effective_scopes_cached :: "auth_env \<Rightarrow> scope_key \<Rightarrow> string set auth_m" where
  "compute_effective_scopes_cached env k s =
     (case alru (scope_live env) (query_scopes (db s)) k (scope_cache s) of
        (S, c) \<Rightarrow> (Inr S, s\<lparr>scope_cache := c\<rparr>))"

definition compute_effective_scopes :: "auth_env \<Rightarrow> role \<Rightarrow> string set auth_m" where
  "compute_effective_scopes env r =
     (if is_platform_superuser r then areturn {''*''}
      else case role_type r of
        SERVICE_ACCOUNT_ROLE \<Rightarrow> areturn (case scopes r of None \<Rightarrow> {} | Some S \<Rightarrow> S)
      | SERVICE_ROLE \<Rightarrow> areturn (dict_get_default SERVICE_PRINCIPAL_SCOPES (service_id r) {})
      | USER_ROLE \<Rightarrow>
          (case (user_id r, organization_id r) of
             (Some u, Some org) \<Rightarrow> compute_effective_scopes_cached env (u, org, workspace_id r)
           | _ \<Rightarrow> areturn {}))"

definition invalidate_user_scope_cache :: "uuid \<Rightarrow> uuid \<Rightarrow> uuid option \<Rightarrow> auth_state \<Rightarrow> auth_state" where
  "invalidate_user_scope_cache user org ws s =
     (let c = dict_pop (user, org, None) (scope_cache s)
      in s\<lparr>scope_cache := (case ws of None \<Rightarrow> c | Some _ \<Rightarrow> dict_pop (user, org, ws) c)\<rparr>)"

definition is_org_admin_via_rbac :: "auth_env \<Rightarrow> uuid \<Rightarrow> uuid \<Rightarrow> uuid option \<Rightarrow> bool auth_m" where
  "is_org_admin_via_rbac env user org ws =
     abind (compute_effective_scopes env
         ((blank_role USER_ROLE ''tracecat-api'')
            \<lparr>user_id := Some user, organization_id := Some org, workspace_id := ws\<rparr>))
       (\<lambda>S. areturn (has_scope S ''org:member:invite''))"

section \<open>Preset roles of an organization\<close>

text \<open>
  The upsert keeps a role that is there (it only rewrites name and description) and adds the others,
  in the order of the definitions.
\<close>

definition find_role :: "auth_db \<Rightarrow> uuid \<Rightarrow> string \<Rightarrow> uuid option" where
  "find_role d org slug =
     map_option fst (find (\<lambda>(rid, o', sl). o' = org \<and> sl = Some slug) (role_rows d))"

definition upsert_role :: "auth_env \<Rightarrow> uuid \<Rightarrow> string \<Rightarrow> auth_db \<Rightarrow> auth_db" where
  "upsert_role env org slug d =
     (case find_role d org slug of
        Some _ \<Rightarrow> d
      | None \<Rightarrow> d\<lparr>role_rows := role_rows d @ [(new_role_id env slug, org, Some slug)]\<rparr>)"

definition preset_links :: "auth_db \<Rightarrow> uuid \<Rightarrow> (uuid \<times> uuid) list" where
  "preset_links d org =
     [(rid, sid). (rid, o', sl) \<leftarrow> role_rows d, o' = org,
        (sid, name, so) \<leftarrow> scope_rows d, so = None,
        (case sl of None \<Rightarrow> False
         | Some slug \<Rightarrow> name \<in> dict_get_default PRESET_ROLE_SCOPES slug {})]"

definition seed_system_roles_for_org :: "auth_env \<Rightarrow> uuid \<Rightarrow> auth_db \<Rightarrow> auth_db" where
  "seed_system_roles_for_org env org d =
     (let d1 = fold (upsert_role env org) (dict_keys PRESET_ROLE_SCOPES) d
      in d1\<lparr>role_scope := fold set_add (preset_links d1 org) (role_scope d1)\<rparr>)"

section \<open>Defaults in single-tenant deployments\<close>

definition org_wide :: "uuid \<Rightarrow> uuid \<Rightarrow> assignment \<Rightarrow> bool" where
  "org_wide user org a = (as_subject a = user \<and> as_org a = org \<and> as_workspace a = None)"

definition ensure_user_defaults_in_session ::
    "auth_env \<Rightarrow> uuid \<Rightarrow> uuid \<Rightarrow> bool \<Rightarrow> auth_db \<Rightarrow> py_error + bool \<times> auth_db" where
  "ensure_user_defaults_in_session env user org is_superuser d =
     (let member = (user, org) \<in> set (org_memberships d);
          row = find (org_wide user org) (user_assignments d);
          slug_of = (\<lambda>a. case dict_get (role_rows d) (as_role a) of Some (_, sl) \<Rightarrow> sl | None \<Rightarrow> None)
      in if member \<and> (case row of None \<Rightarrow> False
             | Some a \<Rightarrow> \<not> is_superuser \<or> slug_of a = Some ''organization-owner'')
         then Inr (False, d)
         else
           let d1 = seed_system_roles_for_org env org d;
               d2 = (if member then d1 else d1\<lparr>org_memberships := org_memberships d1 @ [(user, org)]\<rparr>)
           in case find_role d2 org (if is_superuser then ''organization-owner'' else ''organization-member'') of
                None \<Rightarrow> Inl OtherError
              | Some rid \<Rightarrow>
                  (case row of
                     None \<Rightarrow> Inr (True, d2\<lparr>user_assignments := user_assignments d2 @
                         [\<lparr>as_org = org, as_subject = user, as_workspace = None, as_role = rid\<rparr>]\<rparr>)
                   | Some a \<Rightarrow>
                       if as_role a \<noteq> rid
                       then Inr (True, d2\<lparr>user_assignments :=
                              map (\<lambda>b. if org_wide user org b then b\<lparr>as_role := rid\<rparr> else b) (user_assignments d2)\<rparr>)
                       else Inr (\<not> member, d2)))"

text \<open>The first organization by time of creation.\<close>

fun earliest :: "(uuid \<times> bool \<times> int) list \<Rightarrow> (uuid \<times> bool \<times> int) option" where
  "earliest [] = None"
| "earliest (x # xs) =
     (case earliest xs of None \<Rightarrow> Some x
      | Some y \<Rightarrow> if snd (snd x) \<le> snd (snd y) then Some x else Some y)"

definition get_default_organization_id :: "auth_db \<Rightarrow> uuid option" where
  "get_default_organization_id d = map_option fst (earliest (organizations d))"

definition ensure_single_tenant_user_defaults_for_session ::
    "auth_env \<Rightarrow> uuid \<Rightarrow> bool \<Rightarrow> (uuid option \<times> bool) auth_m" where
  "ensure_single_tenant_user_defaults_for_session env user is_superuser s =
     (if multi_tenant env then (Inr (None, False), s)
      else
        let (org, d) = (case get_default_organization_id (db s) of
               Some org \<Rightarrow> (org, db s) | None \<Rightarrow> make_default_org env (db s))
        in case ensure_user_defaults_in_session env user org is_superuser d of
             Inl e \<Rightarrow> (Inl (Raised e), s\<lparr>db := d\<rparr>)
           | Inr (changed, d') \<Rightarrow> (Inr (Some org, changed), s\<lparr>db := d'\<rparr>))"

section \<open>Memberships\<close>

text \<open>A membership joined with the organization of its workspace.\<close>

definition get_membership :: "auth_db \<Rightarrow> uuid \<Rightarrow> uuid \<Rightarrow> uuid option" where
  "get_membership d w user =
     (if (user, w) \<in> set (memberships d) then dict_get (workspaces d) w else None)"

definition list_user_memberships :: "auth_db \<Rightarrow> uuid \<Rightarrow> (uuid \<times> uuid) list" where
  "list_user_memberships d user = filter (\<lambda>(u, w). u = user) (memberships d)"

definition without_assignment :: "uuid \<Rightarrow> uuid \<Rightarrow> auth_db \<Rightarrow> auth_db" where
  "without_assignment w user d =
     d\<lparr>user_assignments := filter (\<lambda>a. \<not> (as_subject a = user \<and> as_workspace a = Some w)) (user_assignments d)\<rparr>"

text \<open>The database refuses a second row for the same user and workspace and rolls back.\<close>

definition create_membership_body :: "uuid \<Rightarrow> uuid \<Rightarrow> unit auth_m" where
  "create_membership_body w user s =
     (case dict_get (workspaces (db s)) w of
        None \<Rightarrow> (Inl (Raised ValidationError), s)
      | Some org \<Rightarrow>
          (case find_role (db s) org ''workspace-editor'' of
             None \<Rightarrow> (Inl (Raised ValidationError), s)
           | Some rid \<Rightarrow>
               if (user, w) \<in> set (memberships (db s)) then (Inl (Raised OtherError), s)
               else
                 let d1 = without_assignment w user (db s);
                     d2 = d1\<lparr>memberships := memberships d1 @ [(user, w)],
                        user_assignments := user_assignments d1 @
                          [\<lparr>as_org = org, as_subject = user, as_workspace = Some w, as_role = rid\<rparr>]\<rparr>
                 in (Inr (), s\<lparr>db := d2\<rparr>)))"

definition delete_membership_body :: "uuid \<Rightarrow> uuid \<Rightarrow> unit auth_m" where
  "delete_membership_body w user s =
     (let d1 = (db s)\<lparr>memberships := filter (\<lambda>m. m \<noteq> (user, w)) (memberships (db s))\<rparr>
      in (Inr (), s\<lparr>db := without_assignment w user d1\<rparr>))"

text \<open>
  The service object carries the role it was made with, or that of the context; the decorator takes it
  from there.
\<close>

definition with_scope :: "string \<Rightarrow> role option \<Rightarrow> 'a auth_m \<Rightarrow> 'a auth_m" where
  "with_scope sc service_role body s =
     (let own = (case service_role of Some r \<Rightarrow> Some r | None \<Rightarrow> ctx_role s)
      in case require_scope [sc] True (\<lambda>_. body) (ctx_role s) \<lparr>arg0_role = Some own, kw_role = None\<rparr> s of
           (Inl e, s') \<Rightarrow> (Inl (Denied e), s')
         | (Inr r, s') \<Rightarrow> (r, s'))"

definition create_membership :: "role option \<Rightarrow> uuid \<Rightarrow> uuid \<Rightarrow> unit auth_m" where
  "create_membership service_role w user =
     with_scope ''workspace:member:invite'' service_role (create_membership_body w user)"

definition delete_membership :: "role option \<Rightarrow> uuid \<Rightarrow> uuid \<Rightarrow> unit auth_m" where
  "delete_membership service_role w user =
     with_scope ''workspace:member:remove'' service_role (delete_membership_body w user)"

end
