(* ===== verification/Auth_Credentials.thy ===== *)
theory Auth_Credentials
  imports Auth_Rbac
begin

text \<open>
  Authentication of requests (\<open>auth/credentials.py\<close>, \<open>auth/api_keys.py\<close>,
  \<open>auth/executor_tokens.py\<close>, \<open>tiers/access.py\<close>, \<open>db/rls.py\<close>): which role a request gets
  from a user session, an API key of a service account, the key of an internal service or the token of
  an executor. The hash of API keys, the decoding of signed tokens and pydantic's reading of ids are
  fields of the environment.
\<close>

section \<open>Entitlements\<close>

text \<open>
  A row of an organization has overrides, which may be null, and the entitlements of its tier if it has
  one; the default tier applies otherwise.
\<close>

record entitlement_db =
  org_tier_rows :: "(uuid, (string, bool option) dict \<times> (string, bool) dict option) dict"
  default_tier :: "(string, bool) dict option"
  default_entitlements :: "(string, bool) dict"

definition resolved_tier :: "entitlement_db \<Rightarrow> uuid \<Rightarrow> ((string, bool option) dict \<times> (string, bool) dict) option" where
  "resolved_tier edb org =
     (case dict_get (org_tier_rows edb) org of
        Some (overrides, Some tier) \<Rightarrow> Some (overrides, tier)
      | Some (overrides, None) \<Rightarrow> map_option (Pair overrides) (default_tier edb)
      | None \<Rightarrow> map_option (Pair []) (default_tier edb))"

definition is_org_entitled :: "bool \<Rightarrow> entitlement_db \<Rightarrow> uuid \<Rightarrow> string \<Rightarrow> py_error + bool" where
  "is_org_entitled multi edb org key =
     (if \<not> multi then Inr (dict_get_default (default_entitlements edb) key False)
      else case resolved_tier edb org of
        None \<Rightarrow> Inl OtherError
      | Some (overrides, tier) \<Rightarrow>
          (case dict_get overrides key of
             Some (Some v) \<Rightarrow> Inr v
           | _ \<Rightarrow> Inr (dict_get_default tier key False)))"

section \<open>Requests and environment\<close>

record auth_request =
  headers :: "(string, string) dict"
  cookies :: "(string, string) dict"

record session_user =
  user_uid :: uuid
  user_superuser :: bool

datatype workspace_requirement = WS_YES | WS_NO | WS_OPTIONAL

text \<open>
  \<open>key_hash salt key\<close> is the hex digest, or None when the salt does not decode;
  \<open>jwt_decode\<close> gives the claims of a token with a valid signature, issuer, audience, expiry and
  all required claims.
\<close>

record cred_env =
  rbac_env :: auth_env
  entitlements :: entitlement_db
  service_key :: "string option"
  key_hash :: "string \<Rightarrow> string \<Rightarrow> string option"
  jwt_decode :: "string \<Rightarrow> (string, string option) dict option"
  model_uuid :: "string \<Rightarrow> uuid option"
  rls_enforced :: bool
  now :: int

definition lift_error :: "auth_error + 'a \<Rightarrow> 'a auth_m" where
  "lift_error r s = (r, s)"

definition raised :: "py_error + 'a \<Rightarrow> 'a auth_m" where
  "raised r = lift_error (case r of Inl e \<Rightarrow> Inl (Raised e) | Inr x \<Rightarrow> Inr x)"

definition opt_uuid :: "string option \<Rightarrow> uuid option auth_m" where
  "opt_uuid t = (case t of None \<Rightarrow> areturn None | Some x \<Rightarrow> raised (rbind (uuid_parse x) (\<lambda>u. Inr (Some u))))"

section \<open>Internal services\<close>

definition SERVICE_ROLES_WHITELIST :: "string list" where
  "SERVICE_ROLES_WHITELIST =
     [''tracecat-api'', ''tracecat-cli'', ''tracecat-llm-gateway'', ''tracecat-runner'',
      ''tracecat-schedule-runner'', ''tracecat-case-triggers'', ''tracecat-ui'']"

definition get_service_key :: "cred_env \<Rightarrow> py_error + string" where
  "get_service_key env =
     (case service_key env of None \<Rightarrow> Inl ValueError | Some k \<Rightarrow> if k = [] then Inl ValueError else Inr k)"

definition role_type_text :: "role_type \<Rightarrow> string" where
  "role_type_text t = (case t of USER_ROLE \<Rightarrow> ''user'' | SERVICE_ROLE \<Rightarrow> ''service''
     | SERVICE_ACCOUNT_ROLE \<Rightarrow> ''service_account'')"

definition uuid_header :: "string \<Rightarrow> uuid option \<Rightarrow> (string, string) dict" where
  "uuid_header name u = (case u of None \<Rightarrow> [] | Some x \<Rightarrow> [(name, uuid_str x)])"

definition to_headers :: "role \<Rightarrow> (string, string) dict" where
  "to_headers r =
     [(''x-tracecat-role-type'', role_type_text (role_type r)),
      (''x-tracecat-role-service-id'', service_id r)] @
     uuid_header ''x-tracecat-role-user-id'' (user_id r) @
     uuid_header ''x-tracecat-role-workspace-id'' (workspace_id r) @
     uuid_header ''x-tracecat-role-bound-workspace-id'' (bound_workspace_id r) @
     uuid_header ''x-tracecat-role-organization-id'' (organization_id r) @
     (case scopes r of None \<Rightarrow> []
      | Some S \<Rightarrow> if S = {} then []
          else [(''x-tracecat-role-scopes'', py_join (CHR '','') (sorted_list_of_set S))]) @
     uuid_header ''x-tracecat-role-service-account-id'' (service_account_id r)"

definition parse_scopes_header :: "string option \<Rightarrow> string set" where
  "parse_scopes_header h =
     (case h of None \<Rightarrow> {} | Some t \<Rightarrow> set (filter (\<lambda>x. x \<noteq> []) (map py_strip (py_split (CHR '','') t))))"

text \<open>
  The ids of the role in the headers: user, workspace, bound workspace, organization and service
  account. Without an organization it is that of the workspace.
\<close>

definition role_headers :: "cred_env \<Rightarrow> auth_request \<Rightarrow>
    (uuid option \<times> uuid option \<times> uuid option \<times> uuid option \<times> uuid option) auth_m" where
  "role_headers env req =
     (let header = dict_get (headers req) in
      abind (opt_uuid (header ''x-tracecat-role-user-id'')) (\<lambda>user.
      abind (opt_uuid (header ''x-tracecat-role-workspace-id'')) (\<lambda>ws.
      abind (opt_uuid (header ''x-tracecat-role-bound-workspace-id'')) (\<lambda>bound.
      abind (opt_uuid (header ''x-tracecat-role-organization-id'')) (\<lambda>org0.
      abind (case (org0, if ws \<noteq> None then ws else bound) of
               (None, Some w) \<Rightarrow> get_workspace_org_id (rbac_env env) w
             | _ \<Rightarrow> areturn org0) (\<lambda>org.
      abind (opt_uuid (header ''x-tracecat-role-service-account-id'')) (\<lambda>account.
      areturn (user, ws, bound, org, account))))))))"

definition role_from_headers :: "cred_env \<Rightarrow> auth_request \<Rightarrow> string \<Rightarrow> role auth_m" where
  "role_from_headers env req sid =
     abind (role_headers env req) (\<lambda>(user, ws, bound, org, account).
       let is_account = (dict_get (headers req) ''x-tracecat-role-type'' = Some ''service_account'') in
       if is_account \<and> account = None then araise (Http 401)
       else if is_account \<and> org = None then araise (Http 401)
       else if is_account \<and> user \<noteq> None then araise (Http 401)
       else raised (make_role
         ((blank_role (if is_account then SERVICE_ACCOUNT_ROLE else SERVICE_ROLE) sid)
           \<lparr>user_id := user, workspace_id := ws, bound_workspace_id := bound,
            organization_id := org, service_account_id := account,
            scopes := Some (parse_scopes_header (dict_get (headers req) ''x-tracecat-role-scopes''))\<rparr>)))"

definition authenticate_service :: "cred_env \<Rightarrow> auth_request \<Rightarrow> string \<Rightarrow> role option auth_m" where
  "authenticate_service env req api_key =
     (if api_key = [] then areturn None
      else case dict_get (headers req) ''x-tracecat-role-service-id'' of
        None \<Rightarrow> araise (Http 401)
      | Some sid \<Rightarrow>
          if sid \<notin> set SERVICE_ROLES_WHITELIST then araise (Http 401)
          else
            abind (raised (get_service_key env)) (\<lambda>key.
            if api_key \<noteq> key then araise (Http 401)
            else abind (role_from_headers env req sid) (\<lambda>r. areturn (Some r))))"

section \<open>API keys\<close>

definition ORG_API_KEY_PREFIX :: string where
  "ORG_API_KEY_PREFIX = ''tc_org_sk_''"

definition WORKSPACE_API_KEY_PREFIX :: string where
  "WORKSPACE_API_KEY_PREFIX = ''tc_ws_sk_''"

definition parse_managed_api_key :: "string \<Rightarrow> (string \<times> string \<times> string) option" where
  "parse_managed_api_key raw =
     (case find (\<lambda>p. take (length p) raw = p) [ORG_API_KEY_PREFIX, WORKSPACE_API_KEY_PREFIX] of
        None \<Rightarrow> None
      | Some p \<Rightarrow>
          (case py_split1 (CHR ''_'') (drop (length p) raw) of
             (key_id, Some secret) \<Rightarrow> if key_id = [] \<or> secret = [] then None else Some (p, key_id, secret)
           | (_, None) \<Rightarrow> None))"

definition managed_api_key :: "string \<Rightarrow> string \<Rightarrow> string \<Rightarrow> string" where
  "managed_api_key p key_id secret = p @ key_id @ ''_'' @ secret"

definition verify_api_key :: "cred_env \<Rightarrow> string \<Rightarrow> string \<Rightarrow> string \<Rightarrow> bool" where
  "verify_api_key env candidate salt expected =
     (if salt = [] \<or> expected = [] \<or> candidate = [] then False
      else case key_hash env salt candidate of None \<Rightarrow> False | Some h \<Rightarrow> h = expected)"

text \<open>The workspace a key may act in, given its prefix and the workspace of the request.\<close>

definition resolve_key_workspace ::
    "cred_env \<Rightarrow> string \<Rightarrow> account_row \<Rightarrow> uuid option \<Rightarrow> uuid option auth_m" where
  "resolve_key_workspace env p acc ws =
     (case account_workspace acc of
        None \<Rightarrow>
          if p \<noteq> ORG_API_KEY_PREFIX then araise (Http 401)
          else (case ws of
             None \<Rightarrow> areturn None
           | Some w \<Rightarrow>
               abind (get_workspace_org_id (rbac_env env) w) (\<lambda>org.
                 case org of
                   None \<Rightarrow> araise (Http 404)
                 | Some o' \<Rightarrow> if o' \<noteq> account_org acc then araise (Http 403) else areturn ws))
      | Some b \<Rightarrow>
          if p \<noteq> WORKSPACE_API_KEY_PREFIX then araise (Http 401)
          else
            abind (get_workspace_org_id (rbac_env env) b) (\<lambda>org.
              case org of
                None \<Rightarrow> araise (Http 401)
              | Some o' \<Rightarrow>
                  if o' \<noteq> account_org acc then araise (Http 403)
                  else if ws \<noteq> None \<and> ws \<noteq> Some b then araise (Http 403)
                  else areturn (Some b)))"

definition authenticate_api_key :: "cred_env \<Rightarrow> string \<Rightarrow> uuid option \<Rightarrow> role option auth_m" where
  "authenticate_api_key env api_key ws =
     (case parse_managed_api_key api_key of
        None \<Rightarrow> areturn None
      | Some (p, key_id, _) \<Rightarrow> (\<lambda>s.
          (case dict_get (api_keys (db s)) key_id of
             None \<Rightarrow> araise (Http 401)
           | Some row \<Rightarrow>
               if key_revoked row then araise (Http 401)
               else if \<not> verify_api_key env api_key (key_salt row) (key_hashed row) then araise (Http 401)
               else (case dict_get (service_accounts (db s)) (key_account row) of
                  None \<Rightarrow> araise (Http 401)
                | Some acc \<Rightarrow>
                    if account_disabled acc then araise (Http 401)
                    else
                      abind (raised (is_org_entitled (multi_tenant (rbac_env env)) (entitlements env)
                          (account_org acc) ''service_accounts'')) (\<lambda>entitled.
                      if \<not> entitled then araise (Http 401)
                      else
                        abind (resolve_key_workspace env p acc ws) (\<lambda>resolved.
                        abind (\<lambda>s. (Inr (), s\<lparr>db := (db s)\<lparr>api_keys :=
                            dict_set key_id (row\<lparr>last_used_at := Some (now env)\<rparr>) (api_keys (db s))\<rparr>\<rparr>)) (\<lambda>_.
                        abind (raised (make_role
                          ((blank_role SERVICE_ACCOUNT_ROLE ''tracecat-api'')
                            \<lparr>organization_id := Some (account_org acc), workspace_id := resolved,
                             bound_workspace_id := account_workspace acc,
                             service_account_id := Some (key_account row),
                             scopes := Some (account_scopes acc)\<rparr>)))
                          (\<lambda>r. areturn (Some r))))))) s))"

section \<open>Users\<close>

definition MAX_CACHED_MEMBERSHIPS :: nat where
  "MAX_CACHED_MEMBERSHIPS = 1000"

definition cache_memberships :: "uuid \<Rightarrow> (uuid \<times> uuid) list \<Rightarrow> auth_cache \<Rightarrow> auth_cache" where
  "cache_memberships user all_memberships c =
     c\<lparr>cache_user := Some user,
       cached_memberships := fold (\<lambda>(u, w). dict_set (uuid_str w) u) all_memberships [],
       membership_checked := True\<rparr>"

text \<open>The membership of the user, from the request's cache or the database, or 403.\<close>

definition get_membership_with_cache :: "uuid \<Rightarrow> uuid \<Rightarrow> uuid auth_m" where
  "get_membership_with_cache w user s =
     (let query = get_membership (db s) w user;
          (found, s') = (case req_cache s of
             None \<Rightarrow> (query, s)
           | Some c \<Rightarrow>
               if dict_get (cached_memberships c) (uuid_str w) = Some user then (query, s)
               else if \<not> membership_checked c then
                 (let all_memberships = list_user_memberships (db s) user in
                  if length all_memberships > MAX_CACHED_MEMBERSHIPS then (query, s)
                  else (query, s\<lparr>req_cache := Some (cache_memberships user all_memberships c)\<rparr>))
               else if cache_user c \<noteq> Some user then (query, s)
               else (None, s))
      in case found of None \<Rightarrow> (Inl (Http 403), s') | Some org \<Rightarrow> (Inr org, s'))"

definition ACTIVE_ORG_COOKIE :: string where
  "ACTIVE_ORG_COOKIE = ''tracecat:active-org-id''"

definition active_member :: "auth_db \<Rightarrow> uuid \<Rightarrow> uuid \<Rightarrow> bool" where
  "active_member d user org =
     ((user, org) \<in> set (org_memberships d) \<and>
      (case dict_get (organizations d) org of Some (active, _) \<Rightarrow> active | None \<Rightarrow> False))"

definition resolve_org_for_regular_user :: "auth_request \<Rightarrow> uuid \<Rightarrow> uuid auth_m" where
  "resolve_org_for_regular_user req user s =
     (let from_cookie = (case dict_get (cookies req) ACTIVE_ORG_COOKIE of
             None \<Rightarrow> None
           | Some text \<Rightarrow>
               if text = [] then None
               else (case uuid_parse text of
                  Inl _ \<Rightarrow> None
                | Inr org \<Rightarrow> if active_member (db s) user org then Some org else None))
      in case from_cookie of
           Some org \<Rightarrow> (Inr org, s)
         | None \<Rightarrow>
             (case sort_key (\<lambda>(org, _, created). (created, uint org))
                (filter (\<lambda>(org, _). active_member (db s) user org) (organizations (db s))) of
                [] \<Rightarrow> (Inl (Http 400), s)
              | (org, _) # _ \<Rightarrow> (Inr org, s)))"

definition set_rls :: "rls_context \<Rightarrow> unit auth_m" where
  "set_rls c s = (Inr (), s\<lparr>rls := c\<rparr>)"

definition set_rls_context_from_role :: "role option \<Rightarrow> unit auth_m" where
  "set_rls_context_from_role ro s =
     (case (case ro of Some r \<Rightarrow> Some r | None \<Rightarrow> ctx_role s) of
        None \<Rightarrow> set_rls \<lparr>rls_org = None, rls_workspace = None, rls_user = None, rls_bypass = False\<rparr> s
      | Some r \<Rightarrow>
          if is_platform_superuser r
          then set_rls \<lparr>rls_org = None, rls_workspace = None, rls_user = user_id r, rls_bypass = True\<rparr> s
          else set_rls \<lparr>rls_org = organization_id r, rls_workspace = workspace_id r,
                        rls_user = user_id r, rls_bypass = False\<rparr> s)"

definition get_role_from_user :: "uuid \<Rightarrow> uuid option \<Rightarrow> uuid \<Rightarrow> role auth_m" where
  "get_role_from_user uid ws org =
     raised (make_role ((blank_role USER_ROLE ''tracecat-api'')
       \<lparr>workspace_id := ws, organization_id := Some org, user_id := Some uid\<rparr>))"

text \<open>
  The three parts of \<open>_authenticate_user\<close>: the defaults of single-tenant deployments, whose
  organization is returned, the check of the workspace, and the choice of an organization.
\<close>

definition repair_defaults :: "cred_env \<Rightarrow> session_user \<Rightarrow> uuid option \<Rightarrow> uuid option auth_m" where
  "repair_defaults env user ws =
     abind (ensure_single_tenant_user_defaults_for_session (rbac_env env) (user_uid user) (user_superuser user))
       (\<lambda>(single_org, changed).
         case single_org of
           Some org \<Rightarrow>
             if changed then
               abind (set_rls \<lparr>rls_org = None, rls_workspace = None, rls_user = Some (user_uid user),
                        rls_bypass = True\<rparr>)
                 (\<lambda>_ s. (Inr single_org, invalidate_user_scope_cache (user_uid user) org ws s))
             else areturn single_org
         | None \<Rightarrow> areturn None)"

definition authorize_workspace :: "cred_env \<Rightarrow> uuid \<Rightarrow> uuid option \<Rightarrow> uuid \<Rightarrow> uuid auth_m" where
  "authorize_workspace env uid single_org w =
     abind (get_workspace_org_id (rbac_env env) w) (\<lambda>resolved.
       case resolved of
         None \<Rightarrow> araise (Http 404)
       | Some org \<Rightarrow>
           if single_org \<noteq> None \<and> single_org \<noteq> Some org then araise (Http 403)
           else
             abind (is_org_admin_via_rbac (rbac_env env) uid org (Some w)) (\<lambda>is_org_admin.
             abind (if is_org_admin then areturn org else get_membership_with_cache w uid) (\<lambda>_.
             areturn org)))"

definition authenticate_user :: "cred_env \<Rightarrow> auth_request \<Rightarrow> session_user \<Rightarrow> uuid option \<Rightarrow> role auth_m" where
  "authenticate_user env req user ws =
     abind (repair_defaults env user ws) (\<lambda>single_org.
     abind (case ws of
              Some w \<Rightarrow> authorize_workspace env (user_uid user) single_org w
            | None \<Rightarrow>
                (case single_org of Some org \<Rightarrow> areturn org
                 | None \<Rightarrow> resolve_org_for_regular_user req (user_uid user)))
       (get_role_from_user (user_uid user) ws))"

section \<open>Executors\<close>

definition ascii_lower :: "char \<Rightarrow> char" where
  "ascii_lower c = (let n = of_char c :: nat in if 65 \<le> n \<and> n \<le> 90 then char_of (n + 32) else c)"

definition get_bearer_token :: "auth_request \<Rightarrow> string option" where
  "get_bearer_token req =
     (case dict_get (headers req) ''authorization'' of
        None \<Rightarrow> None
      | Some h \<Rightarrow>
          (case py_split1 (CHR '' '') h of
             (scheme, rest) \<Rightarrow>
               (let token = py_strip (case rest of None \<Rightarrow> [] | Some t \<Rightarrow> t)
                in if map ascii_lower scheme \<noteq> ''bearer'' \<or> token = [] then None else Some token)))"

definition EXECUTOR_TOKEN_SUBJECT :: string where
  "EXECUTOR_TOKEN_SUBJECT = ''tracecat-executor''"

text \<open>The payload: workspace, user and service of the token. Every failure is a ValueError.\<close>

definition verify_executor_token ::
    "cred_env \<Rightarrow> string \<Rightarrow> (uuid \<times> uuid option \<times> string option) option" where
  "verify_executor_token env token =
     (case jwt_decode env token of
        None \<Rightarrow> None
      | Some claims \<Rightarrow>
          (let claim = (\<lambda>k. case dict_get claims k of Some v \<Rightarrow> v | None \<Rightarrow> None) in
           if claim ''sub'' \<noteq> Some EXECUTOR_TOKEN_SUBJECT then None
           else if claim ''wf_id'' = None \<or> claim ''wf_exec_id'' = None then None
           else case Option.bind (claim ''workspace_id'') (model_uuid env) of
             None \<Rightarrow> None
           | Some w \<Rightarrow>
               (case claim ''service_id'' of
                  Some sid \<Rightarrow> if sid \<in> set INTERNAL_SERVICE_IDS then
                      (case claim ''user_id'' of
                         None \<Rightarrow> Some (w, None, Some sid)
                       | Some t \<Rightarrow> map_option (\<lambda>u. (w, Some u, Some sid)) (model_uuid env t))
                    else None
                | None \<Rightarrow>
                    (case claim ''user_id'' of
                       None \<Rightarrow> Some (w, None, None)
                     | Some t \<Rightarrow> map_option (\<lambda>u. (w, Some u, None)) (model_uuid env t)))))"

definition authenticate_executor ::
    "cred_env \<Rightarrow> auth_request \<Rightarrow> uuid option \<Rightarrow> workspace_requirement \<Rightarrow> role auth_m" where
  "authenticate_executor env req ws require =
     (case get_bearer_token req of
        None \<Rightarrow> araise (Http 401)
      | Some token \<Rightarrow>
          (case verify_executor_token env token of
             None \<Rightarrow> araise (Http 401)
           | Some (w, user, sid) \<Rightarrow>
               abind (get_workspace_org_id (rbac_env env) w) (\<lambda>org.
               abind (raised (make_role
                 ((blank_role SERVICE_ROLE (case sid of None \<Rightarrow> ''tracecat-executor'' | Some x \<Rightarrow> x))
                    \<lparr>workspace_id := Some w, organization_id := org, user_id := user\<rparr>))) (\<lambda>r.
               if require = WS_YES \<and> ws \<noteq> None \<and> ws \<noteq> Some w then araise (Http 403)
               else areturn r))))"

section \<open>The dependency of the routes\<close>

definition validate_role :: "cred_env \<Rightarrow> role \<Rightarrow> workspace_requirement \<Rightarrow> role auth_m" where
  "validate_role env r require =
     (if require = WS_YES \<and> workspace_id r = None then araise (Http 403)
      else abind (compute_effective_scopes (rbac_env env) r) (\<lambda>S. areturn (r\<lparr>scopes := Some S\<rparr>)))"

record credentials =
  cred_user :: "session_user option"
  cred_api_key :: "string option"
  cred_internal_key :: "string option"
  cred_tracecat_key :: "string option"

record allowed =
  allow_user :: bool
  allow_service :: bool
  allow_api_key :: bool
  allow_executor :: bool

text \<open>Present and not the empty text.\<close>

definition given :: "string option \<Rightarrow> bool" where
  "given t = (t \<noteq> None \<and> t \<noteq> Some [])"

definition dispatch :: "cred_env \<Rightarrow> auth_request \<Rightarrow> credentials \<Rightarrow> allowed \<Rightarrow>
    uuid option \<Rightarrow> workspace_requirement \<Rightarrow> role option auth_m" where
  "dispatch env req cr al ws require =
     (let key = (if given (cred_internal_key cr) then cred_internal_key cr else cred_api_key cr) in
      if cred_user cr \<noteq> None \<and> allow_user al then
        abind (set_rls \<lparr>rls_org = None, rls_workspace = None,
                 rls_user = Some (user_uid (the (cred_user cr))), rls_bypass = True\<rparr>) (\<lambda>_ s.
          case authenticate_user env req (the (cred_user cr)) ws s of
            (Inr r, s') \<Rightarrow> (Inr (Some r), s')
          | (Inl e, s') \<Rightarrow> (Inl e, snd (set_rls_context_from_role None s')))
      else if given (cred_tracecat_key cr) \<and> allow_api_key al then
        authenticate_api_key env (the (cred_tracecat_key cr)) ws
      else if given key \<and> allow_service al then authenticate_service env req (the key)
      else if allow_executor al then
        abind (authenticate_executor env req ws require) (\<lambda>r. areturn (Some r))
      else araise (Http 403))"

definition role_dependency :: "cred_env \<Rightarrow> auth_request \<Rightarrow> credentials \<Rightarrow> allowed \<Rightarrow>
    uuid option \<Rightarrow> workspace_requirement \<Rightarrow> role auth_m" where
  "role_dependency env req cr al ws require =
     abind (dispatch env req cr al ws require) (\<lambda>found.
       case found of
         None \<Rightarrow> araise (Http 401)
       | Some r0 \<Rightarrow>
           abind (validate_role env r0 require) (\<lambda>r.
           abind (\<lambda>s. (Inr (), s\<lparr>ctx_role := Some r\<rparr>)) (\<lambda>_.
           abind (if rls_enforced env then set_rls_context_from_role (Some r)
                  else set_rls \<lparr>rls_org = None, rls_workspace = None, rls_user = user_id r, rls_bypass = True\<rparr>)
             (\<lambda>_. areturn r))))"

end
