(* ===== verification/Authz_Laws.thy ===== *)
theory Authz_Laws
  imports Authz_Scopes
begin

text \<open>
  What scopes mean, independently of the pattern matcher: a granted scope covers the texts that
  replacing its asterisks by arbitrary texts gives, and a grant of an update covers the read of the
  same resource. The lemmas show that matching and the checks of the decorator compute this meaning.
\<close>

inductive fills :: "string \<Rightarrow> string \<Rightarrow> bool" where
  fills_Nil: "fills [] []"
| fills_Lit: "fills p s \<Longrightarrow> c \<noteq> CHR ''*'' \<Longrightarrow> fills (c # p) (c # s)"
| fills_Star: "fills p s \<Longrightarrow> fills (CHR ''*'' # p) (t @ s)"

inductive_simps fills_Nil_iff [simp]: "fills [] s"
inductive_simps fills_Cons_iff: "fills (c # p) s"

definition covers :: "string \<Rightarrow> string \<Rightarrow> bool" where
  "covers granted required =
     (fills granted required \<or>
      (CHR ''*'' \<notin> set granted \<and> (\<exists>pre. granted = pre @ '':update'' \<and> required = pre @ '':read'')))"

section \<open>The matcher\<close>

lemma glob_match_Star: "glob_match (Star # ts) s \<longleftrightarrow> (\<exists>t u. s = t @ u \<and> glob_match ts u)"
proof (induction s)
  case (Cons c s)
  have "(\<exists>t u. c # s = t @ u \<and> glob_match ts u) \<longleftrightarrow>
      glob_match ts (c # s) \<or> (\<exists>t u. s = t @ u \<and> glob_match ts u)"
    by (metis append_Cons append_Nil append_eq_Cons_conv)
  with Cons.IH show ?case by simp
qed simp

lemma glob_match_Star_Star: "glob_match (Star # Star # ts) s \<longleftrightarrow> glob_match (Star # ts) s"
  unfolding glob_match_Star [of "Star # ts"] by (metis append.assoc append_Nil glob_match_Star)

lemma glob_tokens_Star: "glob_match (glob_tokens (CHR ''*'' # p)) s \<longleftrightarrow> glob_match (Star # glob_tokens p) s"
  by (auto split: list.splits glob_token.splits simp: glob_match_Star_Star)

lemma glob_match_Lit:
  "glob_match (Lit c # ts) s \<longleftrightarrow> (\<exists>u. s = c # u \<and> glob_match ts u)"
  by (cases s) auto

text \<open>On patterns without question marks and brackets the matcher fills the asterisks.\<close>

lemma fnmatch_fills:
  "CHR ''?'' \<notin> set p \<Longrightarrow> CHR ''['' \<notin> set p \<Longrightarrow> fnmatch s p \<longleftrightarrow> fills p s"
  unfolding fnmatch_def
proof (induction p arbitrary: s)
  case (Cons c p)
  show ?case
  proof (cases "c = CHR ''*''")
    case True
    with Cons show ?thesis
      by (auto simp: glob_tokens_Star glob_match_Star fills_Cons_iff simp del: glob_tokens.simps)
  next
    case False
    with Cons show ?thesis by (auto simp: glob_match_Lit fills_Cons_iff)
  qed
qed simp

lemma fills_literal: "CHR ''*'' \<notin> set p \<Longrightarrow> fills p s \<longleftrightarrow> s = p"
  by (induction p arbitrary: s) (auto simp: fills_Cons_iff)

lemma fills_all [simp]: "fills ''*'' s"
  using fills_Star [OF fills_Nil, of s] by simp

lemma py_rsplit1_sep: "c \<notin> set b \<Longrightarrow> py_rsplit1 c (a @ c # b) = [a, b]"
  by (simp add: py_rsplit1_def)

lemma py_rsplit1_pairD: "py_rsplit1 c s = [a, b] \<Longrightarrow> s = a @ c # b"
  by (auto simp: py_rsplit1_def split: prod.splits option.splits dest!: py_split1_SomeD)
    (metis append.assoc append_Cons append_Nil rev.simps(2) rev_append rev_rev_ident)

lemma implied_scopes_iff:
  "required \<in> set (implied_scopes granted) \<longleftrightarrow>
     CHR ''*'' \<notin> set granted \<and> (\<exists>pre. granted = pre @ '':update'' \<and> required = pre @ '':read'')"
  (is "?l \<longleftrightarrow> ?r")
proof
  assume l: ?l
  then obtain pre action where split: "py_rsplit1 (CHR '':'') granted = [pre, action]"
    and rest: "required \<in> set (case dict_get ACTION_IMPLIES action of
        None \<Rightarrow> [] | Some implied \<Rightarrow> map (\<lambda>a. pre @ '':'' @ a) implied)"
    unfolding implied_scopes_def by (force split: if_split_asm list.split_asm)
  from rest have "action = ''update''" "required = pre @ '':read''"
    by (auto simp: ACTION_IMPLIES_def split: if_splits)
  with py_rsplit1_pairD [OF split] l show ?r
    by (auto simp: implied_scopes_def split: if_splits)
next
  assume ?r
  then obtain pre where "CHR ''*'' \<notin> set granted" and g: "granted = pre @ '':update''"
    and "required = pre @ '':read''" by blast
  moreover from g have "py_rsplit1 (CHR '':'') granted = [pre, ''update'']"
    by (simp add: py_rsplit1_sep)
  ultimately show ?l by (simp add: implied_scopes_def ACTION_IMPLIES_def)
qed

lemma trailing_char:
  "\<forall>c \<in> set (if g \<noteq> [] \<and> last g = d then butlast g else g). P c \<Longrightarrow> c \<in> set g \<Longrightarrow> c = d \<or> P c"
  by (cases g rule: rev_cases) (auto split: if_splits)

lemma valid_scope_chars:
  "validate_scope_string g \<Longrightarrow> CHR ''?'' \<notin> set g \<and> CHR ''['' \<notin> set g"
proof -
  assume valid: "validate_scope_string g"
  have "\<not> scope_char (CHR ''?'')" "\<not> scope_char (CHR ''['')" by (code_simp)+
  moreover have "c = CHR 0x0A \<or> scope_char c" if "c \<in> set g" for c
    using trailing_char [OF _ that] valid unfolding validate_scope_string_def Let_def by blast
  ultimately show ?thesis by fastforce
qed

lemma scope_matches_covers: "validate_scope_string granted \<Longrightarrow> scope_matches granted required \<longleftrightarrow> covers granted required"
  using fnmatch_fills [of granted required] valid_scope_chars [of granted]
  by (auto simp: scope_matches_def covers_def fills_literal implied_scopes_iff)

section \<open>The decorator\<close>

definition effective_role :: "role option \<Rightarrow> call \<Rightarrow> role option" where
  "effective_role ctx_role cl =
     (case method_role_of cl of Some r \<Rightarrow> Some r | None \<Rightarrow> ctx_role)"

text \<open>The scopes of the call: None if there is no role or its scopes are unresolved.\<close>

definition granted_scopes :: "role option \<Rightarrow> string set option" where
  "granted_scopes ro = Option.bind ro scopes"

definition uncovered :: "string set option \<Rightarrow> string set \<Rightarrow> string set" where
  "uncovered granted required =
     (case granted of None \<Rightarrow> required | Some S \<Rightarrow> {x \<in> required. \<forall>g \<in> S. \<not> covers g x})"

lemma has_scope_covers:
  "\<forall>g \<in> S. validate_scope_string g \<Longrightarrow> has_scope S x \<longleftrightarrow> (\<exists>g \<in> S. covers g x)"
  by (simp add: has_scope_def scope_matches_covers)

lemma covers_all [simp]: "covers ''*'' x"
  by (simp add: covers_def)

lemma check_scopes_result:
  assumes valid: "\<forall>S. granted_scopes (case mr of Some r \<Rightarrow> Some r | None \<Rightarrow> ctx) = Some S \<longrightarrow> (\<forall>g \<in> S. validate_scope_string g)"
  shows "check_scopes required require_all ctx mr =
    (let eff = (case mr of Some r \<Rightarrow> Some r | None \<Rightarrow> ctx);
         missing = uncovered (granted_scopes eff) required in
     if missing = {} \<or> (\<not> require_all \<and> missing \<noteq> required) then Inr ()
     else Inl (ScopeDenied required (if require_all then missing else required)))"
proof -
  define eff where "eff = (case mr of Some r \<Rightarrow> Some r | None \<Rightarrow> ctx)"
  show ?thesis
  proof (cases "granted_scopes eff")
    case None
    then show ?thesis
      by (auto simp: check_scopes_def granted_scopes_def uncovered_def eff_def [symmetric] Let_def
          split: option.splits)
  next
    case (Some S)
    then obtain r where r: "eff = Some r" "scopes r = Some S"
      by (auto simp: granted_scopes_def split: bind_splits)
    have has: "has_scope S x \<longleftrightarrow> (\<exists>g \<in> S. covers g x)" for x
      using valid Some by (simp add: has_scope_covers eff_def)
    have missing: "get_missing_scopes S required = uncovered (Some S) required"
      by (auto simp: get_missing_scopes_def uncovered_def has)
    have any: "has_any_scope S required \<longleftrightarrow> uncovered (Some S) required \<noteq> required"
      by (auto simp: has_any_scope_def uncovered_def has)
    have star: "uncovered (Some S) required = {}" if "''*'' \<in> S"
      using that covers_all by (fastforce simp: uncovered_def)
    have none: "uncovered (Some S) {} = {}" by (simp add: uncovered_def)
    show ?thesis
      unfolding check_scopes_def eff_def [symmetric] Let_def Some
      using star any none by (simp add: r missing)
  qed
qed

section \<open>Preset roles\<close>

lemma preset_roles_nested: "VIEWER_SCOPES \<subseteq> EDITOR_SCOPES" "EDITOR_SCOPES \<subseteq> ADMIN_SCOPES"
  by (auto simp: EDITOR_SCOPES_def ADMIN_SCOPES_def)

lemma org_admin_below_owner: "ORG_ADMIN_SCOPES \<subseteq> ORG_OWNER_SCOPES"
  by (simp add: ORG_ADMIN_SCOPES_def ORG_OWNER_SCOPES_def)

lemma workspace_admin_below_org_admin: "ADMIN_SCOPES \<subseteq> ORG_ADMIN_SCOPES"
  by (simp add: ADMIN_SCOPES_def EDITOR_SCOPES_def VIEWER_SCOPES_def ORG_ADMIN_SCOPES_def)

lemma preset_scopes_valid: "\<forall>(slug, S) \<in> set PRESET_ROLE_SCOPES. \<forall>s \<in> S. validate_scope_string s"
proof -
  have "\<forall>s \<in> ORG_OWNER_SCOPES. validate_scope_string s" "\<forall>s \<in> ORG_MEMBER_SCOPES. validate_scope_string s"
    by code_simp+
  then show ?thesis
    unfolding PRESET_ROLE_SCOPES_def
    using preset_roles_nested workspace_admin_below_org_admin org_admin_below_owner by (auto 0 5)
qed

text \<open>Service principals may not administer workspaces or the organization.\<close>

lemma service_principals_confined:
  "\<not> has_scope WORKSPACE_OPERATIONAL_SCOPES ''workspace:member:invite''"
  "\<not> has_scope WORKSPACE_OPERATIONAL_SCOPES ''workspace:update''"
  "\<not> has_scope WORKSPACE_OPERATIONAL_SCOPES ''org:member:invite''"
  "\<not> has_scope WORKSPACE_OPERATIONAL_SCOPES ''org:rbac:read''"
  by code_simp+

lemma validated_line_feed: "validate_scope_string (''workflow:read'' @ [CHR 0x0A])"
  by code_simp

end
