(* ===== verification/Auth_Laws.thy ===== *)
theory Auth_Laws
  imports Auth_Credentials Authz_Laws
begin

text \<open>
  What each way of authentication gives. The state changes of the lookups are to the caches only, and
  the organization of a workspace is that of the database, as long as the cache of organizations is
  consistent with it; workspaces never move between organizations.
\<close>

named_theorems auth_simps \<open>results of the authentication monad\<close>

lemma abind_Inr_iff [auth_simps]:
  "abind m f s = (Inr y, s') \<longleftrightarrow> (\<exists>x s1. m s = (Inr x, s1) \<and> f x s1 = (Inr y, s'))"
  by (auto simp: abind_def split: prod.splits sum.splits)

lemma areturn_Inr_iff [auth_simps]: "areturn x s = (Inr y, s') \<longleftrightarrow> y = x \<and> s' = s"
  by (auto simp: areturn_def)

lemma araise_Inr_iff [auth_simps]: "araise e s = (Inr y, s') \<longleftrightarrow> False"
  by (simp add: araise_def)

lemma raised_Inr_iff [auth_simps]: "raised r s = (Inr y, s') \<longleftrightarrow> r = Inr y \<and> s' = s"
  by (auto simp: raised_def lift_error_def split: sum.splits)

lemma set_rls_Inr_iff [auth_simps]: "set_rls c s = (Inr y, s') \<longleftrightarrow> s' = s\<lparr>rls := c\<rparr>"
  by (auto simp: set_rls_def)

lemma if_Inr_iff [auth_simps]:
  "(if b then m else m') s = (Inr y, s') \<longleftrightarrow> (b \<and> m s = (Inr y, s')) \<or> (\<not> b \<and> m' s = (Inr y, s'))"
  by auto

lemma make_role_Inr_iff [auth_simps]:
  "make_role r = Inr r' \<longleftrightarrow> r' = r \<and> service_id r \<in> set INTERNAL_SERVICE_IDS \<and>
     (role_type r = SERVICE_ACCOUNT_ROLE \<longrightarrow>
        organization_id r \<noteq> None \<and> service_account_id r \<noteq> None \<and> user_id r = None) \<and>
     (bound_workspace_id r \<noteq> None \<longrightarrow> workspace_id r = bound_workspace_id r)"
  by (auto simp: make_role_def validate_service_account_shape_def split: if_splits)

section \<open>Cached lookups\<close>

definition org_cache_ok :: "auth_state \<Rightarrow> bool" where
  "org_cache_ok s = (\<forall>w org. dict_get (org_cache s) w = Some org \<longrightarrow> org = dict_get (workspaces (db s)) w)"

lemma get_workspace_org_id_result:
  assumes "get_workspace_org_id env w s = (Inr org, s')" and "org_cache_ok s"
  shows "org = dict_get (workspaces (db s)) w" "db s' = db s" "scope_cache s' = scope_cache s" "org_cache_ok s'"
  using assms by (auto simp: get_workspace_org_id_def alru_def org_cache_ok_def split: option.splits if_splits)

text \<open>
  The scopes under a key are those of the query or what the cache holds; asking again changes nothing.
\<close>

definition scopes_for :: "auth_env \<Rightarrow> auth_state \<Rightarrow> scope_key \<Rightarrow> string set" where
  "scopes_for env s k =
     (case (if scope_live env k then dict_get (scope_cache s) k else None) of
        Some S \<Rightarrow> S | None \<Rightarrow> query_scopes (db s) k)"

lemma compute_cached_result:
  assumes "compute_effective_scopes_cached env k s = (Inr S, s')"
  shows "S = scopes_for env s k" "db s' = db s" "org_cache s' = org_cache s" "scopes_for env s' k = S"
  using assms
  by (auto simp: compute_effective_scopes_cached_def alru_def scopes_for_def split: option.splits if_splits)

lemma compute_user_scopes:
  assumes "compute_effective_scopes env r s = (Inr S, s')" and "role_type r = USER_ROLE"
    and "\<not> is_platform_superuser r" and "user_id r = Some u" and "organization_id r = Some org"
  shows "S = scopes_for env s (u, org, workspace_id r)" "db s' = db s" "org_cache s' = org_cache s"
    "scopes_for env s' (u, org, workspace_id r) = S"
proof -
  have "compute_effective_scopes_cached env (u, org, workspace_id r) s = (Inr S, s')"
    using assms by (simp add: compute_effective_scopes_def)
  then show "S = scopes_for env s (u, org, workspace_id r)" "db s' = db s" "org_cache s' = org_cache s"
    "scopes_for env s' (u, org, workspace_id r) = S"
    by (rule compute_cached_result)+
qed

lemma scopes_for_cong:
  "db s' = db s \<Longrightarrow> scope_cache s' = scope_cache s \<Longrightarrow> scopes_for env s' k = scopes_for env s k"
  unfolding scopes_for_def by presburger

lemma is_org_admin_result:
  assumes "is_org_admin_via_rbac env u org ws s = (Inr b, s')"
  shows "b = has_scope (scopes_for env s (u, org, ws)) ''org:member:invite''"
    "db s' = db s" "org_cache s' = org_cache s" "scopes_for env s' (u, org, ws) = scopes_for env s (u, org, ws)"
proof -
  let ?r = "(blank_role USER_ROLE ''tracecat-api'')
      \<lparr>user_id := Some u, organization_id := Some org, workspace_id := ws\<rparr>"
  obtain S where S: "compute_effective_scopes env ?r s = (Inr S, s')" and b: "b = has_scope S ''org:member:invite''"
    using assms by (auto simp: is_org_admin_via_rbac_def auth_simps)
  note facts = compute_user_scopes [OF S, unfolded blank_role_def, simplified]
  from b facts show "b = has_scope (scopes_for env s (u, org, ws)) ''org:member:invite''"
    "db s' = db s" "org_cache s' = org_cache s" "scopes_for env s' (u, org, ws) = scopes_for env s (u, org, ws)"
    by auto
qed

lemma membership_result:
  assumes "get_membership_with_cache w u s = (Inr org, s')"
  shows "(u, w) \<in> set (memberships (db s))" "db s' = db s" "scope_cache s' = scope_cache s"
  using assms
  by (auto simp: get_membership_with_cache_def get_membership_def Let_def split: option.splits if_splits prod.splits)

section \<open>Users\<close>

lemma seed_keeps [simp]:
  "workspaces (seed_system_roles_for_org env org d) = workspaces d"
  "memberships (seed_system_roles_for_org env org d) = memberships d"
proof -
  have "workspaces (fold (upsert_role env org) slugs d) = workspaces d \<and>
      memberships (fold (upsert_role env org) slugs d) = memberships d" for slugs
    by (induction slugs arbitrary: d) (auto simp: upsert_role_def split: option.splits)
  then show "workspaces (seed_system_roles_for_org env org d) = workspaces d"
    "memberships (seed_system_roles_for_org env org d) = memberships d"
    by (simp_all add: seed_system_roles_for_org_def Let_def)
qed

lemma defaults_keep:
  assumes "ensure_user_defaults_in_session env u org su d = Inr (changed, d')"
  shows "workspaces d' = workspaces d \<and> memberships d' = memberships d"
  using assms by (auto simp: ensure_user_defaults_in_session_def Let_def split: if_splits option.splits)

lemma earliest_None [simp]: "earliest xs = None \<longleftrightarrow> xs = []"
  by (cases xs) (auto split: option.splits)

lemma single_tenant_result:
  assumes "ensure_single_tenant_user_defaults_for_session env u su s = (Inr (single, changed), s')"
    and "multi_tenant env \<or> organizations (db s) \<noteq> []"
  shows "workspaces (db s') = workspaces (db s) \<and> memberships (db s') = memberships (db s) \<and>
    org_cache s' = org_cache s"
  using assms
  by (auto simp: ensure_single_tenant_user_defaults_for_session_def get_default_organization_id_def
      split: if_splits option.splits sum.splits dest: defaults_keep)

lemma repair_result:
  assumes "repair_defaults env user ws s = (Inr single, s')" and "org_cache_ok s"
    and "multi_tenant (rbac_env env) \<or> organizations (db s) \<noteq> []"
  shows "workspaces (db s') = workspaces (db s) \<and> memberships (db s') = memberships (db s) \<and>
    org_cache_ok s'"
proof -
  obtain changed s1 where one: "ensure_single_tenant_user_defaults_for_session (rbac_env env)
        (user_uid user) (user_superuser user) s = (Inr (single, changed), s1)"
    and two: "db s' = db s1 \<and> org_cache s' = org_cache s1"
    using assms(1) by (auto simp: repair_defaults_def auth_simps invalidate_user_scope_cache_def Let_def
        split: option.splits if_splits)
  from single_tenant_result [OF one assms(3)] two assms(2) show ?thesis
    by (simp add: org_cache_ok_def)
qed

lemma authorize_result:
  assumes "authorize_workspace env u single w s = (Inr org, s')" and "org_cache_ok s"
  shows "dict_get (workspaces (db s)) w = Some org" "db s' = db s"
    "(u, w) \<in> set (memberships (db s)) \<or>
       has_scope (scopes_for (rbac_env env) s' (u, org, Some w)) ''org:member:invite''"
proof -
  obtain s1 s2 b x where
    s1: "get_workspace_org_id (rbac_env env) w s = (Inr (Some org), s1)"
    and s2: "is_org_admin_via_rbac (rbac_env env) u org (Some w) s1 = (Inr b, s2)"
    and s': "(if b then areturn org else get_membership_with_cache w u) s2 = (Inr x, s')"
    using assms(1) by (auto simp: authorize_workspace_def auth_simps split: option.splits)
  note one = get_workspace_org_id_result [OF s1 assms(2)]
  note two = is_org_admin_result [OF s2]
  from one show "dict_get (workspaces (db s)) w = Some org" by simp
  have db2: "db s2 = db s"
    using one(2) two(2) by simp
  show "db s' = db s"
  proof (cases b)
    case True
    with s' db2 show ?thesis by (simp add: areturn_def)
  next
    case False
    with s' have "get_membership_with_cache w u s2 = (Inr x, s')" by simp
    from membership_result(2) [OF this] db2 show ?thesis by simp
  qed
  show "(u, w) \<in> set (memberships (db s)) \<or>
       has_scope (scopes_for (rbac_env env) s' (u, org, Some w)) ''org:member:invite''"
  proof (cases b)
    case True
    with s' two show ?thesis by (simp add: areturn_def)
  next
    case False
    with s' have "get_membership_with_cache w u s2 = (Inr x, s')" by simp
    from membership_result(1) [OF this] db2 show ?thesis by simp
  qed
qed

text \<open>
  A user role is for the workspace of the request, in its organization, and either the user is a member
  of the workspace or may invite members of the organization.
\<close>

definition user_confined :: "cred_env \<Rightarrow> uuid \<Rightarrow> uuid option \<Rightarrow> auth_state \<Rightarrow> role \<Rightarrow> bool" where
  "user_confined env u ws s r =
     (role_type r = USER_ROLE \<and> user_id r = Some u \<and> workspace_id r = ws \<and>
      (\<exists>org. organization_id r = Some org \<and>
         (\<forall>w. ws = Some w \<longrightarrow> dict_get (workspaces (db s)) w = Some org \<and>
            ((u, w) \<in> set (memberships (db s)) \<or>
             has_scope (scopes_for (rbac_env env) s (u, org, ws)) ''org:member:invite''))))"

lemma user_role_result:
  assumes auth: "authenticate_user env req user ws s = (Inr r, s')" and ok: "org_cache_ok s"
    and tenant: "multi_tenant (rbac_env env) \<or> organizations (db s) \<noteq> []"
  shows "user_confined env (user_uid user) ws s' r" "\<not> is_platform_superuser r"
proof -
  obtain single s1 org s2 where s1: "repair_defaults env user ws s = (Inr single, s1)"
    and s2: "(case ws of Some w \<Rightarrow> authorize_workspace env (user_uid user) single w
            | None \<Rightarrow> (case single of Some org \<Rightarrow> areturn org
                 | None \<Rightarrow> resolve_org_for_regular_user req (user_uid user))) s1 = (Inr org, s2)"
    and r: "r = (blank_role USER_ROLE ''tracecat-api'')
        \<lparr>workspace_id := ws, organization_id := Some org, user_id := Some (user_uid user)\<rparr>" and "s' = s2"
    using auth by (auto simp: authenticate_user_def get_role_from_user_def auth_simps)
  have ok1: "org_cache_ok s1" using repair_result [OF s1 ok tenant] by simp
  have "\<forall>w. ws = Some w \<longrightarrow> dict_get (workspaces (db s2)) w = Some org \<and>
      ((user_uid user, w) \<in> set (memberships (db s2)) \<or>
       has_scope (scopes_for (rbac_env env) s2 (user_uid user, org, ws)) ''org:member:invite'')"
    using s2 authorize_result [OF _ ok1] by (cases ws) auto
  with r \<open>s' = s2\<close> show "user_confined env (user_uid user) ws s' r" "\<not> is_platform_superuser r"
    by (simp_all add: user_confined_def blank_role_def)
qed

section \<open>API keys\<close>

definition key_confined :: "cred_env \<Rightarrow> string \<Rightarrow> uuid option \<Rightarrow> auth_state \<Rightarrow> role \<Rightarrow> bool" where
  "key_confined env api_key ws s r =
     (\<exists>p key_id secret row acc.
        parse_managed_api_key api_key = Some (p, key_id, secret) \<and>
        dict_get (api_keys (db s)) key_id = Some row \<and> \<not> key_revoked row \<and>
        verify_api_key env api_key (key_salt row) (key_hashed row) \<and>
        dict_get (service_accounts (db s)) (key_account row) = Some acc \<and> \<not> account_disabled acc \<and>
        role_type r = SERVICE_ACCOUNT_ROLE \<and> organization_id r = Some (account_org acc) \<and>
        service_account_id r = Some (key_account row) \<and> user_id r = None \<and>
        scopes r = Some (account_scopes acc) \<and>
        workspace_id r = (if account_workspace acc = None then ws else account_workspace acc) \<and>
        (ws \<noteq> None \<longrightarrow> workspace_id r = ws) \<and>
        (\<forall>w. workspace_id r = Some w \<longrightarrow> dict_get (workspaces (db s)) w = Some (account_org acc)))"

lemma key_workspace_result:
  assumes "resolve_key_workspace env p acc ws s = (Inr resolved, s')" and "org_cache_ok s"
  shows "resolved = (if account_workspace acc = None then ws else account_workspace acc)"
    "ws \<noteq> None \<longrightarrow> resolved = ws"
    "\<forall>w. resolved = Some w \<longrightarrow> dict_get (workspaces (db s)) w = Some (account_org acc)"
proof -
  have org: "dict_get (workspaces (db s)) w = org" if "get_workspace_org_id (rbac_env env) w s = (Inr org, s1)"
    for w org s1
    using get_workspace_org_id_result(1) [OF that assms(2)] by simp
  show "resolved = (if account_workspace acc = None then ws else account_workspace acc)"
    "ws \<noteq> None \<longrightarrow> resolved = ws"
    "\<forall>w. resolved = Some w \<longrightarrow> dict_get (workspaces (db s)) w = Some (account_org acc)"
    using assms(1) unfolding resolve_key_workspace_def
    by (cases "account_workspace acc"; cases ws;
        auto simp: auth_simps split: option.split_asm if_split_asm dest: org)+
qed

lemma key_role_result:
  assumes auth: "authenticate_api_key env api_key ws s = (Inr (Some r), s')" and ok: "org_cache_ok s"
  shows "key_confined env api_key ws s r" "\<not> is_platform_superuser r"
proof -
  obtain p key_id secret row acc resolved s1 where
    facts: "parse_managed_api_key api_key = Some (p, key_id, secret)"
      "dict_get (api_keys (db s)) key_id = Some row" "\<not> key_revoked row"
      "verify_api_key env api_key (key_salt row) (key_hashed row)"
      "dict_get (service_accounts (db s)) (key_account row) = Some acc" "\<not> account_disabled acc"
    and ws: "resolve_key_workspace env p acc ws s = (Inr resolved, s1)"
    and r: "r = (blank_role SERVICE_ACCOUNT_ROLE ''tracecat-api'')
        \<lparr>organization_id := Some (account_org acc), workspace_id := resolved,
         bound_workspace_id := account_workspace acc, service_account_id := Some (key_account row),
         scopes := Some (account_scopes acc)\<rparr>"
    using auth by (auto simp: authenticate_api_key_def auth_simps split: option.splits if_splits)
  show "key_confined env api_key ws s r"
    unfolding key_confined_def
    by (intro exI [of _ p] exI [of _ key_id] exI [of _ secret] exI [of _ row] exI [of _ acc] conjI facts)
      (use key_workspace_result [OF ws ok] in \<open>simp_all add: r blank_role_def\<close>)
  from r show "\<not> is_platform_superuser r" by (simp add: blank_role_def)
qed

section \<open>Executors and internal services\<close>

definition executor_confined :: "cred_env \<Rightarrow> auth_request \<Rightarrow> uuid option \<Rightarrow> workspace_requirement \<Rightarrow> auth_state \<Rightarrow> role \<Rightarrow> bool" where
  "executor_confined env req ws require s r =
     (\<exists>token w u sid. get_bearer_token req = Some token \<and>
        verify_executor_token env token = Some (w, u, sid) \<and>
        role_type r = SERVICE_ROLE \<and> user_id r = u \<and> workspace_id r = Some w \<and>
        organization_id r = dict_get (workspaces (db s)) w \<and>
        (require = WS_YES \<and> ws \<noteq> None \<longrightarrow> workspace_id r = ws))"

lemma executor_role_result:
  assumes "authenticate_executor env req ws require s = (Inr r, s')" and "org_cache_ok s"
  shows "executor_confined env req ws require s r" "\<not> is_platform_superuser r"
    "service_id r \<in> set INTERNAL_SERVICE_IDS"
  using assms
  by (auto simp: authenticate_executor_def executor_confined_def auth_simps blank_role_def
      split: option.splits if_splits dest!: get_workspace_org_id_result(1))

definition service_confined :: "cred_env \<Rightarrow> auth_request \<Rightarrow> string \<Rightarrow> role \<Rightarrow> bool" where
  "service_confined env req api_key r =
     (service_key env = Some api_key \<and> api_key \<noteq> [] \<and>
      service_id r \<in> set SERVICE_ROLES_WHITELIST \<and>
      (role_type r = SERVICE_ROLE \<or> role_type r = SERVICE_ACCOUNT_ROLE) \<and>
      (role_type r = SERVICE_ACCOUNT_ROLE \<longleftrightarrow>
         dict_get (headers req) ''x-tracecat-role-type'' = Some ''service_account''))"

lemma whitelist_internal: "sid \<in> set SERVICE_ROLES_WHITELIST \<Longrightarrow> sid \<in> set INTERNAL_SERVICE_IDS"
  by (auto simp: SERVICE_ROLES_WHITELIST_def INTERNAL_SERVICE_IDS_def)

lemma role_from_headers_result:
  assumes "role_from_headers env req sid s = (Inr r, s')"
  shows "service_id r = sid" "\<not> is_platform_superuser r"
    "role_type r = (if dict_get (headers req) ''x-tracecat-role-type'' = Some ''service_account''
       then SERVICE_ACCOUNT_ROLE else SERVICE_ROLE)"
  using assms
  by (auto simp: role_from_headers_def abind_Inr_iff Let_def blank_role_def
      raised_Inr_iff araise_Inr_iff make_role_Inr_iff split: if_split_asm)

lemma service_role_result:
  assumes "authenticate_service env req api_key s = (Inr (Some r), s')"
  shows "service_confined env req api_key r" "\<not> is_platform_superuser r"
proof -
  obtain sid s1 where "sid \<in> set SERVICE_ROLES_WHITELIST" "service_key env = Some api_key" "api_key \<noteq> []"
    and role: "role_from_headers env req sid s1 = (Inr r, s')"
    using assms by (auto simp: authenticate_service_def get_service_key_def auth_simps
        split: option.split_asm if_split_asm)
  with role_from_headers_result [OF role] show "service_confined env req api_key r" "\<not> is_platform_superuser r"
    by (auto simp: service_confined_def)
qed

end
