(* ===== verification/Auth_Theorems.thy ===== *)
theory Auth_Theorems
  imports Auth_Laws
begin

text \<open>
  The properties of authorization and authentication: the meaning of scopes, the decorator, the role of
  an authenticated request, and how long a change of memberships stays invisible.
\<close>

section \<open>Scopes\<close>

text \<open>
  C38. Equivalence. For a granted scope that passes validation, matching means: replacing the asterisks
  by suitable texts gives the required scope, or the grant is an update without asterisk and the
  requirement the read of the same resource.
\<close>

theorem scope_matching_is_filling:
  assumes "validate_scope_string granted"
  shows "scope_matches granted required \<longleftrightarrow>
     fills granted required \<or>
     (CHR ''*'' \<notin> set granted \<and> (\<exists>pre. granted = pre @ '':update'' \<and> required = pre @ '':read''))"
  using scope_matches_covers [OF assms] by (simp add: covers_def)

theorem scope_matching_is_filling_witness:
  "fills ''action:*:execute'' ''action:core.http_request:execute'' \<and>
   \<not> fills ''action:*:execute'' ''workflow:execute'' \<and>
   scope_matches ''case:update'' ''case:read'' \<and> \<not> scope_matches ''case:update'' ''case:delete''"
proof -
  have "validate_scope_string ''action:*:execute''" "validate_scope_string ''case:update''"
    by code_simp+
  moreover have "scope_matches ''action:*:execute'' ''action:core.http_request:execute''"
    "\<not> scope_matches ''action:*:execute'' ''workflow:execute''" by code_simp+
  ultimately show ?thesis
    using scope_matching_is_filling [of "''action:*:execute''" "''action:core.http_request:execute''"]
      scope_matching_is_filling [of "''action:*:execute''" "''workflow:execute''"]
      scope_matching_is_filling [of "''case:update''" "''case:read''"]
      scope_matching_is_filling [of "''case:update''" "''case:delete''"]
    by (auto simp: fills_literal append_eq_Cons_conv)
qed

text \<open>
  C31. Error. A decorated function runs exactly when the scopes of the call cover all required scopes,
  or one of them where one is enough. Otherwise the state is unchanged, and the error names what was
  required and exactly the scopes that no grant covers. Without a role, or with unresolved scopes, all
  are missing; no requirement always passes.
\<close>

theorem require_scope_correct:
  assumes "\<forall>S. granted_scopes (effective_role ctx cl) = Some S \<longrightarrow> (\<forall>g \<in> S. validate_scope_string g)"
  shows "require_scope scs require_all fn ctx cl s =
     (let missing = uncovered (granted_scopes (effective_role ctx cl)) (set scs) in
      if missing = {} \<or> (\<not> require_all \<and> missing \<noteq> set scs) then (Inr (fst (fn cl s)), snd (fn cl s))
      else (Inl (ScopeDenied (set scs) (if require_all then missing else set scs)), s))"
  unfolding require_scope_def check_scopes_result [OF assms [unfolded effective_role_def]]
  by (simp add: effective_role_def Let_def case_prod_beta)

definition viewer_role :: role where
  "viewer_role = (blank_role USER_ROLE ''tracecat-api'')\<lparr>scopes := Some {''case:read'', ''workflow:*''}\<rparr>"

theorem require_scope_correct_witness:
  "require_scope [''workflow:read'', ''case:delete''] True (\<lambda>_ n. ((), Suc n)) (Some viewer_role)
     \<lparr>arg0_role = None, kw_role = None\<rparr> 0 =
     (Inl (ScopeDenied {''workflow:read'', ''case:delete''} {''case:delete''}), 0)"
proof -
  let ?cl = "\<lparr>arg0_role = None, kw_role = None\<rparr>"
  have S: "granted_scopes (effective_role (Some viewer_role) ?cl) = Some {''case:read'', ''workflow:*''}"
    by (simp add: granted_scopes_def effective_role_def method_role_of_def viewer_role_def blank_role_def)
  have valid: "validate_scope_string ''case:read''" "validate_scope_string ''workflow:*''" by code_simp+
  have "scope_matches ''workflow:*'' ''workflow:read''" "\<not> scope_matches ''workflow:*'' ''case:delete''"
    "\<not> scope_matches ''case:read'' ''case:delete''" by code_simp+
  with valid have "uncovered (Some {''case:read'', ''workflow:*''}) (set [''workflow:read'', ''case:delete'']) = {''case:delete''}"
    by (auto simp: uncovered_def scope_matches_covers)
  with S valid require_scope_correct [of "Some viewer_role" ?cl "[''workflow:read'', ''case:delete'']" True
      "\<lambda>_ n. ((), Suc n)" 0]
  show ?thesis by (simp add: Let_def)
qed

section \<open>Authentication\<close>





lemma org_cache_ok_rls [simp]: "org_cache_ok (s\<lparr>rls := c\<rparr>) = org_cache_ok s"
  by (simp add: org_cache_ok_def)













section \<open>Changes of memberships\<close>

text \<open>
  The documentation of \<open>create_membership\<close> says that changes are reflected in subsequent requests.
  The scopes that were resolved before, however, stay cached: as long as the entry lives, a new member
  has the scopes from before, although the database grants those of a workspace editor.
\<close>

theorem membership_change_unseen:
  assumes "create_membership sr w u s = (Inr (), s')"
    and "dict_get (workspaces (db s)) w = Some org" and "find_role (db s) org ''workspace-editor'' = Some rid"
    and "dict_get (scope_cache s) (u, org, Some w) = Some S" and "scope_live env (u, org, Some w)"
  shows "compute_effective_scopes_cached env (u, org, Some w) s' = (Inr S, s') \<and>
     set (role_scope_names (db s) rid) \<subseteq> query_scopes (db s') (u, org, Some w)"
proof -
  have body: "create_membership_body w u s = (Inr (), s')"
    using assms(1) by (auto simp: create_membership_def with_scope_def require_scope_def Let_def
        split: sum.splits prod.splits)
  let ?new = "\<lparr>as_org = org, as_subject = u, as_workspace = Some w, as_role = rid\<rparr>"
  have cache: "scope_cache s' = scope_cache s" and new: "?new \<in> set (user_assignments (db s'))"
    and rows: "role_rows (db s') = role_rows (db s)" "role_scope (db s') = role_scope (db s)"
      "scope_rows (db s') = scope_rows (db s)"
    using body assms(2,3)
    by (auto simp: create_membership_body_def without_assignment_def Let_def split: if_splits)
  have same: "role_scope_names (db s') rid = role_scope_names (db s) rid"
    unfolding role_scope_names_def rows ..
  have "set (role_scope_names (db s) rid) \<subseteq> query_scopes (db s') (u, org, Some w)"
  proof
    fix name assume "name \<in> set (role_scope_names (db s) rid)"
    then have "\<exists>a \<in> set (user_assignments (db s')). as_subject a = u \<and> as_org a = org \<and>
        workspace_condition (Some w) a \<and> name \<in> set (role_scope_names (db s') (as_role a))"
      using same by (intro bexI [OF _ new]) (simp add: workspace_condition_def)
    then show "name \<in> query_scopes (db s') (u, org, Some w)" by (auto simp: query_scopes_def)
  qed
  moreover have "compute_effective_scopes_cached env (u, org, Some w) s' = (Inr S, s')"
    using assms(4,5) cache by (simp add: compute_effective_scopes_cached_def alru_def)
  ultimately show ?thesis by simp
qed

text \<open>
  The documentation of the single-tenant defaults says that regular users become members of the
  organization unless they already have an organization-wide role. If only the row of the membership
  is missing, the repair replaces that role.
\<close>

lemma seed_keeps_assignments [simp]:
  "user_assignments (seed_system_roles_for_org env org d) = user_assignments d"
proof -
  have "user_assignments (fold (upsert_role env org) slugs d) = user_assignments d" for slugs
    by (induction slugs arbitrary: d) (auto simp: upsert_role_def split: option.splits)
  then show ?thesis by (simp add: seed_system_roles_for_org_def Let_def)
qed

theorem repair_replaces_role:
  assumes "(u, org) \<notin> set (org_memberships d)" and "find (org_wide u org) (user_assignments d) = Some a"
    and "find_role (seed_system_roles_for_org env org d) org ''organization-member'' = Some rid"
    and "as_role a \<noteq> rid"
  shows "\<exists>d'. ensure_user_defaults_in_session env u org False d = Inr (True, d') \<and>
     (\<forall>b \<in> set (user_assignments d'). org_wide u org b \<longrightarrow> as_role b = rid)"
proof -
  have same: "find_role (e\<lparr>org_memberships := m\<rparr>) org slug = find_role e org slug" for e m slug
    by (simp add: find_role_def)
  have wide: "org_wide u org (b\<lparr>as_role := rid\<rparr>) = org_wide u org b" for b
    by (simp add: org_wide_def)
  show ?thesis
    using assms by (auto simp: ensure_user_defaults_in_session_def Let_def same wide)
qed

end
