(* ===== verification/Dsl_Import.thy ===== *)
theory Dsl_Import
  imports Dsl_Validate Py_Uuid
begin

text \<open>
  The import of an edited workflow: \<open>build_action_statements_from_actions\<close> of
  \<open>dsl/common.py\<close> turns the rows of the actions with the edges drawn in the editor into the
  statements of a definition. Only actions that the trigger reaches are taken. The YAML of the inputs
  and the search for expressions in them are parameters.
\<close>

section \<open>Rows\<close>

datatype edge_source = TRIGGER_SOURCE | UDF_SOURCE

text \<open>\<open>UpstreamEdgeData\<close>: the source is the text of an action id or of the trigger.\<close>

record upstream_edge =
  source_id :: string
  source_type :: "edge_source option"
  source_handle :: "edge_type option"

text \<open>The columns of an action that matter, with its control flow as validated.\<close>

record action_row =
  act_id :: uuid
  act_ref :: string
  act_type :: string
  act_inputs :: string
  upstream_edges :: "upstream_edge list"
  act_run_if :: "string option"
  act_join :: join_strategy

record import_env =
  load_inputs :: "string \<Rightarrow> dsl_exn + (string, pyval) dict"
  find_refs :: "(string, pyval) dict \<Rightarrow> (string \<times> string list) list"
  find_condition_refs :: "string option \<Rightarrow> string list"

section \<open>Reachability\<close>

definition starts_with :: "string \<Rightarrow> string \<Rightarrow> bool" where
  "starts_with p s = (take (length p) s = p)"

text \<open>An edge from the trigger; old edges have no type but an id that says so.\<close>

definition is_trigger_edge :: "upstream_edge \<Rightarrow> bool" where
  "is_trigger_edge e =
     (source_id e \<noteq> [] \<and>
      (source_type e = Some TRIGGER_SOURCE \<or>
       (source_type e = None \<and> starts_with ''trigger-'' (source_id e))))"

text \<open>The action an edge comes from, if its id is one.\<close>

definition edge_action :: "upstream_edge \<Rightarrow> uuid option" where
  "edge_action e =
     (if source_id e = [] then None
      else case uuid_parse (source_id e) of Inl _ \<Rightarrow> None | Inr u \<Rightarrow> Some u)"

definition add_successor :: "uuid \<Rightarrow> uuid \<Rightarrow> (uuid, uuid list) dict \<Rightarrow> (uuid, uuid list) dict" where
  "add_successor src dst adj = dict_set src (set_add dst (dict_get_default adj src [])) adj"

definition scan_edge ::
    "uuid list \<Rightarrow> uuid \<Rightarrow> upstream_edge \<Rightarrow> uuid list \<times> (uuid, uuid list) dict \<Rightarrow> uuid list \<times> (uuid, uuid list) dict"
where
  "scan_edge ids target e acc =
     (case acc of (roots, adj) \<Rightarrow>
        if is_trigger_edge e then (set_add target roots, adj)
        else case edge_action e of
          None \<Rightarrow> (roots, adj)
        | Some src \<Rightarrow> if src \<in> set ids then (roots, add_successor src target adj) else (roots, adj))"

definition scan_edges :: "action_row list \<Rightarrow> uuid list \<times> (uuid, uuid list) dict" where
  "scan_edges actions =
     fold (\<lambda>a. fold (scan_edge (map act_id actions) (act_id a)) (upstream_edges a)) actions ([], [])"

text \<open>The targets of a node that have not been reached yet join the reached ones and the queue.\<close>

definition fresh_targets :: "(uuid, uuid list) dict \<Rightarrow> uuid list \<Rightarrow> uuid \<Rightarrow> uuid list" where
  "fresh_targets adj reached src =
     filter (\<lambda>t. t \<notin> set reached) (remdups (dict_get_default adj src []))"

definition targets :: "(uuid, uuid list) dict \<Rightarrow> uuid set" where
  "targets adj = (\<Union>(_, ts) \<in> set adj. set ts)"

function reach_loop :: "(uuid, uuid list) dict \<Rightarrow> uuid list \<Rightarrow> uuid list \<Rightarrow> uuid list" where
  "reach_loop adj reached [] = reached"
| "reach_loop adj reached (src # queue) =
     (let new = fresh_targets adj reached src in reach_loop adj (reached @ new) (queue @ new))"
  by pat_completeness auto

lemma finite_targets [simp]: "finite (targets adj)"
  by (auto simp: targets_def)

lemma default_in_targets: "set (dict_get_default adj src []) \<subseteq> targets adj"
  by (cases "dict_get adj src") (auto simp: dict_get_default_def targets_def dest!: map_of_SomeD)

lemma fresh_targets_props:
  "distinct (fresh_targets adj reached src)" "set (fresh_targets adj reached src) \<inter> set reached = {}"
  "set (fresh_targets adj reached src) \<subseteq> targets adj - set reached"
  using default_in_targets [of adj src] by (auto simp: fresh_targets_def)

termination reach_loop
proof (relation "measure (\<lambda>(adj, reached, queue). card (targets adj - set reached) + length queue)")
  fix adj :: "(uuid, uuid list) dict" and reached src queue new
  assume new: "new = fresh_targets adj reached src"
  have "card (targets adj - set reached - set new) = card (targets adj - set reached) - length new"
    using fresh_targets_props [of adj reached src] new
    by (subst card_Diff_subset) (auto simp: distinct_card)
  moreover have "length new \<le> card (targets adj - set reached)"
    using fresh_targets_props [of adj reached src] new
      card_mono [of "targets adj - set reached" "set new"] by (simp add: distinct_card)
  moreover have "targets adj - set (reached @ new) = targets adj - set reached - set new" by auto
  ultimately show "((adj, reached @ new, queue @ new), (adj, reached, src # queue))
      \<in> measure (\<lambda>(adj, reached, queue). card (targets adj - set reached) + length queue)"
    by simp
qed simp

definition get_reachable_action_ids :: "action_row list \<Rightarrow> uuid list" where
  "get_reachable_action_ids actions =
     (case scan_edges actions of (roots, adj) \<Rightarrow>
        if roots = [] then map act_id actions else reach_loop adj roots roots)"

section \<open>Statements\<close>

definition edge_dependency :: "action_row list \<Rightarrow> uuid list \<Rightarrow> upstream_edge \<Rightarrow> string list" where
  "edge_dependency actions reachable e =
     (case edge_action e of
        None \<Rightarrow> []
      | Some src \<Rightarrow>
          (case dict_get (map (\<lambda>a. (act_id a, a)) (rev actions)) src of
             None \<Rightarrow> []
           | Some b \<Rightarrow>
               if src \<notin> set reachable then []
               else [if source_handle e = Some ERROR then dep_from_edge_components (act_ref b) ERROR
                     else act_ref b]))"

definition dependencies :: "action_row list \<Rightarrow> uuid list \<Rightarrow> action_row \<Rightarrow> string list" where
  "dependencies actions reachable a =
     sort (concat (map (edge_dependency actions reachable) (upstream_edges a)))"

text \<open>The patterns of \<open>ActionStatement\<close> for the type of an action and for its reference.\<close>

definition action_type_ok :: "string \<Rightarrow> bool" where
  "action_type_ok t = (t \<noteq> [] \<and> list_all (\<lambda>c. slug_char c \<or> c = CHR ''.'') t)"

definition build_statement :: "import_env \<Rightarrow> action_row list \<Rightarrow> uuid list \<Rightarrow> action_row \<Rightarrow> dsl_exn + stmt" where
  "build_statement env actions reachable a =
     rbind (load_inputs env (act_inputs a)) (\<lambda>inputs.
     rbind (raise_if (\<not> (slug (act_ref a) \<and> action_type_ok (act_type a))) (Raised ValidationError)) (\<lambda>_. Inr
       \<lparr>ref = act_ref a, action = act_type a, args = inputs,
        depends_on = dependencies actions reachable a, run_if = act_run_if a,
        join_strategy = act_join a, expr_refs = find_refs env inputs,
        condition_refs = find_condition_refs env (act_run_if a)\<rparr>))"

definition build_action_statements_from_actions :: "import_env \<Rightarrow> action_row list \<Rightarrow> dsl_exn + stmt list" where
  "build_action_statements_from_actions env actions =
     (let reachable = get_reachable_action_ids actions in
      map_result (build_statement env actions reachable)
        (filter (\<lambda>a. act_id a \<in> set reachable) actions))"

end
