(* ===== verification/Import_Theorems.thy ===== *)
theory Import_Theorems
  imports Dsl_Import
begin

text \<open>
  What the import of an edited workflow gives: the breadth-first search finds the actions that the
  trigger reaches along edges, and the statements are well typed, so that the later checks of the
  dependencies cannot fail.
\<close>

section \<open>Edges and reachability\<close>

definition triggered :: "action_row list \<Rightarrow> uuid set" where
  "triggered actions = {act_id a | a. a \<in> set actions \<and> (\<exists>e \<in> set (upstream_edges a). is_trigger_edge e)}"

text \<open>The edges between actions that the editor drew.\<close>

definition drawn :: "action_row list \<Rightarrow> (uuid \<times> uuid) set" where
  "drawn actions = {(u, act_id a) | u a e. a \<in> set actions \<and> e \<in> set (upstream_edges a) \<and>
     \<not> is_trigger_edge e \<and> edge_action e = Some u \<and> u \<in> act_id ` set actions}"

definition reachable_ids :: "action_row list \<Rightarrow> uuid set" where
  "reachable_ids actions =
     (if triggered actions = {} then act_id ` set actions else (drawn actions)\<^sup>* `` triggered actions)"

definition pairs_of :: "(uuid, uuid list) dict \<Rightarrow> (uuid \<times> uuid) set" where
  "pairs_of adj = {(s, t). t \<in> set (dict_get_default adj s [])}"

lemma pairs_of_add: "pairs_of (add_successor s t adj) = insert (s, t) (pairs_of adj)"
  by (auto simp: pairs_of_def add_successor_def dict_get_default_def split: option.splits if_splits)

definition scanned :: "uuid list \<Rightarrow> (uuid \<times> upstream_edge) set \<Rightarrow> uuid list \<times> (uuid, uuid list) dict \<Rightarrow> bool" where
  "scanned ids E acc =
     (set (fst acc) = {t. \<exists>e. (t, e) \<in> E \<and> is_trigger_edge e} \<and>
      pairs_of (snd acc) = {(s, t). \<exists>e. (t, e) \<in> E \<and> \<not> is_trigger_edge e \<and> edge_action e = Some s \<and> s \<in> set ids})"

lemma scan_edge_scanned:
  "scanned ids E acc \<Longrightarrow> scanned ids (insert (t, e) E) (scan_edge ids t e acc)"
  by (cases acc) (auto simp: scanned_def scan_edge_def pairs_of_add split: option.splits)

lemma scan_row_scanned:
  "scanned ids E acc \<Longrightarrow> scanned ids (E \<union> Pair t ` set es) (fold (scan_edge ids t) es acc)"
proof (induction es arbitrary: E acc)
  case (Cons e es)
  from Cons.IH [OF scan_edge_scanned [OF Cons.prems, of t e]] show ?case
    by (simp add: insert_commute Un_commute)
qed simp

lemma scan_rows_scanned:
  "scanned ids E acc \<Longrightarrow>
   scanned ids (E \<union> {(act_id a, e) | a e. a \<in> set as \<and> e \<in> set (upstream_edges a)})
     (fold (\<lambda>a. fold (scan_edge ids (act_id a)) (upstream_edges a)) as acc)"
proof (induction as arbitrary: E acc)
  case (Cons a as)
  have "E \<union> Pair (act_id a) ` set (upstream_edges a) \<union> {(act_id b, e) | b e. b \<in> set as \<and> e \<in> set (upstream_edges b)} =
      E \<union> {(act_id b, e) | b e. b \<in> set (a # as) \<and> e \<in> set (upstream_edges b)}" by auto
  with Cons.IH [OF scan_row_scanned [OF Cons.prems, of "act_id a" "upstream_edges a"]] show ?case by simp
qed simp

lemma scan_edges_result:
  assumes "scan_edges actions = (roots, adj)"
  shows "set roots = triggered actions" "pairs_of adj = drawn actions"
proof -
  have "scanned (map act_id actions) {} ([], [])" by (auto simp: scanned_def pairs_of_def dict_get_default_def)
  from scan_rows_scanned [OF this, of actions] assms have
    "scanned (map act_id actions) {(act_id a, e) | a e. a \<in> set actions \<and> e \<in> set (upstream_edges a)} (roots, adj)"
    by (simp add: scan_edges_def)
  then show "set roots = triggered actions" "pairs_of adj = drawn actions"
    by (auto simp: scanned_def triggered_def drawn_def)
qed

text \<open>
  The search: what is reached stays within the closure of the roots, and every reached node that is
  not queued has its successors among the reached ones.
\<close>

lemma fresh_targets_set: "set (fresh_targets adj reached s) = pairs_of adj `` {s} - set reached"
  by (auto simp: fresh_targets_def pairs_of_def)

lemma reach_loop_closed:
  assumes "set queue \<subseteq> set reached" and "pairs_of adj `` (set reached - set queue) \<subseteq> set reached"
  shows "set reached \<subseteq> set (reach_loop adj reached queue) \<and>
    pairs_of adj `` set (reach_loop adj reached queue) \<subseteq> set (reach_loop adj reached queue) \<and>
    set (reach_loop adj reached queue) \<subseteq> (pairs_of adj)\<^sup>* `` set reached"
  using assms
proof (induction adj reached queue rule: reach_loop.induct)
  case (2 adj reached s queue)
  let ?new = "fresh_targets adj reached s"
  have closed: "pairs_of adj `` (set (reached @ ?new) - set (queue @ ?new)) \<subseteq> set (reached @ ?new)"
    using "2.prems" by (auto simp: fresh_targets_set)
  have sub: "set (queue @ ?new) \<subseteq> set (reached @ ?new)" using "2.prems"(1) by auto
  have s: "s \<in> set reached" using "2.prems"(1) by simp
  have "(pairs_of adj)\<^sup>* `` set (reached @ ?new) \<subseteq> (pairs_of adj)\<^sup>* `` set reached"
    using s by (auto simp: fresh_targets_set intro: converse_rtrancl_into_rtrancl)
  with "2.IH" [OF refl sub closed] show ?case by (auto simp: Let_def)
qed auto

lemma reachable_correct: "set (get_reachable_action_ids actions) = reachable_ids actions"
proof -
  obtain roots adj where scan: "scan_edges actions = (roots, adj)" by fastforce
  note scanned = scan_edges_result [OF scan]
  have loop: "set (reach_loop adj roots roots) = (pairs_of adj)\<^sup>* `` set roots"
  proof -
    from reach_loop_closed [of roots roots adj]
    have facts: "set roots \<subseteq> set (reach_loop adj roots roots)"
      "pairs_of adj `` set (reach_loop adj roots roots) \<subseteq> set (reach_loop adj roots roots)"
      "set (reach_loop adj roots roots) \<subseteq> (pairs_of adj)\<^sup>* `` set roots" by auto
    have "x \<in> set (reach_loop adj roots roots)" if "(r, x) \<in> (pairs_of adj)\<^sup>*" "r \<in> set roots" for r x
      using that by (induction) (use facts in auto)
    with facts(3) show ?thesis by blast
  qed
  show ?thesis
    using loop scanned by (cases "roots = []") (auto simp: get_reachable_action_ids_def scan reachable_ids_def)
qed

lemma reachable_subset: "reachable_ids actions \<subseteq> act_id ` set actions"
proof -
  have "x \<in> act_id ` set actions" if "(r, x) \<in> (drawn actions)\<^sup>*" "r \<in> act_id ` set actions" for r x
    using that by (induction) (auto simp: drawn_def)
  moreover have "triggered actions \<subseteq> act_id ` set actions" by (auto simp: triggered_def)
  ultimately show ?thesis by (auto simp: reachable_ids_def)
qed

section \<open>Statements\<close>

definition handle :: "upstream_edge \<Rightarrow> edge_type" where
  "handle e = (if source_handle e = Some ERROR then ERROR else SUCCESS)"

text \<open>What the dependencies of an imported action mean: the drawn edges from reachable actions.\<close>

definition edge_sources :: "action_row list \<Rightarrow> action_row \<Rightarrow> (string \<times> edge_type) set" where
  "edge_sources actions a = {(act_ref b, handle e) | e b. e \<in> set (upstream_edges a) \<and> b \<in> set actions \<and>
     act_id b \<in> reachable_ids actions \<and> edge_action e = Some (act_id b)}"

lemma row_by_id:
  assumes "distinct (map act_id actions)"
  shows "dict_get (map (\<lambda>a. (act_id a, a)) (rev actions)) u = Some b \<longleftrightarrow> b \<in> set actions \<and> act_id b = u"
proof -
  have "distinct (map fst (map (\<lambda>a. (act_id a, a)) (rev actions)))" using assms by (simp add: comp_def rev_map [symmetric])
  from map_of_eq_Some_iff [OF this] show ?thesis by auto
qed

lemma edge_dependency_parts:
  assumes "distinct (map act_id actions)"
    and "\<forall>a \<in> set actions. act_id a \<in> reachable_ids actions \<longrightarrow> CHR ''.'' \<notin> set (act_ref a)"
  shows "components ` set (edge_dependency actions (get_reachable_action_ids actions) e) =
    {Inr (act_ref b, handle e) | b. b \<in> set actions \<and> act_id b \<in> reachable_ids actions \<and>
       edge_action e = Some (act_id b)}"
proof (cases "\<exists>b \<in> set actions. edge_action e = Some (act_id b)")
  case False
  then have "edge_dependency actions (get_reachable_action_ids actions) e = []"
    using row_by_id [OF assms(1)] by (auto simp: edge_dependency_def split: option.splits)
  with False show ?thesis by auto
next
  case True
  then obtain b where b: "b \<in> set actions" "edge_action e = Some (act_id b)" by blast
  with row_by_id [OF assms(1)] have row: "dict_get (map (\<lambda>a. (act_id a, a)) (rev actions)) (act_id b) = Some b"
    by simp
  have one: "c = b" if "c \<in> set actions" "act_id c = act_id b" for c
    using that b(1) assms(1) by (auto simp: distinct_map inj_on_def)
  have dot: "act_id b \<in> reachable_ids actions \<Longrightarrow> CHR ''.'' \<notin> set (act_ref b)" using assms(2) b(1) by simp
  have "components ` set (edge_dependency actions (get_reachable_action_ids actions) e) =
      (if act_id b \<in> reachable_ids actions then {Inr (act_ref b, handle e)} else {})"
    using components_of_dep [OF dot, of ERROR] components_plain [OF dot]
    by (auto simp: edge_dependency_def b(2) row reachable_correct handle_def)
  also have "\<dots> = {Inr (act_ref c, handle e) | c. c \<in> set actions \<and> act_id c \<in> reachable_ids actions \<and>
       edge_action e = Some (act_id c)}"
  proof (cases "act_id b \<in> reachable_ids actions")
    case True
    with b have "Inr (act_ref b, handle e) \<in> {Inr (act_ref c, handle e) | c. c \<in> set actions \<and>
        act_id c \<in> reachable_ids actions \<and> edge_action e = Some (act_id c)}" by blast
    moreover have "c = b" if "c \<in> set actions" "edge_action e = Some (act_id c)" for c
      by (rule one) (use that b(2) in simp_all)
    ultimately show ?thesis using True by (simp only: if_True) blast
  next
    case False
    then show ?thesis using b(2) by auto
  qed
  finally show ?thesis .
qed

lemma dependencies_parts:
  assumes "distinct (map act_id actions)"
    and "\<forall>a \<in> set actions. act_id a \<in> reachable_ids actions \<longrightarrow> CHR ''.'' \<notin> set (act_ref a)"
  shows "components ` set (dependencies actions (get_reachable_action_ids actions) a) = Inr ` edge_sources actions a"
proof -
  have "components ` set (dependencies actions (get_reachable_action_ids actions) a) =
      (\<Union>e \<in> set (upstream_edges a). components ` set (edge_dependency actions (get_reachable_action_ids actions) e))"
    by (auto simp: dependencies_def)
  then show ?thesis
    unfolding edge_dependency_parts [OF assms] edge_sources_def by auto
qed

lemma statement_of:
  "build_statement env actions reachable a = Inr s \<Longrightarrow>
     ref s = act_ref a \<and> action s = act_type a \<and> depends_on s = dependencies actions reachable a \<and> slug (act_ref a)"
  by (auto simp: build_statement_def result_simps)

lemma list_all2_source: "list_all2 P xs ys \<Longrightarrow> x \<in> set xs \<Longrightarrow> \<exists>y \<in> set ys. P x y"
  by (induction rule: list_all2_induct) auto

lemma statements_list:
  assumes "build_action_statements_from_actions env actions = Inr stmts"
  shows "list_all2 (\<lambda>a s. ref s = act_ref a \<and> action s = act_type a \<and>
      depends_on s = dependencies actions (get_reachable_action_ids actions) a \<and> slug (act_ref a))
    (filter (\<lambda>a. act_id a \<in> reachable_ids actions) actions) stmts"
  using assms unfolding build_action_statements_from_actions_def Let_def map_result_Inr reachable_correct
  by (rule list_all2_mono) (rule statement_of)

text \<open>
  C39. Typing. The statements built from the rows of an edited workflow are those of the actions that
  the trigger reaches, or of all actions if nothing is connected to the trigger, in the order of the
  rows. The dependencies of each are sorted, they parse, and they mean exactly the edges drawn from
  reachable actions, with their handles. Each names one of the statements, so if the references are
  distinct, the definition passes the checks of its dependencies.
\<close>

theorem imported_statements_typed:
  assumes "build_action_statements_from_actions env actions = Inr stmts"
    and "distinct (map act_id actions)"
  shows "map ref stmts = map act_ref (filter (\<lambda>a. act_id a \<in> reachable_ids actions) actions) \<and>
     (\<forall>s \<in> set stmts. sorted (depends_on s)) \<and>
     list_all2 (\<lambda>a s. components ` set (depends_on s) = Inr ` edge_sources actions a)
       (filter (\<lambda>a. act_id a \<in> reachable_ids actions) actions) stmts \<and>
     (distinct (map ref stmts) \<longrightarrow> wf_deps stmts)"
proof -
  let ?rows = "filter (\<lambda>a. act_id a \<in> reachable_ids actions) actions"
  note list = statements_list [OF assms(1)]
  have "slug (act_ref a)" if "a \<in> set actions" "act_id a \<in> reachable_ids actions" for a
    using list_all2_source [OF list, of a] that by auto
  then have dots: "\<forall>a \<in> set actions. act_id a \<in> reachable_ids actions \<longrightarrow> CHR ''.'' \<notin> set (act_ref a)"
    using slug_no_dot by blast
  note parts = dependencies_parts [OF assms(2) dots]
  have refs: "map ref stmts = map act_ref ?rows"
    using list by (simp add: list_all2_conv_all_nth list_eq_iff_nth_eq)
  have sorted: "\<forall>s \<in> set stmts. sorted (depends_on s)"
    using list by (fastforce simp: list_all2_conv_all_nth in_set_conv_nth dependencies_def)
  have meaning: "list_all2 (\<lambda>a s. components ` set (depends_on s) = Inr ` edge_sources actions a) ?rows stmts"
    using list by (rule list_all2_mono) (simp add: parts)
  have "wf_deps stmts" if "distinct (map ref stmts)"
    unfolding wf_deps_def
  proof (intro conjI ballI)
    show "distinct (map ref stmts)" by (rule that)
    fix s dep assume s: "s \<in> set stmts" and dep: "dep \<in> set (depends_on s)"
    from s meaning obtain a where "components ` set (depends_on s) = Inr ` edge_sources actions a"
      by (auto simp: list_all2_conv_all_nth in_set_conv_nth)
    with dep have "components dep \<in> Inr ` edge_sources actions a" by blast
    then obtain r t where c: "components dep = Inr (r, t)" "(r, t) \<in> edge_sources actions a" by auto
    then show "\<exists>c. components dep = Inr c" by blast
    from c(2) have "r \<in> act_ref ` set ?rows" by (auto simp: edge_sources_def)
    moreover have "act_ref ` set ?rows = ref ` set stmts" using refs by (metis set_map)
    ultimately show "dep_src dep \<in> ref ` set stmts" using components_Inr [OF c(1)] by simp
  qed
  with refs sorted meaning show ?thesis by blast
qed

definition drawn_rows :: "action_row list" where
  "drawn_rows =
     (let row = (\<lambda>i r es. \<lparr>act_id = i, act_ref = r, act_type = ''core.noop'', act_inputs = [],
        upstream_edges = es, act_run_if = None, act_join = JoinAll\<rparr>) in
      [row 1 ''first'' [\<lparr>source_id = ''trigger-1'', source_type = None, source_handle = None\<rparr>],
       row 2 ''second'' [\<lparr>source_id = uuid_str 1, source_type = Some UDF_SOURCE, source_handle = Some ERROR\<rparr>,
         \<lparr>source_id = uuid_str 3, source_type = None, source_handle = None\<rparr>],
       row 3 ''island'' []])"

definition plain_import :: import_env where
  "plain_import = \<lparr>load_inputs = (\<lambda>_. Inr []), find_refs = (\<lambda>_. []), find_condition_refs = (\<lambda>_. [])\<rparr>"

definition drawn_statements :: "stmt list" where
  "drawn_statements =
     (let st = (\<lambda>r deps. \<lparr>ref = r, action = ''core.noop'', args = [], depends_on = deps, run_if = None,
        join_strategy = JoinAll, expr_refs = [], condition_refs = []\<rparr>) in
      [st ''first'' [], st ''second'' [''first.error'']])"

theorem imported_statements_typed_witness:
  "build_action_statements_from_actions plain_import drawn_rows = Inr drawn_statements \<and>
   wf_deps drawn_statements"
proof -
  have "build_action_statements_from_actions plain_import drawn_rows = Inr drawn_statements" by code_simp
  moreover have "distinct (map act_id drawn_rows)" by code_simp
  moreover have "distinct (map ref drawn_statements)" by code_simp
  ultimately show ?thesis using imported_statements_typed [of plain_import drawn_rows drawn_statements] by blast
qed

end
