(* ===== verification/Subflow_Loop.thy ===== *)
theory Subflow_Loop
  imports Storage_Activities
begin

text \<open>
  Loops over child workflows: \<open>_evaluate_loop_iterations\<close> and \<open>_prepare_subflow\<close> of
  \<open>dsl/action.py\<close>, \<open>PreparedSubflowResult\<close> of \<open>dsl/common.py\<close>, and the dispatch in
  batches of \<open>dsl/workflow.py\<close>. The expression engine and the children are parameters.
\<close>

datatype loop_strategy = LOOP_PARALLEL | LOOP_BATCH | LOOP_SEQUENTIAL
datatype fail_strategy = FAIL_ISOLATED | FAIL_ALL
datatype wait_strategy = WAIT_STRATEGY | DETACH_STRATEGY

record dsl_config =
  environment :: string
  timeout :: rat

text \<open>The arguments of one iteration as evaluated and validated.\<close>

record subflow_args =
  sa_environment :: "string option"
  sa_timeout :: "rat option"
  sa_trigger_inputs :: pyval

datatype runtime_configs = OneConfig dsl_config | ConfigList "dsl_config list"

section \<open>Evaluating the iterations\<close>

text \<open>
  \<open>_patch_object\<close>: missing keys on the way become dictionaries; a value on the way that is not one
  raises. Each iteration patches a copy at the same paths, so nothing of an earlier one remains.
\<close>

fun patch_object :: "string list \<Rightarrow> pyval \<Rightarrow> (string, pyval) dict \<Rightarrow> py_error + (string, pyval) dict" where
  "patch_object [] x d = Inl ValueError"
| "patch_object [leaf] x d = Inr (dict_set leaf x d)"
| "patch_object (k # k' # ks) x d =
     (case dict_get d k of
        None \<Rightarrow> rbind (patch_object (k' # ks) x []) (\<lambda>e. Inr (dict_set k (VDict e) d))
      | Some (VDict e0) \<Rightarrow> rbind (patch_object (k' # ks) x e0) (\<lambda>e. Inr (dict_set k (VDict e) d))
      | Some _ \<Rightarrow> Inl (if ks = [] then TypeError else OtherError))"

definition LOCAL_VARS :: string where
  "LOCAL_VARS = ''var''"

definition patch_item :: "string \<times> pyval \<Rightarrow> (string, pyval) dict \<Rightarrow> exn + (string, pyval) dict" where
  "patch_item iv d =
     (case patch_object (py_split (CHR ''.'') (LOCAL_VARS @ fst iv)) (snd iv) d of
        Inl e \<Rightarrow> Inl (PyError e) | Inr d' \<Rightarrow> Inr d')"

text \<open>\<open>zip(*iterators)\<close>: as many tuples as the shortest iterator has items.\<close>

definition zip_items :: "(string \<times> pyval list) list \<Rightarrow> (string \<times> pyval) list list" where
  "zip_items iterators =
     (case map (length \<circ> snd) iterators of
        [] \<Rightarrow> []
      | n # ns \<Rightarrow> map (\<lambda>i. map (\<lambda>(p, xs). (p, xs ! i)) iterators) [0..<fold min ns n])"

definition MAX_LOOP_ITERATIONS :: nat where
  "MAX_LOOP_ITERATIONS = 4096"

definition user_error :: "string \<Rightarrow> exn" where
  "user_error msg = ForeignError ''UserError'' msg"

text \<open>\<open>a or b\<close> for the environment and the timeout: empty texts and zero count as absent.\<close>

definition config_for :: "dsl_config \<Rightarrow> subflow_args \<Rightarrow> dsl_config" where
  "config_for cfg a =
     \<lparr>environment = (case sa_environment a of Some e \<Rightarrow> if e \<noteq> [] then e else environment cfg
        | None \<Rightarrow> environment cfg),
      timeout = (case sa_timeout a of Some t \<Rightarrow> if t \<noteq> 0 then t else timeout cfg | None \<Rightarrow> timeout cfg)\<rparr>"

definition evaluate_iteration ::
    "((string, pyval) dict \<Rightarrow> exn + subflow_args) \<Rightarrow> dsl_config \<Rightarrow> (string, pyval) dict \<Rightarrow>
     (string \<times> pyval) list \<Rightarrow> exn + pyval \<times> dsl_config" where
  "evaluate_iteration eval cfg operand items =
     rbind (fold_result patch_item items operand) (\<lambda>patched.
     rbind (eval patched) (\<lambda>a. Inr (sa_trigger_inputs a, config_for cfg a)))"

definition share_configs :: "dsl_config list \<Rightarrow> runtime_configs" where
  "share_configs cs =
     (case cs of [] \<Rightarrow> ConfigList [] | c # _ \<Rightarrow> if list_all (\<lambda>d. d = c) cs then OneConfig c else ConfigList cs)"

definition evaluate_loop_iterations ::
    "((string, pyval) dict \<Rightarrow> exn + subflow_args) \<Rightarrow> dsl_config \<Rightarrow> (string, pyval) dict \<Rightarrow>
     (string \<times> pyval list) list \<Rightarrow> exn + pyval list \<times> runtime_configs" where
  "evaluate_loop_iterations eval cfg operand iterators =
     (let all_items = zip_items iterators in
      if length all_items > MAX_LOOP_ITERATIONS then Inl (user_error ''Loop exceeds max iterations'')
      else rbind (map_result (evaluate_iteration eval cfg operand) all_items) (\<lambda>rs.
        Inr (map fst rs, share_configs (map snd rs))))"

section \<open>Prepared loops\<close>

record prepared =
  trigger_inputs :: "stored option"
  runtime_configs :: "runtime_configs option"
  workflow_config :: dsl_config

text \<open>The last part of \<open>_prepare_subflow\<close>, for a task with \<open>for_each\<close>.\<close>

definition prepare_loop ::
    "env \<Rightarrow> ((string, pyval) dict \<Rightarrow> exn + subflow_args) \<Rightarrow> dsl_config \<Rightarrow> (string, pyval) dict \<Rightarrow>
     (string \<times> pyval list) list \<Rightarrow> string \<Rightarrow> prepared io" where
  "prepare_loop v eval cfg operand iterators k w =
     (case evaluate_loop_iterations eval cfg operand iterators of
        Inl e \<Rightarrow> (Inl e, w)
      | Inr (inputs, configs) \<Rightarrow>
          io_bind (if externalization_enabled v
                   then store_collection_as_refs v (k @ ''/trigger_inputs'') inputs
                   else io_return (InlineObject (VList inputs) ''list''))
            (\<lambda>st. io_return \<lparr>trigger_inputs = Some st, runtime_configs = Some configs, workflow_config = cfg\<rparr>) w)"

definition prepared_count :: "prepared \<Rightarrow> exn + int" where
  "prepared_count p =
     (case trigger_inputs p of
        None \<Rightarrow> Inr 1
      | Some (CollectionObject r n ck ek sv ix tn) \<Rightarrow> Inr n
      | Some (InlineObject (VList xs) tn) \<Rightarrow> Inr (int (length xs))
      | Some _ \<Rightarrow> Inl (PyError TypeError))"

definition get_trigger_input_at :: "prepared \<Rightarrow> nat \<Rightarrow> exn + stored option" where
  "get_trigger_input_at p i =
     (case trigger_inputs p of
        None \<Rightarrow> Inr None
      | Some (CollectionObject r n ck ek sv ix tn) \<Rightarrow>
          Inr (Some (collection_at (int i) (CollectionObject r n ck ek sv ix tn)))
      | Some (InlineObject (VList xs) tn) \<Rightarrow>
          (if i < length xs then Inr (Some (inline (xs ! i))) else Inl (PyError IndexError))
      | Some _ \<Rightarrow> Inl (PyError TypeError))"

definition get_config :: "prepared \<Rightarrow> nat \<Rightarrow> exn + dsl_config" where
  "get_config p i =
     (case runtime_configs p of
        None \<Rightarrow> Inr (workflow_config p)
      | Some (ConfigList cs) \<Rightarrow> if i < length cs then Inr (cs ! i) else Inl (PyError IndexError)
      | Some (OneConfig c) \<Rightarrow> Inr c)"

section \<open>Dispatching children\<close>

record run_args =
  run_trigger_inputs :: "stored option"
  run_config :: dsl_config

definition build_prepared_child_run_args :: "prepared \<Rightarrow> nat \<Rightarrow> exn + run_args" where
  "build_prepared_child_run_args p i =
     rbind (get_trigger_input_at p i) (\<lambda>ti.
     rbind (get_config p i) (\<lambda>c. Inr \<lparr>run_trigger_inputs = ti, run_config = c\<rparr>))"

text \<open>
  A child, as the parent sees it: starting it fails, or gives its workflow id and later its outcome.
\<close>

type_synonym child_run = "exn + string \<times> (exn + stored)"
type_synonym child = "nat \<Rightarrow> run_args \<Rightarrow> child_run"

record dispatch_state =
  dispatch_batch :: "(nat \<times> run_args) list"
  launched :: "child_run list"
  flushes :: "(nat \<times> run_args) list list"

definition flush_child_workflow_dispatch_batch :: "child \<Rightarrow> dispatch_state \<Rightarrow> dispatch_state" where
  "flush_child_workflow_dispatch_batch child s =
     s\<lparr>dispatch_batch := [], launched := launched s @ map (\<lambda>(i, a). child i a) (dispatch_batch s),
       flushes := flushes s @ [dispatch_batch s]\<rparr>"

fun dispatch_loop :: "child \<Rightarrow> prepared \<Rightarrow> int \<Rightarrow> nat list \<Rightarrow> dispatch_state \<Rightarrow> (exn + unit) \<times> dispatch_state" where
  "dispatch_loop child p window [] s = (Inr (), s)"
| "dispatch_loop child p window (i # is) s =
     (case build_prepared_child_run_args p i of
        Inl e \<Rightarrow> (Inl e, s)
      | Inr a \<Rightarrow>
          let s1 = s\<lparr>dispatch_batch := dispatch_batch s @ [(i, a)]\<rparr>
          in dispatch_loop child p window is
               (if int (length (dispatch_batch s1)) \<ge> window then flush_child_workflow_dispatch_batch child s1 else s1))"

definition child_result :: "wait_strategy \<Rightarrow> child_run \<Rightarrow> exn + stored" where
  "child_result wait h =
     (case h of
        Inl e \<Rightarrow> Inl e
      | Inr (wid, outcome) \<Rightarrow> (case wait of DETACH_STRATEGY \<Rightarrow> Inr (inline (VStr wid)) | WAIT_STRATEGY \<Rightarrow> outcome))"

definition dsl_execution_error_from_exception :: "exn \<Rightarrow> pyval" where
  "dsl_execution_error_from_exception e =
     VDict [(''is_error'', VBool True), (''type'', VStr (exn_class e)), (''message'', VStr (exn_text e))]"

definition result_object :: "exn + stored \<Rightarrow> stored" where
  "result_object r = (case r of Inl e \<Rightarrow> inline (dsl_execution_error_from_exception e) | Inr st \<Rightarrow> st)"

definition execute_child_workflow_batch_prepared ::
    "child \<Rightarrow> prepared \<Rightarrow> nat \<Rightarrow> nat \<Rightarrow> int \<Rightarrow> wait_strategy \<Rightarrow> fail_strategy \<Rightarrow>
     (exn + stored list) \<times> (nat \<times> run_args) list list" where
  "execute_child_workflow_batch_prepared child p first bsize window wait fail =
     (case dispatch_loop child p window [first..<first + bsize]
        \<lparr>dispatch_batch = [], launched = [], flushes = []\<rparr> of
        (Inl e, s) \<Rightarrow> (Inl e, flushes s)
      | (Inr _, s) \<Rightarrow>
          let s1 = (if dispatch_batch s \<noteq> [] then flush_child_workflow_dispatch_batch child s else s);
              gathered = map (child_result wait) (launched s1)
          in if fail = FAIL_ALL \<and> list_ex isl gathered then (Inl (PyError RuntimeError), flushes s1)
             else (Inr (map result_object gathered), flushes s1))"

definition resolve_child_loop_batch_plan :: "nat \<Rightarrow> int \<Rightarrow> nat" where
  "resolve_child_loop_batch_plan count requested = nat (max 1 (min requested (int count)))"

text \<open>The loop over the batches. The size of a batch is at least one.\<close>

function loop_batches ::
    "(nat \<Rightarrow> nat \<Rightarrow> (exn + stored list) \<times> (nat \<times> run_args) list list) \<Rightarrow> nat \<Rightarrow> nat \<Rightarrow> nat \<Rightarrow>
     (exn + stored list) \<times> (nat \<times> run_args) list list" where
  "loop_batches batch bsize count first =
     (if first < count \<and> 0 < bsize then
        (let n = min bsize (count - first) in
         case batch first n of
           (Inl e, fl) \<Rightarrow> (Inl e, fl)
         | (Inr rs, fl) \<Rightarrow>
             (case loop_batches batch bsize count (first + n) of
                (Inl e, fl') \<Rightarrow> (Inl e, fl @ fl')
              | (Inr rs', fl') \<Rightarrow> (Inr (rs @ rs'), fl @ fl')))
      else (Inr [], []))"
  by pat_completeness auto
termination by (relation "measure (\<lambda>(batch, bsize, count, first). count - first)") auto

declare loop_batches.simps [simp del]

definition requested_batch_size :: "loop_strategy \<Rightarrow> int \<Rightarrow> nat \<Rightarrow> int" where
  "requested_batch_size strategy batch_size count =
     (case strategy of LOOP_SEQUENTIAL \<Rightarrow> 1 | LOOP_BATCH \<Rightarrow> batch_size | LOOP_PARALLEL \<Rightarrow> int count)"

definition execute_child_workflow_loop_prepared ::
    "child \<Rightarrow> prepared \<Rightarrow> loop_strategy \<Rightarrow> int \<Rightarrow> int \<Rightarrow> wait_strategy \<Rightarrow> fail_strategy \<Rightarrow>
     (exn + stored list) \<times> (nat \<times> run_args) list list" where
  "execute_child_workflow_loop_prepared child p strategy batch_size window wait fail =
     (case prepared_count p of
        Inl e \<Rightarrow> (Inl e, [])
      | Inr n \<Rightarrow>
          let count = nat n;
              bsize = resolve_child_loop_batch_plan count (requested_batch_size strategy batch_size count)
          in loop_batches
               (\<lambda>first bsize. execute_child_workflow_batch_prepared child p first bsize window wait fail)
               bsize count 0)"

text \<open>The results become a collection, through the activity that the scatter uses too.\<close>

definition execute_child_loop ::
    "nat \<Rightarrow> env \<Rightarrow> child \<Rightarrow> prepared \<Rightarrow> loop_strategy \<Rightarrow> int \<Rightarrow> int \<Rightarrow> wait_strategy \<Rightarrow> fail_strategy \<Rightarrow> string \<Rightarrow> stored io" where
  "execute_child_loop n v child p strategy batch_size window wait fail k w =
     (case fst (execute_child_workflow_loop_prepared child p strategy batch_size window wait fail) of
        Inl e \<Rightarrow> (Inl e, w)
      | Inr results \<Rightarrow> synchronize_collection_object_activity n v results k w)"

end
