(* ===== verification/Subflow_Theorems.thy ===== *)
theory Subflow_Theorems
  imports Subflow_Loop Storage_Theorems
begin

text \<open>
  What a loop over child workflows does: which children it starts, in which order, with which inputs
  and configuration, and what it returns.
\<close>

section \<open>Dispatch\<close>

definition with_args :: "(nat \<Rightarrow> run_args) \<Rightarrow> nat list \<Rightarrow> (nat \<times> run_args) list" where
  "with_args A is = map (\<lambda>i. (i, A i)) is"

lemma with_args_append [simp]: "with_args A (is @ js) = with_args A is @ with_args A js"
  by (simp add: with_args_def)

lemma with_args_Cons [simp]: "with_args A (i # is) = (i, A i) # with_args A is"
  by (simp add: with_args_def)

lemma with_args_Nil [simp]: "with_args A [] = []"
  by (simp add: with_args_def)

lemma set_with_args [simp]: "set (with_args A is) = (\<lambda>i. (i, A i)) ` set is"
  by (simp add: with_args_def)

definition flushes_ok :: "int \<Rightarrow> (nat \<times> run_args) list list \<Rightarrow> bool" where
  "flushes_ok window fl = (\<forall>f \<in> set fl. f \<noteq> [] \<and> int (length f) \<le> max 1 window)"

lemma flushes_ok_simps [simp]:
  "flushes_ok window []" "flushes_ok window (fl @ fl') \<longleftrightarrow> flushes_ok window fl \<and> flushes_ok window fl'"
  by (auto simp: flushes_ok_def)

definition dispatch_ok :: "child \<Rightarrow> int \<Rightarrow> dispatch_state \<Rightarrow> bool" where
  "dispatch_ok child window s =
     (launched s = map (\<lambda>(i, a). child i a) (concat (flushes s)) \<and> flushes_ok window (flushes s) \<and>
      (int (length (dispatch_batch s)) < max 1 window))"

lemma flush_ok:
  assumes "launched s = map (\<lambda>(i, a). child i a) (concat (flushes s))" "flushes_ok window (flushes s)"
    and "dispatch_batch s \<noteq> []" "int (length (dispatch_batch s)) \<le> max 1 window"
  shows "dispatch_ok child window (flush_child_workflow_dispatch_batch child s)"
    "concat (flushes (flush_child_workflow_dispatch_batch child s)) = concat (flushes s) @ dispatch_batch s"
    "dispatch_batch (flush_child_workflow_dispatch_batch child s) = []"
  using assms by (simp_all add: dispatch_ok_def flush_child_workflow_dispatch_batch_def flushes_ok_def)

lemma dispatch_loop_result:
  assumes "\<forall>i \<in> set is. build_prepared_child_run_args p i = Inr (A i)" and "dispatch_ok child window s"
  shows "\<exists>s'. dispatch_loop child p window is s = (Inr (), s') \<and> dispatch_ok child window s' \<and>
     concat (flushes s') @ dispatch_batch s' = concat (flushes s) @ dispatch_batch s @ with_args A is"
  using assms
proof (induction "is" arbitrary: s)
  case (Cons i "is")
  let ?s1 = "s\<lparr>dispatch_batch := dispatch_batch s @ [(i, A i)]\<rparr>"
  let ?s2 = "if int (length (dispatch_batch ?s1)) \<ge> window then flush_child_workflow_dispatch_batch child ?s1 else ?s1"
  have flush: "dispatch_ok child window (flush_child_workflow_dispatch_batch child ?s1)"
    "concat (flushes (flush_child_workflow_dispatch_batch child ?s1)) = concat (flushes s) @ dispatch_batch s @ [(i, A i)]"
    "dispatch_batch (flush_child_workflow_dispatch_batch child ?s1) = []"
    using flush_ok [of ?s1 child window] Cons.prems(2) by (simp_all add: dispatch_ok_def)
  have "dispatch_ok child window ?s2"
    using flush(1) Cons.prems(2) by (simp add: dispatch_ok_def)
  moreover have "concat (flushes ?s2) @ dispatch_batch ?s2 = concat (flushes s) @ dispatch_batch s @ [(i, A i)]"
    using flush by simp
  moreover have "dispatch_loop child p window (i # is) s = dispatch_loop child p window is ?s2"
    using Cons.prems(1) by (simp add: Let_def)
  ultimately show ?case
    using Cons.IH [of ?s2] Cons.prems(1) by auto
qed auto

definition outcome :: "child \<Rightarrow> wait_strategy \<Rightarrow> nat \<times> run_args \<Rightarrow> exn + stored" where
  "outcome child wait ia = child_result wait (child (fst ia) (snd ia))"

text \<open>One batch: every child of it is started once, in order, whatever happens to the others.\<close>

lemma batch_result:
  assumes "\<forall>i. first \<le> i \<and> i < first + n \<longrightarrow> build_prepared_child_run_args p i = Inr (A i)"
  obtains fl where "concat fl = with_args A [first..<first + n]" "flushes_ok window fl"
    "execute_child_workflow_batch_prepared child p first n window wait fail =
       (if fail = FAIL_ALL \<and> (\<exists>x \<in> set (concat fl). isl (outcome child wait x)) then Inl (PyError RuntimeError)
        else Inr (map (result_object \<circ> outcome child wait) (concat fl)), fl)"
proof -
  let ?s0 = "\<lparr>dispatch_batch = [], launched = [], flushes = []\<rparr>"
  have "dispatch_ok child window ?s0" by (simp add: dispatch_ok_def)
  with dispatch_loop_result [of "[first..<first + n]" p A child window ?s0] assms obtain s where
    s: "dispatch_loop child p window [first..<first + n] ?s0 = (Inr (), s)" "dispatch_ok child window s"
      "concat (flushes s) @ dispatch_batch s = with_args A [first..<first + n]" by auto
  define s1 where "s1 = (if dispatch_batch s \<noteq> [] then flush_child_workflow_dispatch_batch child s else s)"
  have s1: "dispatch_ok child window s1" "concat (flushes s1) = with_args A [first..<first + n]"
    using s(2,3) flush_ok [of s child window] by (auto simp: s1_def dispatch_ok_def)
  have gathered: "map (child_result wait) (launched s1) = map (outcome child wait) (concat (flushes s1))"
    using s1(1) by (simp add: dispatch_ok_def outcome_def case_prod_beta comp_def)
  have "execute_child_workflow_batch_prepared child p first n window wait fail =
      (let gathered = map (child_result wait) (launched s1) in
       if fail = FAIL_ALL \<and> list_ex isl gathered then (Inl (PyError RuntimeError), flushes s1)
       else (Inr (map result_object gathered), flushes s1))"
    unfolding execute_child_workflow_batch_prepared_def s(1) by (simp add: s1_def Let_def)
  then show thesis
    using that [of "flushes s1"] s1 unfolding gathered Let_def
    by (auto simp: dispatch_ok_def list_ex_iff comp_def)
qed

section \<open>The loop\<close>

text \<open>
  The children that were started are the first ones, in order. If the loop returns, they are all, and
  the results are theirs in order; if it raises, one of the last batch failed and none before it.
\<close>

definition loop_outcome :: "child \<Rightarrow> wait_strategy \<Rightarrow> fail_strategy \<Rightarrow> (nat \<Rightarrow> run_args) \<Rightarrow> nat \<Rightarrow> nat \<Rightarrow> nat \<Rightarrow>
    (exn + stored list) \<times> (nat \<times> run_args) list list \<Rightarrow> bool" where
  "loop_outcome child wait fail A bsize first n rf =
     (\<exists>k. first \<le> k \<and> k \<le> n \<and> concat (snd rf) = with_args A [first..<k] \<and>
        (case fst rf of
           Inr results \<Rightarrow> k = n \<and> results = map (result_object \<circ> outcome child wait) (concat (snd rf)) \<and>
             (fail = FAIL_ALL \<longrightarrow> (\<forall>x \<in> set (concat (snd rf)). \<not> isl (outcome child wait x)))
         | Inl e \<Rightarrow> fail = FAIL_ALL \<and> e = PyError RuntimeError \<and>
             (\<exists>x \<in> set (concat (snd rf)). isl (outcome child wait x)) \<and>
             (\<forall>x \<in> set (concat (snd rf)). fst x + bsize < k \<longrightarrow> \<not> isl (outcome child wait x))))"

lemma loop_outcome_isolated:
  assumes "loop_outcome child wait FAIL_ISOLATED A bsize first n rf"
  shows "fst rf = Inr (map (result_object \<circ> outcome child wait) (with_args A [first..<n]))"
  using assms by (cases "fst rf") (auto simp: loop_outcome_def)

lemma loop_outcome_extend:
  assumes later: "loop_outcome child wait fail A bsize mid n (rest, fl')" and "first \<le> mid"
    and fl: "concat fl = with_args A [first..<mid]"
    and go: "\<not> (fail = FAIL_ALL \<and> (\<exists>x \<in> set (concat fl). isl (outcome child wait x)))"
  shows "loop_outcome child wait fail A bsize first n
    (case rest of Inl e \<Rightarrow> Inl e | Inr rs' \<Rightarrow> Inr (map (result_object \<circ> outcome child wait) (concat fl) @ rs'), fl @ fl')"
proof -
  from later obtain k where k: "mid \<le> k" "k \<le> n" "concat fl' = with_args A [mid..<k]"
    and rest: "case rest of
           Inr results \<Rightarrow> k = n \<and> results = map (result_object \<circ> outcome child wait) (concat fl') \<and>
             (fail = FAIL_ALL \<longrightarrow> (\<forall>x \<in> set (concat fl'). \<not> isl (outcome child wait x)))
         | Inl e \<Rightarrow> fail = FAIL_ALL \<and> e = PyError RuntimeError \<and>
             (\<exists>x \<in> set (concat fl'). isl (outcome child wait x)) \<and>
             (\<forall>x \<in> set (concat fl'). fst x + bsize < k \<longrightarrow> \<not> isl (outcome child wait x))"
    unfolding loop_outcome_def fst_conv snd_conv by blast
  have all: "concat (fl @ fl') = with_args A [first..<k]"
    using fl k assms(2) upt_add_eq_append [of first mid "k - mid"] by (simp add: with_args_def)
  have parts: "(\<forall>x \<in> set (concat (fl @ fl')). P x) \<longleftrightarrow> (\<forall>x \<in> set (concat fl). P x) \<and> (\<forall>x \<in> set (concat fl'). P x)"
    "(\<exists>x \<in> set (concat (fl @ fl')). P x) \<longleftrightarrow> (\<exists>x \<in> set (concat fl). P x) \<or> (\<exists>x \<in> set (concat fl'). P x)" for P
    by auto
  have "first \<le> k" using k(1) assms(2) by simp
  show ?thesis
  proof (cases rest)
    case (Inl e)
    with rest have "fail = FAIL_ALL" "e = PyError RuntimeError" "\<exists>x \<in> set (concat fl'). isl (outcome child wait x)"
      "\<forall>x \<in> set (concat fl'). fst x + bsize < k \<longrightarrow> \<not> isl (outcome child wait x)"
      by (simp_all del: set_concat)
    with go have "case Inl e of Inl e \<Rightarrow> fail = FAIL_ALL \<and> e = PyError RuntimeError \<and>
         (\<exists>x \<in> set (concat (fl @ fl')). isl (outcome child wait x)) \<and>
         (\<forall>x \<in> set (concat (fl @ fl')). fst x + bsize < k \<longrightarrow> \<not> isl (outcome child wait x)) | Inr results \<Rightarrow> True"
      unfolding parts sum.case by blast
    with \<open>first \<le> k\<close> k(2) all show ?thesis
      unfolding loop_outcome_def Inl fst_conv snd_conv sum.case by blast
  next
    case (Inr rs')
    with rest have "k = n" "rs' = map (result_object \<circ> outcome child wait) (concat fl')"
      "fail = FAIL_ALL \<longrightarrow> (\<forall>x \<in> set (concat fl'). \<not> isl (outcome child wait x))"
      by (simp_all del: set_concat)
    moreover from this go have "fail = FAIL_ALL \<longrightarrow> (\<forall>x \<in> set (concat (fl @ fl')). \<not> isl (outcome child wait x))"
      unfolding parts by blast
    moreover from calculation have "map (result_object \<circ> outcome child wait) (concat fl) @ rs' =
        map (result_object \<circ> outcome child wait) (concat (fl @ fl'))" by simp
    ultimately show ?thesis
      unfolding loop_outcome_def Inr fst_conv snd_conv sum.case
      using \<open>first \<le> k\<close> k(2) all by blast
  qed
qed

lemma loop_batches_result:
  assumes "\<forall>i < n. build_prepared_child_run_args p i = Inr (A i)" and "0 < bsize" and "first \<le> n"
  shows "flushes_ok window (snd (loop_batches (\<lambda>a b. execute_child_workflow_batch_prepared child p a b window wait fail) bsize n first)) \<and>
    loop_outcome child wait fail A bsize first n
      (loop_batches (\<lambda>a b. execute_child_workflow_batch_prepared child p a b window wait fail) bsize n first)"
  using assms(3)
proof (induction "n - first" arbitrary: first rule: less_induct)
  case less
  let ?batch = "\<lambda>a b. execute_child_workflow_batch_prepared child p a b window wait fail"
  show ?case
  proof (cases "first < n")
    case False
    with less.prems show ?thesis by (simp add: loop_batches.simps [of ?batch] loop_outcome_def)
  next
    case True
    let ?m = "min bsize (n - first)"
    have m: "0 < ?m" "first + ?m \<le> n" using True assms(2) by auto
    obtain fl where fl: "concat fl = with_args A [first..<first + ?m]" "flushes_ok window fl"
      "?batch first ?m = (if fail = FAIL_ALL \<and> (\<exists>x \<in> set (concat fl). isl (outcome child wait x))
          then Inl (PyError RuntimeError) else Inr (map (result_object \<circ> outcome child wait) (concat fl)), fl)"
      using batch_result [of first ?m p A window child wait fail] assms(1) m(2) by auto
    have step: "loop_batches ?batch bsize n first =
        (case ?batch first ?m of (Inl e, fl) \<Rightarrow> (Inl e, fl)
         | (Inr rs, fl) \<Rightarrow> (case loop_batches ?batch bsize n (first + ?m) of
              (Inl e, fl') \<Rightarrow> (Inl e, fl @ fl') | (Inr rs', fl') \<Rightarrow> (Inr (rs @ rs'), fl @ fl')))"
      using True assms(2) by (subst loop_batches.simps) (simp add: Let_def)
    show ?thesis
    proof (cases "fail = FAIL_ALL \<and> (\<exists>x \<in> set (concat fl). isl (outcome child wait x))")
      case stop: True
      then have run: "loop_batches ?batch bsize n first = (Inl (PyError RuntimeError), fl)"
        unfolding step fl(3) by simp
      have "\<not> fst x + bsize < first + ?m" if "x \<in> set (concat fl)" for x
        using that unfolding fl(1) by auto
      with stop fl(1,2) m show ?thesis unfolding run loop_outcome_def
        by (intro conjI exI [of _ "first + ?m"]) auto
    next
      case go: False
      obtain rest fl' where rest: "loop_batches ?batch bsize n (first + ?m) = (rest, fl')" by fastforce
      have ran: "?batch first ?m = (Inr (map (result_object \<circ> outcome child wait) (concat fl)), fl)"
        unfolding fl(3) using go by simp
      have IH: "flushes_ok window fl'" "loop_outcome child wait fail A bsize (first + ?m) n (rest, fl')"
        using less.hyps [of "first + ?m"] m True rest by auto
      note ext = loop_outcome_extend [OF IH(2) _ fl(1) go]
      have "loop_batches ?batch bsize n first =
          (case rest of Inl e \<Rightarrow> Inl e | Inr rs' \<Rightarrow> Inr (map (result_object \<circ> outcome child wait) (concat fl) @ rs'), fl @ fl')"
        unfolding step ran rest by (simp split: sum.split)
      with ext IH(1) fl(2) show ?thesis by simp
    qed
  qed
qed

section \<open>Prepared loops\<close>

text \<open>Sharing one configuration instead of a list of equal ones changes nothing.\<close>

lemma share_configs_nth:
  "i < length cs \<Longrightarrow> get_config \<lparr>trigger_inputs = ti, runtime_configs = Some (share_configs cs), workflow_config = c\<rparr> i = Inr (cs ! i)"
  by (cases cs; cases i) (auto simp: share_configs_def get_config_def list_all_iff dest: nth_mem)

lemma stored_inputs_shape:
  assumes run: "store_collection_as_refs v pre xs w = (Inr h, w')"
    and ok: "libs_ok v" "honest v w" "0 < config_chunk_size v" "list_all storable xs"
  obtains r where "h = CollectionObject r (int (length xs)) (config_chunk_size v) StoredObjectElements 1 None ''list''"
proof -
  from run obtain refs w1 where
    r: "io_map (store_item v pre) (enumerate 0 xs) w = (Inr refs, w1)"
      "store_collection v pre refs StoredObjectElements None w1 = (Inr h, w')"
    unfolding store_collection_as_refs_def by (elim io_bind_InrE)
  from store_items [OF r(1) ok(4)] obtain sts where
    s: "refs = map dump_stored sts" "list_all2 (stands_for v w1) sts xs"
      "list_all (kept_under (item_keys pre)) sts" "only_writes v (item_keys pre) w w1" by blast
  have "honest v w1" using ok(2) only_writes_honest [OF s(4)] by simp
  from store_refs [OF r(2) [unfolded s(1)] ok(1) this ok(3,4) s(2,3)] that show thesis by blast
qed

text \<open>The handle a child gets reads as the trigger input of its iteration.\<close>

lemma input_handle:
  assumes "list_store v k xs w = (Inr h, w')"
    and ok: "libs_ok v" "honest v w" "0 < config_chunk_size v" "list_all storable xs"
  shows "prepared_count \<lparr>trigger_inputs = Some h, runtime_configs = rc, workflow_config = c\<rparr> = Inr (int (length xs))"
    "i < length xs \<Longrightarrow> \<exists>st. get_trigger_input_at \<lparr>trigger_inputs = Some h, runtime_configs = rc, workflow_config = c\<rparr> i =
       Inr (Some st) \<and> (\<forall>m. always v w' (storage_retrieve (m + 2) v st) (xs ! i))"
proof -
  have reads: "reads_as v w' h xs" using list_store_correct(2) [OF ok assms(1)] by blast
  show count: "prepared_count \<lparr>trigger_inputs = Some h, runtime_configs = rc, workflow_config = c\<rparr> = Inr (int (length xs))"
  proof (cases "externalization_enabled v")
    case True
    with assms(1) have "store_collection_as_refs v k xs w = (Inr h, w')" by (simp add: list_store_def)
    from stored_inputs_shape [OF this ok] obtain r where
      "h = CollectionObject r (int (length xs)) (config_chunk_size v) StoredObjectElements 1 None ''list''" .
    then show ?thesis by (simp add: prepared_count_def)
  next
    case False
    with assms(1) show ?thesis by (simp add: list_store_def io_return_eq prepared_count_def)
  qed
  show "\<exists>st. get_trigger_input_at \<lparr>trigger_inputs = Some h, runtime_configs = rc, workflow_config = c\<rparr> i =
      Inr (Some st) \<and> (\<forall>m. always v w' (storage_retrieve (m + 2) v st) (xs ! i))" if "i < length xs"
  proof (cases "externalization_enabled v")
    case True
    with assms(1) have "store_collection_as_refs v k xs w = (Inr h, w')" by (simp add: list_store_def)
    from stored_inputs_shape [OF this ok] obtain r where
      h: "h = CollectionObject r (int (length xs)) (config_chunk_size v) StoredObjectElements 1 None ''list''" .
    have "always v w' (raw_result (m + 2) v (from_collection_item h (int i) tn)) (xs ! i)" for m tn
      using reads that unfolding reads_as_def by (simp add: from_collection_item_def task_result_of_def)
    then have "always v w' (storage_retrieve (m + 2) v (collection_at (int i) h)) (xs ! i)" for m
      unfolding raw_result_def by (simp add: from_collection_item_def task_result_of_def h)
    then show ?thesis by (auto simp: get_trigger_input_at_def h)
  next
    case False
    with assms(1) have "h = InlineObject (VList xs) ''list''" by (simp add: list_store_def io_return_eq)
    with that show ?thesis
      by (auto simp: get_trigger_input_at_def inline_def always_def yields_return storage_retrieve_def s3_retrieve_def)
  qed
qed

lemma prepare_loop_InrE:
  assumes "prepare_loop v eval cfg operand iterators k w = (Inr p, w')"
    and "map_result (evaluate_iteration eval cfg operand) (zip_items iterators) = Inr rs"
  obtains h where "p = \<lparr>trigger_inputs = Some h, runtime_configs = Some (share_configs (map snd rs)), workflow_config = cfg\<rparr>"
    "list_store v (k @ ''/trigger_inputs'') (map fst rs) w = (Inr h, w')" "length rs \<le> MAX_LOOP_ITERATIONS"
proof -
  have len: "length rs = length (zip_items iterators)"
    using assms(2) by (simp add: map_result_Inr list_all2_lengthD)
  show thesis
  proof (cases "length (zip_items iterators) > MAX_LOOP_ITERATIONS")
    case True
    then show ?thesis using assms(1) by (simp add: prepare_loop_def evaluate_loop_iterations_def)
  next
    case False
    then have ev: "evaluate_loop_iterations eval cfg operand iterators = Inr (map fst rs, share_configs (map snd rs))"
      using assms(2) by (simp add: evaluate_loop_iterations_def)
    have "io_bind (list_store v (k @ ''/trigger_inputs'') (map fst rs))
        (\<lambda>st. io_return \<lparr>trigger_inputs = Some st, runtime_configs = Some (share_configs (map snd rs)),
           workflow_config = cfg\<rparr>) w = (Inr p, w')"
      using assms(1) by (simp add: prepare_loop_def ev list_store_def)
    then obtain h where "list_store v (k @ ''/trigger_inputs'') (map fst rs) w = (Inr h, w')"
      "p = \<lparr>trigger_inputs = Some h, runtime_configs = Some (share_configs (map snd rs)), workflow_config = cfg\<rparr>"
      by (elim io_bind_InrE) (auto simp: io_return_eq)
    with that False len show ?thesis by simp
  qed
qed

text \<open>
  C40. Loops over child workflows. Let the iterations of a subflow evaluate, and prepare the loop.
  Then for every strategy, batch size and dispatch window the children are started once each, in the
  order of the iterations, never more at a time than the window allows. Child i gets the configuration
  of its iteration and a handle that reads as its trigger input, with externalization on or off. With
  isolated failures the loop returns the results of all children in order, failures as error records.
  Otherwise it may raise RuntimeError; then some child of the last batch failed and none before that
  batch, and later children were not started.
\<close>

theorem subflow_loop_correct:
  assumes "libs_ok v" "honest v w" "0 < config_chunk_size v"
    and "prepare_loop v eval cfg operand iterators k w = (Inr p, w')"
    and "map_result (evaluate_iteration eval cfg operand) (zip_items iterators) = Inr rs"
    and "list_all storable (map fst rs)"
  shows "\<exists>A. (\<forall>i < length rs. run_config (A i) = snd (rs ! i) \<and>
        (\<exists>st. run_trigger_inputs (A i) = Some st \<and>
           (\<forall>m. always v w' (storage_retrieve (m + 2) v st) (fst (rs ! i))))) \<and>
     flushes_ok window (snd (execute_child_workflow_loop_prepared child p strategy batch_size window wait fail)) \<and>
     loop_outcome child wait fail A
       (resolve_child_loop_batch_plan (length rs) (requested_batch_size strategy batch_size (length rs))) 0 (length rs)
       (execute_child_workflow_loop_prepared child p strategy batch_size window wait fail)"
proof -
  obtain h where p: "p = \<lparr>trigger_inputs = Some h, runtime_configs = Some (share_configs (map snd rs)), workflow_config = cfg\<rparr>"
    and h: "list_store v (k @ ''/trigger_inputs'') (map fst rs) w = (Inr h, w')"
    using prepare_loop_InrE [OF assms(4,5)] by blast
  note handle = input_handle [OF h assms(1-3,6), where rc = "Some (share_configs (map snd rs))" and c = cfg, folded p]
  have "\<exists>a. i < length rs \<longrightarrow> build_prepared_child_run_args p i = Inr a \<and> run_config a = snd (rs ! i) \<and>
      (\<exists>st. run_trigger_inputs a = Some st \<and> (\<forall>m. always v w' (storage_retrieve (m + 2) v st) (fst (rs ! i))))" for i
  proof (cases "i < length rs")
    case True
    then obtain st where "get_trigger_input_at p i = Inr (Some st)"
      "\<forall>m. always v w' (storage_retrieve (m + 2) v st) (fst (rs ! i))"
      using handle(2) [of i] by auto
    moreover have "get_config p i = Inr (snd (rs ! i))"
      using share_configs_nth [of i "map snd rs" "Some h" cfg] True by (simp add: p)
    ultimately show ?thesis by (auto simp: build_prepared_child_run_args_def)
  qed simp
  then obtain A where A: "\<forall>i < length rs. build_prepared_child_run_args p i = Inr (A i) \<and> run_config (A i) = snd (rs ! i) \<and>
      (\<exists>st. run_trigger_inputs (A i) = Some st \<and> (\<forall>m. always v w' (storage_retrieve (m + 2) v st) (fst (rs ! i))))"
    by metis
  let ?bsize = "resolve_child_loop_batch_plan (length rs) (requested_batch_size strategy batch_size (length rs))"
  have "0 < ?bsize" by (simp add: resolve_child_loop_batch_plan_def)
  moreover have "execute_child_workflow_loop_prepared child p strategy batch_size window wait fail =
      loop_batches (\<lambda>a b. execute_child_workflow_batch_prepared child p a b window wait fail) ?bsize (length rs) 0"
    using handle(1) by (simp add: execute_child_workflow_loop_prepared_def Let_def)
  ultimately show ?thesis
    using loop_batches_result [of "length rs" p A ?bsize 0 window child wait fail] A by auto
qed

text \<open>Three iterations over \<open>var.item\<close>; the second child cannot be started.\<close>

definition item_eval :: "(string, pyval) dict \<Rightarrow> exn + subflow_args" where
  "item_eval d =
     (case dict_get d LOCAL_VARS of
        Some (VDict e) \<Rightarrow>
          (case dict_get e ''item'' of
             Some x \<Rightarrow> Inr \<lparr>sa_environment = None, sa_timeout = Some 5, sa_trigger_inputs = x\<rparr>
           | None \<Rightarrow> Inl (user_error ''no item''))
      | _ \<Rightarrow> Inl (user_error ''no var''))"

definition item_iterators :: "(string \<times> pyval list) list" where
  "item_iterators = [(''.item'', [VInt 10, VInt 20, VInt 30])]"

definition item_config :: dsl_config where
  "item_config = \<lparr>environment = ''default'', timeout = 0\<rparr>"

definition item_prepared :: "(exn + prepared) \<times> store" where
  "item_prepared = prepare_loop (sample_env True 2 0) item_eval item_config [] item_iterators ''k'' empty_store"

fun item_child :: child where
  "item_child i a = (if i = 1 then Inl (PyError ValueError) else Inr (''child'', Inr (inline (VInt (int i)))))"

theorem subflow_loop_correct_witness:
  "fst (execute_child_workflow_loop_prepared item_child (projr (fst item_prepared)) LOOP_BATCH 2 8
     WAIT_STRATEGY FAIL_ISOLATED) =
     Inr [inline (VInt 0), inline (dsl_execution_error_from_exception (PyError ValueError)), inline (VInt 2)]"
proof -
  let ?v = "sample_env True 2 0" and ?c = "item_config\<lparr>timeout := 5\<rparr>"
  let ?rs = "[(VInt 10, ?c), (VInt 20, ?c), (VInt 30, ?c)]"
  let ?run = "execute_child_workflow_loop_prepared item_child (projr (fst item_prepared)) LOOP_BATCH 2 8
     WAIT_STRATEGY FAIL_ISOLATED"
  have "\<not> isl (fst item_prepared)" by code_simp
  then have prep: "prepare_loop ?v item_eval item_config [] item_iterators ''k'' empty_store =
      (Inr (projr (fst item_prepared)), snd item_prepared)"
    by (metis item_prepared_def prod.collapse sum.collapse(2))
  have rs: "map_result (evaluate_iteration item_eval item_config []) (zip_items item_iterators) = Inr ?rs"
    by code_simp
  have k: "0 < config_chunk_size ?v" by (simp add: sample_env_def)
  have st: "list_all storable (map fst ?rs)" by simp
  obtain A b where out: "loop_outcome item_child WAIT_STRATEGY FAIL_ISOLATED A b 0 (Suc (Suc (Suc 0))) ?run"
    using subflow_loop_correct [OF sample_libs_ok honest_empty k prep rs st, of 8 item_child LOOP_BATCH 2
        WAIT_STRATEGY FAIL_ISOLATED] by auto
  show ?thesis
    unfolding loop_outcome_isolated [OF out]
    by (simp add: upt_rec outcome_def child_result_def result_object_def)
qed

end
