(* ===== verification/Graph_Edit.thy ===== *)
theory Graph_Edit
  imports Dsl_Import
begin

text \<open>
  Editing a workflow: \<open>WorkflowGraphService\<close> of \<open>workflow/graph/service.py\<close> on the tables of
  workflows and actions, the graph it answers with (\<open>RFGraph.from_actions\<close> of
  \<open>dsl/view.py\<close>), and the repair of edges of \<open>workflow/management/management.py\<close>. The
  database driver is a parameter: how it reads an identifier or a number given by a client. The
  session of a request is the database it would leave; it is kept when the request commits.
\<close>

section \<open>Tables\<close>

text \<open>An edge as the JSON column keeps it.\<close>

type_synonym raw_edge = "(string, pyval) dict"

text \<open>The interaction of an action is that of an action marked as interactive, if it has one.\<close>

record db_action =
  row_id :: uuid
  row_workspace :: uuid
  row_workflow :: uuid
  row_type :: string
  row_title :: string
  row_description :: string
  row_inputs :: string
  row_control_flow :: "(string, pyval) dict"
  row_interaction :: "pyval option"
  row_position :: "rat \<times> rat"
  row_edges :: "raw_edge list"

record db_workflow =
  wfl_id :: uuid
  wfl_workspace :: uuid
  wfl_online :: bool
  graph_version :: int
  trigger_position :: "rat \<times> rat"
  viewport :: "rat \<times> rat \<times> rat"

text \<open>The identifiers that \<open>uuid4\<close> will draw are a sequence, of which some have been used.\<close>

record graph_db =
  workflow_table :: "db_workflow list"
  action_table :: "db_action list"
  ids_used :: nat

record graph_env =
  read_uuid :: "pyval \<Rightarrow> exn + uuid"
  read_float :: "pyval \<Rightarrow> exn + rat"
  draw_uuid :: "nat \<Rightarrow> uuid"

definition in_workflow :: "uuid \<Rightarrow> uuid \<Rightarrow> db_action \<Rightarrow> bool" where
  "in_workflow ws wid r = (row_workspace r = ws \<and> row_workflow r = wid)"

definition is_action :: "uuid \<Rightarrow> uuid \<Rightarrow> uuid \<Rightarrow> db_action \<Rightarrow> bool" where
  "is_action ws wid i r = (in_workflow ws wid r \<and> row_id r = i)"

text \<open>\<open>UPDATE ... WHERE\<close> on the actions and on a workflow.\<close>

definition update_actions :: "(db_action \<Rightarrow> bool) \<Rightarrow> (db_action \<Rightarrow> db_action) \<Rightarrow> graph_db \<Rightarrow> graph_db" where
  "update_actions P f db = db\<lparr>action_table := map (\<lambda>r. if P r then f r else r) (action_table db)\<rparr>"

definition update_workflow :: "uuid \<Rightarrow> uuid \<Rightarrow> (db_workflow \<Rightarrow> db_workflow) \<Rightarrow> graph_db \<Rightarrow> graph_db" where
  "update_workflow ws wid f db =
     db\<lparr>workflow_table := map (\<lambda>w. if wfl_workspace w = ws \<and> wfl_id w = wid then f w else w) (workflow_table db)\<rparr>"

definition find_workflow :: "uuid \<Rightarrow> uuid \<Rightarrow> graph_db \<Rightarrow> db_workflow option" where
  "find_workflow ws wid db = find (\<lambda>w. wfl_workspace w = ws \<and> wfl_id w = wid) (workflow_table db)"

definition workflow_actions :: "uuid \<Rightarrow> uuid \<Rightarrow> graph_db \<Rightarrow> db_action list" where
  "workflow_actions ws wid db = filter (in_workflow ws wid) (action_table db)"

section \<open>Edges\<close>

definition trigger_id :: "uuid \<Rightarrow> string" where
  "trigger_id wid = ''trigger-'' @ uuid_str wid"

datatype edge_key =
  EdgeDedupKey (key_source_id: string) (key_source_type: edge_source) (key_source_handle: "edge_type option")

definition edge_dedup_key :: "string \<Rightarrow> edge_source \<Rightarrow> edge_type option \<Rightarrow> edge_key" where
  "edge_dedup_key sid st sh =
     (case st of
        UDF_SOURCE \<Rightarrow> EdgeDedupKey sid st (Some (case sh of None \<Rightarrow> SUCCESS | Some h \<Rightarrow> h))
      | TRIGGER_SOURCE \<Rightarrow> EdgeDedupKey sid st None)"

definition stored_source_type :: "string \<Rightarrow> pyval option \<Rightarrow> edge_source" where
  "stored_source_type sid v =
     (if v = Some (VStr ''trigger'') then TRIGGER_SOURCE
      else if v = Some (VStr ''udf'') then UDF_SOURCE
      else if starts_with ''trigger-'' sid then TRIGGER_SOURCE else UDF_SOURCE)"

definition stored_source_handle :: "pyval option \<Rightarrow> edge_type option" where
  "stored_source_handle v =
     (if v = Some (VStr ''success'') then Some SUCCESS
      else if v = Some (VStr ''error'') then Some ERROR else None)"

definition stored_edge_dedup_key :: "raw_edge \<Rightarrow> edge_key option" where
  "stored_edge_dedup_key e =
     (case dict_get e ''source_id'' of
        Some (VStr sid) \<Rightarrow>
          Some (edge_dedup_key sid (stored_source_type sid (dict_get e ''source_type''))
            (stored_source_handle (dict_get e ''source_handle'')))
      | _ \<Rightarrow> None)"

definition source_value :: "edge_source \<Rightarrow> string" where
  "source_value st = (case st of TRIGGER_SOURCE \<Rightarrow> ''trigger'' | UDF_SOURCE \<Rightarrow> ''udf'')"

definition new_edge :: "edge_key \<Rightarrow> raw_edge" where
  "new_edge k =
     [(''source_id'', VStr (key_source_id k)), (''source_type'', VStr (source_value (key_source_type k)))] @
     (case key_source_handle k of None \<Rightarrow> [] | Some h \<Rightarrow> [(''source_handle'', VStr (edge_type_value h))])"

section \<open>Operations\<close>

record add_node_payload =
  an_type :: string
  an_title :: string
  an_description :: "string option"
  an_inputs :: "string option"
  an_control_flow :: "(string, pyval) dict option"
  an_position :: "rat \<times> rat"

record update_node_payload =
  un_action_id :: uuid
  un_title :: "string option"
  un_description :: "string option"
  un_inputs :: "string option"
  un_control_flow :: "(string, pyval) dict option"

record edge_payload =
  ep_source_id :: string
  ep_source_type :: edge_source
  ep_target_id :: uuid
  ep_source_handle :: "edge_type option"

datatype graph_op_type =
    ADD_NODE | UPDATE_NODE | DELETE_NODE | ADD_EDGE | DELETE_EDGE
  | MOVE_NODES | UPDATE_TRIGGER_POSITION | UPDATE_VIEWPORT

text \<open>An operation with its payload; the payload may fail to validate as what its type asks for.\<close>

datatype graph_op =
    AddNode add_node_payload
  | UpdateNode update_node_payload
  | DeleteNode uuid
  | AddEdge edge_payload
  | DeleteEdge edge_payload
  | MoveNodes "(string, pyval) dict list"
  | UpdateTriggerPosition rat rat
  | UpdateViewport rat rat rat
  | InvalidPayload graph_op_type

fun op_type :: "graph_op \<Rightarrow> graph_op_type" where
  "op_type (AddNode _) = ADD_NODE"
| "op_type (UpdateNode _) = UPDATE_NODE"
| "op_type (DeleteNode _) = DELETE_NODE"
| "op_type (AddEdge _) = ADD_EDGE"
| "op_type (DeleteEdge _) = DELETE_EDGE"
| "op_type (MoveNodes _) = MOVE_NODES"
| "op_type (UpdateTriggerPosition _ _) = UPDATE_TRIGGER_POSITION"
| "op_type (UpdateViewport _ _ _) = UPDATE_VIEWPORT"
| "op_type (InvalidPayload t) = t"

definition is_structural :: "graph_op \<Rightarrow> bool" where
  "is_structural op \<longleftrightarrow> op_type op \<in> {ADD_NODE, UPDATE_NODE, DELETE_NODE, ADD_EDGE, DELETE_EDGE}"

text \<open>A drawn identifier that exists already violates the unique constraint.\<close>

definition add_node :: "graph_env \<Rightarrow> uuid \<Rightarrow> uuid \<Rightarrow> add_node_payload \<Rightarrow> graph_db \<Rightarrow> exn + graph_db" where
  "add_node env ws wid p db =
     (let i = draw_uuid env (ids_used db) in
      if i \<in> row_id ` set (action_table db) then Inl (ForeignError ''IntegrityError'' '''')
      else Inr (db\<lparr>ids_used := ids_used db + 1, action_table := action_table db @
        [\<lparr>row_id = i, row_workspace = ws, row_workflow = wid, row_type = an_type p, row_title = an_title p,
          row_description = (case an_description p of None \<Rightarrow> '''' | Some d \<Rightarrow> d),
          row_inputs = (case an_inputs p of None \<Rightarrow> '''' | Some s \<Rightarrow> s),
          row_control_flow = (case an_control_flow p of None \<Rightarrow> [] | Some c \<Rightarrow> c),
          row_interaction = None, row_position = an_position p, row_edges = []\<rparr>]\<rparr>))"

definition set_fields :: "update_node_payload \<Rightarrow> db_action \<Rightarrow> db_action" where
  "set_fields p r =
     r\<lparr>row_title := (case un_title p of None \<Rightarrow> row_title r | Some s \<Rightarrow> s),
       row_description := (case un_description p of None \<Rightarrow> row_description r | Some s \<Rightarrow> s),
       row_inputs := (case un_inputs p of None \<Rightarrow> row_inputs r | Some s \<Rightarrow> s),
       row_control_flow := (case un_control_flow p of None \<Rightarrow> row_control_flow r | Some c \<Rightarrow> c)\<rparr>"

definition update_node :: "uuid \<Rightarrow> uuid \<Rightarrow> update_node_payload \<Rightarrow> graph_db \<Rightarrow> graph_db" where
  "update_node ws wid p db = update_actions (is_action ws wid (un_action_id p)) (set_fields p) db"

text \<open>
  The filter of the JSON query: \<open>elem ->> 'source_id' <> :deleted\<close> is not true of an edge whose
  source is missing or null. The text of a value that is not a text is not that of an identifier.
\<close>

definition not_from :: "uuid \<Rightarrow> raw_edge \<Rightarrow> bool" where
  "not_from i e =
     (case dict_get e ''source_id'' of
        None \<Rightarrow> False
      | Some VNone \<Rightarrow> False
      | Some (VStr s) \<Rightarrow> s \<noteq> uuid_str i
      | Some _ \<Rightarrow> True)"

definition delete_node :: "uuid \<Rightarrow> uuid \<Rightarrow> uuid \<Rightarrow> graph_db \<Rightarrow> graph_db" where
  "delete_node ws wid i db =
     (let db1 = update_actions (in_workflow ws wid) (\<lambda>r. r\<lparr>row_edges := filter (not_from i) (row_edges r)\<rparr>) db
      in db1\<lparr>action_table := filter (\<lambda>r. \<not> is_action ws wid i r) (action_table db1)\<rparr>)"

definition check_source :: "graph_env \<Rightarrow> uuid \<Rightarrow> uuid \<Rightarrow> edge_payload \<Rightarrow> graph_db \<Rightarrow> exn + unit" where
  "check_source env ws wid p db =
     (case ep_source_type p of
        UDF_SOURCE \<Rightarrow>
          rbind (read_uuid env (VStr (ep_source_id p))) (\<lambda>i.
            raise_if (\<not> list_ex (is_action ws wid i) (action_table db)) (PyError ValueError))
      | TRIGGER_SOURCE \<Rightarrow> raise_if (ep_source_id p \<noteq> trigger_id wid) (PyError ValueError))"

definition payload_key :: "edge_payload \<Rightarrow> edge_key" where
  "payload_key p = edge_dedup_key (ep_source_id p) (ep_source_type p) (ep_source_handle p)"

definition without_key :: "edge_key \<Rightarrow> raw_edge list \<Rightarrow> raw_edge list" where
  "without_key k es = filter (\<lambda>e. stored_edge_dedup_key e \<noteq> Some k) es"

definition edit_target :: "uuid \<Rightarrow> uuid \<Rightarrow> uuid \<Rightarrow> (raw_edge list \<Rightarrow> raw_edge list) \<Rightarrow> graph_db \<Rightarrow> exn + graph_db" where
  "edit_target ws wid i f db =
     rbind (raise_if (\<not> list_ex (is_action ws wid i) (action_table db)) (PyError ValueError)) (\<lambda>_.
       Inr (update_actions (is_action ws wid i) (\<lambda>r. r\<lparr>row_edges := f (row_edges r)\<rparr>) db))"

definition add_edge :: "graph_env \<Rightarrow> uuid \<Rightarrow> uuid \<Rightarrow> edge_payload \<Rightarrow> graph_db \<Rightarrow> exn + graph_db" where
  "add_edge env ws wid p db =
     rbind (check_source env ws wid p db) (\<lambda>_.
       edit_target ws wid (ep_target_id p)
         (\<lambda>es. without_key (payload_key p) es @ [new_edge (payload_key p)]) db)"

definition delete_edge :: "uuid \<Rightarrow> uuid \<Rightarrow> edge_payload \<Rightarrow> graph_db \<Rightarrow> exn + graph_db" where
  "delete_edge ws wid p db = edit_target ws wid (ep_target_id p) (without_key (payload_key p)) db"

text \<open>A position without one of its three entries, or with a null in one, is passed over.\<close>

definition move_node :: "graph_env \<Rightarrow> uuid \<Rightarrow> uuid \<Rightarrow> (string, pyval) dict \<Rightarrow> graph_db \<Rightarrow> exn + graph_db" where
  "move_node env ws wid pos db =
     (let i = dict_get_default pos ''action_id'' VNone; x = dict_get_default pos ''x'' VNone;
          y = dict_get_default pos ''y'' VNone
      in if i = VNone \<or> x = VNone \<or> y = VNone then Inr db
         else rbind (read_float env x) (\<lambda>x'. rbind (read_float env y) (\<lambda>y'. rbind (read_uuid env i) (\<lambda>i'.
           Inr (update_actions (is_action ws wid i') (\<lambda>r. r\<lparr>row_position := (x', y')\<rparr>) db)))))"

definition apply_operation :: "graph_env \<Rightarrow> uuid \<Rightarrow> uuid \<Rightarrow> graph_op \<Rightarrow> graph_db \<Rightarrow> exn + graph_db" where
  "apply_operation env ws wid op db =
     (case op of
        AddNode p \<Rightarrow> add_node env ws wid p db
      | UpdateNode p \<Rightarrow> Inr (update_node ws wid p db)
      | DeleteNode i \<Rightarrow> Inr (delete_node ws wid i db)
      | AddEdge p \<Rightarrow> add_edge env ws wid p db
      | DeleteEdge p \<Rightarrow> delete_edge ws wid p db
      | MoveNodes ps \<Rightarrow> fold_result (move_node env ws wid) ps db
      | UpdateTriggerPosition x y \<Rightarrow> Inr (update_workflow ws wid (\<lambda>w. w\<lparr>trigger_position := (x, y)\<rparr>) db)
      | UpdateViewport x y z \<Rightarrow> Inr (update_workflow ws wid (\<lambda>w. w\<lparr>viewport := (x, y, z)\<rparr>) db)
      | InvalidPayload t \<Rightarrow> Inl (PyError ValidationError))"

section \<open>The graph as it is answered\<close>

record rf_edge =
  rf_source :: string
  rf_target :: uuid
  rf_handle :: "edge_type option"
  rf_label :: "string option"

record graph_response =
  response_version :: int
  response_trigger :: string
  response_trigger_position :: "rat \<times> rat"
  response_online :: bool
  response_nodes :: "(uuid \<times> string \<times> (rat \<times> rat)) list"
  response_edges :: "rf_edge list"
  response_viewport :: "rat \<times> rat \<times> rat"

definition rf_edge_of :: "uuid \<Rightarrow> raw_edge \<Rightarrow> exn + rf_edge" where
  "rf_edge_of target e =
     (let st = dict_get_default e ''source_type'' (VStr ''udf'') in
      case dict_get e ''source_id'' of
        None \<Rightarrow> Inl (PyError KeyError)
      | Some s \<Rightarrow>
          rbind (if st = VStr ''udf''
                 then (case stored_source_handle (Some (dict_get_default e ''source_handle'' (VStr ''success''))) of
                         None \<Rightarrow> Inl (PyError ValueError) | Some h \<Rightarrow> Inr (Some h))
                 else Inr None) (\<lambda>h.
          case s of
            VStr sid \<Rightarrow> Inr \<lparr>rf_source = sid, rf_target = target, rf_handle = h,
              rf_label = (if st = VStr ''trigger'' then Some ''Trigger'' else None)\<rparr>
          | _ \<Rightarrow> Inl (PyError ValidationError)))"

definition from_actions :: "db_workflow \<Rightarrow> db_action list \<Rightarrow> exn + graph_response" where
  "from_actions w rs =
     rbind (map_result (\<lambda>r. map_result (rf_edge_of (row_id r)) (row_edges r)) rs) (\<lambda>ess. Inr
       \<lparr>response_version = graph_version w, response_trigger = trigger_id (wfl_id w),
        response_trigger_position = trigger_position w, response_online = wfl_online w,
        response_nodes = map (\<lambda>r. (row_id r, row_type r, row_position r)) rs,
        response_edges = concat ess, response_viewport = viewport w\<rparr>)"

section \<open>Requests\<close>

datatype graph_error = VersionConflict graph_response | GraphRaised exn

definition bump_version :: "uuid \<Rightarrow> uuid \<Rightarrow> graph_db \<Rightarrow> graph_db" where
  "bump_version ws wid = update_workflow ws wid (\<lambda>w. w\<lparr>graph_version := graph_version w + 1\<rparr>)"

definition respond :: "uuid \<Rightarrow> uuid \<Rightarrow> graph_db \<Rightarrow> exn + graph_response option" where
  "respond ws wid db =
     (case find_workflow ws wid db of
        None \<Rightarrow> Inr None
      | Some w \<Rightarrow> rbind (from_actions w (workflow_actions ws wid db)) (\<lambda>g. Inr (Some g)))"

definition get_graph :: "uuid \<Rightarrow> uuid \<Rightarrow> graph_db \<Rightarrow> exn + graph_response option" where
  "get_graph ws wid db = respond ws wid db"

text \<open>
  The row of the workflow is locked, so requests for one workflow come one after the other. An
  exception before the commit leaves the database as it was.
\<close>

definition apply_operations ::
    "graph_env \<Rightarrow> uuid \<Rightarrow> uuid \<Rightarrow> int \<Rightarrow> graph_op list \<Rightarrow> graph_db \<Rightarrow>
     (graph_error + graph_response option) \<times> graph_db" where
  "apply_operations env ws wid base_version ops db =
     (case find_workflow ws wid db of
        None \<Rightarrow> (Inr None, db)
      | Some w \<Rightarrow>
          if graph_version w \<noteq> base_version then
            (case from_actions w (workflow_actions ws wid db) of
               Inl e \<Rightarrow> (Inl (GraphRaised e), db)
             | Inr g \<Rightarrow> (Inl (VersionConflict g), db))
          else
            (case fold_result (apply_operation env ws wid) ops db of
               Inl e \<Rightarrow> (Inl (GraphRaised e), db)
             | Inr db1 \<Rightarrow>
                 let db2 = (if list_ex is_structural ops then bump_version ws wid db1 else db1) in
                 (case respond ws wid db2 of
                    Inl e \<Rightarrow> (Inl (GraphRaised e), db2)
                  | Inr g \<Rightarrow> (Inr g, db2))))"

section \<open>Repair\<close>

text \<open>\<open>_reconcile_graph_object_with_actions\<close>: edges from actions that are gone are dropped.\<close>

definition valid_edge :: "uuid \<Rightarrow> uuid list \<Rightarrow> raw_edge \<Rightarrow> bool" where
  "valid_edge wid ids e =
     (let sid = dict_get_default e ''source_id'' (VStr ''''); st = dict_get_default e ''source_type'' (VStr ''udf'') in
      if st = VStr ''trigger'' then sid = VStr (trigger_id wid)
      else if st = VStr ''udf'' then sid \<in> (\<lambda>i. VStr (uuid_str i)) ` set ids
      else False)"

definition reconcile_graph_object_with_actions :: "uuid \<Rightarrow> uuid \<Rightarrow> graph_db \<Rightarrow> bool \<times> graph_db" where
  "reconcile_graph_object_with_actions ws wid db =
     (let rs = workflow_actions ws wid db; ids = map row_id rs;
          changed = list_ex (\<lambda>r. list_ex (\<lambda>e. \<not> valid_edge wid ids e) (row_edges r)) rs
      in (changed, update_actions (in_workflow ws wid)
            (\<lambda>r. r\<lparr>row_edges := filter (valid_edge wid ids) (row_edges r)\<rparr>) db))"

text \<open>\<open>WorkflowActionService.delete_action\<close>, of an action of the workspace.\<close>

definition delete_action :: "uuid \<Rightarrow> db_action \<Rightarrow> graph_db \<Rightarrow> graph_db" where
  "delete_action ws r db = delete_node ws (row_workflow r) (row_id r) db"

end
