(* ===== verification/Graph_Laws.thy ===== *)
theory Graph_Laws
  imports Graph_Edit
begin

text \<open>
  What the edits of a workflow mean. The abstract graph of a workflow is a set of nodes and a set of
  edges, each with the key that tells it apart; an operation changes these sets or is refused. The
  tables implement this as long as every stored edge is one that the service writes, and the service
  writes no other.
\<close>

section \<open>Edges of the service\<close>

definition edge_keys :: "uuid \<Rightarrow> uuid set \<Rightarrow> edge_key set" where
  "edge_keys wid ids = insert (EdgeDedupKey (trigger_id wid) TRIGGER_SOURCE None)
     {EdgeDedupKey (uuid_str i) UDF_SOURCE (Some h) | i h. i \<in> ids}"

lemma edge_keys_mono: "ids \<subseteq> ids' \<Longrightarrow> edge_keys wid ids \<subseteq> edge_keys wid ids'"
  by (auto simp: edge_keys_def)

lemma trigger_id_not_uuid [simp]: "trigger_id wid \<noteq> uuid_str i" "uuid_str i \<noteq> trigger_id wid"
proof -
  have "length (uuid_str i) = 36" for i by (simp add: uuid_str_def Let_def)
  moreover have "length (trigger_id wid) = 44" by (simp add: trigger_id_def uuid_str_def Let_def)
  ultimately have "length (trigger_id wid) \<noteq> length (uuid_str i)" by simp
  then show "trigger_id wid \<noteq> uuid_str i" "uuid_str i \<noteq> trigger_id wid" by metis+
qed

lemma new_edge_source [simp]: "dict_get (new_edge k) ''source_id'' = Some (VStr (key_source_id k))"
  by (simp add: new_edge_def)

lemma new_edge_type [simp]: "dict_get (new_edge k) ''source_type'' = Some (VStr (source_value (key_source_type k)))"
  by (simp add: new_edge_def)

lemma new_edge_handle [simp]:
  "dict_get (new_edge k) ''source_handle'' = map_option (VStr \<circ> edge_type_value) (key_source_handle k)"
  by (simp add: new_edge_def split: option.split)

lemma stored_source_handle_value [simp]: "stored_source_handle (Some (VStr (edge_type_value h))) = Some h"
  by (cases h) (simp_all add: stored_source_handle_def)

lemma stored_key_new_edge: "k \<in> edge_keys wid ids \<Longrightarrow> stored_edge_dedup_key (new_edge k) = Some k"
  by (auto simp: edge_keys_def stored_edge_dedup_key_def edge_dedup_key_def stored_source_type_def source_value_def)

lemma without_key_new_edges:
  assumes "set ks \<subseteq> edge_keys wid ids"
  shows "without_key k (map new_edge ks) = map new_edge (filter (\<lambda>l. l \<noteq> k) ks)"
  using assms by (induction ks) (auto simp: without_key_def stored_key_new_edge)

lemma not_from_new_edge [simp]: "not_from i (new_edge k) \<longleftrightarrow> key_source_id k \<noteq> uuid_str i"
  by (simp add: not_from_def)

section \<open>The invariant\<close>

definition node_ids :: "uuid \<Rightarrow> uuid \<Rightarrow> graph_db \<Rightarrow> uuid set" where
  "node_ids ws wid db = row_id ` set (workflow_actions ws wid db)"

definition row_ok :: "uuid set \<Rightarrow> db_action \<Rightarrow> bool" where
  "row_ok ids r = (\<exists>ks. row_edges r = map new_edge ks \<and> distinct ks \<and> set ks \<subseteq> edge_keys (row_workflow r) ids)"

definition graph_ok :: "graph_db \<Rightarrow> bool" where
  "graph_ok db \<longleftrightarrow> distinct (map row_id (action_table db)) \<and>
     (\<forall>r \<in> set (action_table db). row_ok (node_ids (row_workspace r) (row_workflow r) db) r)"

definition keeps_place :: "(db_action \<Rightarrow> db_action) \<Rightarrow> bool" where
  "keeps_place f = (\<forall>r. row_id (f r) = row_id r \<and> row_workspace (f r) = row_workspace r \<and>
     row_workflow (f r) = row_workflow r)"

lemma keeps_place_simps:
  assumes "keeps_place f"
  shows "row_id (f r) = row_id r" "in_workflow ws wid (f r) = in_workflow ws wid r" "is_action ws wid i (f r) = is_action ws wid i r"
    "row_workspace (f r) = row_workspace r" "row_workflow (f r) = row_workflow r"
  using assms by (simp_all add: keeps_place_def in_workflow_def is_action_def)

lemma keeps_place_intros [simp]:
  "keeps_place (set_fields p)" "keeps_place (\<lambda>r. r\<lparr>row_edges := g r\<rparr>)" "keeps_place (\<lambda>r. r\<lparr>row_position := xy\<rparr>)"
  by (simp_all add: keeps_place_def set_fields_def)

lemma workflow_actions_update:
  "keeps_place f \<Longrightarrow>
     workflow_actions ws wid (update_actions P f db) = map (\<lambda>r. if P r then f r else r) (workflow_actions ws wid db)"
  by (simp add: workflow_actions_def update_actions_def filter_map comp_def keeps_place_simps if_distrib cong: if_cong)

lemma row_ids_updated [simp]: "keeps_place f \<Longrightarrow> map (row_id \<circ> (\<lambda>r. if P r then f r else r)) rs = map row_id rs"
  by (simp add: keeps_place_simps)

lemma node_ids_update [simp]: "keeps_place f \<Longrightarrow> node_ids ws wid (update_actions P f db) = node_ids ws wid db"
  by (simp add: node_ids_def workflow_actions_update keeps_place_simps flip: set_map)

lemma graph_ok_update:
  assumes "graph_ok db" "keeps_place f"
    and "\<And>r. r \<in> set (action_table db) \<Longrightarrow> P r \<Longrightarrow> row_ok (node_ids (row_workspace r) (row_workflow r) db) r \<Longrightarrow>
      row_ok (node_ids (row_workspace r) (row_workflow r) db) (f r)"
  shows "graph_ok (update_actions P f db)"
proof -
  have ids: "map row_id (action_table (update_actions P f db)) = map row_id (action_table db)"
    using assms(2) by (simp add: update_actions_def keeps_place_simps)
  have rows: "set (action_table (update_actions P f db)) = (\<lambda>r. if P r then f r else r) ` set (action_table db)"
    by (simp add: update_actions_def)
  show ?thesis
    unfolding graph_ok_def ids rows using assms(1,3)
    by (auto simp: graph_ok_def keeps_place_simps [OF assms(2)] assms(2))
qed

lemma node_idsI: "r \<in> set (action_table db) \<Longrightarrow> row_id r \<in> node_ids (row_workspace r) (row_workflow r) db"
  by (auto simp: node_ids_def workflow_actions_def in_workflow_def)

lemma list_ex_is_action: "list_ex (is_action ws wid i) (action_table db) \<longleftrightarrow> i \<in> node_ids ws wid db"
  by (auto simp: list_ex_iff is_action_def node_ids_def workflow_actions_def)

section \<open>The abstract graph\<close>

record agraph =
  g_nodes :: "uuid set"
  g_edges :: "(edge_key \<times> uuid) set"
  g_taken :: "uuid set"
  g_draws :: nat

definition graph_of :: "uuid \<Rightarrow> uuid \<Rightarrow> graph_db \<Rightarrow> agraph" where
  "graph_of ws wid db =
     \<lparr>g_nodes = node_ids ws wid db,
      g_edges = {(k, row_id r) | k r. r \<in> set (workflow_actions ws wid db) \<and> new_edge k \<in> set (row_edges r)},
      g_taken = row_id ` set (action_table db), g_draws = ids_used db\<rparr>"

lemma edges_iff: "(k, t) \<in> g_edges (graph_of ws wid db) \<longleftrightarrow>
    (\<exists>r \<in> set (workflow_actions ws wid db). row_id r = t \<and> new_edge k \<in> set (row_edges r))"
  by (auto simp: graph_of_def)

definition has_source :: "uuid \<Rightarrow> edge_payload \<Rightarrow> uuid set \<Rightarrow> bool" where
  "has_source wid p ids =
     (case ep_source_type p of
        TRIGGER_SOURCE \<Rightarrow> ep_source_id p = trigger_id wid
      | UDF_SOURCE \<Rightarrow> ep_source_id p \<in> uuid_str ` ids)"

definition moves_ok :: "graph_env \<Rightarrow> (string, pyval) dict list \<Rightarrow> bool" where
  "moves_ok env ps = list_all (\<lambda>pos.
     let i = dict_get_default pos ''action_id'' VNone; x = dict_get_default pos ''x'' VNone;
         y = dict_get_default pos ''y'' VNone
     in i = VNone \<or> x = VNone \<or> y = VNone \<or>
        \<not> isl (read_float env x) \<and> \<not> isl (read_float env y) \<and> \<not> isl (read_uuid env i)) ps"

fun edit_graph :: "graph_env \<Rightarrow> uuid \<Rightarrow> graph_op \<Rightarrow> agraph \<Rightarrow> agraph option" where
  "edit_graph env wid (AddNode p) g =
     (let i = draw_uuid env (g_draws g) in
      if i \<in> g_taken g then None
      else Some (g\<lparr>g_nodes := insert i (g_nodes g), g_taken := insert i (g_taken g), g_draws := g_draws g + 1\<rparr>))"
| "edit_graph env wid (DeleteNode i) g =
     Some (if i \<in> g_nodes g
       then g\<lparr>g_nodes := g_nodes g - {i}, g_edges := {(k, t) \<in> g_edges g. t \<noteq> i \<and> key_source_id k \<noteq> uuid_str i},
         g_taken := g_taken g - {i}\<rparr>
       else g)"
| "edit_graph env wid (AddEdge p) g =
     (if has_source wid p (g_nodes g) \<and> ep_target_id p \<in> g_nodes g
      then Some (g\<lparr>g_edges := insert (payload_key p, ep_target_id p) (g_edges g)\<rparr>) else None)"
| "edit_graph env wid (DeleteEdge p) g =
     (if ep_target_id p \<in> g_nodes g
      then Some (g\<lparr>g_edges := g_edges g - {(payload_key p, ep_target_id p)}\<rparr>) else None)"
| "edit_graph env wid (MoveNodes ps) g = (if moves_ok env ps then Some g else None)"
| "edit_graph env wid (InvalidPayload t) g = None"
| "edit_graph env wid (UpdateNode p) g = Some g"
| "edit_graph env wid (UpdateTriggerPosition x y) g = Some g"
| "edit_graph env wid (UpdateViewport x y z) g = Some g"

section \<open>Simulation\<close>

text \<open>
  A partial function on states implements a partial function on abstract states: it raises exactly
  where the other is undefined, and what it returns is related to what the other gives. The
  relation \<open>keeps\<close> says what it leaves alone. Then so do sequences.
\<close>

fun fold_option :: "('op \<Rightarrow> 'a \<Rightarrow> 'a option) \<Rightarrow> 'op list \<Rightarrow> 'a \<Rightarrow> 'a option" where
  "fold_option f [] a = Some a"
| "fold_option f (op # ops) a = Option.bind (f op a) (fold_option f ops)"

locale simulation =
  fixes run :: "'op \<Rightarrow> 's \<Rightarrow> 'e + 's" and spec :: "'op \<Rightarrow> 'a \<Rightarrow> 'a option" and view :: "'s \<Rightarrow> 'a"
    and inv :: "'s \<Rightarrow> bool" and legal :: "'op \<Rightarrow> bool" and keeps :: "'s \<Rightarrow> 's \<Rightarrow> bool"
  assumes keeps_refl: "keeps s s" and keeps_trans: "keeps s t \<Longrightarrow> keeps t u \<Longrightarrow> keeps s u"
    and refuses: "inv s \<Longrightarrow> legal op \<Longrightarrow> run op s = Inl e \<Longrightarrow> spec op (view s) = None"
    and agrees: "inv s \<Longrightarrow> legal op \<Longrightarrow> run op s = Inr t \<Longrightarrow> spec op (view s) = Some (view t) \<and> inv t \<and> keeps s t"
begin

lemma all_refuse: "inv s \<Longrightarrow> list_all legal ops \<Longrightarrow> fold_result run ops s = Inl e \<Longrightarrow> fold_option spec ops (view s) = None"
proof (induction ops arbitrary: s)
  case (Cons op ops)
  then show ?case using refuses agrees by (cases "run op s") auto
qed simp

lemma all_agree:
  "inv s \<Longrightarrow> list_all legal ops \<Longrightarrow> fold_result run ops s = Inr t \<Longrightarrow>
     fold_option spec ops (view s) = Some (view t) \<and> inv t \<and> keeps s t"
proof (induction ops arbitrary: s)
  case (Cons op ops)
  then obtain u where u: "run op s = Inr u" "fold_result run ops u = Inr t" by (auto simp: rbind_Inr_iff)
  with Cons agrees [of s op u] show ?case by (auto intro: keeps_trans)
qed (simp add: keeps_refl)

end

section \<open>Operations\<close>

definition others_untouched :: "uuid \<Rightarrow> uuid \<Rightarrow> graph_db \<Rightarrow> graph_db \<Rightarrow> bool" where
  "others_untouched ws wid db db' \<longleftrightarrow>
     filter (\<lambda>r. \<not> in_workflow ws wid r) (action_table db') = filter (\<lambda>r. \<not> in_workflow ws wid r) (action_table db) \<and>
     filter (\<lambda>w. \<not> (wfl_workspace w = ws \<and> wfl_id w = wid)) (workflow_table db') =
       filter (\<lambda>w. \<not> (wfl_workspace w = ws \<and> wfl_id w = wid)) (workflow_table db)"

definition version_of :: "uuid \<Rightarrow> uuid \<Rightarrow> graph_db \<Rightarrow> int option" where
  "version_of ws wid db = map_option graph_version (find_workflow ws wid db)"

definition elsewhere :: "uuid \<Rightarrow> uuid \<Rightarrow> graph_db \<Rightarrow> graph_db \<Rightarrow> bool" where
  "elsewhere ws wid db db' \<longleftrightarrow> others_untouched ws wid db db' \<and> version_of ws wid db' = version_of ws wid db"

lemmas elsewhere_defs = elsewhere_def others_untouched_def version_of_def

lemma elsewhere_refl: "elsewhere ws wid db db"
  by (simp add: elsewhere_defs)

lemma elsewhere_trans: "elsewhere ws wid s t \<Longrightarrow> elsewhere ws wid t u \<Longrightarrow> elsewhere ws wid s u"
  by (simp add: elsewhere_defs)

lemma elsewhere_update:
  assumes "keeps_place f" and "\<And>r. P r \<Longrightarrow> in_workflow ws wid r"
  shows "elsewhere ws wid db (update_actions P f db)"
proof -
  have "filter (\<lambda>r. \<not> in_workflow ws wid r) (map (\<lambda>r. if P r then f r else r) rs) = filter (\<lambda>r. \<not> in_workflow ws wid r) rs" for rs
    using assms by (induction rs) (auto simp: keeps_place_simps)
  then show ?thesis by (simp add: elsewhere_defs update_actions_def find_workflow_def)
qed

lemma elsewhere_workflow:
  assumes "\<And>w. graph_version (f w) = graph_version w" "\<And>w. wfl_workspace (f w) = wfl_workspace w" "\<And>w. wfl_id (f w) = wfl_id w"
  shows "elsewhere ws wid db (update_workflow ws wid f db)"
proof -
  have "filter (\<lambda>w. \<not> (wfl_workspace w = ws \<and> wfl_id w = wid)) (map (\<lambda>w. if wfl_workspace w = ws \<and> wfl_id w = wid then f w else w) us) =
      filter (\<lambda>w. \<not> (wfl_workspace w = ws \<and> wfl_id w = wid)) us" for us
    using assms by (induction us) auto
  moreover have "map_option graph_version (find (\<lambda>w. wfl_workspace w = ws \<and> wfl_id w = wid)
      (map (\<lambda>w. if wfl_workspace w = ws \<and> wfl_id w = wid then f w else w) us)) =
      map_option graph_version (find (\<lambda>w. wfl_workspace w = ws \<and> wfl_id w = wid) us)" for us
    using assms by (induction us) auto
  ultimately show ?thesis by (simp add: elsewhere_defs update_workflow_def find_workflow_def)
qed

text \<open>The keys of the edges of an action.\<close>

lemma row_keys:
  assumes "graph_ok db" "r \<in> set (workflow_actions ws wid db)"
  obtains ks where "row_edges r = map new_edge ks" "distinct ks" "set ks \<subseteq> edge_keys wid (node_ids ws wid db)"
  using assms by (auto simp: graph_ok_def row_ok_def workflow_actions_def in_workflow_def)

lemma new_edge_inject: "new_edge k = new_edge l \<longleftrightarrow> k = l"
proof
  assume eq: "new_edge k = new_edge l"
  have st: "source_value a = source_value b \<longleftrightarrow> a = b" for a b by (cases a; cases b) (simp_all add: source_value_def)
  have "inj (VStr \<circ> edge_type_value)"
  proof (rule injI)
    fix a b assume "(VStr \<circ> edge_type_value) a = (VStr \<circ> edge_type_value) b"
    then show "a = b" by (cases a; cases b) simp_all
  qed
  from injD [OF option.inj_map [OF this]] have "key_source_handle k = key_source_handle l"
    using new_edge_handle [of k] new_edge_handle [of l] eq by simp
  moreover have "key_source_id k = key_source_id l"
    by (metis eq new_edge_source option.inject pyval.inject(4))
  moreover have "key_source_type k = key_source_type l"
    by (metis eq new_edge_type option.inject pyval.inject(4) st)
  ultimately show "k = l" by (simp add: edge_key.expand)
qed simp

lemma new_edge_in_map [simp]: "new_edge k \<in> new_edge ` set ks \<longleftrightarrow> k \<in> set ks"
  by (auto simp: new_edge_inject)

text \<open>Changes of the edges of one action.\<close>

definition edges_at :: "uuid \<Rightarrow> uuid \<Rightarrow> graph_db \<Rightarrow> uuid \<Rightarrow> edge_key set" where
  "edges_at ws wid db t = {k. (k, t) \<in> g_edges (graph_of ws wid db)}"

lemma row_unique:
  assumes "graph_ok db" "r \<in> set (action_table db)" "s \<in> set (action_table db)" "row_id r = row_id s"
  shows "r = s"
  using assms by (auto simp: graph_ok_def distinct_map inj_on_def)

lemma graph_of_edit:
  assumes ok: "graph_ok db"
    and f: "\<And>ks. set ks \<subseteq> edge_keys wid (node_ids ws wid db) \<Longrightarrow> f (map new_edge ks) = map new_edge (g ks)"
    and g: "\<And>ks. distinct ks \<Longrightarrow> set ks \<subseteq> edge_keys wid (node_ids ws wid db) \<Longrightarrow>
      distinct (g ks) \<and> set (g ks) = G (set ks) \<and> set (g ks) \<subseteq> edge_keys wid (node_ids ws wid db)"
    and i: "i \<in> node_ids ws wid db"
  defines "db' \<equiv> update_actions (is_action ws wid i) (\<lambda>r. r\<lparr>row_edges := f (row_edges r)\<rparr>) db"
  shows "graph_ok db'" "elsewhere ws wid db db'"
    "graph_of ws wid db' = (graph_of ws wid db)\<lparr>g_edges :=
       {(k, t) \<in> g_edges (graph_of ws wid db). t \<noteq> i} \<union> {(k, i) | k. k \<in> G (edges_at ws wid db i)}\<rparr>"
proof -
  let ?f = "\<lambda>r. r\<lparr>row_edges := f (row_edges r)\<rparr>"
  have row: "\<exists>ks. row_edges r = map new_edge ks \<and> distinct ks \<and> set ks \<subseteq> edge_keys wid (node_ids ws wid db) \<and>
      row_edges (?f r) = map new_edge (g ks) \<and> set (g ks) = G (set ks) \<and> distinct (g ks) \<and>
      set (g ks) \<subseteq> edge_keys wid (node_ids ws wid db)"
    if "r \<in> set (action_table db)" "is_action ws wid i r" for r
  proof -
    from that have "r \<in> set (workflow_actions ws wid db)" by (simp add: workflow_actions_def is_action_def)
    then obtain ks where "row_edges r = map new_edge ks" "distinct ks" "set ks \<subseteq> edge_keys wid (node_ids ws wid db)"
      by (rule row_keys [OF ok])
    with f [of ks] g [of ks] show ?thesis by auto
  qed
  show "graph_ok db'"
    unfolding db'_def
  proof (rule graph_ok_update [OF ok])
    fix r assume r: "r \<in> set (action_table db)" "is_action ws wid i r"
    from row [OF r] r(2) show "row_ok (node_ids (row_workspace r) (row_workflow r) db) (?f r)"
      by (auto simp: row_ok_def is_action_def in_workflow_def)
  qed simp
  show "elsewhere ws wid db db'"
    unfolding db'_def by (rule elsewhere_update) (simp_all add: is_action_def)
  obtain r0 where r0: "r0 \<in> set (action_table db)" "is_action ws wid i r0"
    using i by (auto simp: node_ids_def workflow_actions_def is_action_def)
  have only: "r = r0" if "r \<in> set (action_table db)" "is_action ws wid i r" for r
    using row_unique [OF ok that(1) r0(1)] that(2) r0(2) by (simp add: is_action_def)
  obtain ks where ks: "row_edges r0 = map new_edge ks" "row_edges (?f r0) = map new_edge (g ks)" "set (g ks) = G (set ks)"
    using row [OF r0] by blast
  have single: "r \<in> set (workflow_actions ws wid db) \<and> row_id r = i \<longleftrightarrow> r = r0" for r
    using r0 only [of r] by (auto simp: workflow_actions_def is_action_def)
  then have at: "edges_at ws wid db i = set ks"
    using ks(1) by (auto simp: edges_at_def edges_iff Bex_def conj_assoc [symmetric])
  have here: "is_action ws wid i r \<longleftrightarrow> row_id r = i" if "r \<in> set (workflow_actions ws wid db)" for r
    using that by (simp add: is_action_def workflow_actions_def)
  have "set (workflow_actions ws wid db') = (\<lambda>r. if row_id r = i then ?f r else r) ` set (workflow_actions ws wid db)"
    unfolding db'_def workflow_actions_update [OF keeps_place_intros(2)] set_map
    using here by (intro image_cong) simp_all
  then have step: "(k, t) \<in> g_edges (graph_of ws wid db') \<longleftrightarrow> (\<exists>r \<in> set (workflow_actions ws wid db). row_id r = t \<and>
      new_edge k \<in> set (row_edges (if row_id r = i then ?f r else r)))" for k t
    unfolding edges_iff by (simp only: bex_simps) (rule bex_cong, simp_all)
  have "(k, t) \<in> g_edges (graph_of ws wid db') \<longleftrightarrow>
      (k, t) \<in> {(k, t) \<in> g_edges (graph_of ws wid db). t \<noteq> i} \<union> {(k, i) | k. k \<in> set (g ks)}" for k t
  proof (cases "t = i")
    case True
    with single show ?thesis unfolding step using ks(2) by (auto simp: Bex_def conj_assoc [symmetric])
  next
    case False
    then show ?thesis unfolding step by (auto simp: edges_iff)
  qed
  then have "g_edges (graph_of ws wid db') =
      {(k, t) \<in> g_edges (graph_of ws wid db). t \<noteq> i} \<union> {(k, i) | k. k \<in> set (g ks)}"
    by (intro equalityI subrelI) blast+
  moreover have "row_id ` set (action_table db') = row_id ` set (action_table db)" "ids_used db' = ids_used db"
    by (auto simp: db'_def update_actions_def simp flip: set_map)
  ultimately show "graph_of ws wid db' = (graph_of ws wid db)\<lparr>g_edges :=
       {(k, t) \<in> g_edges (graph_of ws wid db). t \<noteq> i} \<union> {(k, i) | k. k \<in> G (edges_at ws wid db i)}\<rparr>"
    by (simp add: at ks(3) graph_of_def db'_def)
qed

end
