(* ===== verification/Graph_Refine.thy ===== *)
theory Graph_Refine
  imports Graph_Laws
begin

text \<open>
  Each operation of the graph service implements its operation on the abstract graph. Identifiers of
  sources come as texts; the driver reads the canonical text of an identifier, and a request is
  canonical if it uses no other text that the driver reads.
\<close>

definition reads_ids :: "graph_env \<Rightarrow> bool" where
  "reads_ids env = (\<forall>i. read_uuid env (VStr (uuid_str i)) = Inr i)"

fun canonical :: "graph_env \<Rightarrow> graph_op \<Rightarrow> bool" where
  "canonical env (AddEdge p) = (ep_source_type p = UDF_SOURCE \<longrightarrow>
     (case read_uuid env (VStr (ep_source_id p)) of Inl _ \<Rightarrow> True | Inr i \<Rightarrow> ep_source_id p = uuid_str i))"
| "canonical env op = True"

section \<open>Edges\<close>

lemma check_source_iff:
  assumes "reads_ids env" "canonical env (AddEdge p)"
  shows "check_source env ws wid p db = Inr u \<longleftrightarrow> has_source wid p (node_ids ws wid db)"
proof (cases "ep_source_type p")
  case UDF_SOURCE
  show ?thesis
  proof (cases "read_uuid env (VStr (ep_source_id p))")
    case (Inl e)
    with assms(1) have "ep_source_id p \<noteq> uuid_str i" for i by (auto simp: reads_ids_def)
    with Inl UDF_SOURCE show ?thesis by (auto simp: check_source_def has_source_def)
  next
    case (Inr i)
    with assms(2) UDF_SOURCE have "ep_source_id p = uuid_str i" by simp
    with Inr UDF_SOURCE show ?thesis
      by (auto simp: check_source_def has_source_def raise_if_Inr list_ex_is_action)
  qed
qed (auto simp: check_source_def has_source_def raise_if_Inr)

lemma payload_key_valid: "has_source wid p ids \<Longrightarrow> payload_key p \<in> edge_keys wid ids"
  by (auto simp: has_source_def payload_key_def edge_dedup_key_def edge_keys_def split: edge_source.splits option.splits)

lemma edit_target_result:
  "edit_target ws wid i f db =
     (if i \<in> node_ids ws wid db
      then Inr (update_actions (is_action ws wid i) (\<lambda>r. r\<lparr>row_edges := f (row_edges r)\<rparr>) db)
      else Inl (PyError ValueError))"
  by (simp add: edit_target_def raise_if_def list_ex_is_action)

lemma add_edge_agrees:
  assumes ok: "graph_ok db" and lib: "reads_ids env" "canonical env (AddEdge p)" and run: "add_edge env ws wid p db = Inr db'"
  shows "edit_graph env wid (AddEdge p) (graph_of ws wid db) = Some (graph_of ws wid db') \<and> graph_ok db' \<and> elsewhere ws wid db db'"
proof -
  let ?k = "payload_key p" and ?i = "ep_target_id p" and ?ids = "node_ids ws wid db"
  let ?f = "\<lambda>es. without_key ?k es @ [new_edge ?k]" and ?g = "\<lambda>ks. filter (\<lambda>l. l \<noteq> ?k) ks @ [?k]"
  from run have src: "has_source wid p ?ids" and i: "?i \<in> ?ids"
    and db': "db' = update_actions (is_action ws wid ?i) (\<lambda>r. r\<lparr>row_edges := ?f (row_edges r)\<rparr>) db"
    by (auto simp: add_edge_def rbind_Inr_iff check_source_iff [OF lib] edit_target_result split: if_splits)
  have f: "?f (map new_edge ks) = map new_edge (?g ks)" if "set ks \<subseteq> edge_keys wid ?ids" for ks
    by (simp add: without_key_new_edges [OF that])
  have g: "distinct (?g ks) \<and> set (?g ks) = insert ?k (set ks) \<and> set (?g ks) \<subseteq> edge_keys wid ?ids"
    if "distinct ks" "set ks \<subseteq> edge_keys wid ?ids" for ks
    using that payload_key_valid [OF src] by auto
  note edit = graph_of_edit [where f = ?f and g = ?g and G = "insert ?k", OF ok f g i, folded db']
  have "{(k, t) \<in> g_edges (graph_of ws wid db). t \<noteq> ?i} \<union> {(k, ?i) | k. k \<in> insert ?k (edges_at ws wid db ?i)} =
      insert (?k, ?i) (g_edges (graph_of ws wid db))" by (auto simp: edges_at_def)
  with edit src i show ?thesis by (simp add: graph_of_def)
qed

lemma delete_edge_agrees:
  assumes ok: "graph_ok db" and run: "delete_edge ws wid p db = Inr db'"
  shows "edit_graph env wid (DeleteEdge p) (graph_of ws wid db) = Some (graph_of ws wid db') \<and> graph_ok db' \<and> elsewhere ws wid db db'"
proof -
  let ?k = "payload_key p" and ?i = "ep_target_id p" and ?ids = "node_ids ws wid db"
  let ?g = "filter (\<lambda>l. l \<noteq> ?k)"
  from run have i: "?i \<in> ?ids"
    and db': "db' = update_actions (is_action ws wid ?i) (\<lambda>r. r\<lparr>row_edges := without_key ?k (row_edges r)\<rparr>) db"
    by (auto simp: delete_edge_def edit_target_result split: if_splits)
  have g: "distinct (?g ks) \<and> set (?g ks) = set ks - {?k} \<and> set (?g ks) \<subseteq> edge_keys wid ?ids"
    if "distinct ks" "set ks \<subseteq> edge_keys wid ?ids" for ks
    using that by auto
  note edit = graph_of_edit [where G = "\<lambda>S. S - {?k}", OF ok without_key_new_edges g i, folded db']
  have "{(k, t) \<in> g_edges (graph_of ws wid db). t \<noteq> ?i} \<union> {(k, ?i) | k. k \<in> edges_at ws wid db ?i - {?k}} =
      g_edges (graph_of ws wid db) - {(?k, ?i)}" by (auto simp: edges_at_def)
  with edit i show ?thesis by (simp add: graph_of_def)
qed

section \<open>Nodes\<close>

lemma place_of_edges_update [simp]:
  "in_workflow ws wid (r\<lparr>row_edges := es\<rparr>) = in_workflow ws wid r"
  "is_action ws wid i (r\<lparr>row_edges := es\<rparr>) = is_action ws wid i r"
  by (simp_all add: in_workflow_def is_action_def)

lemma row_ok_mono: "row_ok ids r \<Longrightarrow> ids \<subseteq> ids' \<Longrightarrow> row_ok ids' r"
  unfolding row_ok_def by (meson edge_keys_mono order_trans)

lemma node_ids_append:
  "action_table db' = action_table db @ [r] \<Longrightarrow>
     node_ids ws wid db' = (if in_workflow ws wid r then insert (row_id r) (node_ids ws wid db) else node_ids ws wid db)"
  by (simp add: node_ids_def workflow_actions_def)

lemma add_node_agrees:
  assumes ok: "graph_ok db" and run: "add_node env ws wid p db = Inr db'"
  shows "edit_graph env wid (AddNode p) (graph_of ws wid db) = Some (graph_of ws wid db') \<and> graph_ok db' \<and> elsewhere ws wid db db'"
proof -
  let ?i = "draw_uuid env (ids_used db)"
  obtain r where fresh: "?i \<notin> row_id ` set (action_table db)"
    and db': "db' = db\<lparr>ids_used := ids_used db + 1, action_table := action_table db @ [r]\<rparr>"
    and r: "row_id r = ?i" "row_workspace r = ws" "row_workflow r = wid" "row_edges r = []"
    using run by (simp add: add_node_def Let_def split: if_splits) (metis db_action.select_convs(1,2,3,11))
  have table: "action_table db' = action_table db @ [r]" by (simp add: db')
  have here: "in_workflow ws wid r" using r by (simp add: in_workflow_def)
  have grow: "node_ids ws' wid' db \<subseteq> node_ids ws' wid' db'" for ws' wid'
    using node_ids_append [OF table] by auto
  have "row_ok (node_ids (row_workspace a) (row_workflow a) db') a" if "a \<in> set (action_table db')" for a
  proof (cases "a = r")
    case True
    then show ?thesis using r(4) by (auto simp: row_ok_def)
  next
    case False
    with that ok have "row_ok (node_ids (row_workspace a) (row_workflow a) db) a" by (auto simp: graph_ok_def table)
    with grow show ?thesis by (rule row_ok_mono [rotated])
  qed
  moreover have "distinct (map row_id (action_table db'))" using ok fresh r(1) by (simp add: graph_ok_def table)
  ultimately have "graph_ok db'" by (simp add: graph_ok_def)
  moreover have "elsewhere ws wid db db'" using here by (simp add: elsewhere_defs db' find_workflow_def)
  moreover have "node_ids ws wid db' = insert ?i (node_ids ws wid db)"
    by (simp add: node_ids_append [OF table] here r(1))
  moreover have "g_edges (graph_of ws wid db') = g_edges (graph_of ws wid db)"
    using r(4) by (auto simp: graph_of_def workflow_actions_def table)
  ultimately have "graph_ok db'" "elsewhere ws wid db db'"
    "graph_of ws wid db' = (graph_of ws wid db)\<lparr>g_nodes := insert ?i (node_ids ws wid db),
      g_taken := insert ?i (row_id ` set (action_table db)), g_draws := ids_used db + 1\<rparr>"
    by (simp_all add: graph_of_def table r(1)) (simp add: db')
  then show ?thesis using fresh by (simp add: graph_of_def Let_def)
qed

lemma delete_node_elsewhere: "elsewhere ws wid db (delete_node ws wid i db)"
proof -
  have "filter (\<lambda>r. \<not> in_workflow ws wid r) (filter (\<lambda>r. \<not> is_action ws wid i r)
      (map (\<lambda>r. if in_workflow ws wid r then r\<lparr>row_edges := filter (not_from i) (row_edges r)\<rparr> else r) rs)) =
      filter (\<lambda>r. \<not> in_workflow ws wid r) rs" for rs
    by (induction rs) (auto simp: is_action_def)
  then show ?thesis
    by (simp add: elsewhere_defs delete_node_def Let_def update_actions_def find_workflow_def)
qed

lemma delete_node_rows:
  "workflow_actions ws wid (delete_node ws wid i db) =
     map (\<lambda>r. r\<lparr>row_edges := filter (not_from i) (row_edges r)\<rparr>) (filter (\<lambda>r. row_id r \<noteq> i) (workflow_actions ws wid db))"
  "\<not> in_workflow ws wid r \<Longrightarrow>
     r \<in> set (action_table (delete_node ws wid i db)) \<longleftrightarrow> r \<in> set (action_table db)"
proof -
  have "filter (in_workflow ws wid) (filter (\<lambda>r. \<not> is_action ws wid i r)
      (map (\<lambda>r. if in_workflow ws wid r then r\<lparr>row_edges := filter (not_from i) (row_edges r)\<rparr> else r) rs)) =
      map (\<lambda>r. r\<lparr>row_edges := filter (not_from i) (row_edges r)\<rparr>) (filter (\<lambda>r. row_id r \<noteq> i) (filter (in_workflow ws wid) rs))" for rs
    by (induction rs) (auto simp: is_action_def)
  then show "workflow_actions ws wid (delete_node ws wid i db) =
     map (\<lambda>r. r\<lparr>row_edges := filter (not_from i) (row_edges r)\<rparr>) (filter (\<lambda>r. row_id r \<noteq> i) (workflow_actions ws wid db))"
    by (simp add: workflow_actions_def delete_node_def Let_def update_actions_def)
  show "r \<in> set (action_table (delete_node ws wid i db)) \<longleftrightarrow> r \<in> set (action_table db)" if "\<not> in_workflow ws wid r"
    using that delete_node_elsewhere [of ws wid db i] unfolding elsewhere_defs
    by (metis (no_types, lifting) mem_Collect_eq set_filter)
qed

lemma graph_edge_parts:
  assumes "graph_ok db" "(k, t) \<in> g_edges (graph_of ws wid db)"
  shows "k \<in> edge_keys wid (node_ids ws wid db)" "t \<in> node_ids ws wid db"
proof -
  obtain r where r: "r \<in> set (workflow_actions ws wid db)" "row_id r = t" "new_edge k \<in> set (row_edges r)"
    using assms(2) by (auto simp: edges_iff)
  then show "t \<in> node_ids ws wid db" by (auto simp: node_ids_def)
  obtain ks where "row_edges r = map new_edge ks" "set ks \<subseteq> edge_keys wid (node_ids ws wid db)"
    using row_keys [OF assms(1) r(1)] by metis
  with r(3) show "k \<in> edge_keys wid (node_ids ws wid db)" by auto
qed

lemma edge_keys_without: "k \<in> edge_keys wid ids \<Longrightarrow> key_source_id k \<noteq> uuid_str i \<Longrightarrow> k \<in> edge_keys wid (ids - {i})"
  by (auto simp: edge_keys_def)

lemma delete_node_node_ids:
  "node_ids ws wid (delete_node ws wid i db) = node_ids ws wid db - {i}"
  "\<not> (ws' = ws \<and> wid' = wid) \<Longrightarrow> node_ids ws' wid' (delete_node ws wid i db) = node_ids ws' wid' db"
proof -
  show "node_ids ws wid (delete_node ws wid i db) = node_ids ws wid db - {i}"
    by (force simp: node_ids_def delete_node_rows(1) image_image)
  assume "\<not> (ws' = ws \<and> wid' = wid)"
  then have "\<not> in_workflow ws wid r" if "in_workflow ws' wid' r" for r using that by (auto simp: in_workflow_def)
  then show "node_ids ws' wid' (delete_node ws wid i db) = node_ids ws' wid' db"
    using delete_node_rows(2) [of ws wid _ i db] by (auto simp: node_ids_def workflow_actions_def)
qed

lemma delete_node_row_ids:
  "map row_id (action_table (delete_node ws wid i db)) = map row_id (filter (\<lambda>r. \<not> is_action ws wid i r) (action_table db))"
  by (simp add: delete_node_def Let_def update_actions_def filter_map comp_def if_distrib cong: if_cong)

lemma delete_node_ok:
  assumes "graph_ok db"
  shows "graph_ok (delete_node ws wid i db)"
proof -
  let ?db = "delete_node ws wid i db"
  have "row_ok (node_ids (row_workspace r) (row_workflow r) ?db) r" if r: "r \<in> set (action_table ?db)" for r
  proof (cases "in_workflow ws wid r")
    case False
    with r assms have "row_ok (node_ids (row_workspace r) (row_workflow r) db) r"
      by (simp add: delete_node_rows(2) graph_ok_def)
    with False show ?thesis by (simp add: delete_node_node_ids(2) in_workflow_def)
  next
    case True
    with r have "r \<in> set (workflow_actions ws wid ?db)" by (simp add: workflow_actions_def)
    then obtain r0 where r0: "r0 \<in> set (workflow_actions ws wid db)" "r = r0\<lparr>row_edges := filter (not_from i) (row_edges r0)\<rparr>"
      by (auto simp: delete_node_rows(1))
    obtain ks where ks: "row_edges r0 = map new_edge ks" "distinct ks" "set ks \<subseteq> edge_keys wid (node_ids ws wid db)"
      using row_keys [OF assms r0(1)] by metis
    let ?ks = "filter (\<lambda>k. key_source_id k \<noteq> uuid_str i) ks"
    have "row_edges r = map new_edge ?ks" by (simp add: r0(2) ks(1) filter_map comp_def)
    moreover have "set ?ks \<subseteq> edge_keys wid (node_ids ws wid db - {i})" using ks(3) edge_keys_without by fastforce
    ultimately show ?thesis
      unfolding row_ok_def using True ks(2) by (intro exI [of _ ?ks]) (auto simp: in_workflow_def delete_node_node_ids(1))
  qed
  then show ?thesis using assms by (auto simp: graph_ok_def delete_node_row_ids distinct_map_filter)
qed

lemma delete_node_taken:
  assumes "graph_ok db"
  shows "row_id ` set (action_table (delete_node ws wid i db)) =
    (if i \<in> node_ids ws wid db then row_id ` set (action_table db) - {i} else row_id ` set (action_table db))"
proof -
  have "row_id ` set (action_table (delete_node ws wid i db)) =
      row_id ` {r \<in> set (action_table db). \<not> is_action ws wid i r}"
    using arg_cong [OF delete_node_row_ids [of ws wid i db], of set] by simp
  moreover have "row_id r \<noteq> i" if "r \<in> set (action_table db)" "\<not> is_action ws wid i r" "i \<in> node_ids ws wid db" for r
    using that row_unique [OF assms that(1)] by (auto simp: node_ids_def workflow_actions_def is_action_def)
  moreover have "\<not> is_action ws wid i r" if "r \<in> set (action_table db)" "i \<notin> node_ids ws wid db" for r
    using that by (auto simp: node_ids_def workflow_actions_def is_action_def)
  ultimately show ?thesis by (auto simp: is_action_def)
qed

lemma delete_node_agrees:
  assumes ok: "graph_ok db"
  shows "edit_graph env wid (DeleteNode i) (graph_of ws wid db) = Some (graph_of ws wid (delete_node ws wid i db))"
proof -
  let ?E = "{(k, t) \<in> g_edges (graph_of ws wid db). t \<noteq> i \<and> key_source_id k \<noteq> uuid_str i}"
  have E: "g_edges (graph_of ws wid (delete_node ws wid i db)) = ?E"
    by (auto simp: edges_iff delete_node_rows(1) set_eq_iff)
  have used: "ids_used (delete_node ws wid i db) = ids_used db"
    by (simp add: delete_node_def Let_def update_actions_def)
  have same: "?E = g_edges (graph_of ws wid db)" if "i \<notin> node_ids ws wid db"
    using graph_edge_parts [OF ok] that by (fastforce simp: edge_keys_def)
  have parts: "graph_of ws wid (delete_node ws wid i db) =
      \<lparr>g_nodes = node_ids ws wid db - {i}, g_edges = ?E,
       g_taken = (if i \<in> node_ids ws wid db then row_id ` set (action_table db) - {i} else row_id ` set (action_table db)),
       g_draws = ids_used db\<rparr>"
    using E by (simp add: graph_of_def delete_node_node_ids(1) delete_node_taken [OF ok] used)
  show ?thesis
  proof (cases "i \<in> node_ids ws wid db")
    case True
    then show ?thesis unfolding parts by (simp add: graph_of_def)
  next
    case False
    then show ?thesis unfolding parts same [OF False] by (simp add: graph_of_def)
  qed
qed

section \<open>Changes that leave the graph alone\<close>

lemma same_graph_update:
  assumes ok: "graph_ok db" and f: "keeps_place f" "\<And>r. row_edges (f r) = row_edges r"
    and P: "\<And>r. P r \<Longrightarrow> in_workflow ws wid r"
  shows "graph_of ws wid (update_actions P f db) = graph_of ws wid db \<and> graph_ok (update_actions P f db) \<and>
    elsewhere ws wid db (update_actions P f db)"
proof -
  have "(k, t) \<in> g_edges (graph_of ws wid (update_actions P f db)) \<longleftrightarrow> (k, t) \<in> g_edges (graph_of ws wid db)" for k t
    unfolding edges_iff workflow_actions_update [OF f(1)] set_map bex_simps
    by (rule bex_cong) (simp_all add: f(2) keeps_place_simps [OF f(1)])
  then have "g_edges (graph_of ws wid (update_actions P f db)) = g_edges (graph_of ws wid db)"
    by (intro equalityI subrelI) simp_all
  moreover have "graph_ok (update_actions P f db)"
    using ok f(1) by (rule graph_ok_update) (simp add: row_ok_def f(2) keeps_place_simps [OF f(1)])
  moreover have "row_id ` set (action_table (update_actions P f db)) = row_id ` set (action_table db)"
    using f(1) by (simp add: update_actions_def flip: set_map)
  moreover have "ids_used (update_actions P f db) = ids_used db" by (simp add: update_actions_def)
  ultimately show ?thesis using elsewhere_update [OF f(1) P] f(1) by (simp add: graph_of_def)
qed

lemma same_graph_workflow:
  "graph_of ws wid (update_workflow ws wid f db) = graph_of ws wid db"
  "graph_ok (update_workflow ws wid f db) = graph_ok db"
  by (simp_all add: graph_of_def graph_ok_def node_ids_def workflow_actions_def update_workflow_def)

lemma move_node_agrees:
  assumes "graph_ok db"
  shows "case move_node env ws wid pos db of
      Inl e \<Rightarrow> \<not> moves_ok env [pos]
    | Inr db' \<Rightarrow> moves_ok env [pos] \<and> graph_of ws wid db' = graph_of ws wid db \<and> graph_ok db' \<and> elsewhere ws wid db db'"
  using same_graph_update [OF assms keeps_place_intros(3), where ws = ws and wid = wid and P = "is_action ws wid _"] assms
  by (auto simp: move_node_def moves_ok_def Let_def rbind_def is_action_def elsewhere_refl split: sum.splits)

lemma move_nodes_agree:
  assumes "graph_ok db"
  shows "case fold_result (move_node env ws wid) ps db of
      Inl e \<Rightarrow> \<not> moves_ok env ps
    | Inr db' \<Rightarrow> moves_ok env ps \<and> graph_of ws wid db' = graph_of ws wid db \<and> graph_ok db' \<and> elsewhere ws wid db db'"
  using assms
proof (induction ps arbitrary: db)
  case (Cons pos ps)
  have split: "moves_ok env (pos # ps) \<longleftrightarrow> moves_ok env [pos] \<and> moves_ok env ps" by (simp add: moves_ok_def)
  show ?case
  proof (cases "move_node env ws wid pos db")
    case (Inl e)
    with move_node_agrees [OF Cons.prems, where env = env and ws = ws and wid = wid and pos = pos] show ?thesis by (simp add: split)
  next
    case (Inr db1)
    with move_node_agrees [OF Cons.prems, where env = env and ws = ws and wid = wid and pos = pos]
    have step: "moves_ok env [pos]" "graph_of ws wid db1 = graph_of ws wid db" "graph_ok db1" "elsewhere ws wid db db1" by simp_all
    from Cons.IH [OF step(3)] step(1,2) elsewhere_trans [OF step(4)] show ?thesis
      by (auto simp: Inr split split: sum.splits)
  qed
qed (simp add: moves_ok_def elsewhere_refl)

section \<open>All operations\<close>

lemma apply_operation_refuses:
  assumes ok: "graph_ok db" and lib: "reads_ids env" "canonical env op" and run: "apply_operation env ws wid op db = Inl e"
  shows "edit_graph env wid op (graph_of ws wid db) = None"
proof (cases op)
  case (AddNode p)
  with run show ?thesis by (auto simp: apply_operation_def add_node_def Let_def graph_of_def split: if_splits)
next
  case (AddEdge p)
  have "\<not> (has_source wid p (node_ids ws wid db) \<and> ep_target_id p \<in> node_ids ws wid db)"
  proof
    assume h: "has_source wid p (node_ids ws wid db) \<and> ep_target_id p \<in> node_ids ws wid db"
    with check_source_iff [OF lib(1), of p ws wid db "()"] lib(2) AddEdge have "check_source env ws wid p db = Inr ()" by simp
    with h run AddEdge show False by (simp add: apply_operation_def add_edge_def edit_target_result)
  qed
  then show ?thesis by (simp add: AddEdge graph_of_def)
next
  case (DeleteEdge p)
  with run show ?thesis by (auto simp: apply_operation_def delete_edge_def edit_target_result graph_of_def split: if_splits)
next
  case (MoveNodes ps)
  with run move_nodes_agree [OF ok, where env = env and ws = ws and wid = wid and ps = ps] show ?thesis
    by (simp add: apply_operation_def)
qed (use run in \<open>simp_all add: apply_operation_def\<close>)

lemma apply_operation_agrees:
  assumes ok: "graph_ok db" and lib: "reads_ids env" "canonical env op" and run: "apply_operation env ws wid op db = Inr db'"
  shows "edit_graph env wid op (graph_of ws wid db) = Some (graph_of ws wid db') \<and> graph_ok db' \<and> elsewhere ws wid db db'"
proof (cases op)
  case (AddNode p)
  with run add_node_agrees [OF ok] show ?thesis by (simp add: apply_operation_def)
next
  case (UpdateNode p)
  have "graph_of ws wid (update_node ws wid p db) = graph_of ws wid db \<and> graph_ok (update_node ws wid p db) \<and>
      elsewhere ws wid db (update_node ws wid p db)"
    unfolding update_node_def using ok keeps_place_intros(1)
    by (rule same_graph_update) (simp_all add: set_fields_def is_action_def)
  with UpdateNode run show ?thesis by (auto simp: apply_operation_def)
next
  case (DeleteNode i)
  with run delete_node_agrees [OF ok] delete_node_ok [OF ok] delete_node_elsewhere show ?thesis
    by (auto simp: apply_operation_def simp del: edit_graph.simps)
next
  case (AddEdge p)
  with run lib show ?thesis using add_edge_agrees [OF ok lib(1)] by (simp add: apply_operation_def)
next
  case (DeleteEdge p)
  with run show ?thesis using delete_edge_agrees [OF ok] by (simp add: apply_operation_def)
next
  case (MoveNodes ps)
  with run move_nodes_agree [OF ok, where env = env and ws = ws and wid = wid and ps = ps] show ?thesis
    by (simp add: apply_operation_def)
qed (use run ok in \<open>auto simp: apply_operation_def same_graph_workflow intro: elsewhere_workflow\<close>)

interpretation graph_edits: simulation "apply_operation env ws wid" "edit_graph env wid" "graph_of ws wid" graph_ok
    "\<lambda>op. reads_ids env \<and> canonical env op" "elsewhere ws wid" for env ws wid
proof
  show "elsewhere ws wid s t \<Longrightarrow> elsewhere ws wid t u \<Longrightarrow> elsewhere ws wid s u" for s t u by (rule elsewhere_trans)
qed (auto simp: elsewhere_refl dest: apply_operation_refuses apply_operation_agrees simp del: edit_graph.simps)

end
