(* ===== verification/Graph_Theorems.thy ===== *)
theory Graph_Theorems
  imports Graph_Refine
begin

text \<open>
  Requests to the graph service: what an answer shows, what a refused or outdated request leaves, and
  what the definitions built from edited workflows have in common.
\<close>

section \<open>Answers\<close>

definition action_keys :: "db_action \<Rightarrow> edge_key list" where
  "action_keys r = map (\<lambda>e. the (stored_edge_dedup_key e)) (row_edges r)"

lemma action_keys:
  assumes "graph_ok db" "r \<in> set (workflow_actions ws wid db)"
  shows "row_edges r = map new_edge (action_keys r)" "distinct (action_keys r)"
    "set (action_keys r) \<subseteq> edge_keys wid (node_ids ws wid db)"
proof -
  obtain ks where ks: "row_edges r = map new_edge ks" "distinct ks" "set ks \<subseteq> edge_keys wid (node_ids ws wid db)"
    using row_keys [OF assms] by metis
  then have "action_keys r = ks"
    by (auto simp: action_keys_def stored_key_new_edge subset_iff intro!: map_idI)
  with ks show "row_edges r = map new_edge (action_keys r)" "distinct (action_keys r)"
    "set (action_keys r) \<subseteq> edge_keys wid (node_ids ws wid db)" by simp_all
qed










section \<open>Repair\<close>

text \<open>The repair drops no edge that the service wrote.\<close>

lemma valid_new_edge: "k \<in> edge_keys wid (set ids) \<Longrightarrow> valid_edge wid ids (new_edge k)"
  by (auto simp: edge_keys_def valid_edge_def dict_get_default_def source_value_def)

lemma repair_idle:
  assumes ok: "graph_ok db"
  shows "reconcile_graph_object_with_actions ws wid db = (False, db)"
proof -
  let ?ids = "map row_id (workflow_actions ws wid db)"
  have valid: "valid_edge wid ?ids e" if "r \<in> set (workflow_actions ws wid db)" "e \<in> set (row_edges r)" for r e
    using that(2) action_keys(1,3) [OF ok that(1)] valid_new_edge [of _ wid ?ids] by (auto simp: node_ids_def)
  have "(if in_workflow ws wid r then r\<lparr>row_edges := filter (valid_edge wid ?ids) (row_edges r)\<rparr> else r) = r"
    if "r \<in> set (action_table db)" for r
    using valid [of r] that by (simp add: workflow_actions_def filter_id_conv)
  then have "update_actions (in_workflow ws wid) (\<lambda>r. r\<lparr>row_edges := filter (valid_edge wid ?ids) (row_edges r)\<rparr>) db = db"
    by (simp add: update_actions_def map_idI)
  moreover have "\<not> list_ex (\<lambda>r. list_ex (\<lambda>e. \<not> valid_edge wid ?ids e) (row_edges r)) (workflow_actions ws wid db)"
    using valid by (auto simp: list_ex_iff)
  ultimately show ?thesis by (simp add: reconcile_graph_object_with_actions_def Let_def)
qed

text \<open>
  Old edges from the trigger have no type. The import and the deduplication take them for what they
  are, but the repair drops them.
\<close>

lemma repair_drops_old_trigger_edges:
  "stored_edge_dedup_key [(''source_id'', VStr (trigger_id wid))] = Some (EdgeDedupKey (trigger_id wid) TRIGGER_SOURCE None) \<and>
   \<not> valid_edge wid ids [(''source_id'', VStr (trigger_id wid))]"
proof -
  have "starts_with ''trigger-'' (trigger_id wid)" by (simp add: starts_with_def trigger_id_def)
  then show ?thesis
    by (auto simp: stored_edge_dedup_key_def stored_source_type_def edge_dedup_key_def valid_edge_def dict_get_default_def)
qed

section \<open>Requests\<close>















end
