(* ===== verification/Dsl_Export.thy ===== *)
theory Dsl_Export
  imports Graph_Edit
begin

text \<open>
  Definitions to rows and back: \<open>create_actions_from_dsl\<close> of
  \<open>workflow/management/management.py\<close> writes the actions of an uploaded or restored definition,
  and \<open>build_action_statements_from_actions\<close> of \<open>dsl/common.py\<close> reads rows with their edges
  and control flow as stored. The texts of YAML, the slug of a title and the validation of the
  control flow are parameters.
\<close>

section \<open>Control flow\<close>

record control_flow =
  cf_run_if :: "string option"
  cf_for_each :: pyval
  cf_join_strategy :: join_strategy
  cf_retry_policy :: pyval
  cf_start_delay :: rat
  cf_wait_until :: "string option"
  cf_environment :: "string option"
  cf_mask_output :: bool

text \<open>The options of a statement that the scheduler does not read.\<close>

record statement_options =
  opt_description :: string
  opt_interaction :: "pyval option"
  opt_for_each :: pyval
  opt_retry_policy :: pyval
  opt_start_delay :: rat
  opt_wait_until :: "string option"
  opt_environment :: "string option"
  opt_mask_output :: bool

type_synonym full_stmt = "stmt \<times> statement_options"

record row_env =
  slugify :: "string \<Rightarrow> string"
  validate_control :: "(string, pyval) dict \<Rightarrow> dsl_exn + control_flow"
  dump_control :: "control_flow \<Rightarrow> (string, pyval) dict"
  validate_interaction :: "pyval \<Rightarrow> dsl_exn + pyval"
  dump_inputs :: "(string, pyval) dict \<Rightarrow> string"
  statement_refs :: import_env

section \<open>Reading rows\<close>

text \<open>\<open>UpstreamEdgeDataValidator\<close>: absent entries are absent, others must be one of the literals.\<close>

definition parse_source_type :: "pyval option \<Rightarrow> dsl_exn + edge_source option" where
  "parse_source_type v =
     (if v = None then Inr None
      else if v = Some (VStr ''trigger'') then Inr (Some TRIGGER_SOURCE)
      else if v = Some (VStr ''udf'') then Inr (Some UDF_SOURCE)
      else Inl (Raised ValidationError))"

definition parse_source_handle :: "pyval option \<Rightarrow> dsl_exn + edge_type option" where
  "parse_source_handle v =
     (if v = None then Inr None
      else if v = Some (VStr ''success'') then Inr (Some SUCCESS)
      else if v = Some (VStr ''error'') then Inr (Some ERROR)
      else Inl (Raised ValidationError))"

definition parse_upstream_edge :: "raw_edge \<Rightarrow> dsl_exn + upstream_edge" where
  "parse_upstream_edge e =
     (case dict_get e ''source_id'' of
        Some (VStr sid) \<Rightarrow>
          rbind (parse_source_type (dict_get e ''source_type'')) (\<lambda>st.
          rbind (parse_source_handle (dict_get e ''source_handle'')) (\<lambda>sh.
            Inr \<lparr>source_id = sid, source_type = st, source_handle = sh\<rparr>))
      | _ \<Rightarrow> Inl (Raised ValidationError))"

text \<open>A row with its edges read; its control flow is read only if the action is reachable.\<close>

definition edge_row :: "row_env \<Rightarrow> db_action \<Rightarrow> dsl_exn + action_row" where
  "edge_row env r =
     rbind (map_result parse_upstream_edge (row_edges r)) (\<lambda>es. Inr
       \<lparr>act_id = row_id r, act_ref = slugify env (row_title r), act_type = row_type r,
        act_inputs = row_inputs r, upstream_edges = es, act_run_if = None, act_join = JoinAll\<rparr>)"

text \<open>The description of the row is not passed on to the statement.\<close>

definition options_of :: "control_flow \<Rightarrow> pyval option \<Rightarrow> statement_options" where
  "options_of cf ia =
     \<lparr>opt_description = [], opt_interaction = ia, opt_for_each = cf_for_each cf, opt_retry_policy = cf_retry_policy cf, opt_start_delay = cf_start_delay cf,
      opt_wait_until = cf_wait_until cf, opt_environment = cf_environment cf, opt_mask_output = cf_mask_output cf\<rparr>"

definition given_items :: "pyval \<Rightarrow> bool" where
  "given_items v \<longleftrightarrow> v \<noteq> VNone \<and> v \<noteq> VStr [] \<and> v \<noteq> VList []"

definition row_statement ::
    "row_env \<Rightarrow> action_row list \<Rightarrow> uuid list \<Rightarrow> db_action \<times> action_row \<Rightarrow> dsl_exn + full_stmt" where
  "row_statement env actions reachable ra =
     rbind (validate_control env (row_control_flow (fst ra))) (\<lambda>cf.
     rbind (build_statement (statement_refs env) actions reachable
        ((snd ra)\<lparr>act_run_if := cf_run_if cf, act_join := cf_join_strategy cf\<rparr>)) (\<lambda>s.
     rbind (case row_interaction (fst ra) of None \<Rightarrow> Inr None
        | Some v \<Rightarrow> rbind (validate_interaction env v) (\<lambda>i. Inr (Some i))) (\<lambda>i.
     rbind (raise_if (i \<noteq> None \<and> given_items (cf_for_each cf)) (Raised OtherError)) (\<lambda>_.
       Inr (s, options_of cf i)))))"

definition build_statements_from_rows :: "row_env \<Rightarrow> db_action list \<Rightarrow> dsl_exn + full_stmt list" where
  "build_statements_from_rows env rows =
     rbind (map_result (edge_row env) rows) (\<lambda>actions.
       let reachable = get_reachable_action_ids actions in
       map_result (row_statement env actions reachable)
         (filter (\<lambda>(r, a). act_id a \<in> set reachable) (zip rows actions)))"

section \<open>Writing rows\<close>

text \<open>\<open>ActionStatement.title\<close>: \<open>ref.capitalize().replace("_", " ")\<close>.\<close>

definition upper_char :: "char \<Rightarrow> char" where
  "upper_char c = (let n = of_char c :: nat in if 97 \<le> n \<and> n \<le> 122 then char_of (n - 32) else c)"

definition lower_char :: "char \<Rightarrow> char" where
  "lower_char c = (let n = of_char c :: nat in if 65 \<le> n \<and> n \<le> 90 then char_of (n + 32) else c)"

definition capitalize :: "string \<Rightarrow> string" where
  "capitalize s = (case s of [] \<Rightarrow> [] | c # cs \<Rightarrow> upper_char c # map lower_char cs)"

definition title_of :: "string \<Rightarrow> string" where
  "title_of r = map (\<lambda>c. if c = CHR ''_'' then CHR '' '' else c) (capitalize r)"

text \<open>
  The control flow that is written; its validation can fail where that of the statement does not. The
  environment of the statement is not among the arguments.
\<close>

definition written_control :: "full_stmt \<Rightarrow> control_flow" where
  "written_control so =
     \<lparr>cf_run_if = run_if (fst so), cf_for_each = opt_for_each (snd so), cf_join_strategy = join_strategy (fst so),
      cf_retry_policy = opt_retry_policy (snd so), cf_start_delay = opt_start_delay (snd so),
      cf_wait_until = opt_wait_until (snd so), cf_environment = None, cf_mask_output = opt_mask_output (snd so)\<rparr>"

definition new_action ::
    "row_env \<Rightarrow> uuid \<Rightarrow> uuid \<Rightarrow> (string, rat \<times> rat) dict \<Rightarrow> full_stmt \<times> uuid \<Rightarrow> dsl_exn + db_action" where
  "new_action env ws wid positions soi =
     (case soi of (so, i) \<Rightarrow>
        rbind (validate_control env (dump_control env (written_control so))) (\<lambda>cf. Inr
          \<lparr>row_id = i, row_workspace = ws, row_workflow = wid, row_type = action (fst so),
           row_title = title_of (ref (fst so)), row_description = opt_description (snd so),
           row_inputs = dump_inputs env (args (fst so)), row_control_flow = dump_control env cf,
           row_interaction = None, row_position = dict_get_default positions (ref (fst so)) (0, 0), row_edges = []\<rparr>))"

text \<open>\<open>ref_to_action\<close>: of two statements with the same reference the later one counts.\<close>

definition ref_to_action :: "full_stmt list \<Rightarrow> uuid list \<Rightarrow> (string, uuid) dict" where
  "ref_to_action stmts ids = fold (\<lambda>(so, i) d. dict_set (ref (fst so)) i d) (zip stmts ids) []"

definition written_edge :: "(string, uuid) dict \<Rightarrow> string \<Rightarrow> dsl_exn + raw_edge list" where
  "written_edge refs dep =
     rbind (components dep) (\<lambda>(src, t).
       case dict_get refs src of
         None \<Rightarrow> Inr []
       | Some i \<Rightarrow> Inr [[(''source_id'', VStr (uuid_str i)), (''source_type'', VStr ''udf''),
           (''source_handle'', VStr (edge_type_value t))]])"

definition written_edges :: "uuid \<Rightarrow> (string, uuid) dict \<Rightarrow> stmt \<Rightarrow> dsl_exn + raw_edge list" where
  "written_edges wid refs s =
     (if depends_on s = []
      then Inr [[(''source_id'', VStr (trigger_id wid)), (''source_type'', VStr ''trigger'')]]
      else rbind (map_result (written_edge refs) (depends_on s)) (\<lambda>ess. Inr (concat ess)))"

definition connect_action ::
    "uuid \<Rightarrow> (string, uuid) dict \<Rightarrow> full_stmt \<Rightarrow> db_action list \<Rightarrow> dsl_exn + db_action list" where
  "connect_action wid refs so rows =
     rbind (written_edges wid refs (fst so)) (\<lambda>es. Inr
       (map (\<lambda>r. if Some (row_id r) = dict_get refs (ref (fst so)) then r\<lparr>row_edges := es\<rparr> else r) rows))"

text \<open>The identifiers are those drawn, one for each statement.\<close>

definition create_actions_from_dsl ::
    "row_env \<Rightarrow> uuid \<Rightarrow> uuid \<Rightarrow> (string, rat \<times> rat) dict \<Rightarrow> uuid list \<Rightarrow> full_stmt list \<Rightarrow> dsl_exn + db_action list" where
  "create_actions_from_dsl env ws wid positions ids stmts =
     rbind (map_result (new_action env ws wid positions) (zip stmts ids))
       (fold_result (connect_action wid (ref_to_action stmts ids)) stmts)"

end
