(* ===== verification/Edited_Theorems.thy ===== *)
theory Edited_Theorems
  imports Graph_Theorems Dsl_Export Import_Theorems Sched_Init Dsl_Validated
begin

text \<open>
  Definitions built from edited workflows: the statements are the part of the drawn graph that the
  trigger reaches, and none of them has the repeated dependency that would keep it from running.
\<close>

section \<open>Reading the edges of the service\<close>

definition parsed_edge :: "edge_key \<Rightarrow> upstream_edge" where
  "parsed_edge k = \<lparr>source_id = key_source_id k, source_type = Some (key_source_type k), source_handle = key_source_handle k\<rparr>"


lemma uuid_str_not_empty [simp]: "uuid_str i \<noteq> []"
  by (simp add: uuid_str_def Let_def)





definition imported_row :: "row_env \<Rightarrow> db_action \<Rightarrow> action_row" where
  "imported_row env r =
     \<lparr>act_id = row_id r, act_ref = slugify env (row_title r), act_type = row_type r, act_inputs = row_inputs r,
      upstream_edges = map parsed_edge (action_keys r), act_run_if = None, act_join = JoinAll\<rparr>"

lemma imported_row_simps [simp]:
  "act_id (imported_row env r) = row_id r" "act_ref (imported_row env r) = slugify env (row_title r)"
  "upstream_edges (imported_row env r) = map parsed_edge (action_keys r)"
  by (simp_all add: imported_row_def)


section \<open>What the trigger reaches\<close>







section \<open>Dependencies\<close>






section \<open>Edited workflows\<close>














end
