(* ===== verification/Roundtrip_Theorems.thy ===== *)
theory Roundtrip_Theorems
  imports Edited_Theorems Dsl_Toposort
begin

text \<open>
  A definition that is written to rows, when it is uploaded or restored, and read back when the
  workflow is committed: what it keeps and what it loses.
\<close>

section \<open>Identifiers\<close>




text \<open>The identifier drawn for the action with a reference.\<close>

definition drawn_id :: "full_stmt list \<Rightarrow> uuid list \<Rightarrow> string \<Rightarrow> uuid" where
  "drawn_id stmts ids r = the (dict_get (ref_to_action stmts ids) r)"






section \<open>The rows that are written\<close>

definition dep_key :: "full_stmt list \<Rightarrow> uuid list \<Rightarrow> string \<Rightarrow> edge_key" where
  "dep_key stmts ids dep = EdgeDedupKey (uuid_str (drawn_id stmts ids (dep_src dep))) UDF_SOURCE (Some (dep_type dep))"

definition stmt_keys :: "uuid \<Rightarrow> full_stmt list \<Rightarrow> uuid list \<Rightarrow> stmt \<Rightarrow> edge_key list" where
  "stmt_keys wid stmts ids s =
     (if depends_on s = [] then [EdgeDedupKey (trigger_id wid) TRIGGER_SOURCE None]
      else map (dep_key stmts ids) (depends_on s))"










section \<open>Reading them back\<close>

definition read_row :: "row_env \<Rightarrow> uuid \<Rightarrow> full_stmt list \<Rightarrow> uuid list \<Rightarrow> full_stmt \<Rightarrow> action_row" where
  "read_row env wid stmts ids so =
     \<lparr>act_id = drawn_id stmts ids (ref (fst so)), act_ref = slugify env (title_of (ref (fst so))), act_type = action (fst so),
      act_inputs = dump_inputs env (args (fst so)), upstream_edges = map parsed_edge (stmt_keys wid stmts ids (fst so)),
      act_run_if = None, act_join = JoinAll\<rparr>"


lemma read_row_simps [simp]:
  "act_id (read_row env wid stmts ids so) = drawn_id stmts ids (ref (fst so))"
  "upstream_edges (read_row env wid stmts ids so) = map parsed_edge (stmt_keys wid stmts ids (fst so))"
  by (simp_all add: read_row_def)










end
