(* ===== verification/Expr_Values.thy ===== *)
theory Expr_Values
  imports Dsl_Types
begin

text \<open>
  The values that template expressions compute with, and the operators of the language on them
  (\<open>OPERATORS\<close> and \<open>cast\<close> of \<open>expressions/functions.py\<close>, \<open>_apply_index\<close> of
  \<open>expressions/parser/evaluator.py\<close>). Objects of other libraries, such as times and addresses,
  are opaque: what Python's operators do with them is asked of a parameter.
\<close>

lemma map_result_cong [fundef_cong]:
  "xs = ys \<Longrightarrow> (\<And>x. x \<in> set ys \<Longrightarrow> f x = g x) \<Longrightarrow> map_result f xs = map_result g ys"
  by (induction xs arbitrary: ys) (auto intro!: rbind_cong)

section \<open>Values\<close>

datatype pyobj =
    ONone | OBool bool | OInt int | OFloat rat | OStr string
  | OList "pyobj list" | OTuple "pyobj list" | ODict "(pyobj \<times> pyobj) list"
  | OIter string pyobj
  | OForeign string nat

text \<open>\<open>TracecatExpressionError\<close>, the exceptions of the language, and those of libraries.\<close>

datatype xerror = ExpressionError | PyExc py_error | ZeroDivisionError | LibraryError string

type_synonym 'a xresult = "xerror + 'a"

text \<open>What is asked of objects of other libraries, and of the texts of floats and containers.\<close>

record foreign =
  foreign_bool :: "string \<Rightarrow> nat \<Rightarrow> bool"
  foreign_eq :: "pyobj \<Rightarrow> pyobj \<Rightarrow> bool"
  foreign_same :: "pyobj \<Rightarrow> pyobj \<Rightarrow> bool"
  foreign_hashable :: "string \<Rightarrow> bool"
  foreign_iter :: "string \<Rightarrow> nat \<Rightarrow> pyobj list option"
  foreign_binary :: "string \<Rightarrow> pyobj \<Rightarrow> pyobj \<Rightarrow> pyobj xresult"
  foreign_unary :: "string \<Rightarrow> pyobj \<Rightarrow> pyobj xresult"
  foreign_index :: "pyobj \<Rightarrow> pyobj \<Rightarrow> pyobj xresult"
  foreign_str :: "pyobj \<Rightarrow> string xresult"
  foreign_cast :: "string \<Rightarrow> pyobj \<Rightarrow> pyobj xresult"

text \<open>JSON values are values of expressions; handles and error records are foreign to them.\<close>

fun of_pyval :: "(pyval \<Rightarrow> nat) \<Rightarrow> pyval \<Rightarrow> pyobj" where
  "of_pyval h VNone = ONone"
| "of_pyval h (VBool b) = OBool b"
| "of_pyval h (VInt i) = OInt i"
| "of_pyval h (VFloat r) = OFloat r"
| "of_pyval h (VStr s) = OStr s"
| "of_pyval h (VList xs) = OList (map (of_pyval h) xs)"
| "of_pyval h (VDict d) = ODict (map (\<lambda>(k, v). (OStr k, of_pyval h v)) d)"
| "of_pyval h v = OForeign (type_name v) (h v)"

section \<open>Truth, equality, hashing\<close>

fun obj_bool :: "foreign \<Rightarrow> pyobj \<Rightarrow> bool" where
  "obj_bool F ONone = False"
| "obj_bool F (OBool b) = b"
| "obj_bool F (OInt i) = (i \<noteq> 0)"
| "obj_bool F (OFloat r) = (r \<noteq> 0)"
| "obj_bool F (OStr s) = (s \<noteq> [])"
| "obj_bool F (OList xs) = (xs \<noteq> [])"
| "obj_bool F (OTuple xs) = (xs \<noteq> [])"
| "obj_bool F (ODict d) = (d \<noteq> [])"
| "obj_bool F (OIter it c) = True"
| "obj_bool F (OForeign t n) = foreign_bool F t n"

text \<open>Numbers; \<open>bool\<close> is a subclass of \<open>int\<close>.\<close>

datatype pynum = NInt int | NFloat rat

fun as_num :: "pyobj \<Rightarrow> pynum option" where
  "as_num (OBool b) = Some (NInt (if b then 1 else 0))"
| "as_num (OInt i) = Some (NInt i)"
| "as_num (OFloat r) = Some (NFloat r)"
| "as_num _ = None"

fun int_of_obj :: "pyobj \<Rightarrow> int option" where
  "int_of_obj (OBool b) = Some (if b then 1 else 0)"
| "int_of_obj (OInt i) = Some i"
| "int_of_obj _ = None"

fun num_rat :: "pynum \<Rightarrow> rat" where
  "num_rat (NInt i) = of_int i"
| "num_rat (NFloat r) = r"

fun of_num :: "pynum \<Rightarrow> pyobj" where
  "of_num (NInt i) = OInt i"
| "of_num (NFloat r) = OFloat r"

fun is_foreign :: "pyobj \<Rightarrow> bool" where
  "is_foreign (OForeign t n) = True"
| "is_foreign _ = False"

text \<open>\<open>x == y\<close>: numbers by value, lists and tuples each by items, mappings by keys and values.\<close>

function obj_eq :: "foreign \<Rightarrow> pyobj \<Rightarrow> pyobj \<Rightarrow> bool" where
  "obj_eq F x y =
     (if is_foreign x \<or> is_foreign y then foreign_eq F x y
      else case (as_num x, as_num y) of
        (Some a, Some b) \<Rightarrow> num_rat a = num_rat b
      | (Some a, None) \<Rightarrow> False
      | (None, Some b) \<Rightarrow> False
      | (None, None) \<Rightarrow>
          (case (x, y) of
             (ONone, ONone) \<Rightarrow> True
           | (OStr s, OStr t) \<Rightarrow> s = t
           | (OList xs, OList ys) \<Rightarrow> length xs = length ys \<and> list_all (\<lambda>(a, b). obj_eq F a b) (zip xs ys)
           | (OTuple xs, OTuple ys) \<Rightarrow> length xs = length ys \<and> list_all (\<lambda>(a, b). obj_eq F a b) (zip xs ys)
           | (ODict d, ODict e) \<Rightarrow> length d = length e \<and>
               list_all (\<lambda>p. list_ex (\<lambda>q. obj_eq F (fst p) (fst q) \<and> obj_eq F (snd p) (snd q)) e) d
           | (OIter i a, OIter j b) \<Rightarrow> i = j \<and> obj_eq F a b
           | _ \<Rightarrow> False))"
  by pat_completeness auto

lemma size_pair_member:
  fixes d :: "(pyobj \<times> pyobj) list"
  assumes "(a, b) \<in> set d"
  shows "size a < Suc (size_list (size_prod size size) d)"
    and "size b < Suc (size_list (size_prod size size) d)"
  using assms by (induction d) auto

lemma size_member: "x \<in> set xs \<Longrightarrow> size x < Suc (size_list size xs)"
  by (induction xs) auto

termination obj_eq
  by (relation "measure (\<lambda>(F, x, y). size x)")
    (auto intro: size_pair_member size_member [OF set_zip_leftD])

declare obj_eq.simps [simp del]

fun hashable :: "foreign \<Rightarrow> pyobj \<Rightarrow> bool" where
  "hashable F (OList xs) = False"
| "hashable F (ODict d) = False"
| "hashable F (OIter it c) = False"
| "hashable F (OTuple xs) = list_all (hashable F) xs"
| "hashable F (OForeign t n) = foreign_hashable F t"
| "hashable F _ = True"

definition obj_member :: "foreign \<Rightarrow> pyobj \<Rightarrow> pyobj list \<Rightarrow> bool" where
  "obj_member F x xs = list_ex (\<lambda>y. obj_eq F y x) xs"

text \<open>Reading and writing a dictionary: writing an existing key keeps the key and its place.\<close>

fun obj_lookup :: "foreign \<Rightarrow> (pyobj \<times> pyobj) list \<Rightarrow> pyobj \<Rightarrow> pyobj option" where
  "obj_lookup F [] k = None"
| "obj_lookup F ((a, v) # d) k = (if obj_eq F a k then Some v else obj_lookup F d k)"

fun obj_insert :: "foreign \<Rightarrow> pyobj \<Rightarrow> pyobj \<Rightarrow> (pyobj \<times> pyobj) list \<Rightarrow> (pyobj \<times> pyobj) list" where
  "obj_insert F k v [] = [(k, v)]"
| "obj_insert F k v ((a, w) # d) = (if obj_eq F a k then (a, v) # d else (a, w) # obj_insert F k v d)"

text \<open>\<open>dict(pairs)\<close> and dictionary displays: an unhashable key is a TypeError.\<close>

definition obj_set :: "foreign \<Rightarrow> pyobj \<Rightarrow> pyobj \<Rightarrow> (pyobj \<times> pyobj) list \<Rightarrow> (pyobj \<times> pyobj) list xresult" where
  "obj_set F k v d = (if hashable F k then Inr (obj_insert F k v d) else Inl (PyExc TypeError))"

definition obj_dict :: "foreign \<Rightarrow> (pyobj \<times> pyobj) list \<Rightarrow> (pyobj \<times> pyobj) list xresult" where
  "obj_dict F kvs = fold_result (\<lambda>(k, v) d. obj_set F k v d) kvs []"

text \<open>Iterating over a value: characters, items, keys, and the pairs of an iterable expression.\<close>

fun obj_iter :: "foreign \<Rightarrow> pyobj \<Rightarrow> pyobj list xresult" where
  "obj_iter F (OStr s) = Inr (map (\<lambda>c. OStr [c]) s)"
| "obj_iter F (OList xs) = Inr xs"
| "obj_iter F (OTuple xs) = Inr xs"
| "obj_iter F (ODict d) = Inr (map fst d)"
| "obj_iter F (OIter it c) = rbind (obj_iter F c) (\<lambda>xs. Inr (map (\<lambda>x. OTuple [OStr it, x]) xs))"
| "obj_iter F (OForeign t n) =
     (case foreign_iter F t n of None \<Rightarrow> Inl (PyExc TypeError) | Some xs \<Rightarrow> Inr xs)"
| "obj_iter F _ = Inl (PyExc TypeError)"

text \<open>\<open>hasattr(x, "__iter__")\<close>.\<close>

fun has_iter :: "foreign \<Rightarrow> pyobj \<Rightarrow> bool" where
  "has_iter F (OStr s) = True"
| "has_iter F (OList xs) = True"
| "has_iter F (OTuple xs) = True"
| "has_iter F (ODict d) = True"
| "has_iter F (OIter it c) = True"
| "has_iter F (OForeign t n) = (foreign_iter F t n \<noteq> None)"
| "has_iter F _ = False"

text \<open>\<open>is_iterable(x, container_only=True)\<close> of \<open>common.py\<close>: no strings, no mappings.\<close>

fun container_iterable :: "foreign \<Rightarrow> pyobj \<Rightarrow> bool" where
  "container_iterable F (OStr s) = False"
| "container_iterable F (ODict d) = False"
| "container_iterable F x = has_iter F x"

text \<open>\<open>len(x)\<close>.\<close>

fun obj_len :: "foreign \<Rightarrow> pyobj \<Rightarrow> nat xresult" where
  "obj_len F (OStr s) = Inr (length s)"
| "obj_len F (OList xs) = Inr (length xs)"
| "obj_len F (OTuple xs) = Inr (length xs)"
| "obj_len F (ODict d) = Inr (length d)"
| "obj_len F (OForeign t n) =
     rbind (foreign_unary F ''len'' (OForeign t n))
       (\<lambda>x. case x of OInt i \<Rightarrow> Inr (nat i) | _ \<Rightarrow> Inl (PyExc TypeError))"
| "obj_len F _ = Inl (PyExc TypeError)"

section \<open>Texts and casts\<close>

fun obj_str :: "foreign \<Rightarrow> pyobj \<Rightarrow> string xresult" where
  "obj_str F ONone = Inr ''None''"
| "obj_str F (OBool b) = Inr (if b then ''True'' else ''False'')"
| "obj_str F (OInt i) = Inr (show_int i)"
| "obj_str F (OStr s) = Inr s"
| "obj_str F x = foreign_str F x"

definition lower_char :: "char \<Rightarrow> char" where
  "lower_char c = (let n = of_char c :: nat in if 65 \<le> n \<and> n \<le> 90 then char_of (n + 32) else c)"

text \<open>\<open>_bool\<close>: texts are compared without case, everything else has Python's truth.\<close>

fun cast_bool :: "foreign \<Rightarrow> pyobj \<Rightarrow> bool" where
  "cast_bool F (OBool b) = b"
| "cast_bool F (OStr s) = (map lower_char s \<in> {''true'', ''1''})"
| "cast_bool F x = obj_bool F x"

text \<open>\<open>int(x)\<close>, which cuts off the fraction of a float, and \<open>float(x)\<close>, whose texts are foreign.\<close>

definition truncate_rat :: "rat \<Rightarrow> int" where
  "truncate_rat r = (if r < 0 then - \<lfloor>- r\<rfloor> else \<lfloor>r\<rfloor>)"

fun cast_int :: "foreign \<Rightarrow> pyobj \<Rightarrow> pyobj xresult" where
  "cast_int F (OBool b) = Inr (OInt (if b then 1 else 0))"
| "cast_int F (OInt i) = Inr (OInt i)"
| "cast_int F (OFloat r) = Inr (OInt (truncate_rat r))"
| "cast_int F (OStr s) = (case py_int s of Inl e \<Rightarrow> Inl (PyExc e) | Inr i \<Rightarrow> Inr (OInt i))"
| "cast_int F (OForeign t n) = foreign_cast F ''int'' (OForeign t n)"
| "cast_int F _ = Inl (PyExc TypeError)"

fun cast_float :: "foreign \<Rightarrow> pyobj \<Rightarrow> pyobj xresult" where
  "cast_float F (OBool b) = Inr (OFloat (if b then 1 else 0))"
| "cast_float F (OInt i) = Inr (OFloat (of_int i))"
| "cast_float F (OFloat r) = Inr (OFloat r)"
| "cast_float F (OStr s) = foreign_cast F ''float'' (OStr s)"
| "cast_float F (OForeign t n) = foreign_cast F ''float'' (OForeign t n)"
| "cast_float F _ = Inl (PyExc TypeError)"

definition BUILTIN_TYPES :: "string list" where
  "BUILTIN_TYPES = [''int'', ''float'', ''str'', ''bool'', ''datetime'']"

definition cast :: "foreign \<Rightarrow> pyobj \<Rightarrow> string \<Rightarrow> pyobj xresult" where
  "cast F x typename =
     (if typename \<notin> set BUILTIN_TYPES then Inl (PyExc ValueError)
      else if typename = ''int'' then cast_int F x
      else if typename = ''float'' then cast_float F x
      else if typename = ''str'' then rbind (obj_str F x) (\<lambda>s. Inr (OStr s))
      else if typename = ''bool'' then Inr (OBool (cast_bool F x))
      else foreign_cast F typename x)"

section \<open>Operators\<close>

datatype comparison = Less | LessEq | Greater | GreaterEq

fun compares :: "comparison \<Rightarrow> 'a::linorder \<Rightarrow> 'a \<Rightarrow> bool" where
  "compares Less a b = (a < b)"
| "compares LessEq a b = (a \<le> b)"
| "compares Greater a b = (b < a)"
| "compares GreaterEq a b = (b \<le> a)"

fun comparison_name :: "comparison \<Rightarrow> string" where
  "comparison_name Less = ''<''"
| "comparison_name LessEq = ''<=''"
| "comparison_name Greater = ''>''"
| "comparison_name GreaterEq = ''>=''"

text \<open>
  Ordering: numbers, texts, and sequences of the same kind, which are ordered by the first items that
  are not equal, or by length when there are none. Anything else is a TypeError.
\<close>

function obj_compare :: "foreign \<Rightarrow> comparison \<Rightarrow> pyobj \<Rightarrow> pyobj \<Rightarrow> bool xresult" where
  "obj_compare F c x y =
     (if is_foreign x \<or> is_foreign y then
        rbind (foreign_binary F (comparison_name c) x y) (\<lambda>z. Inr (obj_bool F z))
      else case (as_num x, as_num y) of
        (Some a, Some b) \<Rightarrow> Inr (compares c (num_rat a) (num_rat b))
      | (Some a, None) \<Rightarrow> Inl (PyExc TypeError)
      | (None, Some b) \<Rightarrow> Inl (PyExc TypeError)
      | (None, None) \<Rightarrow>
          (case (x, y) of
             (OStr s, OStr t) \<Rightarrow> Inr (compares c s t)
           | (OList xs, OList ys) \<Rightarrow>
               (case (xs, ys) of
                  (a # xs', b # ys') \<Rightarrow> if obj_eq F a b then obj_compare F c (OList xs') (OList ys')
                                       else obj_compare F c a b
                | _ \<Rightarrow> Inr (compares c (length xs) (length ys)))
           | (OTuple xs, OTuple ys) \<Rightarrow>
               (case (xs, ys) of
                  (a # xs', b # ys') \<Rightarrow> if obj_eq F a b then obj_compare F c (OTuple xs') (OTuple ys')
                                       else obj_compare F c a b
                | _ \<Rightarrow> Inr (compares c (length xs) (length ys)))
           | _ \<Rightarrow> Inl (PyExc TypeError)))"
  by pat_completeness auto

termination obj_compare
  by (relation "measure (\<lambda>(F, c, x, y). size x)") auto

declare obj_compare.simps [simp del]

text \<open>\<open>-\<close> on numbers, and \<open>*\<close>, also as repetition of a sequence.\<close>

fun num_sub :: "pynum \<Rightarrow> pynum \<Rightarrow> pynum" where
  "num_sub (NInt i) (NInt j) = NInt (i - j)"
| "num_sub a b = NFloat (num_rat a - num_rat b)"

fun num_add :: "pynum \<Rightarrow> pynum \<Rightarrow> pynum" where
  "num_add (NInt i) (NInt j) = NInt (i + j)"
| "num_add a b = NFloat (num_rat a + num_rat b)"

fun num_mul :: "pynum \<Rightarrow> pynum \<Rightarrow> pynum" where
  "num_mul (NInt i) (NInt j) = NInt (i * j)"
| "num_mul a b = NFloat (num_rat a * num_rat b)"

text \<open>The remainder has the sign of the divisor.\<close>

fun num_mod :: "pynum \<Rightarrow> pynum \<Rightarrow> pynum" where
  "num_mod (NInt i) (NInt j) = NInt (i mod j)"
| "num_mod a b = NFloat (num_rat a - num_rat b * of_int \<lfloor>num_rat a / num_rat b\<rfloor>)"

fun repeat_seq :: "int \<Rightarrow> 'a list \<Rightarrow> 'a list" where
  "repeat_seq i xs = concat (replicate (nat i) xs)"

definition on_numbers :: "(pynum \<Rightarrow> pynum \<Rightarrow> pynum) \<Rightarrow> pyobj \<Rightarrow> pyobj \<Rightarrow> pyobj xresult" where
  "on_numbers f x y =
     (case (as_num x, as_num y) of
        (Some a, Some b) \<Rightarrow> Inr (of_num (f a b)) | _ \<Rightarrow> Inl (PyExc TypeError))"

definition or_foreign ::
  "foreign \<Rightarrow> string \<Rightarrow> (pyobj \<Rightarrow> pyobj \<Rightarrow> pyobj xresult) \<Rightarrow> pyobj \<Rightarrow> pyobj \<Rightarrow> pyobj xresult" where
  "or_foreign F name f x y =
     (if is_foreign x \<or> is_foreign y then foreign_binary F name x y else f x y)"

definition op_add :: "foreign \<Rightarrow> pyobj \<Rightarrow> pyobj \<Rightarrow> pyobj xresult" where
  "op_add F = or_foreign F ''+'' (\<lambda>x y.
     case (x, y) of
       (OStr s, OStr t) \<Rightarrow> Inr (OStr (s @ t))
     | (OList xs, OList ys) \<Rightarrow> Inr (OList (xs @ ys))
     | (OTuple xs, OTuple ys) \<Rightarrow> Inr (OTuple (xs @ ys))
     | _ \<Rightarrow> on_numbers num_add x y)"

definition op_sub :: "foreign \<Rightarrow> pyobj \<Rightarrow> pyobj \<Rightarrow> pyobj xresult" where
  "op_sub F = or_foreign F ''-'' (on_numbers num_sub)"

definition repeat_value :: "int \<Rightarrow> pyobj \<Rightarrow> pyobj option" where
  "repeat_value i x =
     (case x of
        OStr s \<Rightarrow> Some (OStr (repeat_seq i s))
      | OList xs \<Rightarrow> Some (OList (repeat_seq i xs))
      | OTuple xs \<Rightarrow> Some (OTuple (repeat_seq i xs))
      | _ \<Rightarrow> None)"

definition op_mul :: "foreign \<Rightarrow> pyobj \<Rightarrow> pyobj \<Rightarrow> pyobj xresult" where
  "op_mul F = or_foreign F ''*'' (\<lambda>x y.
     case (int_of_obj x, repeat_value (case int_of_obj x of Some i \<Rightarrow> i | None \<Rightarrow> 0) y,
           int_of_obj y, repeat_value (case int_of_obj y of Some i \<Rightarrow> i | None \<Rightarrow> 0) x) of
       (Some i, Some z, _, _) \<Rightarrow> Inr z
     | (_, _, Some i, Some z) \<Rightarrow> Inr z
     | _ \<Rightarrow> on_numbers num_mul x y)"

definition op_div :: "foreign \<Rightarrow> pyobj \<Rightarrow> pyobj \<Rightarrow> pyobj xresult" where
  "op_div F x y =
     (if obj_eq F y (OInt 0) then Inl ZeroDivisionError
      else or_foreign F ''/'' (on_numbers (\<lambda>a b. NFloat (num_rat a / num_rat b))) x y)"

text \<open>\<open>%\<close>; on a text it formats, which is left to the parameter.\<close>

definition op_mod :: "foreign \<Rightarrow> pyobj \<Rightarrow> pyobj \<Rightarrow> pyobj xresult" where
  "op_mod F x y =
     (if obj_eq F y (OInt 0) then Inl ZeroDivisionError
      else or_foreign F ''%'' (\<lambda>x y. case x of
          OStr s \<Rightarrow> foreign_binary F ''%'' x y
        | _ \<Rightarrow> on_numbers num_mod x y) x y)"

definition op_in :: "foreign \<Rightarrow> pyobj \<Rightarrow> pyobj \<Rightarrow> bool xresult" where
  "op_in F x c =
     (case c of
        OForeign t n \<Rightarrow> rbind (foreign_binary F ''in'' x c) (\<lambda>z. Inr (obj_bool F z))
      | OStr t \<Rightarrow> (case x of OStr s \<Rightarrow> Inr (sublist s t) | _ \<Rightarrow> Inl (PyExc TypeError))
      | ODict d \<Rightarrow> if hashable F x then Inr (obj_lookup F d x \<noteq> None) else Inl (PyExc TypeError)
      | _ \<Rightarrow> rbind (obj_iter F c) (\<lambda>xs. Inr (obj_member F x xs)))"

text \<open>Identity is certain for the constants; for other objects it is asked of the parameter.\<close>

fun op_is :: "foreign \<Rightarrow> pyobj \<Rightarrow> pyobj \<Rightarrow> bool" where
  "op_is F ONone y = (y = ONone)"
| "op_is F (OBool b) y = (y = OBool b)"
| "op_is F x ONone = False"
| "op_is F x (OBool b) = False"
| "op_is F x y = foreign_same F x y"

definition op_or :: "foreign \<Rightarrow> pyobj \<Rightarrow> pyobj \<Rightarrow> pyobj" where
  "op_or F x y = (if obj_bool F x then x else y)"

definition op_and :: "foreign \<Rightarrow> pyobj \<Rightarrow> pyobj \<Rightarrow> pyobj" where
  "op_and F x y = (if obj_bool F x then y else x)"

fun op_neg :: "foreign \<Rightarrow> pyobj \<Rightarrow> pyobj xresult" where
  "op_neg F (OForeign t n) = foreign_unary F ''-'' (OForeign t n)"
| "op_neg F x = (case as_num x of
      Some (NInt i) \<Rightarrow> Inr (OInt (- i)) | Some (NFloat r) \<Rightarrow> Inr (OFloat (- r))
    | None \<Rightarrow> Inl (PyExc TypeError))"

fun op_pos :: "foreign \<Rightarrow> pyobj \<Rightarrow> pyobj xresult" where
  "op_pos F (OForeign t n) = foreign_unary F ''+'' (OForeign t n)"
| "op_pos F x = (case as_num x of Some a \<Rightarrow> Inr (of_num a) | None \<Rightarrow> Inl (PyExc TypeError))"

section \<open>Indexing\<close>

text \<open>
  \<open>_apply_index\<close>: a key of a mapping, or a position in a list, a tuple or a text; everything that
  goes wrong is an expression error.
\<close>

definition nth_or_error :: "'a list \<Rightarrow> pyobj \<Rightarrow> 'a xresult" where
  "nth_or_error xs ix =
     (case int_of_obj ix of
        None \<Rightarrow> Inl ExpressionError
      | Some i \<Rightarrow> (case py_nth xs i of Inl e \<Rightarrow> Inl ExpressionError | Inr x \<Rightarrow> Inr x))"

fun apply_index :: "foreign \<Rightarrow> pyobj \<Rightarrow> pyobj \<Rightarrow> pyobj xresult" where
  "apply_index F (ODict d) ix =
     (if hashable F ix then (case obj_lookup F d ix of None \<Rightarrow> Inl ExpressionError | Some v \<Rightarrow> Inr v)
      else Inl ExpressionError)"
| "apply_index F (OList xs) ix = nth_or_error xs ix"
| "apply_index F (OTuple xs) ix = nth_or_error xs ix"
| "apply_index F (OStr s) ix = rbind (nth_or_error s ix) (\<lambda>c. Inr (OStr [c]))"
| "apply_index F (OForeign t n) ix = foreign_index F (OForeign t n) ix"
| "apply_index F _ ix = Inl ExpressionError"

end
