(* ===== verification/Expr_Functions.thy ===== *)
theory Expr_Functions
  imports Expr_Values
begin

text \<open>
  The functions of the expression language (\<open>expressions/functions.py\<close>): those on cols,
  mappings, texts, numbers and truth values are defined here; those that call other libraries (times,
  hashes, addresses, encodings, regular expressions, formats, indicator extraction) and those whose
  result depends on the order of a set are a parameter \<open>call\<close>. Every function can also be
  applied item by item with the suffix \<open>.map\<close>.
\<close>

type_synonym libcall = "string \<Rightarrow> pyobj list \<Rightarrow> pyobj xresult"

type_synonym fn = "pyobj list \<Rightarrow> pyobj xresult"

section \<open>Arguments\<close>

text \<open>A wrong number of arguments is a TypeError; a missing method is an AttributeError.\<close>

definition arity_error :: "'a xresult" where
  "arity_error = Inl (PyExc TypeError)"

definition attribute_error :: "'a xresult" where
  "attribute_error = Inl (LibraryError ''AttributeError'')"

fun fun1 :: "(pyobj \<Rightarrow> pyobj xresult) \<Rightarrow> fn" where
  "fun1 f [x] = f x" | "fun1 f _ = arity_error"

fun fun2 :: "(pyobj \<Rightarrow> pyobj \<Rightarrow> pyobj xresult) \<Rightarrow> fn" where
  "fun2 f [x, y] = f x y" | "fun2 f _ = arity_error"

fun fun3 :: "(pyobj \<Rightarrow> pyobj \<Rightarrow> pyobj \<Rightarrow> pyobj xresult) \<Rightarrow> fn" where
  "fun3 f [x, y, z] = f x y z" | "fun3 f _ = arity_error"

text \<open>A function applied to an object of another library is asked of the parameter.\<close>

definition native :: "libcall \<Rightarrow> string \<Rightarrow> fn \<Rightarrow> fn" where
  "native call name f xs0 = (if list_ex is_foreign xs0 then call name xs0 else f xs0)"

definition of_bool_result :: "bool xresult \<Rightarrow> pyobj xresult" where
  "of_bool_result r = rbind r (\<lambda>b. Inr (OBool b))"

fun as_str :: "pyobj \<Rightarrow> string option" where
  "as_str (OStr s) = Some s"
| "as_str _ = None"

text \<open>\<open>sep.join(items)\<close>: every item must be a text.\<close>

fun join_with :: "string \<Rightarrow> string list \<Rightarrow> string" where
  "join_with sep [] = []"
| "join_with sep [x] = x"
| "join_with sep (x # y # xs) = x @ sep @ join_with sep (y # xs)"

definition join_objs :: "string \<Rightarrow> pyobj list \<Rightarrow> pyobj xresult" where
  "join_objs sep xs =
     (if list_all (\<lambda>x. as_str x \<noteq> None) xs then Inr (OStr (join_with sep (List.map_filter as_str xs)))
      else Inl (PyExc TypeError))"

section \<open>Texts\<close>

definition add_prefix :: "foreign \<Rightarrow> pyobj \<Rightarrow> pyobj \<Rightarrow> pyobj xresult" where
  "add_prefix F x pre =
     (if container_iterable F x then
        rbind (obj_iter F x) (\<lambda>xs.
        rbind (map_result (\<lambda>y. rbind (obj_str F pre) (\<lambda>p. rbind (obj_str F y) (\<lambda>s. Inr (OStr (p @ s))))) xs)
          (\<lambda>ys. Inr (OList ys)))
      else rbind (obj_str F pre) (\<lambda>p. rbind (obj_str F x) (\<lambda>s. Inr (OStr (p @ s)))))"

definition add_suffix :: "foreign \<Rightarrow> pyobj \<Rightarrow> pyobj \<Rightarrow> pyobj xresult" where
  "add_suffix F x suf =
     (if container_iterable F x then
        rbind (obj_iter F x) (\<lambda>xs.
        rbind (map_result (\<lambda>y. rbind (obj_str F y) (\<lambda>s. rbind (obj_str F suf) (\<lambda>p. Inr (OStr (s @ p))))) xs)
          (\<lambda>ys. Inr (OList ys)))
      else rbind (obj_str F x) (\<lambda>s. rbind (obj_str F suf) (\<lambda>p. Inr (OStr (s @ p)))))"

text \<open>Bounds of a slice: negative ones count from the end, and both are cut to the length.\<close>

definition cut_bound :: "nat \<Rightarrow> int \<Rightarrow> nat" where
  "cut_bound n i = nat (min (int n) (max 0 (if i < 0 then i + int n else i)))"

definition py_slice :: "int \<Rightarrow> int \<Rightarrow> 'a list \<Rightarrow> 'a list" where
  "py_slice i j xs = drop (cut_bound (length xs) i) (take (cut_bound (length xs) j) xs)"

definition slice_str :: "pyobj \<Rightarrow> pyobj \<Rightarrow> pyobj \<Rightarrow> pyobj xresult" where
  "slice_str x i n =
     (case (int_of_obj i, int_of_obj n) of
        (Some i, Some n) \<Rightarrow>
          (case x of
             OStr s \<Rightarrow> Inr (OStr (py_slice i (i + n) s))
           | OList xs \<Rightarrow> Inr (OList (py_slice i (i + n) xs))
           | OTuple xs \<Rightarrow> Inr (OTuple (py_slice i (i + n) xs))
           | _ \<Rightarrow> Inl (PyExc TypeError))
      | _ \<Rightarrow> Inl (PyExc TypeError))"

definition raise_char :: "char \<Rightarrow> char" where
  "raise_char c = (let n = of_char c :: nat in if 97 \<le> n \<and> n \<le> 122 then char_of (n - 32) else c)"

definition uppercase :: "pyobj \<Rightarrow> pyobj xresult" where
  "uppercase x = (case as_str x of Some s \<Rightarrow> Inr (OStr (map raise_char s)) | None \<Rightarrow> attribute_error)"

definition lowercase :: "pyobj \<Rightarrow> pyobj xresult" where
  "lowercase x = (case as_str x of Some s \<Rightarrow> Inr (OStr (map lower_char s)) | None \<Rightarrow> attribute_error)"

definition concat_strings :: "pyobj list \<Rightarrow> pyobj xresult" where
  "concat_strings items = join_objs [] items"

text \<open>\<open>unescape_string\<close> of \<open>parse.py\<close>: backslash sequences for four characters.\<close>

definition unescaped :: "char \<Rightarrow> char option" where
  "unescaped c =
     (if c = CHR ''n'' then Some (CHR 10) else if c = CHR ''t'' then Some (CHR 9)
      else if c = CHR ''r'' then Some (CHR 13) else if c = CHR 92 then Some (CHR 92) else None)"

fun unescape_string :: "string \<Rightarrow> string" where
  "unescape_string (c # d # s) =
     (if c = CHR 92 then
        (case unescaped d of Some e \<Rightarrow> e # unescape_string s | None \<Rightarrow> c # unescape_string (d # s))
      else c # unescape_string (d # s))"
| "unescape_string s = s"

definition join_strings :: "foreign \<Rightarrow> pyobj \<Rightarrow> pyobj \<Rightarrow> pyobj xresult" where
  "join_strings F items sep =
     (case as_str sep of
        None \<Rightarrow> Inl (PyExc TypeError)
      | Some s \<Rightarrow> rbind (obj_iter F items) (join_objs (unescape_string s)))"

section \<open>Lists\<close>

text \<open>\<open>sequence[index]\<close> with the exceptions of the language.\<close>

definition nth_obj :: "('a \<Rightarrow> pyobj) \<Rightarrow> 'a list \<Rightarrow> pyobj \<Rightarrow> pyobj xresult" where
  "nth_obj f xs ix =
     (case int_of_obj ix of
        None \<Rightarrow> Inl (PyExc TypeError)
      | Some i \<Rightarrow> (case py_nth xs i of Inl e \<Rightarrow> Inl (PyExc e) | Inr x \<Rightarrow> Inr (f x)))"

fun subscript :: "foreign \<Rightarrow> pyobj \<Rightarrow> pyobj \<Rightarrow> pyobj xresult" where
  "subscript F (ODict d) ix =
     (if hashable F ix then (case obj_lookup F d ix of None \<Rightarrow> Inl (PyExc KeyError) | Some v \<Rightarrow> Inr v)
      else Inl (PyExc TypeError))"
| "subscript F (OList xs) ix = nth_obj id xs ix"
| "subscript F (OTuple xs) ix = nth_obj id xs ix"
| "subscript F (OStr s) ix = nth_obj (\<lambda>c. OStr [c]) s ix"
| "subscript F x ix = Inl (PyExc TypeError)"

definition obj_filter :: "foreign \<Rightarrow> (pyobj \<Rightarrow> bool) \<Rightarrow> pyobj \<Rightarrow> pyobj xresult" where
  "obj_filter F P x = rbind (obj_iter F x) (\<lambda>xs. Inr (OList (filter P xs)))"

definition compact :: "foreign \<Rightarrow> pyobj \<Rightarrow> pyobj xresult" where
  "compact F = obj_filter F (\<lambda>x. x \<noteq> ONone)"

definition drop_nulls :: "foreign \<Rightarrow> pyobj \<Rightarrow> pyobj xresult" where
  "drop_nulls F = obj_filter F (\<lambda>x. x \<noteq> ONone \<and> \<not> obj_eq F x (OStr []))"

definition contains_any_of :: "foreign \<Rightarrow> pyobj \<Rightarrow> pyobj \<Rightarrow> bool xresult" where
  "contains_any_of F a b =
     rbind (obj_iter F a) (\<lambda>xs.
     rbind (raise_if (\<not> list_all (hashable F) xs) (PyExc TypeError)) (\<lambda>_.
     rbind (obj_iter F b) (\<lambda>ys.
     rbind (raise_if (\<not> list_all (hashable F) ys) (PyExc TypeError)) (\<lambda>_.
       Inr (list_ex (\<lambda>x. obj_member F x ys) xs)))))"

text \<open>\<open>_custom_chain\<close>; containers of other libraries are flattened by the parameter.\<close>

fun custom_chain :: "libcall \<Rightarrow> foreign \<Rightarrow> pyobj \<Rightarrow> pyobj list xresult" where
  "custom_chain call F (OList xs) = rbind (map_result (custom_chain call F) xs) (\<lambda>ys. Inr (concat ys))"
| "custom_chain call F (OTuple xs) = rbind (map_result (custom_chain call F) xs) (\<lambda>ys. Inr (concat ys))"
| "custom_chain call F x =
     (if container_iterable F x
      then rbind (call ''flatten'' [x]) (\<lambda>y. case y of OList ys \<Rightarrow> Inr ys | _ \<Rightarrow> Inl (PyExc TypeError))
      else Inr [x])"

definition flatten :: "libcall \<Rightarrow> foreign \<Rightarrow> pyobj \<Rightarrow> pyobj xresult" where
  "flatten call F x =
     rbind (obj_iter F x) (\<lambda>xs.
     rbind (map_result (custom_chain call F) xs) (\<lambda>ys. Inr (OList (concat ys))))"

text \<open>\<open>zip\<close> stops at the shortest of its arguments; no arguments give nothing.\<close>

fun zip_lists :: "'a list list \<Rightarrow> 'a list list" where
  "zip_lists [] = []"
| "zip_lists [xs] = map (\<lambda>x. [x]) xs"
| "zip_lists (xs # ys # zss) = map (\<lambda>(x, row). x # row) (zip xs (zip_lists (ys # zss)))"

definition zip_iterables :: "foreign \<Rightarrow> pyobj list \<Rightarrow> pyobj xresult" where
  "zip_iterables F xs0 =
     rbind (map_result (obj_iter F) xs0) (\<lambda>xss. Inr (OList (map OTuple (zip_lists xss))))"

definition iter_product :: "foreign \<Rightarrow> pyobj list \<Rightarrow> pyobj xresult" where
  "iter_product F xs0 =
     rbind (map_result (obj_iter F) xs0) (\<lambda>xss. Inr (OList (map OTuple (product_lists xss))))"

function range_list :: "int \<Rightarrow> int \<Rightarrow> int \<Rightarrow> int list" where
  "range_list i j k =
     (if (0 < k \<and> i < j) \<or> (k < 0 \<and> j < i) then i # range_list (i + k) j k else [])"
  by pat_completeness auto
termination
  by (relation "measure (\<lambda>(i, j, k). if 0 < k then nat (j - i) else nat (i - j))") auto

declare range_list.simps [simp del]

definition range_of :: "int \<Rightarrow> int \<Rightarrow> int \<Rightarrow> pyobj xresult" where
  "range_of i j k =
     (if k = 0 then Inl (PyExc ValueError) else Inr (OList (map OInt (range_list i j k))))"

fun create_range :: fn where
  "create_range [i, j] =
     (case (int_of_obj i, int_of_obj j) of (Some i, Some j) \<Rightarrow> range_of i j 1 | _ \<Rightarrow> Inl (PyExc TypeError))"
| "create_range [i, j, k] =
     (case (int_of_obj i, int_of_obj j, int_of_obj k) of
        (Some i, Some j, Some k) \<Rightarrow> range_of i j k | _ \<Rightarrow> Inl (PyExc TypeError))"
| "create_range _ = arity_error"

section \<open>Mappings\<close>

fun as_dict :: "pyobj \<Rightarrow> (pyobj \<times> pyobj) list option" where
  "as_dict (ODict d) = Some d"
| "as_dict _ = None"

definition with_dict :: "pyobj \<Rightarrow> ((pyobj \<times> pyobj) list \<Rightarrow> pyobj xresult) \<Rightarrow> pyobj xresult" where
  "with_dict x f = (case as_dict x of None \<Rightarrow> attribute_error | Some d \<Rightarrow> f d)"

definition merge_dicts :: "foreign \<Rightarrow> pyobj \<Rightarrow> pyobj xresult" where
  "merge_dicts F x =
     rbind (obj_iter F x) (\<lambda>xs.
     rbind (fold_result (\<lambda>y d. case as_dict y of
         None \<Rightarrow> attribute_error | Some e \<Rightarrow> fold_result (\<lambda>(k, v). obj_set F k v) e d) xs [])
       (\<lambda>d. Inr (ODict d)))"

definition keys_of :: "pyobj \<Rightarrow> pyobj xresult" where
  "keys_of x = with_dict x (\<lambda>d. Inr (OList (map fst d)))"

definition values_of :: "pyobj \<Rightarrow> pyobj xresult" where
  "values_of x = with_dict x (\<lambda>d. Inr (OList (map snd d)))"

definition dict_lookup :: "foreign \<Rightarrow> pyobj \<Rightarrow> pyobj \<Rightarrow> pyobj xresult" where
  "dict_lookup F x k =
     with_dict x (\<lambda>d. if hashable F k
       then Inr (case obj_lookup F d k of None \<Rightarrow> ONone | Some v \<Rightarrow> v) else Inl (PyExc TypeError))"

definition zip_map :: "foreign \<Rightarrow> pyobj \<Rightarrow> pyobj \<Rightarrow> pyobj xresult" where
  "zip_map F x y =
     rbind (obj_iter F x) (\<lambda>ks. rbind (obj_iter F y) (\<lambda>vs.
     rbind (obj_dict F (zip ks vs)) (\<lambda>d. Inr (ODict d))))"

definition key_error_to_value :: "xerror \<Rightarrow> xerror" where
  "key_error_to_value e = (if e = PyExc KeyError then PyExc ValueError else e)"

definition map_dict_keys :: "foreign \<Rightarrow> pyobj \<Rightarrow> pyobj \<Rightarrow> pyobj xresult" where
  "map_dict_keys F x ks =
     with_dict x (\<lambda>d.
       rbind (fold_result (\<lambda>(k, v) e. case subscript F ks k of
           Inl err \<Rightarrow> Inl (key_error_to_value err) | Inr k' \<Rightarrow> obj_set F k' v e) d [])
         (\<lambda>e. Inr (ODict e)))"

section \<open>Numbers, comparison, truth\<close>

definition sum_from :: "foreign \<Rightarrow> pyobj \<Rightarrow> pyobj \<Rightarrow> pyobj xresult" where
  "sum_from F x init =
     (case init of
        OStr s \<Rightarrow> Inl (PyExc TypeError)
      | _ \<Rightarrow> rbind (obj_iter F x) (\<lambda>xs. fold_result (\<lambda>y acc. op_add F acc y) xs init))"

fun sum_fn :: "foreign \<Rightarrow> fn" where
  "sum_fn F [x] = sum_from F x (OInt 0)"
| "sum_fn F [x, init] = sum_from F x init"
| "sum_fn F _ = arity_error"

definition min_fn :: "foreign \<Rightarrow> pyobj \<Rightarrow> pyobj \<Rightarrow> pyobj xresult" where
  "min_fn F a b = rbind (obj_compare F Less b a) (\<lambda>c. Inr (if c then b else a))"

definition max_fn :: "foreign \<Rightarrow> pyobj \<Rightarrow> pyobj \<Rightarrow> pyobj xresult" where
  "max_fn F a b = rbind (obj_compare F Greater b a) (\<lambda>c. Inr (if c then b else a))"

definition compare_fn :: "foreign \<Rightarrow> comparison \<Rightarrow> pyobj \<Rightarrow> pyobj \<Rightarrow> pyobj xresult" where
  "compare_fn F c x y = of_bool_result (obj_compare F c x y)"

definition op_not_in :: "foreign \<Rightarrow> pyobj \<Rightarrow> pyobj \<Rightarrow> bool xresult" where
  "op_not_in F x c = rbind (op_in F x c) (\<lambda>b. Inr (\<not> b))"

definition len_fn :: "foreign \<Rightarrow> (nat \<Rightarrow> pyobj) \<Rightarrow> pyobj \<Rightarrow> pyobj xresult" where
  "len_fn F f x = rbind (obj_len F x) (\<lambda>n. Inr (f n))"

section \<open>The table\<close>

definition text_functions :: "libcall \<Rightarrow> foreign \<Rightarrow> (string \<times> fn) list" where
  "text_functions call F =
     [(''concat'', native call ''concat'' concat_strings),
      (''join'', native call ''join'' (fun2 (join_strings F))),
      (''lowercase'', native call ''lowercase'' (fun1 lowercase)),
      (''prefix'', fun2 (add_prefix F)),
      (''slice'', native call ''slice'' (fun3 slice_str)),
      (''suffix'', fun2 (add_suffix F)),
      (''uppercase'', native call ''uppercase'' (fun1 uppercase))]"

definition comparison_functions :: "foreign \<Rightarrow> (string \<times> fn) list" where
  "comparison_functions F =
     [(''greater_than_or_equal'', fun2 (compare_fn F GreaterEq)),
      (''greater_than'', fun2 (compare_fn F Greater)),
      (''is_equal'', fun2 (\<lambda>x y. Inr (OBool (obj_eq F x y)))),
      (''is_null'', fun1 (\<lambda>x. Inr (OBool (x = ONone)))),
      (''less_than_or_equal'', fun2 (compare_fn F LessEq)),
      (''less_than'', fun2 (compare_fn F Less)),
      (''is_not_equal'', fun2 (\<lambda>x y. Inr (OBool (\<not> obj_eq F x y)))),
      (''is_not_null'', fun1 (\<lambda>x. Inr (OBool (x \<noteq> ONone)))),
      (''not_equal'', fun2 (\<lambda>x y. Inr (OBool (\<not> obj_eq F x y)))),
      (''not_null'', fun1 (\<lambda>x. Inr (OBool (x \<noteq> ONone))))]"

definition array_functions :: "libcall \<Rightarrow> foreign \<Rightarrow> (string \<times> fn) list" where
  "array_functions call F =
     [(''compact'', fun1 (compact F)),
      (''contains'', fun2 (\<lambda>x c. of_bool_result (op_in F x c))),
      (''does_not_contain'', fun2 (\<lambda>x c. of_bool_result (op_not_in F x c))),
      (''contains_any_of'', fun2 (\<lambda>a b. of_bool_result (contains_any_of F a b))),
      (''contains_none_of'', fun2 (\<lambda>a b. rbind (contains_any_of F a b) (\<lambda>c. Inr (OBool (\<not> c))))),
      (''flatten'', native call ''flatten'' (fun1 (flatten call F))),
      (''drop_nulls'', fun1 (drop_nulls F)),
      (''is_empty'', fun1 (len_fn F (\<lambda>n. OBool (n = 0)))),
      (''is_in'', fun2 (\<lambda>x c. of_bool_result (op_in F x c))),
      (''length'', fun1 (len_fn F (\<lambda>n. OInt (int n)))),
      (''not_empty'', fun1 (len_fn F (\<lambda>n. OBool (0 < n)))),
      (''is_not_empty'', fun1 (len_fn F (\<lambda>n. OBool (0 < n)))),
      (''not_in'', fun2 (\<lambda>x c. of_bool_result (op_not_in F x c))),
      (''is_not_in'', fun2 (\<lambda>x c. of_bool_result (op_not_in F x c))),
      (''zip_map'', fun2 (zip_map F)),
      (''at'', native call ''at'' (fun2 (subscript F)))]"

definition number_functions :: "libcall \<Rightarrow> foreign \<Rightarrow> (string \<times> fn) list" where
  "number_functions call F =
     [(''add'', fun2 (op_add F)), (''sub'', fun2 (op_sub F)), (''mul'', fun2 (op_mul F)),
      (''div'', fun2 (op_div F)), (''mod'', fun2 (op_mod F)), (''sum'', sum_fn F),
      (''min'', fun2 (min_fn F)), (''max'', fun2 (max_fn F)),
      (''zip'', zip_iterables F), (''iter_product'', iter_product F),
      (''range'', native call ''range'' create_range)]"

definition object_functions :: "libcall \<Rightarrow> foreign \<Rightarrow> (string \<times> fn) list" where
  "object_functions call F =
     [(''lookup'', native call ''lookup'' (fun2 (dict_lookup F))),
      (''map_keys'', native call ''map_keys'' (fun2 (map_dict_keys F))),
      (''merge'', fun1 (merge_dicts F)),
      (''to_keys'', native call ''to_keys'' (fun1 keys_of)),
      (''to_values'', native call ''to_values'' (fun1 values_of)),
      (''and'', fun2 (\<lambda>x y. Inr (op_and F x y))),
      (''or'', fun2 (\<lambda>x y. Inr (op_or F x y))),
      (''not'', fun1 (\<lambda>x. Inr (OBool (\<not> obj_bool F x))))]"

definition LIBRARY_FUNCTIONS :: "string list" where
  "LIBRARY_FUNCTIONS =
     [''parse_csv'', ''capitalize'', ''endswith'', ''format'', ''replace'', ''slugify'', ''split'',
      ''startswith'', ''strip'', ''titleize'', ''url_encode'', ''url_decode'', ''regex_extract'',
      ''regex_match'', ''regex_not_match'', ''difference'', ''intersection'', ''symmetric_difference'',
      ''union'', ''unique'', ''pow'', ''uuid4'', ''flatten_dict'', ''tabulate'', ''to_markdown_list'',
      ''to_markdown_table'', ''to_markdown_tasks'', ''is_json'', ''deserialize_json'',
      ''deserialize_ndjson'', ''deserialize_yaml'', ''prettify_json'', ''serialize'', ''serialize_json'',
      ''serialize_yaml'', ''datetime'', ''days_between'', ''days'', ''format_datetime'',
      ''from_timestamp'', ''get_day_of_week'', ''get_day'', ''get_hour'', ''get_minute'', ''get_month'',
      ''get_second'', ''get_year'', ''hours_between'', ''hours'', ''is_working_hours'',
      ''minutes_between'', ''minutes'', ''now'', ''parse_datetime'', ''parse_time'', ''seconds_between'',
      ''seconds'', ''set_timezone'', ''to_datetime'', ''to_isoformat'', ''to_time'', ''to_timestamp'',
      ''today'', ''unset_timezone'', ''utcnow'', ''wall_clock'', ''weeks_between'', ''weeks'',
      ''windows_filetime'', ''to_base64'', ''from_base64'', ''to_base64url'', ''from_base64url'',
      ''hash_md5'', ''hash_sha1'', ''hash_sha256'', ''hash_sha512'', ''ipv4_in_subnet'',
      ''ipv6_in_subnet'', ''ipv4_is_public'', ''ipv6_is_public'', ''check_ip_version'',
      ''get_interaction'', ''extract_asns'', ''extract_cves'', ''extract_domains'', ''extract_emails'',
      ''extract_md5'', ''extract_sha1'', ''extract_sha256'', ''extract_sha512'', ''extract_ip'',
      ''extract_ipv4'', ''extract_ipv6'', ''extract_mac'', ''extract_urls'', ''normalize_email'']"

definition FUNCTION_MAPPING :: "libcall \<Rightarrow> foreign \<Rightarrow> (string, fn) dict" where
  "FUNCTION_MAPPING call F =
     text_functions call F @ comparison_functions F @ array_functions call F @
     number_functions call F @ object_functions call F @ map (\<lambda>n. (n, call n)) LIBRARY_FUNCTIONS"

section \<open>Application item by item\<close>

text \<open>
  \<open>broadcast_map\<close> of \<open>mappable\<close>: the iterable arguments are walked in step, the others
  are repeated; the number of calls is the length of the shortest iterable argument. Without one the
  function is called once.
\<close>

fun shortest :: "nat list \<Rightarrow> nat" where
  "shortest [] = 0"
| "shortest [n] = n"
| "shortest (n # m # ns) = min n (shortest (m # ns))"

definition broadcast_lists :: "foreign \<Rightarrow> pyobj list \<Rightarrow> (pyobj list option) list xresult" where
  "broadcast_lists F xs0 =
     map_result (\<lambda>x. if container_iterable F x then rbind (obj_iter F x) (\<lambda>xs. Inr (Some xs)) else Inr None) xs0"

definition broadcast_rows :: "pyobj list \<Rightarrow> (pyobj list option) list \<Rightarrow> pyobj list list" where
  "broadcast_rows xs0 cols =
     map (\<lambda>i. map (\<lambda>(x, l). case l of Some xs \<Rightarrow> xs ! i | None \<Rightarrow> x) (zip xs0 cols))
       [0..<shortest (map length (List.map_filter id cols))]"

definition broadcast_map :: "foreign \<Rightarrow> fn \<Rightarrow> fn" where
  "broadcast_map F f xs0 =
     (if \<not> list_ex (container_iterable F) xs0 then rbind (f xs0) (\<lambda>y. Inr (OList [y]))
      else rbind (broadcast_lists F xs0) (\<lambda>cols.
           rbind (map_result f (broadcast_rows xs0 cols)) (\<lambda>ys. Inr (OList ys))))"

end
