(* ===== verification/Expr_Template.thy ===== *)
theory Expr_Template
  imports Expr_Values
begin

text \<open>
  Templates in texts and the evaluation of templated objects: \<open>TEMPLATE_STRING\<close> of
  \<open>expressions/patterns.py\<close> as a matcher, \<open>traverse_expressions\<close> of \<open>parse.py\<close>, and
  \<open>eval_templated_object\<close> of \<open>expressions/eval.py\<close>, over the evaluation of a single
  expression \<open>ev\<close>. The lemmas say what the matcher finds, and that the evaluation of an object
  uses \<open>ev\<close> exactly for the expressions that the traversal yields.
\<close>

section \<open>The pattern\<close>

text \<open>The end of a template: white space, then two closing_braces braces; the rest of the text is left.\<close>

definition closing_braces :: "string \<Rightarrow> string option" where
  "closing_braces s =
     (case dropWhile py_space s of
        c # d # rest \<Rightarrow> if c = CHR ''}'' \<and> d = CHR ''}'' then Some rest else None
      | _ \<Rightarrow> None)"

text \<open>\<open>.+?\<close>: the shortest expression of at least one character before an end.\<close>

fun lazy_expr :: "string \<Rightarrow> (string \<times> string) option" where
  "lazy_expr [] = None"
| "lazy_expr (c # s) =
     (case closing_braces s of
        Some rest \<Rightarrow> Some ([c], rest)
      | None \<Rightarrow> (case lazy_expr s of None \<Rightarrow> None | Some (e, rest) \<Rightarrow> Some (c # e, rest)))"

text \<open>The white space before it is taken greedily, and given back when nothing matches.\<close>

fun skip_space :: "nat \<Rightarrow> string \<Rightarrow> (string \<times> string) option" where
  "skip_space 0 s = lazy_expr s"
| "skip_space (Suc n) s =
     (case lazy_expr (drop (Suc n) s) of Some r \<Rightarrow> Some r | None \<Rightarrow> skip_space n s)"

definition template_start :: string where
  "template_start = ''${{''"

definition match_template :: "string \<Rightarrow> (string \<times> string) option" where
  "match_template s =
     (if prefix template_start s
      then skip_space (length (takeWhile py_space (drop 3 s))) (drop 3 s) else None)"

text \<open>\<open>finditer\<close>, \<open>findall\<close> and \<open>sub\<close> walk through a text from match to match.\<close>

datatype template_part = Plain char | Template (template_text: string) (template_expr: string)

lemma closing_length: "closing_braces s = Some rest \<Longrightarrow> length rest < length s"
proof -
  assume "closing_braces s = Some rest"
  then have "length (dropWhile py_space s) = length rest + 2"
    by (auto simp: closing_braces_def split: list.splits if_splits)
  moreover have "length (dropWhile py_space s) \<le> length s" by (rule length_dropWhile_le)
  ultimately show ?thesis by linarith
qed

lemma lazy_expr_length: "lazy_expr s = Some (e, rest) \<Longrightarrow> length rest < length s"
  by (induction s arbitrary: e) (auto split: option.splits dest: closing_length)

lemma skip_space_length: "skip_space n s = Some (e, rest) \<Longrightarrow> length rest < length s"
  by (induction n) (force split: option.splits dest: lazy_expr_length)+

lemma match_template_length: "match_template s = Some (e, rest) \<Longrightarrow> length rest < length s"
  by (auto simp: match_template_def split: if_splits dest!: skip_space_length)

function template_parts :: "string \<Rightarrow> template_part list" where
  "template_parts [] = []"
| "template_parts (c # s) =
     (case match_template (c # s) of
        Some (e, rest) \<Rightarrow> Template (take (length (c # s) - length rest) (c # s)) e # template_parts rest
      | None \<Rightarrow> Plain c # template_parts s)"
  by pat_completeness auto

termination
  by (relation "measure length") (auto dest: match_template_length)

fun is_template :: "template_part \<Rightarrow> bool" where
  "is_template (Template t e) = True"
| "is_template (Plain c) = False"

definition template_exprs :: "string \<Rightarrow> string list" where
  "template_exprs s = map template_expr (filter is_template (template_parts s))"

definition template_count :: "string \<Rightarrow> nat" where
  "template_count s = length (filter is_template (template_parts s))"

definition is_template_only :: "string \<Rightarrow> bool" where
  "is_template_only s = (prefix template_start s \<and> suffix ''}}'' s)"

section \<open>Traversal\<close>

fun traverse_nodes :: "pyobj \<Rightarrow> pyobj list" where
  "traverse_nodes (ODict d) = concat (map (\<lambda>(k, v). k # traverse_nodes v) d)"
| "traverse_nodes (OList xs) = concat (map traverse_nodes xs)"
| "traverse_nodes x = [x]"

definition traverse_expressions :: "pyobj \<Rightarrow> string list" where
  "traverse_expressions x =
     concat (map (\<lambda>y. case y of OStr s \<Rightarrow> template_exprs s | _ \<Rightarrow> []) (traverse_nodes x))"

section \<open>Evaluation\<close>

type_synonym evaluator = "string \<Rightarrow> pyobj xresult"

text \<open>\<open>TemplateExpression(template).result()\<close>.\<close>

definition template_result :: "evaluator \<Rightarrow> string \<Rightarrow> pyobj xresult" where
  "template_result ev s =
     (case match_template s of None \<Rightarrow> Inl ExpressionError | Some (e, rest) \<Rightarrow> ev e)"

text \<open>\<open>_eval_expression_op\<close>: a value that has no text is a ValueError.\<close>

definition eval_expression_op :: "foreign \<Rightarrow> evaluator \<Rightarrow> string \<Rightarrow> string xresult" where
  "eval_expression_op F ev t =
     rbind (template_result ev t) (\<lambda>x.
       case obj_str F x of Inl e \<Rightarrow> Inl (PyExc ValueError) | Inr s \<Rightarrow> Inr s)"

fun evaluated_part :: "foreign \<Rightarrow> evaluator \<Rightarrow> template_part \<Rightarrow> string xresult" where
  "evaluated_part F ev (Plain c) = Inr [c]"
| "evaluated_part F ev (Template t e) = eval_expression_op F ev t"

definition eval_line :: "foreign \<Rightarrow> evaluator \<Rightarrow> string \<Rightarrow> pyobj xresult" where
  "eval_line F ev s =
     (if is_template_only s \<and> template_count s = 1 then template_result ev s
      else rbind (map_result (evaluated_part F ev) (template_parts s)) (\<lambda>ts. Inr (OStr (concat ts))))"

lemma fold_result_cong [fundef_cong]:
  "xs = ys \<Longrightarrow> s = t \<Longrightarrow> (\<And>x s. x \<in> set ys \<Longrightarrow> f x s = g x s) \<Longrightarrow>
     fold_result f xs s = fold_result g ys t"
  by (induction xs arbitrary: ys s t) (auto intro!: rbind_cong)

text \<open>
  \<open>_eval_templated_obj_rec\<close>: texts are evaluated, lists and dictionaries are walked through, with
  the keys of dictionaries; any other value stays.
\<close>

fun eval_key :: "foreign \<Rightarrow> evaluator \<Rightarrow> pyobj \<Rightarrow> pyobj xresult" where
  "eval_key F ev (OStr s) = eval_line F ev s"
| "eval_key F ev k = Inr k"

fun eval_templated_object :: "foreign \<Rightarrow> evaluator \<Rightarrow> pyobj \<Rightarrow> pyobj xresult" where
  "eval_templated_object F ev (OStr s) = eval_line F ev s"
| "eval_templated_object F ev (OList xs) =
     rbind (map_result (eval_templated_object F ev) xs) (\<lambda>ys. Inr (OList ys))"
| "eval_templated_object F ev (ODict d) =
     rbind (fold_result (\<lambda>(k, v) e. rbind (eval_key F ev k) (\<lambda>k'.
              rbind (eval_templated_object F ev v) (\<lambda>v'. obj_set F k' v' e))) d [])
       (\<lambda>e. Inr (ODict e))"
| "eval_templated_object F ev x = Inr x"

section \<open>What the matcher finds\<close>

text \<open>An expression is found exactly if some end follows after at least one character.\<close>

lemma lazy_expr_iff:
  "lazy_expr s \<noteq> None \<longleftrightarrow> (\<exists>i. 0 < i \<and> i \<le> length s \<and> closing_braces (drop i s) \<noteq> None)"
proof (induction s)
  case Nil
  show ?case by simp
next
  case (Cons c s)
  have "lazy_expr (c # s) \<noteq> None \<longleftrightarrow> closing_braces s \<noteq> None \<or> lazy_expr s \<noteq> None"
    by (auto split: option.splits)
  also have "\<dots> \<longleftrightarrow> (\<exists>i. i \<le> length s \<and> closing_braces (drop i s) \<noteq> None)"
    unfolding Cons.IH by (metis drop0 gr0I le0)
  also have "\<dots> \<longleftrightarrow> (\<exists>i. 0 < i \<and> i \<le> length (c # s) \<and> closing_braces (drop i (c # s)) \<noteq> None)"
    by (metis Suc_le_mono drop_Suc_Cons length_Cons not0_implies_Suc less_irrefl zero_less_Suc)
  finally show ?case .
qed

lemma skip_space_iff:
  "n \<le> length s \<Longrightarrow> skip_space n s \<noteq> None \<longleftrightarrow> lazy_expr s \<noteq> None"
proof (induction n)
  case (Suc n)
  have "lazy_expr s \<noteq> None" if "lazy_expr (drop (Suc n) s) \<noteq> None"
  proof -
    from that obtain i where "0 < i" "i \<le> length (drop (Suc n) s)" "closing_braces (drop i (drop (Suc n) s)) \<noteq> None"
      unfolding lazy_expr_iff by blast
    with Suc.prems show ?thesis
      unfolding lazy_expr_iff by (intro exI [of _ "i + Suc n"]) auto
  qed
  with Suc show ?case by (auto split: option.splits)
qed simp

text \<open>A text that begins like a template and holds one anywhere is matched at its beginning.\<close>

lemma match_template_iff:
  "match_template s \<noteq> None \<longleftrightarrow> prefix template_start s \<and> lazy_expr (drop 3 s) \<noteq> None"
  using skip_space_iff [OF length_takeWhile_le] by (auto simp: match_template_def simp del: not_None_eq)

lemma match_later:
  assumes "prefix template_start s" and "match_template (drop j s) \<noteq> None"
  shows "match_template s \<noteq> None"
proof -
  from assms(2) obtain i where i: "0 < i" "i \<le> length (drop 3 (drop j s))"
    "closing_braces (drop i (drop 3 (drop j s))) \<noteq> None"
    unfolding match_template_iff lazy_expr_iff by blast
  then have "0 < i + j" "i + j \<le> length (drop 3 s)" "closing_braces (drop (i + j) (drop 3 s)) \<noteq> None"
    by (auto simp: ac_simps)
  with assms(1) show ?thesis unfolding match_template_iff lazy_expr_iff by blast
qed

text \<open>What is left after a match is a suffix of the text.\<close>

lemma closing_suffix: "closing_braces s = Some rest \<Longrightarrow> suffix rest s"
proof -
  assume "closing_braces s = Some rest"
  then have "\<exists>c d. dropWhile py_space s = [c, d] @ rest"
    by (auto simp: closing_braces_def split: list.splits if_splits)
  then have "suffix rest (dropWhile py_space s)" by (auto simp: suffix_def)
  then show ?thesis using suffix_dropWhile suffix_order.trans by blast
qed

lemma lazy_expr_suffix: "lazy_expr s = Some (e, rest) \<Longrightarrow> suffix rest s"
  by (induction s arbitrary: e) (auto split: option.splits dest: closing_suffix intro: suffix_ConsI)

lemma skip_space_suffix: "skip_space n s = Some (e, rest) \<Longrightarrow> suffix rest s"
proof (induction n)
  case (Suc n)
  then show ?case
    by (auto split: option.splits dest!: lazy_expr_suffix intro: suffix_order.trans [OF _ suffix_drop])
qed (auto dest: lazy_expr_suffix)

lemma match_template_suffix: "match_template s = Some (e, rest) \<Longrightarrow> \<exists>n. rest = drop n s"
proof -
  assume "match_template s = Some (e, rest)"
  then have "suffix rest (drop 3 s)"
    by (auto simp: match_template_def split: if_splits dest!: skip_space_suffix)
  then have "suffix rest s" using suffix_drop suffix_order.trans by blast
  then obtain pre where "s = pre @ rest" by (auto simp: suffix_def)
  then have "rest = drop (length pre) s" by simp
  then show ?thesis by blast
qed

lemma parts_matched:
  "Template t e \<in> set (template_parts s) \<Longrightarrow>
     \<exists>j rest. match_template (drop j s) = Some (e, rest) \<and> t = take (length (drop j s) - length rest) (drop j s)"
proof (induction s rule: template_parts.induct)
  case (2 c s)
  show ?case
  proof (cases "match_template (c # s)")
    case None
    with "2.prems" have "Template t e \<in> set (template_parts s)" by simp
    from "2.IH"(1) [OF None this] show ?thesis by (metis drop_Suc_Cons)
  next
    case (Some m)
    obtain e' rest where m: "m = (e', rest)" by force
    show ?thesis
    proof (cases "Template t e \<in> set (template_parts rest)")
      case True
      from "2.IH"(2) [OF Some m [symmetric] True] obtain j rest' where j:
        "match_template (drop j rest) = Some (e, rest')"
        "t = take (length (drop j rest) - length rest') (drop j rest)" by blast
      have "\<exists>n. rest = drop n (c # s)" using Some m by (auto simp: match_template_suffix)
      with j show ?thesis by (metis drop_drop)
    next
      case False
      with "2.prems" Some m show ?thesis by (intro exI [of _ 0]) auto
    qed
  qed
qed simp

text \<open>
  A template that is matched again, cut out of its text, gives the same expression: the match takes
  the earliest end, and no text behind the end has a part in it.
\<close>

lemma closing_Some: "closing_braces s = Some rest \<longleftrightarrow> (\<exists>ws. s = ws @ ''}}'' @ rest \<and> (\<forall>c \<in> set ws. py_space c))"
proof
  assume "closing_braces s = Some rest"
  then have "dropWhile py_space s = ''}}'' @ rest" by (auto simp: closing_braces_def split: list.splits if_splits)
  then have "s = takeWhile py_space s @ ''}}'' @ rest" by (metis takeWhile_dropWhile_id)
  then show "\<exists>ws. s = ws @ ''}}'' @ rest \<and> (\<forall>c \<in> set ws. py_space c)" by (meson set_takeWhileD)
next
  assume "\<exists>ws. s = ws @ ''}}'' @ rest \<and> (\<forall>c \<in> set ws. py_space c)"
  then obtain ws where "s = ws @ ''}}'' @ rest" "\<forall>c \<in> set ws. py_space c" by blast
  then have "dropWhile py_space s = ''}}'' @ rest" by (simp add: dropWhile_append2 py_space_def)
  then show "closing_braces s = Some rest" by (simp add: closing_braces_def)
qed

lemma closing_append: "closing_braces (x @ y) = None \<Longrightarrow> closing_braces x = None"
proof (rule ccontr)
  assume none: "closing_braces (x @ y) = None" and "closing_braces x \<noteq> None"
  then obtain r ws where "x = ws @ ''}}'' @ r" "\<forall>c \<in> set ws. py_space c"
    using closing_Some by blast
  then have "closing_braces (x @ y) = Some (r @ y)" unfolding closing_Some by auto
  with none show False by simp
qed

lemma closing_cut: "closing_braces (x @ rest) = Some rest \<Longrightarrow> closing_braces x = Some []"
  unfolding closing_Some by (metis append.assoc append_Nil2 append_same_eq)

lemma lazy_append: "lazy_expr (x @ y) = None \<Longrightarrow> lazy_expr x = None"
proof (induction x)
  case (Cons c x)
  then show ?case using closing_append [of x y] by (auto split: option.splits)
qed simp

lemma lazy_cut: "lazy_expr (x @ rest) = Some (e, rest) \<Longrightarrow> lazy_expr x = Some (e, [])"
proof (induction x arbitrary: e)
  case Nil
  then show ?case using lazy_expr_length by force
next
  case (Cons c x)
  show ?case
  proof (cases "closing_braces (x @ rest)")
    case None
    with Cons.prems obtain e' where e': "e = c # e'" "lazy_expr (x @ rest) = Some (e', rest)"
      by (auto split: option.splits)
    from Cons.IH [OF e'(2)] e'(1) closing_append [OF None] show ?thesis by simp
  next
    case (Some r)
    with Cons.prems have "e = [c]" "closing_braces (x @ rest) = Some rest" by simp_all
    with closing_cut [of x rest] show ?thesis by simp
  qed
qed

lemma skip_cut:
  "skip_space n (x @ rest) = Some (e, rest) \<Longrightarrow> n \<le> length x \<Longrightarrow> skip_space n x = Some (e, [])"
proof (induction n)
  case (Suc n)
  have drop: "drop (Suc n) (x @ rest) = drop (Suc n) x @ rest" using Suc.prems by simp
  show ?case
  proof (cases "lazy_expr (drop (Suc n) x @ rest)")
    case None
    with Suc drop lazy_append [OF None] show ?thesis by simp
  next
    case (Some r)
    with Suc.prems drop have "lazy_expr (drop (Suc n) x @ rest) = Some (e, rest)" by simp
    from lazy_cut [OF this] show ?thesis by simp
  qed
qed (simp add: lazy_cut)

lemma lazy_closes: "lazy_expr s = Some (e, rest) \<Longrightarrow> \<exists>z. s = z @ ''}}'' @ rest"
proof (induction s arbitrary: e)
  case (Cons c s)
  show ?case
  proof (cases "closing_braces s")
    case None
    with Cons.prems obtain e' where "lazy_expr s = Some (e', rest)" by (auto split: option.splits)
    from Cons.IH [OF this] show ?thesis by (metis append_Cons)
  next
    case (Some r)
    with Cons.prems have "closing_braces s = Some rest" by simp
    then show ?thesis unfolding closing_Some by (metis append_Cons)
  qed
qed simp

lemma skip_closes: "skip_space n s = Some (e, rest) \<Longrightarrow> \<exists>z. s = z @ ''}}'' @ rest"
proof (induction n)
  case (Suc n)
  show ?case
  proof (cases "lazy_expr (drop (Suc n) s)")
    case None
    with Suc show ?thesis by simp
  next
    case (Some r)
    with Suc.prems have "lazy_expr (drop (Suc n) s) = Some (e, rest)" by simp
    from lazy_closes [OF this] show ?thesis by (metis append.assoc append_take_drop_id)
  qed
next
  case 0
  then show ?case using lazy_closes by simp
qed

lemma match_template_cut:
  assumes "match_template s = Some (e, rest)"
  shows "match_template (take (length s - length rest) s) = Some (e, [])"
proof -
  define w where "w = length (takeWhile py_space (drop 3 s))"
  from assms have start: "prefix template_start s" and skip: "skip_space w (drop 3 s) = Some (e, rest)"
    by (auto simp: match_template_def w_def split: if_splits)
  from start obtain r where s: "s = template_start @ r" by (auto simp: prefix_def)
  then have r: "drop 3 s = r" by (simp add: template_start_def)
  from skip_closes [OF skip] r obtain z where z: "r = z @ ''}}'' @ rest" by auto
  define x where "x = z @ ''}}''"
  have rx: "r = x @ rest" by (simp add: z x_def)
  have tw: "takeWhile py_space r = takeWhile py_space x"
    unfolding rx x_def by (simp add: takeWhile_append py_space_def)
  have "take (length s - length rest) s = template_start @ x" by (simp add: s rx template_start_def numeral_3_eq_3)
  moreover have "skip_space w x = Some (e, [])"
    using skip_cut [of w x rest e] skip by (simp add: r rx [symmetric] w_def tw length_takeWhile_le)
  moreover have "w = length (takeWhile py_space x)" by (simp add: w_def r tw)
  ultimately show ?thesis by (simp add: match_template_def template_start_def)
qed

text \<open>The expressions evaluated in a text are those the traversal finds in it.\<close>

lemma template_result_part:
  assumes "Template t e \<in> set (template_parts s)"
  shows "template_result ev t = ev e"
  using parts_matched [OF assms] match_template_cut by (fastforce simp: template_result_def)

lemma parts_first:
  assumes "match_template s = Some (e, rest)"
  shows "template_parts s = Template (take (length s - length rest) s) e # template_parts rest"
proof (cases s)
  case Nil
  with assms show ?thesis by (simp add: match_template_def template_start_def)
next
  case (Cons c t)
  with assms show ?thesis by simp
qed

lemma template_only_match:
  assumes "is_template_only s" and "template_count s = 1"
  obtains e rest where "match_template s = Some (e, rest)" and "template_exprs s = [e]"
proof -
  from assms(2) obtain x where "filter is_template (template_parts s) = [x]"
    by (auto simp: template_count_def length_Suc_conv)
  then have "x \<in> set (filter is_template (template_parts s))" by simp
  then have "x \<in> set (template_parts s)" "is_template x" by simp_all
  moreover from \<open>is_template x\<close> obtain t e where "x = Template t e" by (cases x) simp_all
  ultimately have "Template t e \<in> set (template_parts s)" by simp
  from parts_matched [OF this] obtain j where "match_template (drop j s) \<noteq> None" by blast
  with match_later assms(1) have "match_template s \<noteq> None" unfolding is_template_only_def by blast
  then obtain e rest where m: "match_template s = Some (e, rest)" by auto
  moreover from assms(2) have "template_exprs s = [e]"
    by (simp add: template_count_def template_exprs_def parts_first [OF m])
  ultimately show ?thesis using that by blast
qed

lemma eval_line_cong:
  assumes "\<And>e. e \<in> set (template_exprs s) \<Longrightarrow> ev e = ev' e"
  shows "eval_line F ev s = eval_line F ev' s"
proof (cases "is_template_only s \<and> template_count s = 1")
  case True
  then obtain e rest where "match_template s = Some (e, rest)" "template_exprs s = [e]"
    using template_only_match by blast
  with True assms show ?thesis by (simp add: eval_line_def template_result_def)
next
  case False
  have "evaluated_part F ev x = evaluated_part F ev' x" if x: "x \<in> set (template_parts s)" for x
  proof (cases x)
    case (Template t e)
    with x have t: "Template t e \<in> set (template_parts s)" by simp
    then have "e \<in> set (template_exprs s)" by (force simp: template_exprs_def)
    from assms [OF this] show ?thesis by (simp add: Template eval_expression_op_def template_result_part [OF t])
  qed simp
  then have "map_result (evaluated_part F ev) (template_parts s) = map_result (evaluated_part F ev') (template_parts s)"
    by (rule map_result_cong [OF refl])
  with False show ?thesis by (simp only: eval_line_def if_False)
qed

lemma traverse_expressions_simps:
  "traverse_expressions (OStr s) = template_exprs s"
  "set (traverse_expressions (OList xs)) = (\<Union>x \<in> set xs. set (traverse_expressions x))"
  "set (traverse_expressions (ODict d)) =
     (\<Union>(k, v) \<in> set d. (case k of OStr s \<Rightarrow> set (template_exprs s) | _ \<Rightarrow> {}) \<union> set (traverse_expressions v))"
  by (auto simp: traverse_expressions_def split: pyobj.splits) force+

lemma traverse_key:
  "(OStr s, v) \<in> set d \<Longrightarrow> e \<in> set (template_exprs s) \<Longrightarrow> e \<in> set (traverse_expressions (ODict d))"
  unfolding traverse_expressions_simps by (rule UN_I) auto

lemma traverse_value:
  "(k, v) \<in> set d \<Longrightarrow> set (traverse_expressions v) \<subseteq> set (traverse_expressions (ODict d))"
  unfolding traverse_expressions_simps by blast

lemma eval_object_cong:
  "(\<And>e. e \<in> set (traverse_expressions x) \<Longrightarrow> ev e = ev' e) \<Longrightarrow>
     eval_templated_object F ev x = eval_templated_object F ev' x"
proof (induction F ev x rule: eval_templated_object.induct)
  case (1 F ev s)
  show ?case unfolding eval_templated_object.simps
  proof (rule eval_line_cong)
    show "ev e = ev' e" if "e \<in> set (template_exprs s)" for e
      using 1 that by (simp only: traverse_expressions_simps)
  qed
next
  case (2 F ev xs)
  have "map_result (eval_templated_object F ev) xs = map_result (eval_templated_object F ev') xs"
  proof (rule map_result_cong [OF refl], rule "2.IH")
    show "ev e = ev' e" if "x \<in> set xs" "e \<in> set (traverse_expressions x)" for x e
      using "2.prems" that unfolding traverse_expressions_simps by blast
  qed
  then show ?case by simp
next
  case (3 F ev d)
  have "fold_result (\<lambda>(k, v) e. rbind (eval_key F ev k) (\<lambda>k'. rbind (eval_templated_object F ev v) (\<lambda>v'. obj_set F k' v' e))) d []
      = fold_result (\<lambda>(k, v) e. rbind (eval_key F ev' k) (\<lambda>k'. rbind (eval_templated_object F ev' v) (\<lambda>v'. obj_set F k' v' e))) d []"
  proof (rule fold_result_cong [OF refl refl], clarify)
    fix k v and e :: "(pyobj \<times> pyobj) list"
    assume kv: "(k, v) \<in> set d"
    have "eval_key F ev k = eval_key F ev' k"
    proof (cases "\<exists>s. k = OStr s")
      case True
      then obtain s where k: "k = OStr s" by blast
      have "eval_line F ev s = eval_line F ev' s"
        using "3.prems" traverse_key kv unfolding k by (intro eval_line_cong) blast
      with k show ?thesis by simp
    next
      case False
      then show ?thesis by (cases k) simp_all
    qed
    moreover have "eval_templated_object F ev v = eval_templated_object F ev' v" if "eval_key F ev k = Inr k'" for k'
    proof (rule "3.IH" [OF kv refl that])
      show "ev e = ev' e" if "e \<in> set (traverse_expressions v)" for e
        using "3.prems" traverse_value [OF kv] that by blast
    qed
    ultimately show "rbind (eval_key F ev k) (\<lambda>k'. rbind (eval_templated_object F ev v) (\<lambda>v'. obj_set F k' v' e))
      = rbind (eval_key F ev' k) (\<lambda>k'. rbind (eval_templated_object F ev' v) (\<lambda>v'. obj_set F k' v' e))"
      by (intro rbind_cong) simp_all
  qed
  then show ?case by simp
qed auto

section \<open>The value of a text\<close>

fun part_text :: "template_part \<Rightarrow> string" where
  "part_text (Plain c) = [c]"
| "part_text (Template t e) = t"

lemma template_cut_append:
  "match_template s = Some (e, rest) \<Longrightarrow> take (length s - length rest) s @ rest = s"
proof -
  assume m: "match_template s = Some (e, rest)"
  then obtain n where n: "rest = drop n s" using match_template_suffix by blast
  have "take (length s - length rest) s = take n s"
    by (cases "n \<le> length s") (simp_all add: n)
  then show ?thesis by (simp add: n)
qed

lemma parts_text: "concat (map part_text (template_parts s)) = s"
proof (induction s rule: template_parts.induct)
  case (2 c s)
  show ?case
  proof (cases "match_template (c # s)")
    case None
    with "2.IH"(1) show ?thesis by simp
  next
    case (Some m)
    obtain e rest where m: "m = (e, rest)" by force
    with Some have "match_template (c # s) = Some (e, rest)" by simp
    from template_cut_append [OF this] "2.IH"(2) [OF Some m [symmetric]] Some m show ?thesis by simp
  qed
qed simp

text \<open>Templates are taken where they begin first: no template begins at a character that is kept.\<close>

lemma plain_unmatched:
  "template_parts s = ps @ Plain c # qs \<Longrightarrow> match_template (concat (map part_text (Plain c # qs))) = None"
proof (induction s arbitrary: ps rule: template_parts.induct)
  case (2 d s)
  show ?case
  proof (cases "match_template (d # s)")
    case None
    show ?thesis
    proof (cases ps)
      case Nil
      with None "2.prems" have "concat (map part_text (Plain c # qs)) = d # s" using parts_text [of s] by simp
      with None show ?thesis by simp
    next
      case (Cons p ps')
      with None "2.prems" have "template_parts s = ps' @ Plain c # qs" by simp
      from "2.IH"(1) [OF None this] show ?thesis .
    qed
  next
    case (Some m)
    obtain e rest where m: "m = (e, rest)" by force
    with Some "2.prems" obtain ps' where "template_parts rest = ps' @ Plain c # qs"
      by (cases ps) auto
    from "2.IH"(2) [OF Some m [symmetric] this] show ?thesis .
  qed
qed simp

text \<open>What a part becomes, in terms of the expressions alone.\<close>

fun part_value :: "foreign \<Rightarrow> evaluator \<Rightarrow> template_part \<Rightarrow> string xresult" where
  "part_value F ev (Plain c) = Inr [c]"
| "part_value F ev (Template t e) =
     rbind (ev e) (\<lambda>x. case obj_str F x of Inl err \<Rightarrow> Inl (PyExc ValueError) | Inr s \<Rightarrow> Inr s)"

lemma template_part_value:
  "p \<in> set (template_parts s) \<Longrightarrow> evaluated_part F ev p = part_value F ev p"
  by (cases p) (simp_all add: eval_expression_op_def template_result_part)

lemma template_count_exprs: "template_count s = length (template_exprs s)"
  by (simp add: template_count_def template_exprs_def)

lemma eval_line_value:
  "eval_line F ev s =
     (if is_template_only s \<and> length (template_exprs s) = 1 then ev (hd (template_exprs s))
      else rbind (map_result (part_value F ev) (template_parts s)) (\<lambda>ts. Inr (OStr (concat ts))))"
proof (cases "is_template_only s \<and> template_count s = 1")
  case True
  then obtain e rest where "match_template s = Some (e, rest)" "template_exprs s = [e]"
    using template_only_match by blast
  with True show ?thesis by (simp add: eval_line_def template_result_def)
next
  case False
  have "map_result (evaluated_part F ev) (template_parts s) = map_result (part_value F ev) (template_parts s)"
    by (rule map_result_cong [OF refl template_part_value])
  with False show ?thesis unfolding eval_line_def template_count_exprs by (simp only: if_False)
qed

lemma map_result_all: "(\<And>x. x \<in> set xs \<Longrightarrow> f x = Inr (g x)) \<Longrightarrow> map_result f xs = Inr (map g xs)"
  by (induction xs) auto

lemma eval_line_plain: "template_exprs s = [] \<Longrightarrow> eval_line F ev s = Inr (OStr s)"
proof -
  assume none: "template_exprs s = []"
  have "part_value F ev p = Inr (part_text p)" if "p \<in> set (template_parts s)" for p
    using none that by (cases p) (auto simp: template_exprs_def filter_empty_conv)
  then have "map_result (part_value F ev) (template_parts s) = Inr (map part_text (template_parts s))"
    by (rule map_result_all)
  with none show ?thesis by (simp add: eval_line_value parts_text)
qed

lemma match_whole:
  assumes "match_template s = Some (e, [])"
  shows "is_template_only s" and "template_exprs s = [e]"
proof -
  from assms have start: "prefix template_start s" and "\<exists>n. skip_space n (drop 3 s) = Some (e, [])"
    by (auto simp: match_template_def split: if_splits)
  then obtain z where "drop 3 s = z @ ''}}''" using skip_closes by force
  then have "s = (take 3 s @ z) @ ''}}''" by (metis append.assoc append_take_drop_id)
  then have "suffix ''}}'' s" unfolding suffix_def by blast
  with start show "is_template_only s" by (simp add: is_template_only_def)
  show "template_exprs s = [e]" using parts_first [OF assms] by (simp add: template_exprs_def)
qed

end
