(* ===== verification/Expr_Eval.thy ===== *)
theory Expr_Eval
  imports Expr_Functions Expr_Template
begin

text \<open>
  Expressions: the trees of the grammar in \<open>expressions/parser/grammar.py\<close>, their evaluation
  (\<open>ExprEvaluator\<close> of \<open>expressions/parser/evaluator.py\<close>, \<open>eval_jsonpath\<close> of
  \<open>expressions/common.py\<close>), the extraction of what they refer to (the extractors and
  \<open>extract_expressions\<close> of \<open>expressions/core.py\<close>, \<open>collect_expressions\<close> of
  \<open>expressions/eval.py\<close>), and iterable expressions. The parser that lark makes from the grammar and
  the JSON path library are parameters.
\<close>

section \<open>Trees\<close>

datatype expr_context =
    CtxActions | CtxSecrets | CtxVars | CtxEnv | CtxLocalVars | CtxTrigger | CtxInputs | CtxSteps

fun context_name :: "expr_context \<Rightarrow> string" where
  "context_name CtxActions = ''ACTIONS''"
| "context_name CtxSecrets = ''SECRETS''"
| "context_name CtxVars = ''VARS''"
| "context_name CtxEnv = ''ENV''"
| "context_name CtxLocalVars = ''var''"
| "context_name CtxTrigger = ''TRIGGER''"
| "context_name CtxInputs = ''inputs''"
| "context_name CtxSteps = ''steps''"

datatype binop =
    OpOr | OpAnd | OpEq | OpNe | OpCompare comparison | OpIn | OpNotIn | OpIs | OpIsNot
  | OpAdd | OpSub | OpMul | OpDiv | OpMod

text \<open>
  The tokens keep their text. A bracket of the grammar that may be missing is an option: the children
  of an empty list, of an empty mapping and of a call without arguments are None.
\<close>

datatype expr =
    Access expr_context string
  | Call string "expr list option"
  | StringLit string | BoolLit string | NumericLit string | NoneLit
  | ListExpr "expr list option"
  | DictExpr "(string \<times> expr) list option"
  | Typecast string expr
  | Ternary expr expr expr
  | Binary binop expr expr
  | NotOp expr | NegOp expr | PosOp expr
  | Indexed expr "expr list"

datatype expr_root = Expr expr | TrailingCast expr string | Iterator string expr

section \<open>Libraries\<close>

text \<open>
  A parsed JSON path: what the library finds is asked of it, the program looks at the nodes itself to
  see whether one of them is a filter.
\<close>

datatype jpath = JPath string (has_filter: bool) (path_children: "jpath list")

record exprlib =
  objects :: foreign
  call_function :: libcall
  parse_expression :: "string \<Rightarrow> expr_root option"
  parse_jsonpath :: "string \<Rightarrow> jpath option"
  find_values :: "jpath \<Rightarrow> pyobj \<Rightarrow> pyobj list xresult"

section \<open>Reading the context\<close>

fun contains_filter :: "jpath \<Rightarrow> bool" where
  "contains_filter (JPath n f ps) = (f \<or> list_ex contains_filter ps)"

definition is_operand :: "pyobj \<Rightarrow> bool" where
  "is_operand x = (case x of ODict d \<Rightarrow> True | OList xs \<Rightarrow> True | _ \<Rightarrow> False)"

text \<open>
  \<open>eval_jsonpath\<close>: several matches, a wildcard or a filter give the list of matches, one match gives
  its value, and none gives None unless the evaluation is strict.
\<close>

definition eval_jsonpath :: "exprlib \<Rightarrow> bool \<Rightarrow> string \<Rightarrow> pyobj \<Rightarrow> pyobj xresult" where
  "eval_jsonpath L strict e operand =
     (if \<not> is_operand operand then Inl ExpressionError
      else case parse_jsonpath L e of
        None \<Rightarrow> Inl ExpressionError
      | Some p \<Rightarrow>
          rbind (find_values L p operand) (\<lambda>found.
            if 1 < length found \<or> sublist ''[*]'' e
               \<or> sublist ''[?('' e \<or> sublist ''[?@'' e \<or> contains_filter p
            then Inr (OList found)
            else case found of
                x # _ \<Rightarrow> Inr x
              | [] \<Rightarrow> if strict then Inl ExpressionError else Inr ONone))"

definition MAX_VARS_PATH_DEPTH :: nat where
  "MAX_VARS_PATH_DEPTH = 1"

definition lstrip_dots :: "string \<Rightarrow> string" where
  "lstrip_dots s = dropWhile (\<lambda>c. c = CHR ''.'') s"

definition vars_too_deep :: "string \<Rightarrow> bool" where
  "vars_too_deep path =
     (let trimmed = lstrip_dots path;
          parts = (if trimmed = [] then [] else py_split (CHR ''.'') trimmed)
      in MAX_VARS_PATH_DEPTH < length (tl parts))"

definition eval_access :: "exprlib \<Rightarrow> bool \<Rightarrow> pyobj \<Rightarrow> expr_context \<Rightarrow> string \<Rightarrow> pyobj xresult" where
  "eval_access L strict operand ctx path =
     (if ctx = CtxVars \<and> vars_too_deep path then Inl ExpressionError
      else eval_jsonpath L strict (context_name ctx @ path) operand)"

section \<open>Evaluation\<close>

text \<open>\<open>NUMERIC_LITERAL\<close>: digits are an integer, anything else is read as a float.\<close>

definition numeric_value :: "string \<Rightarrow> pyobj xresult" where
  "numeric_value s =
     (case (if s = [] then None else digits_value 0 s) of
        Some n \<Rightarrow> Inr (OInt (int n))
      | None \<Rightarrow>
          (case py_split (CHR ''.'') s of
             [a, b] \<Rightarrow>
               (case (digits_value 0 a, digits_value 0 b) of
                  (Some m, Some n) \<Rightarrow> Inr (OFloat (of_nat (m * 10 ^ length b + n) / 10 ^ length b))
                | _ \<Rightarrow> Inl (PyExc ValueError))
           | _ \<Rightarrow> Inl (PyExc ValueError)))"

text \<open>\<open>token.value[1:-1]\<close>: the quotes go, escapes stay.\<close>

definition unquote :: "string \<Rightarrow> string" where
  "unquote s = butlast (tl s)"

definition eval_binary :: "foreign \<Rightarrow> binop \<Rightarrow> pyobj \<Rightarrow> pyobj \<Rightarrow> pyobj xresult" where
  "eval_binary F b x y =
     (case b of
        OpOr \<Rightarrow> Inr (op_or F x y)
      | OpAnd \<Rightarrow> Inr (op_and F x y)
      | OpEq \<Rightarrow> Inr (OBool (obj_eq F x y))
      | OpNe \<Rightarrow> Inr (OBool (\<not> obj_eq F x y))
      | OpCompare c \<Rightarrow> of_bool_result (obj_compare F c x y)
      | OpIn \<Rightarrow> of_bool_result (op_in F x y)
      | OpNotIn \<Rightarrow> of_bool_result (op_not_in F x y)
      | OpIs \<Rightarrow> Inr (OBool (op_is F x y))
      | OpIsNot \<Rightarrow> Inr (OBool (\<not> op_is F x y))
      | OpAdd \<Rightarrow> op_add F x y
      | OpSub \<Rightarrow> op_sub F x y
      | OpMul \<Rightarrow> op_mul F x y
      | OpDiv \<Rightarrow> op_div F x y
      | OpMod \<Rightarrow> op_mod F x y)"

definition map_suffix :: string where
  "map_suffix = ''.map''"

text \<open>\<open>function\<close>: the name may end in \<open>.map\<close>; an unknown name is an expression error.\<close>

definition base_name :: "string \<Rightarrow> string" where
  "base_name fn_name = (if suffix map_suffix fn_name then take (length fn_name - 4) fn_name else fn_name)"

definition call_named :: "exprlib \<Rightarrow> string \<Rightarrow> pyobj list \<Rightarrow> pyobj xresult" where
  "call_named L fn_name xs =
     (case dict_get (FUNCTION_MAPPING (call_function L) (objects L)) (base_name fn_name) of
        None \<Rightarrow> Inl ExpressionError
      | Some f \<Rightarrow> if suffix map_suffix fn_name then broadcast_map (objects L) f xs else f xs)"

text \<open>
  Children are evaluated before their parent, from left to right. A ternary evaluates its condition and
  then the selected branch only; both operands of \<open>||\<close> and \<open>&&\<close> are evaluated.
\<close>

fun eval_expr :: "exprlib \<Rightarrow> bool \<Rightarrow> pyobj \<Rightarrow> expr \<Rightarrow> pyobj xresult" where
  "eval_expr L strict operand (Access ctx path) = eval_access L strict operand ctx path"
| "eval_expr L strict operand (Call fn_name None) = call_named L fn_name []"
| "eval_expr L strict operand (Call fn_name (Some es)) =
     rbind (map_result (eval_expr L strict operand) es) (call_named L fn_name)"
| "eval_expr L strict operand (StringLit s) = Inr (OStr (unquote s))"
| "eval_expr L strict operand (BoolLit s) = cast (objects L) (OStr s) ''bool''"
| "eval_expr L strict operand (NumericLit s) = numeric_value s"
| "eval_expr L strict operand NoneLit = Inr ONone"
| "eval_expr L strict operand (ListExpr None) = Inl (PyExc TypeError)"
| "eval_expr L strict operand (ListExpr (Some es)) =
     rbind (map_result (eval_expr L strict operand) es) (\<lambda>xs. Inr (OList xs))"
| "eval_expr L strict operand (DictExpr None) = Inl (PyExc TypeError)"
| "eval_expr L strict operand (DictExpr (Some kvs)) =
     rbind (map_result (\<lambda>(k, e). rbind (eval_expr L strict operand e) (\<lambda>v. Inr (OStr (unquote k), v))) kvs)
       (\<lambda>ps. rbind (obj_dict (objects L) ps) (\<lambda>d. Inr (ODict d)))"
| "eval_expr L strict operand (Typecast typename e) =
     rbind (eval_expr L strict operand e) (\<lambda>x. cast (objects L) x typename)"
| "eval_expr L strict operand (Ternary a cond b) =
     rbind (eval_expr L strict operand cond) (\<lambda>x.
       if obj_bool (objects L) x then eval_expr L strict operand a else eval_expr L strict operand b)"
| "eval_expr L strict operand (Binary bop a b) =
     rbind (eval_expr L strict operand a) (\<lambda>x.
     rbind (eval_expr L strict operand b) (\<lambda>y. eval_binary (objects L) bop x y))"
| "eval_expr L strict operand (NotOp e) =
     rbind (eval_expr L strict operand e) (\<lambda>x. Inr (OBool (\<not> obj_bool (objects L) x)))"
| "eval_expr L strict operand (NegOp e) = rbind (eval_expr L strict operand e) (op_neg (objects L))"
| "eval_expr L strict operand (PosOp e) = rbind (eval_expr L strict operand e) (op_pos (objects L))"
| "eval_expr L strict operand (Indexed e ixs) =
     rbind (eval_expr L strict operand e) (\<lambda>x.
     rbind (map_result (eval_expr L strict operand) ixs) (\<lambda>ks.
       fold_result (\<lambda>i v. apply_index (objects L) v i) ks x))"

fun eval_root :: "exprlib \<Rightarrow> bool \<Rightarrow> pyobj \<Rightarrow> expr_root \<Rightarrow> pyobj xresult" where
  "eval_root L strict operand (Expr e) = eval_expr L strict operand e"
| "eval_root L strict operand (TrailingCast e typename) =
     rbind (eval_expr L strict operand e) (\<lambda>x. cast (objects L) x typename)"
| "eval_root L strict operand (Iterator path e) =
     rbind (eval_expr L strict operand e) (\<lambda>x.
       if has_iter (objects L) x then Inr (OIter path x) else Inl (PyExc ValueError))"

text \<open>
  \<open>ExprEvaluator.evaluate\<close> and \<open>Expression.result\<close>: a text that does not parse and whatever a
  node raises is an expression error. An operand that is empty or missing is an empty mapping.
\<close>

definition evaluate :: "exprlib \<Rightarrow> bool \<Rightarrow> pyobj \<Rightarrow> expr_root \<Rightarrow> pyobj xresult" where
  "evaluate L strict operand t =
     (case eval_root L strict (if obj_bool (objects L) operand then operand else ODict []) t of
        Inl e \<Rightarrow> Inl ExpressionError
      | Inr x \<Rightarrow> Inr x)"

definition expression_result :: "exprlib \<Rightarrow> pyobj \<Rightarrow> evaluator" where
  "expression_result L operand s =
     (case parse_expression L s of
        None \<Rightarrow> Inl ExpressionError
      | Some t \<Rightarrow> evaluate L False operand t)"

section \<open>What an expression refers to\<close>

text \<open>The nodes of a tree that read the context, in all branches.\<close>

fun accesses :: "expr \<Rightarrow> (expr_context \<times> string) list" where
  "accesses (Access ctx path) = [(ctx, path)]"
| "accesses (Call fn_name (Some es)) = concat (map accesses es)"
| "accesses (ListExpr (Some es)) = concat (map accesses es)"
| "accesses (DictExpr (Some kvs)) = concat (map (\<lambda>(k, e). accesses e) kvs)"
| "accesses (Typecast typename e) = accesses e"
| "accesses (Ternary a cond b) = accesses a @ accesses cond @ accesses b"
| "accesses (Binary bop a b) = accesses a @ accesses b"
| "accesses (NotOp e) = accesses e"
| "accesses (NegOp e) = accesses e"
| "accesses (PosOp e) = accesses e"
| "accesses (Indexed e ixs) = accesses e @ concat (map accesses ixs)"
| "accesses _ = []"

fun root_accesses :: "expr_root \<Rightarrow> (expr_context \<times> string) list" where
  "root_accesses (Expr e) = accesses e"
| "root_accesses (TrailingCast e typename) = accesses e"
| "root_accesses (Iterator path e) = accesses e"

record extracted =
  ex_actions :: "string list"
  ex_secrets :: "string list"
  ex_vars :: "string list"

definition nothing_extracted :: extracted where
  "nothing_extracted = \<lparr>ex_actions = [], ex_secrets = [], ex_vars = []\<rparr>"

text \<open>
  \<open>RegistryActionExtractor\<close>: the first segment of a path; a path with one segment is an error for
  actions and secrets, since \<open>split\<close> gives a single part.
\<close>

definition registry_visit :: "expr_context \<times> string \<Rightarrow> extracted \<Rightarrow> extracted xresult" where
  "registry_visit = (\<lambda>(ctx, path) ex.
     let jsonpath = lstrip_dots path in
     case ctx of
       CtxActions \<Rightarrow>
         (case py_split1 (CHR ''.'') jsonpath of
            (r, Some _) \<Rightarrow> Inr (ex\<lparr>ex_actions := set_add r (ex_actions ex)\<rparr>)
          | (r, None) \<Rightarrow> Inl (PyExc ValueError))
     | CtxSecrets \<Rightarrow>
         (case py_split1 (CHR ''.'') jsonpath of
            (r, Some _) \<Rightarrow> Inr (ex\<lparr>ex_secrets := set_add r (ex_secrets ex)\<rparr>)
          | (r, None) \<Rightarrow> Inl (PyExc ValueError))
     | CtxVars \<Rightarrow> Inr (ex\<lparr>ex_vars := set_add (fst (py_split1 (CHR ''.'') jsonpath)) (ex_vars ex)\<rparr>)
     | _ \<Rightarrow> Inr ex)"

text \<open>\<open>Expression.extract\<close> with a visitor that carries its results from expression to expression.\<close>

definition extract_parts :: "exprlib \<Rightarrow> (expr_context \<times> string \<Rightarrow> extracted \<Rightarrow> extracted xresult) \<Rightarrow>
    string \<Rightarrow> extracted \<Rightarrow> extracted xresult" where
  "extract_parts L visit s ex =
     (case parse_expression L s of
        None \<Rightarrow> Inl ExpressionError
      | Some t \<Rightarrow>
          (case fold_result visit (root_accesses t) ex of Inl e \<Rightarrow> Inl ExpressionError | Inr ex' \<Rightarrow> Inr ex'))"

definition extract_expressions :: "exprlib \<Rightarrow> pyobj \<Rightarrow> extracted xresult" where
  "extract_expressions L x =
     fold_result (extract_parts L registry_visit) (traverse_expressions x) nothing_extracted"

text \<open>\<open>ExprPathCollector\<close>: secrets with their keys, variables by name.\<close>

definition path_visit :: "expr_context \<times> string \<Rightarrow> extracted \<Rightarrow> extracted xresult" where
  "path_visit = (\<lambda>(ctx, path) ex.
     let jsonpath = lstrip_dots path in
     case ctx of
       CtxSecrets \<Rightarrow> Inr (ex\<lparr>ex_secrets := set_add jsonpath (ex_secrets ex)\<rparr>)
     | CtxVars \<Rightarrow> Inr (ex\<lparr>ex_vars := set_add (fst (py_split1 (CHR ''.'') jsonpath)) (ex_vars ex)\<rparr>)
     | _ \<Rightarrow> Inr ex)"

definition collect_expressions :: "exprlib \<Rightarrow> pyobj \<Rightarrow> extracted xresult" where
  "collect_expressions L x =
     fold_result (extract_parts L path_visit) (traverse_expressions x) nothing_extracted"

section \<open>Iterable expressions\<close>

fun as_iterable :: "pyobj \<Rightarrow> (string \<times> pyobj) option" where
  "as_iterable (OIter path c) = Some (path, c)"
| "as_iterable _ = None"

definition eval_object :: "exprlib \<Rightarrow> pyobj \<Rightarrow> pyobj \<Rightarrow> pyobj xresult" where
  "eval_object L operand x = eval_templated_object (objects L) (expression_result L operand) x"

definition get_iterables_from_expression :: "exprlib \<Rightarrow> pyobj \<Rightarrow> pyobj \<Rightarrow> (string \<times> pyobj) list xresult" where
  "get_iterables_from_expression L operand x =
     rbind (eval_object L operand x) (\<lambda>y.
       case y of
         OIter path c \<Rightarrow> Inr [(path, c)]
       | OList ys \<Rightarrow>
           if list_all (\<lambda>z. as_iterable z \<noteq> None) ys then Inr (List.map_filter as_iterable ys)
           else Inl (PyExc ValueError)
       | _ \<Rightarrow> Inl (PyExc ValueError))"

section \<open>An expression depends on what it refers to\<close>

lemma eval_expr_cong:
  "(\<And>ctx path. (ctx, path) \<in> set (accesses e) \<Longrightarrow>
      eval_access L strict op ctx path = eval_access L strict op' ctx path) \<Longrightarrow>
     eval_expr L strict op e = eval_expr L strict op' e"
proof (induction L strict op e rule: eval_expr.induct)
  case (3 L strict op fn_name es)
  have "map_result (eval_expr L strict op) es = map_result (eval_expr L strict op') es"
    by (rule map_result_cong [OF refl], rule "3.IH") (use "3.prems" in auto)
  then show ?case by simp
next
  case (9 L strict op es)
  have "map_result (eval_expr L strict op) es = map_result (eval_expr L strict op') es"
    by (rule map_result_cong [OF refl], rule "9.IH") (use "9.prems" in auto)
  then show ?case by simp
next
  case (11 L strict op kvs)
  have "map_result (\<lambda>(k, e). rbind (eval_expr L strict op e) (\<lambda>v. Inr (OStr (unquote k), v))) kvs =
      map_result (\<lambda>(k, e). rbind (eval_expr L strict op' e) (\<lambda>v. Inr (OStr (unquote k), v))) kvs"
  proof (rule map_result_cong [OF refl], clarify)
    fix k e assume ke: "(k, e) \<in> set kvs"
    have "eval_expr L strict op e = eval_expr L strict op' e"
      by (rule "11.IH" [OF ke refl]) (use "11.prems" ke in fastforce)
    then show "rbind (eval_expr L strict op e) (\<lambda>v. Inr (OStr (unquote k), v)) =
      rbind (eval_expr L strict op' e) (\<lambda>v. Inr (OStr (unquote k), v))" by simp
  qed
  then show ?case by simp
next
  case (13 L strict op a cond b)
  have "eval_expr L strict op cond = eval_expr L strict op' cond"
    by (rule "13.IH"(1)) (use "13.prems" in auto)
  moreover have "(if obj_bool (objects L) x then eval_expr L strict op a else eval_expr L strict op b) =
      (if obj_bool (objects L) x then eval_expr L strict op' a else eval_expr L strict op' b)"
    if "eval_expr L strict op cond = Inr x" for x
    using "13.IH"(2,3) [OF that] "13.prems" by auto
  ultimately show ?case by (simp only: eval_expr.simps) (rule rbind_cong, simp_all)
next
  case (14 L strict op bop a b)
  have "eval_expr L strict op a = eval_expr L strict op' a"
    by (rule "14.IH"(1)) (use "14.prems" in auto)
  moreover have "eval_expr L strict op b = eval_expr L strict op' b" if "eval_expr L strict op a = Inr x" for x
    by (rule "14.IH"(2) [OF that]) (use "14.prems" in auto)
  ultimately show ?case by (simp only: eval_expr.simps) (rule rbind_cong, simp_all)
next
  case (18 L strict op e ixs)
  have "eval_expr L strict op e = eval_expr L strict op' e"
    by (rule "18.IH"(1)) (use "18.prems" in auto)
  moreover have "map_result (eval_expr L strict op) ixs = map_result (eval_expr L strict op') ixs"
    if "eval_expr L strict op e = Inr x" for x
    by (rule map_result_cong [OF refl], rule "18.IH"(2) [OF that]) (use "18.prems" in auto)
  ultimately show ?case by (simp only: eval_expr.simps) (rule rbind_cong, simp_all)
qed simp_all

lemma eval_root_cong:
  assumes "\<And>ctx path. (ctx, path) \<in> set (root_accesses t) \<Longrightarrow>
      eval_access L strict op ctx path = eval_access L strict op' ctx path"
  shows "eval_root L strict op t = eval_root L strict op' t"
proof -
  have "eval_expr L strict op e = eval_expr L strict op' e"
    if "set (accesses e) \<subseteq> set (root_accesses t)" for e
    by (rule eval_expr_cong, rule assms) (use that in blast)
  then show ?thesis by (cases t) simp_all
qed

end
