(* ===== verification/Expr_Context.thy ===== *)
theory Expr_Context
  imports Expr_Eval Storage_Activities
begin

text \<open>
  The context an expression is evaluated in. The scheduler passes on only the results of the actions
  that the expressions of a statement mention (\<open>build_stream_aware_context\<close> of
  \<open>dsl/scheduler.py\<close>); the executor fetches only the secrets and variables they mention. The
  lemmas show that the values of plain expressions do not depend on anything else.
\<close>

section \<open>Operands\<close>

text \<open>\<open>MaterializedTaskResult\<close> and \<open>MaterializedExecutionContext\<close> are dictionaries.\<close>

definition text_or_none :: "string option \<Rightarrow> pyobj" where
  "text_or_none x = (case x of None \<Rightarrow> ONone | Some s \<Rightarrow> OStr s)"

definition result_obj :: "(pyval \<Rightarrow> nat) \<Rightarrow> mat_result \<Rightarrow> pyobj" where
  "result_obj h r =
     ODict [(OStr ''result'', of_pyval h (mat_value r)),
            (OStr ''result_typename'', OStr (mat_result_typename r)),
            (OStr ''error'', of_pyval h (mat_error r)),
            (OStr ''error_typename'', text_or_none (mat_error_typename r)),
            (OStr ''interaction'', of_pyval h (mat_interaction r)),
            (OStr ''interaction_id'', text_or_none (mat_interaction_id r)),
            (OStr ''interaction_type'', text_or_none (mat_interaction_type r))]"

definition context_entry :: "(pyval \<Rightarrow> nat) \<Rightarrow> string \<Rightarrow> pyval option \<Rightarrow> (pyobj \<times> pyobj) list" where
  "context_entry h k x = (case x of None \<Rightarrow> [] | Some v \<Rightarrow> [(OStr k, of_pyval h v)])"

definition context_operand :: "(pyval \<Rightarrow> nat) \<Rightarrow> mat_ctx \<Rightarrow> pyobj" where
  "context_operand h c = ODict
     ((case mat_ACTIONS c of
         None \<Rightarrow> []
       | Some rs \<Rightarrow> [(OStr ''ACTIONS'', ODict (map (\<lambda>(r, x). (OStr r, result_obj h x)) rs))]) @
      context_entry h ''TRIGGER'' (mat_TRIGGER c) @ context_entry h ''ENV'' (mat_ENV c) @
      context_entry h ''SECRETS'' (mat_SECRETS c) @ context_entry h ''VARS'' (mat_VARS c) @
      context_entry h ''var'' (mat_var c))"

section \<open>Plain paths\<close>

definition name_start :: "char \<Rightarrow> bool" where
  "name_start c = (let n = of_char c :: nat in n = 95 \<or> (65 \<le> n \<and> n \<le> 90) \<or> (97 \<le> n \<and> n \<le> 122))"

definition name_char :: "char \<Rightarrow> bool" where
  "name_char c = (name_start c \<or> (let n = of_char c :: nat in 48 \<le> n \<and> n \<le> 57))"

text \<open>A name the path language reads as a field: an identifier that is not one of its words.\<close>

definition plain_name :: "string \<Rightarrow> bool" where
  "plain_name s =
     (s \<noteq> [] \<and> name_start (hd s) \<and> list_all name_char s \<and> s \<notin> {''where'', ''wherenot''})"

text \<open>
  The rest of a path: it goes on with a dot or a bracket, and has neither the dollar sign nor the
  back quote, with which a path can leave the place it has reached (the root and the parent operator).
\<close>

definition path_tail :: "string \<Rightarrow> bool" where
  "path_tail t = ((t = [] \<or> hd t = CHR ''.'' \<or> hd t = CHR ''['') \<and> CHR ''$'' \<notin> set t \<and> CHR 96 \<notin> set t)"

fun field_value :: "foreign \<Rightarrow> string list \<Rightarrow> pyobj \<Rightarrow> pyobj option" where
  "field_value F [] x = Some x"
| "field_value F (n # ns) (ODict d) =
     (case obj_lookup F d (OStr n) of None \<Rightarrow> None | Some v \<Rightarrow> field_value F ns v)"
| "field_value F (n # ns) x = None"

definition dotted :: "string list \<Rightarrow> string" where
  "dotted ns = concat (map (\<lambda>n. CHR ''.'' # n) ns)"

text \<open>
  What is asked of the path library: a path that begins with fields reads these fields, and goes on
  from the value it finds there; texts are equal to themselves only.
\<close>

definition reads_fields :: "exprlib \<Rightarrow> bool" where
  "reads_fields L \<longleftrightarrow>
     (\<forall>ctx ns t. list_all plain_name ns \<and> path_tail t \<longrightarrow>
        (case parse_jsonpath L (context_name ctx @ dotted ns @ t) of
           None \<Rightarrow> True
         | Some p \<Rightarrow> \<exists>rest. \<forall>x. is_operand x \<longrightarrow>
             find_values L p x =
               (case field_value (objects L) (context_name ctx # ns) x of None \<Rightarrow> Inr [] | Some v \<Rightarrow> rest v)))"

text \<open>
  An access is plain if it reads a field of its context: an action by name with something after it,
  a secret with its key, a variable, or anything of the other contexts.
\<close>

definition plain_access :: "expr_context \<Rightarrow> string \<Rightarrow> bool" where
  "plain_access ctx path \<longleftrightarrow>
     (case ctx of
        CtxActions \<Rightarrow> \<exists>r t. path = CHR ''.'' # r @ CHR ''.'' # t \<and> plain_name r \<and> path_tail (CHR ''.'' # t)
      | CtxSecrets \<Rightarrow> \<exists>r t. path = CHR ''.'' # r @ CHR ''.'' # t \<and> plain_name r \<and> path_tail (CHR ''.'' # t)
      | CtxVars \<Rightarrow> \<exists>r t. path = CHR ''.'' # r @ t \<and> plain_name r \<and> (t = [] \<or> hd t = CHR ''.'') \<and> path_tail t
      | _ \<Rightarrow> path_tail path)"

definition plain_object :: "exprlib \<Rightarrow> pyobj \<Rightarrow> bool" where
  "plain_object L x \<longleftrightarrow>
     (\<forall>e \<in> set (traverse_expressions x). \<forall>t. parse_expression L e = Some t \<longrightarrow>
        (\<forall>(ctx, path) \<in> set (root_accesses t). plain_access ctx path))"

section \<open>Agreement of operands\<close>

text \<open>Two operands agree on what was extracted, and on all contexts that are not pruned.\<close>

definition agree_on :: "foreign \<Rightarrow> extracted \<Rightarrow> pyobj \<Rightarrow> pyobj \<Rightarrow> bool" where
  "agree_on F ex x y \<longleftrightarrow>
     is_operand x \<and> is_operand y \<and>
     (\<forall>r \<in> set (ex_actions ex). field_value F [''ACTIONS'', r] x = field_value F [''ACTIONS'', r] y) \<and>
     (\<forall>r \<in> set (ex_secrets ex). field_value F [''SECRETS'', r] x = field_value F [''SECRETS'', r] y) \<and>
     (\<forall>r \<in> set (ex_vars ex). field_value F [''VARS'', r] x = field_value F [''VARS'', r] y) \<and>
     (\<forall>ctx. ctx \<notin> {CtxActions, CtxSecrets, CtxVars} \<longrightarrow>
        field_value F [context_name ctx] x = field_value F [context_name ctx] y)"

lemma find_values_agree:
  assumes "reads_fields L" and "list_all plain_name ns" and "path_tail t"
    and "is_operand x" and "is_operand y"
    and "field_value (objects L) (context_name ctx # ns) x = field_value (objects L) (context_name ctx # ns) y"
  shows "eval_jsonpath L strict (context_name ctx @ dotted ns @ t) x =
    eval_jsonpath L strict (context_name ctx @ dotted ns @ t) y"
proof (cases "parse_jsonpath L (context_name ctx @ dotted ns @ t)")
  case None
  with assms(4,5) show ?thesis by (simp add: eval_jsonpath_def)
next
  case (Some p)
  with assms(1-3) obtain rest where "\<And>x. is_operand x \<Longrightarrow>
      find_values L p x =
        (case field_value (objects L) (context_name ctx # ns) x of None \<Rightarrow> Inr [] | Some v \<Rightarrow> rest v)"
    unfolding reads_fields_def by (fastforce split: option.splits)
  with assms(4-6) have "find_values L p x = find_values L p y" by simp
  with assms(4,5) Some show ?thesis by (simp add: eval_jsonpath_def)
qed

lemma plain_name_no_dot: "plain_name r \<Longrightarrow> CHR ''.'' \<notin> set r"
  by (auto simp: plain_name_def list_all_iff name_char_def name_start_def Let_def)

lemma lstrip_plain: "plain_name r \<Longrightarrow> lstrip_dots (CHR ''.'' # r @ s) = r @ s"
  using plain_name_no_dot [of r] by (cases r) (auto simp: lstrip_dots_def plain_name_def)

text \<open>What the visitor records for a plain access.\<close>

definition recorded :: "expr_context \<Rightarrow> string \<Rightarrow> extracted \<Rightarrow> bool" where
  "recorded ctx path ex \<longleftrightarrow>
     (case ctx of
        CtxActions \<Rightarrow> \<exists>r t. path = CHR ''.'' # r @ CHR ''.'' # t \<and> plain_name r \<and> path_tail (CHR ''.'' # t)
          \<and> r \<in> set (ex_actions ex)
      | CtxSecrets \<Rightarrow> \<exists>r t. path = CHR ''.'' # r @ CHR ''.'' # t \<and> plain_name r \<and> path_tail (CHR ''.'' # t)
          \<and> r \<in> set (ex_secrets ex)
      | CtxVars \<Rightarrow> \<exists>r t. path = CHR ''.'' # r @ t \<and> plain_name r \<and> path_tail t \<and> r \<in> set (ex_vars ex)
      | _ \<Rightarrow> path_tail path)"

definition grows :: "extracted \<Rightarrow> extracted \<Rightarrow> bool" where
  "grows ex ex' \<longleftrightarrow> set (ex_actions ex) \<subseteq> set (ex_actions ex') \<and>
     set (ex_secrets ex) \<subseteq> set (ex_secrets ex') \<and> set (ex_vars ex) \<subseteq> set (ex_vars ex')"

lemma grows_refl [simp]: "grows ex ex"
  by (simp add: grows_def)

lemma grows_trans: "grows a b \<Longrightarrow> grows b c \<Longrightarrow> grows a c"
  by (auto simp: grows_def)

lemma recorded_grows: "recorded ctx path ex \<Longrightarrow> grows ex ex' \<Longrightarrow> recorded ctx path ex'"
  by (cases ctx) (fastforce simp: recorded_def grows_def)+

lemma registry_visit_grows: "registry_visit a ex = Inr ex' \<Longrightarrow> grows ex ex'"
  by (cases a) (auto simp: registry_visit_def grows_def Let_def split: expr_context.splits prod.splits option.splits)

lemma split_plain:
  "plain_name r \<Longrightarrow> (t = [] \<or> hd t = CHR ''.'') \<Longrightarrow> fst (py_split1 (CHR ''.'') (r @ t)) = r"
  using plain_name_no_dot [of r] by (cases t) auto

lemma registry_visit_records:
  assumes "registry_visit (ctx, path) ex = Inr ex'" and "plain_access ctx path"
  shows "recorded ctx path ex'"
proof (cases "ctx \<in> {CtxActions, CtxSecrets}")
  case True
  with assms(2) obtain r t where p: "path = CHR ''.'' # r @ CHR ''.'' # t" "plain_name r" "path_tail (CHR ''.'' # t)"
    by (auto simp: plain_access_def)
  have "py_split1 (CHR ''.'') (lstrip_dots path) = (r, Some t)"
    by (simp add: p lstrip_plain plain_name_no_dot)
  with assms(1) True have "ctx = CtxActions \<and> r \<in> set (ex_actions ex') \<or> ctx = CtxSecrets \<and> r \<in> set (ex_secrets ex')"
    by (auto simp: registry_visit_def)
  with p show ?thesis unfolding recorded_def by (elim disjE conjE) (simp, blast)+
next
  case False
  show ?thesis
  proof (cases "ctx = CtxVars")
    case True
    with assms(2) obtain r t where p: "path = CHR ''.'' # r @ t" "plain_name r"
        "t = [] \<or> hd t = CHR ''.''" "path_tail t"
      by (auto simp: plain_access_def)
    then have "fst (py_split1 (CHR ''.'') (lstrip_dots path)) = r" by (simp add: lstrip_plain split_plain)
    with assms(1) True have "r \<in> set (ex_vars ex')" by (auto simp: registry_visit_def)
    with p have "\<exists>r t. path = CHR ''.'' # r @ t \<and> plain_name r \<and> path_tail t \<and> r \<in> set (ex_vars ex')" by blast
    with True show ?thesis by (simp add: recorded_def)
  next
    case False
    with \<open>ctx \<notin> {CtxActions, CtxSecrets}\<close> assms(2) show ?thesis
      by (cases ctx) (auto simp: plain_access_def recorded_def)
  qed
qed

lemma visit_all_grows: "fold_result registry_visit as ex = Inr ex' \<Longrightarrow> grows ex ex'"
  by (induction as arbitrary: ex) (auto simp: rbind_Inr_iff dest: registry_visit_grows intro: grows_trans)

lemma visit_all_records:
  assumes "fold_result registry_visit as ex = Inr ex'" and "(ctx, path) \<in> set as"
    and "plain_access ctx path"
  shows "recorded ctx path ex'"
proof -
  from assms(2) obtain ys zs where as: "as = ys @ (ctx, path) # zs" by (meson split_list)
  with assms(1) obtain u v where "registry_visit (ctx, path) u = Inr v" "fold_result registry_visit zs v = Inr ex'"
    by (auto simp: fold_result_append rbind_Inr_iff)
  from registry_visit_records [OF this(1) assms(3)] visit_all_grows [OF this(2)]
  show ?thesis by (rule recorded_grows)
qed

lemma extract_parts_Inr:
  "extract_parts L visit s ex = Inr ex' \<longleftrightarrow>
     (\<exists>t. parse_expression L s = Some t \<and> fold_result visit (root_accesses t) ex = Inr ex')"
  by (auto simp: extract_parts_def split: option.splits sum.splits)

lemma extract_records:
  assumes "extract_expressions L x = Inr ex" and "s \<in> set (traverse_expressions x)"
    and "parse_expression L s = Some t" and "(ctx, path) \<in> set (root_accesses t)"
    and "plain_access ctx path"
  shows "recorded ctx path ex"
proof -
  have grows: "fold_result (extract_parts L registry_visit) ss u = Inr v \<Longrightarrow> grows u v" for ss u v
    by (induction ss arbitrary: u)
      (auto simp: rbind_Inr_iff extract_parts_Inr dest: visit_all_grows intro: grows_trans)
  from assms(2) obtain ys zs where "traverse_expressions x = ys @ s # zs" by (meson split_list)
  with assms(1) obtain u v where "extract_parts L registry_visit s u = Inr v"
    "fold_result (extract_parts L registry_visit) zs v = Inr ex"
    by (auto simp: extract_expressions_def fold_result_append rbind_Inr_iff)
  moreover from this(1) assms(3) have "fold_result registry_visit (root_accesses t) u = Inr v"
    by (simp add: extract_parts_Inr)
  ultimately show ?thesis
    using visit_all_records assms(4,5) grows recorded_grows by blast
qed

section \<open>The value depends on what was extracted\<close>

lemma recorded_access:
  assumes "reads_fields L" and "agree_on (objects L) ex x y" and "recorded ctx path ex"
  shows "eval_access L strict x ctx path = eval_access L strict y ctx path"
proof -
  have ops: "is_operand x" "is_operand y" using assms(2) by (simp_all add: agree_on_def)
  have found: "eval_jsonpath L strict (context_name ctx @ dotted ns @ t) x =
      eval_jsonpath L strict (context_name ctx @ dotted ns @ t) y"
    if "list_all plain_name ns" "path_tail t"
      "field_value (objects L) (context_name ctx # ns) x = field_value (objects L) (context_name ctx # ns) y"
    for ns t
    by (rule find_values_agree [OF assms(1) that(1,2) ops that(3)])
  have "eval_jsonpath L strict (context_name ctx @ path) x = eval_jsonpath L strict (context_name ctx @ path) y"
  proof (cases "ctx \<in> {CtxActions, CtxSecrets, CtxVars}")
    case True
    with assms(3) obtain r t where r: "path = CHR ''.'' # r @ t" "plain_name r" "path_tail t"
      and m: "(ctx = CtxActions \<longrightarrow> r \<in> set (ex_actions ex)) \<and> (ctx = CtxSecrets \<longrightarrow> r \<in> set (ex_secrets ex))
         \<and> (ctx = CtxVars \<longrightarrow> r \<in> set (ex_vars ex))"
      by (auto simp: recorded_def)
    have "field_value (objects L) [context_name ctx, r] x = field_value (objects L) [context_name ctx, r] y"
      using True m assms(2) by (auto simp: agree_on_def)
    with found [of "[r]" t] r show ?thesis by (simp add: dotted_def)
  next
    case False
    then have "field_value (objects L) [context_name ctx] x = field_value (objects L) [context_name ctx] y"
      using assms(2) by (simp add: agree_on_def)
    moreover from False assms(3) have "path_tail path" by (cases ctx) (auto simp: recorded_def)
    ultimately show ?thesis using found [of "[]" path] by (simp add: dotted_def)
  qed
  then show ?thesis by (simp add: eval_access_def)
qed


lemma field_value_empty: "is_operand x \<Longrightarrow> \<not> obj_bool F x \<Longrightarrow> field_value F (n # ns) x = None"
  by (auto simp: is_operand_def split: pyobj.splits)

lemma agree_on_nonempty:
  assumes "agree_on F ex x y"
  shows "agree_on F ex (if obj_bool F x then x else ODict []) (if obj_bool F y then y else ODict [])"
proof -
  have same: "field_value F (n # ns) (if obj_bool F z then z else ODict []) = field_value F (n # ns) z"
    if "is_operand z" for z n ns
    using field_value_empty [OF that] by simp
  have op: "is_operand (if obj_bool F z then z else ODict [])" if "is_operand z" for z
    using that by (simp add: is_operand_def)
  from assms have "is_operand x" "is_operand y" by (simp_all add: agree_on_def)
  with assms show ?thesis unfolding agree_on_def same [OF \<open>is_operand x\<close>] same [OF \<open>is_operand y\<close>]
    using op by blast
qed

lemma eval_object_agree:
  assumes "reads_fields L" and "plain_object L x" and "extract_expressions L x = Inr ex"
    and "agree_on (objects L) ex op op'"
  shows "eval_object L op x = eval_object L op' x"
  unfolding eval_object_def
proof (rule eval_object_cong)
  fix s assume s: "s \<in> set (traverse_expressions x)"
  show "expression_result L op s = expression_result L op' s"
  proof (cases "parse_expression L s")
    case (Some t)
    let ?u = "if obj_bool (objects L) op then op else ODict []"
    let ?v = "if obj_bool (objects L) op' then op' else ODict []"
    have "eval_root L False ?u t = eval_root L False ?v t"
    proof (rule eval_root_cong)
      fix ctx path assume a: "(ctx, path) \<in> set (root_accesses t)"
      with assms(2) s Some have "plain_access ctx path" unfolding plain_object_def by blast
      with extract_records [OF assms(3) s Some a] have "recorded ctx path ex" by blast
      with recorded_access [OF assms(1) agree_on_nonempty [OF assms(4)]]
      show "eval_access L False ?u ctx path = eval_access L False ?v ctx path" by blast
    qed
    with Some show ?thesis by (simp add: expression_result_def evaluate_def)
  qed (simp add: expression_result_def)
qed

end
