(* ===== verification/Expr_Theorems.thy ===== *)
theory Expr_Theorems
  imports Expr_Context Storage_Codec Examples
begin

text \<open>
  The properties of the expression engine: the context the scheduler builds for a statement suffices
  for its expressions, evaluation raises errors of three classes only, and templates in texts are
  replaced where they stand, once.
\<close>

section \<open>The context of a stream\<close>












section \<open>Fields of a context\<close>

lemma obj_eq_text [simp]: "obj_eq F (OStr a) (OStr b) = (a = b)"
  by (simp add: obj_eq.simps)








section \<open>A path library\<close>

text \<open>A library that reads dotted paths, and rejects all others.\<close>

definition field_paths :: "(string \<Rightarrow> expr_root option) \<Rightarrow> foreign \<Rightarrow> libcall \<Rightarrow> exprlib" where
  "field_paths parse F call =
     \<lparr>objects = F, call_function = call, parse_expression = parse,
      parse_jsonpath = (\<lambda>e. if CHR ''['' \<in> set e \<or> \<not> list_all plain_name (py_split (CHR ''.'') e)
        then None else Some (JPath e False [])),
      find_values = (\<lambda>p x. case p of JPath e f ps \<Rightarrow>
        (case field_value F (py_split (CHR ''.'') e) x of None \<Rightarrow> Inr [] | Some v \<Rightarrow> Inr [v]))\<rparr>"





section \<open>Properties\<close>


text \<open>A library for the examples: one expression for each text, and values without foreign objects.\<close>

definition base_objects :: foreign where
  "base_objects =
     \<lparr>foreign_bool = (\<lambda>_ _. True), foreign_eq = (\<lambda>x y. x = y), foreign_same = (\<lambda>x y. x = y),
      foreign_hashable = (\<lambda>_. True), foreign_iter = (\<lambda>_ _. None),
      foreign_binary = (\<lambda>_ _ _. Inl (PyExc TypeError)), foreign_unary = (\<lambda>_ _. Inl (PyExc TypeError)),
      foreign_index = (\<lambda>_ _. Inl ExpressionError), foreign_str = (\<lambda>_. Inr ''...''),
      foreign_cast = (\<lambda>_ _. Inl (PyExc TypeError))\<rparr>"

definition sample_parse :: "string \<Rightarrow> expr_root option" where
  "sample_parse s =
     (if s = ''ACTIONS.a.result'' then Some (Expr (Access CtxActions ''.a.result''))
      else if s = ''1 / 0'' then Some (Expr (Binary OpDiv (NumericLit ''1'') (NumericLit ''0'')))
      else if s = ''42'' then Some (Expr (NumericLit ''42''))
      else None)"

definition sample_lib :: exprlib where
  "sample_lib = field_paths sample_parse base_objects (\<lambda>_ _. Inl (LibraryError ''none''))"









section \<open>Errors\<close>

lemma evaluate_errors: "raises_only (\<lambda>e. e = ExpressionError) (expression_result L op s)"
  by (simp add: expression_result_def evaluate_def split: option.split sum.split)

text \<open>Keys that are texts without templates.\<close>

fun plain_keys :: "pyobj \<Rightarrow> bool" where
  "plain_keys (OList xs) = list_all plain_keys xs"
| "plain_keys (ODict d) =
     list_all (\<lambda>(k, v). (case k of OStr s \<Rightarrow> template_exprs s = [] | _ \<Rightarrow> False) \<and> plain_keys v) d"
| "plain_keys x = True"

lemma raises_only_weaken: "raises_only P m \<Longrightarrow> (\<And>e. P e \<Longrightarrow> Q e) \<Longrightarrow> raises_only Q m"
  by (simp add: raises_only_def)

lemma line_errors:
  assumes ev: "\<And>e. raises_only (\<lambda>e. e = ExpressionError) (ev e)" and "P ExpressionError"
    and "(\<forall>x. \<exists>s. foreign_str F x = Inr s) \<or> P (PyExc ValueError)"
  shows "raises_only P (eval_line F ev s)"
proof -
  have e: "raises_only P (ev e)" for e by (rule raises_only_weaken [OF ev]) (simp add: assms(2))
  have has_text: "\<exists>t. obj_str F x = Inr t" if "\<forall>x. \<exists>s. foreign_str F x = Inr s" for x
    using that by (cases x) auto
  have "raises_only P (part_value F ev p)" for p
  proof (cases p)
    case (Template t e')
    have "raises_only P (case obj_str F x of Inl err \<Rightarrow> Inl (PyExc ValueError) | Inr s \<Rightarrow> Inr s)" for x
      using assms(3) has_text [of x] by (auto split: sum.splits)
    with Template e show ?thesis by (auto intro!: raises_only_bind)
  qed simp
  then have "raises_only P (map_result (part_value F ev) (template_parts s))" by (rule raises_only_map_result)
  with e show ?thesis by (auto simp: eval_line_value intro!: raises_only_bind)
qed

lemma object_errors:
  "(\<And>e. raises_only (\<lambda>e. e = ExpressionError) (ev e)) \<Longrightarrow> P ExpressionError \<Longrightarrow>
   (\<forall>x. \<exists>s. foreign_str F x = Inr s) \<or> P (PyExc ValueError) \<Longrightarrow>
   plain_keys x \<or> P (PyExc TypeError) \<Longrightarrow> raises_only P (eval_templated_object F ev x)"
proof (induction F ev x rule: eval_templated_object.induct)
  case (1 F ev s)
  show ?case unfolding eval_templated_object.simps by (rule line_errors [OF "1.prems"(1-3)])
next
  case (2 F ev xs)
  have "raises_only P (eval_templated_object F ev x)" if x: "x \<in> set xs" for x
    by (rule "2.IH" [OF x "2.prems"(1-3)]) (use "2.prems"(4) x in \<open>auto simp: list_all_iff\<close>)
  then show ?case by (auto intro!: raises_only_bind raises_only_map_result)
next
  case (3 F ev d)
  have "raises_only P (rbind (eval_key F ev k) (\<lambda>k'. rbind (eval_templated_object F ev v) (\<lambda>v'. obj_set F k' v' e)))"
    if kv: "(k, v) \<in> set d" for k v and e :: "(pyobj \<times> pyobj) list"
  proof (rule raises_only_bind)
    show "raises_only P (eval_key F ev k)"
      using line_errors [of ev P F] "3.prems"(1-3) by (cases k) auto
    fix k' assume k': "eval_key F ev k = Inr k'"
    have set: "raises_only P (obj_set F k' v' e)" for v'
    proof (cases "plain_keys (ODict d)")
      case True
      with kv have "case k of OStr s \<Rightarrow> template_exprs s = [] | _ \<Rightarrow> False" by (auto simp: list_all_iff)
      then have "\<exists>s. k' = OStr s" using k' by (auto simp: eval_line_plain split: pyobj.splits)
      then show ?thesis by (auto simp: obj_set_def)
    next
      case False
      with "3.prems"(4) show ?thesis by (simp add: obj_set_def)
    qed
    have "raises_only P (eval_templated_object F ev v)"
      by (rule "3.IH" [OF kv refl k' "3.prems"(1-3)]) (use "3.prems"(4) kv in \<open>auto simp: list_all_iff\<close>)
    then show "raises_only P (rbind (eval_templated_object F ev v) (\<lambda>v'. obj_set F k' v' e))"
      using set by (rule raises_only_bind)
  qed
  then have "raises_only P (fold_result (\<lambda>(k, v) e. rbind (eval_key F ev k)
      (\<lambda>k'. rbind (eval_templated_object F ev v) (\<lambda>v'. obj_set F k' v' e))) d [])"
    by (intro raises_only_fold_result [where I = "\<lambda>_. True"]) auto
  then show ?case by (auto intro!: raises_only_bind)
qed simp_all

text \<open>
  C15. Errors of templates. Whatever an object holds and whatever its expressions do, evaluating its
  templates returns or raises an expression error, a ValueError (a value inside a text that has no
  text) or a TypeError (a key that evaluates to something unhashable): a division by zero, a missing
  key or an exception of a called function come out as expression errors. If every value has a text
  and no key is a template, nothing but expression errors is raised.
\<close>

theorem templates_raise_only:
  "raises_only (\<lambda>e. e \<in> {ExpressionError, PyExc ValueError, PyExc TypeError}) (eval_object L op x) \<and>
   ((\<forall>y. \<exists>s. foreign_str (objects L) y = Inr s) \<and> plain_keys x \<longrightarrow>
      raises_only (\<lambda>e. e = ExpressionError) (eval_object L op x))"
  unfolding eval_object_def by (intro conjI impI) (rule object_errors [OF evaluate_errors]; simp)+

theorem templates_raise_only_witness:
  "eval_object sample_lib (ODict []) (ODict [(OStr ''x'', OStr ''a ${{ 1 / 0 }}'')]) = Inl ExpressionError"
proof -
  let ?x = "ODict [(OStr ''x'', OStr ''a ${{ 1 / 0 }}'')]"
  have "plain_keys ?x" by code_simp
  moreover have "foreign_str (objects sample_lib) y = Inr ''...''" for y
    by (simp add: sample_lib_def field_paths_def base_objects_def)
  ultimately have "raises_only (\<lambda>e. e = ExpressionError) (eval_object sample_lib (ODict []) ?x)"
    using templates_raise_only [of sample_lib "ODict []" ?x] by simp
  moreover have "isl (eval_object sample_lib (ODict []) ?x)" by code_simp
  ultimately show ?thesis by (cases "eval_object sample_lib (ODict []) ?x") simp_all
qed

section \<open>Texts\<close>

text \<open>
  C30. Templates in texts. A text falls into kept characters and templates that do not overlap, in
  order; each template is matched where it begins first, and is the same when it is matched alone. A
  text without a template stays. A text that is one template has the value of its expression, of
  whatever type. In any other text each template is replaced once by the text of its value, from left
  to right until one fails, and the values are not searched for templates again. The exception is a
  text that begins like a template, ends in two braces and holds one template: it has the value of
  this template, and what stands behind the template is dropped.
\<close>

theorem text_templates_replaced:
  "concat (map part_text (template_parts s)) = s \<and>
   (\<forall>t e. Template t e \<in> set (template_parts s) \<longrightarrow> match_template t = Some (e, [])) \<and>
   (\<forall>ps c qs. template_parts s = ps @ Plain c # qs \<longrightarrow>
      match_template (concat (map part_text (Plain c # qs))) = None) \<and>
   (template_exprs s = [] \<longrightarrow> eval_line F ev s = Inr (OStr s)) \<and>
   (\<forall>e. match_template s = Some (e, []) \<longrightarrow> eval_line F ev s = ev e) \<and>
   eval_line F ev s =
     (if is_template_only s \<and> length (template_exprs s) = 1 then ev (hd (template_exprs s))
      else rbind (map_result (part_value F ev) (template_parts s)) (\<lambda>ts. Inr (OStr (concat ts))))"
proof (intro conjI)
  show "\<forall>t e. Template t e \<in> set (template_parts s) \<longrightarrow> match_template t = Some (e, [])"
    using parts_matched match_template_cut by blast
  show "\<forall>e. match_template s = Some (e, []) \<longrightarrow> eval_line F ev s = ev e"
    by (auto simp: eval_line_value match_whole)
  show "template_exprs s = [] \<longrightarrow> eval_line F ev s = Inr (OStr s)" using eval_line_plain by blast
  show "\<forall>ps c qs. template_parts s = ps @ Plain c # qs \<longrightarrow>
      match_template (concat (map part_text (Plain c # qs))) = None" using plain_unmatched by blast
qed (rule parts_text, rule eval_line_value)

theorem text_templates_replaced_witness:
  "eval_line base_objects (expression_result sample_lib (ODict [])) ''${{ 42 }}'' = Inr (OInt 42) \<and>
   eval_line base_objects (expression_result sample_lib (ODict [])) ''<${{42}}>'' = Inr (OStr ''<42>'') \<and>
   eval_line base_objects (expression_result sample_lib (ODict [])) ''${{ 42 }} lost }}'' = Inr (OInt 42)"
proof -
  let ?ev = "expression_result sample_lib (ODict [])"
  have "match_template ''${{ 42 }}'' = Some (''42'', [])" and v: "?ev ''42'' = Inr (OInt 42)" by code_simp+
  with text_templates_replaced [of "''${{ 42 }}''" base_objects ?ev]
  have "eval_line base_objects ?ev ''${{ 42 }}'' = Inr (OInt 42)" by simp
  moreover have "eval_line base_objects ?ev ''<${{42}}>'' = Inr (OStr ''<42>'')" by code_simp
  moreover have "is_template_only ''${{ 42 }} lost }}''" "template_exprs ''${{ 42 }} lost }}'' = [''42'']" by code_simp+
  then have "eval_line base_objects ?ev ''${{ 42 }} lost }}'' = Inr (OInt 42)"
    using v text_templates_replaced [of "''${{ 42 }} lost }}''" base_objects ?ev] by simp
  ultimately show ?thesis by blast
qed

end
