(* ===== verification/Spec2Isabelle.thy ===== *)
theory Spec2Isabelle
  imports Control_Theorems Storage_Theorems Permit_Theorems Auth_Theorems Import_Theorems Subflow_Theorems
    Graph_Theorems Edited_Theorems Roundtrip_Theorems Expr_Theorems
begin

text \<open>
  This development verifies the workflow engine of Tracecat: the language workflows are written in,
  the scheduler that runs them, the storage their results go through, the permits that limit them,
  and the decision who may call what. All paths are under \<open>src/tracecat\<close>.

  \<^bold>\<open>The program.\<close> A workflow is a list of action statements with dependencies on the success or
  the error of other actions (\<open>dsl/schemas.py\<close>). \<open>DSLInput.validate_structure\<close>
  (\<open>dsl/common.py\<close>) accepts a definition after checking its references, the scopes opened by
  scatter and loop starts, and the loops. \<open>DSLScheduler\<close> (\<open>dsl/scheduler.py\<close>) runs the
  accepted definition: it counts down the dependencies of each task in each execution stream, starts
  tasks as coroutines, marks edges as visited or skipped, opens streams for the items of a scatter
  and joins them in a gather, repeats loops, and routes failures along error edges. Results are
  stored objects (\<open>storage/object.py\<close>): inline values, references to blobs, or collections in
  chunks behind a manifest (\<open>storage/collection.py\<close>), read back through a cache
  (\<open>storage/utils.py\<close>). The activities in \<open>dsl/action.py\<close> connect the two: a scatter
  stores its collection, a task reads its inputs, a gather stores what it collected.

  The arguments of actions hold templates with expressions (\<open>expressions/\<close>), which read the
  results of other actions, the trigger, secrets and variables; the scheduler passes on the results
  an action mentions, and the activities evaluate its templates.

  The editor changes the rows of a workflow through \<open>WorkflowGraphService\<close>
  (\<open>workflow/graph/service.py\<close>): a request is a list of operations on actions and edges, with
  the version of the graph it was made for. A definition is made from the rows by
  \<open>build_action_statements_from_actions\<close> (\<open>dsl/common.py\<close>); in the other direction,
  \<open>create_actions_from_dsl\<close> (\<open>workflow/management/management.py\<close>) writes an imported
  definition as rows. An action can run a child
  workflow for each item of a list: \<open>_prepare_subflow\<close> (\<open>dsl/action.py\<close>) evaluates and
  stores the inputs of the iterations, and \<open>DSLWorkflow\<close> (\<open>dsl/workflow.py\<close>) starts the
  children in batches and collects their results. Before a workflow or an action runs it needs a
  permit of its organization: a lease in a sorted set in Redis (\<open>tiers/semaphore.py\<close>), up to
  the limit of the tier (\<open>tiers/service.py\<close>), for which the workflow waits with growing delays.
  Every request is given a role by \<open>_role_dependency\<close> (\<open>auth/credentials.py\<close>), from a
  session, an API key, a service key or an executor token; the role carries an organization, a
  workspace and scopes (\<open>authz/service.py\<close>), which confine database rows
  (\<open>db/rls.py\<close>) and guard the services through \<open>require_scope\<close>
  (\<open>authz/controls.py\<close>).

  \<^bold>\<open>The theories.\<close>

  \<^item> \<open>Prelude\<close>, \<open>Py_Strings\<close>: results as sums, dictionaries as association lists in
    insertion order, Python's string operations and integers as text.
  \<^item> \<open>Stream_Ids\<close>: \<open>StreamID\<close> of \<open>dsl/schemas.py\<close>, its segments, leaf and nesting test.
  \<^item> \<open>Dsl_Types\<close>: dynamic values, stored objects, task results, execution contexts, statements,
    tasks and exceptions.
  \<^item> \<open>Dsl_Graph\<close>, \<open>Dsl_Validate\<close>: adjacency, scope assignment and every check of
    \<open>validate_structure\<close>, with the errors as values. \<open>Dsl_Toposort\<close> and \<open>Dsl_Validated\<close>
    prove what assignment and acceptance give, \<open>Dsl_Theorems\<close> states the properties.
  \<^item> \<open>Sched_State\<close>: the fields of the scheduler as a record, a state monad with exceptions that
    keeps the changes made before a raise, and the bookkeeping methods. \<open>Sched_Handlers\<close>: one
    definition per handler, cut at its awaits; an await returns a point, and \<open>resume\<close> continues
    from a point with the answer. \<open>Sched_Run\<close>: the main loop of \<open>start\<close> and the step relation
    of whole runs, where an event lets the main loop or one waiting coroutine proceed. Every
    interleaving the event loop can produce is a sequence of events.
  \<^item> \<open>Sched_Init\<close>, \<open>Sched_Queue\<close>, \<open>Sched_Main\<close>: facts about the constructor, about
    \<open>_queue_tasks\<close>, and about the loop. \<open>Sched_Invariant\<close> has the locale of state invariants
    that every handler keeps and every run therefore keeps; \<open>Sched_Streams\<close> interprets it for the
    failure record, the loop counters and the tree of streams. \<open>Sched_Theorems\<close> and
    \<open>Control_Theorems\<close> state the properties, with \<open>Gather_Order\<close> (the order in which items
    arrive does not matter) and \<open>Loop_Reset\<close> (what a loop end resets).
  \<^item> \<open>Flat_Spec\<close>: a sequential specification of workflows without control-flow actions, which
    decides action by action whether it succeeds, is skipped, fails with a handler or is fatal.
    \<open>Flat_Steps\<close>, \<open>Flat_Core\<close>, \<open>Flat_Runs\<close> and \<open>Flat_Refinement\<close> show by an
    invariant on the whole configuration that the scheduler implements it. \<open>Examples\<close> has the
    concrete workflows that the properties are applied to.
  \<^item> \<open>Storage_Collection\<close>: documents, blobs, cache, both backends, storing and reading of
    collections. \<open>Storage_Laws\<close> states what is asked of the libraries and of the cache,
    \<open>Storage_Rounds\<close> proves the round trips. \<open>Storage_Activities\<close> models the activities,
    \<open>Storage_Handles\<close> has the locale of the backend interface with an interpretation for each
    backend. \<open>Storage_Retry\<close> models the search for transport failures and the retry loop.
    \<open>Storage_Codec\<close> is an environment that meets the laws, \<open>Storage_Theorems\<close> states the
    properties.
  \<^item> \<open>Expr_Values\<close>: the values of expressions with Python's operators, casts and indexing;
    \<open>Expr_Functions\<close>: the functions of the language and their application item by item;
    \<open>Expr_Template\<close>: the pattern of templates as a matcher, what it finds, and the evaluation of
    templated objects; \<open>Expr_Eval\<close>: the trees of the grammar, their evaluation and the extraction
    of what they refer to. \<open>Expr_Context\<close> has the operands made from execution contexts and shows
    that values depend on what was extracted; \<open>Expr_Theorems\<close> states the properties.
  \<^item> \<open>Permit_Semaphore\<close>: sorted sets, the Lua scripts, the tier limits with their cache and the
    permit activity. \<open>Permit_Wait\<close>: the loop that waits. \<open>Permit_Laws\<close> has the abstract
    specification of leases, which the scripts refine, and its locale; \<open>Permit_Runs\<close> the
    invariants of sequences of operations of many clients; \<open>Permit_Theorems\<close> the properties.
  \<^item> \<open>Py_Uuid\<close>: UUIDs and their texts. \<open>Authz_Scopes\<close>: matching of scopes with
    \<open>fnmatch\<close>, the preset roles, \<open>require_scope\<close>; \<open>Authz_Laws\<close>: what matching means.
    \<open>Auth_Rbac\<close>: the tables, memberships, effective scopes with their caches and seeding.
    \<open>Auth_Credentials\<close>: the ways of authentication and \<open>_role_dependency\<close>.
    \<open>Auth_Laws\<close> has a lemma for each way, \<open>Auth_Theorems\<close> the properties.
  \<^item> \<open>Dsl_Import\<close>: the conversion of stored actions into statements; \<open>Import_Theorems\<close> shows
    that its search is reachability, and what the statements are.
  \<^item> \<open>Graph_Edit\<close>: the operations of \<open>WorkflowGraphService\<close> on the tables, the repair of a
    graph and the deletion of an action. \<open>Graph_Laws\<close> has the invariant of the rows, the abstract
    graph they stand for and the locale of simulations; \<open>Graph_Refine\<close> shows that each operation
    refines its abstract one and interprets the locale; \<open>Graph_Theorems\<close> states the property.
  \<^item> \<open>Dsl_Export\<close>: the writing of a definition as rows and the statements built from rows.
    \<open>Edited_Theorems\<close> follows edits into the definition, \<open>Roundtrip_Theorems\<close> follows a
    definition into rows and back.
  \<^item> \<open>Subflow_Loop\<close>: the iterations, the prepared loop and the dispatch;
    \<open>Subflow_Theorems\<close> follows the input of each child from its evaluation through storage.

  \<^bold>\<open>What is shown.\<close> C1 to C3, below: a validated workflow without control-flow actions computes the
  sequential specification under every interleaving, every run is bounded and can always go on until
  it returns. C4 to C6 and C17 to C19: bounds on pending coroutines and loop counters, failures are
  never lost, action results are looked up along the stream tree, successors are counted down exactly
  once. C7 to C9 and C14: what validation guarantees and when it raises. C15, C16
  and C30: evaluating templates raises errors of three classes only, the context the scheduler prunes
  suffices for the expressions of a statement, and templates in texts are replaced where they stand,
  once. C21 to C24: order of
  gathered items, loop reset, and two ways in which accepted workflows go wrong. C10: a request of edit
  operations changes the rows as its operations change the drawn graph, or leaves the database as it
  was. C20: the definition of an edited workflow has the dependencies that are drawn, each once.
  C13: a definition written as rows and built again is the same up to the fields the rows do not keep.
  C25 to C29, C32 and C33: collections and documents survive
  storage, scatter and gather through storage give the same values with externalization on and off,
  reads never return a value other than the stored one, and the retry logic. C12 and C34 to C37: the
  Redis scripts implement leases, an organization never holds more permits than its cap, a renewed
  lease lasts, waiting is bounded, and permits held by parents make their children time out. C11, C31
  and C38: a role is confined to what its credential stands for, a guarded function runs exactly with
  the required scopes, and matching of scopes is filling of asterisks. C39: the statements of an edited
  workflow are those the trigger reaches, with the drawn edges. C40: each iteration of a loop over
  child workflows gets its own input and configuration, once and in order, and the results keep it.

  \<^bold>\<open>Parameters.\<close> The parser that lark makes from the grammar of expressions, the JSON path
  library, objects of other libraries and the functions over them, the action executor, child
  workflows, pydantic's
  coercions of arguments, YAML, the serializer, the hash and the expiry of the cache library are
  arguments of the definitions; so are the clocks, the hash of API keys, the decoding of tokens, the
  liveness of cache entries and the creation of the default organization. For the rows of workflows
  they are the UUIDs drawn for new rows, the reading of UUIDs and floating-point numbers, the slugs of
  titles and the validation of control-flow options. What is asked of them is
  stated as hypotheses: \<open>libs_ok\<close> for storage, which \<open>Storage_Codec\<close> meets, and
  \<open>reads_fields\<close> for JSON paths, which the library \<open>field_paths\<close> of \<open>Expr_Theorems\<close>
  meets. The scheduler and the activities take the evaluation of expressions as an argument, and the
  references of a statement as the result of their extraction; C16 joins them with the engine.

  \<^bold>\<open>Fuel.\<close> Walks towards the root stream or the root scope take fuel. The number of segments of a
  stream plus two is enough for the first, the number of scopes plus one for the second; the
  properties C6 and C8 say that the walks return. Retrieving a stored object takes fuel for the nesting of handles; the activities
  store collections of inline or external items, for which two levels are enough, as C27 and C28 say
  for every larger fuel. The loop that waits for a permit takes the number of attempts as fuel: the
  delays are at least 0.08 seconds unless the wait is over, and C36 gives a number of attempts, linear in the
  maximal wait, after which it has ended. All other recursions terminate by themselves: the search from
  the trigger by the targets not reached, the batches of a loop by the iterations left, the matching of
  scopes by the length of pattern and text.

  \<^bold>\<open>Not modelled.\<close> Logging, metrics and texts of messages. The Temporal SDK: an activity is a point
  where a coroutine waits, and cancellation of the whole workflow is not an event. Floating-point
  numbers are rationals. Concurrent retrievals of one context run in sequence, since they change
  nothing but the cache. The clock of the cache is hidden in the parameter that drops entries. Requests
  for a role run one at a time on the database; a request sees what earlier ones committed. Requests
  that edit a graph are serialized by the lock on the row of the workflow, and a session is modelled
  as the database it would leave when it commits; the methods of \<open>RFGraph\<close> that no modelled
  operation calls are left out. The
  lookup of a child's definition and single child workflows are left out of the loops over children.
  The validators of expressions and of types, the formatters and the extractors of indicators are
  left out, and texts hold one-byte characters. Outside these components, the other services over the database, the API, the MCP server, agents,
  registry, executor sandboxes, integrations and the frontend are not modelled: they are input and
  output around libraries, with little state of their own.
\<close>

section \<open>Workflows without control-flow actions\<close>

text \<open>
  C1. Refinement. Take a validated workflow without scatter, gather and loops and without repeated
  dependencies. However the coroutines of its tasks interleave, and whatever the executor and the
  conditions answer, a run that returns computes the sequential specification: it returns without
  exceptions exactly when no action is fatal there. In that case every action is complete and every
  dependency edge carries the specified marker; otherwise the reported exceptions are not empty and
  belong to fatal actions.
\<close>

theorem flat_run_refines_spec:
  assumes "validate_structure actions = Inr ()" and "flat actions" and "distinct_deps actions"
    and "scheduler_init actions mp ctx ws ex = Inr (c, s)"
    and "script_runs orc c v (start c s) es r" and "main r = Returned res"
  shows "(let D = dispositions orc actions (dict_keys (cfg_scopes c)) in
     (res = None \<longleftrightarrow> (\<forall>a \<in> set actions. D (ref a) \<noteq> Some Fatal)) \<and>
     (res = None \<longrightarrow> completed_tasks (state r) = ref ` set actions \<times> {ROOT_STREAM} \<and>
        (\<forall>a \<in> set actions. \<forall>dep \<in> set (depends_on a).
           incoming (state r) (ref a) ROOT_STREAM (dep_parts dep) = marker_from D (dep_parts dep))) \<and>
     (\<forall>x. res = Some x \<longrightarrow> x \<noteq> [] \<and> (\<forall>y. dict_get x y \<noteq> None \<longrightarrow> D y = Some Fatal)))"
proof -
  note wf = validate_structure_wf(1) [OF assms(1)]
  note set = flat_setup_dispositions [OF wf assms(2,3,4), of orc]
  have "flat_inv orc actions (dispositions orc actions (dict_keys (cfg_scopes c))) r"
    using flat_inv_runs [OF set] assms(5) scheduler_init_wf(2) [OF wf assms(4)] by simp
  from flat_end [OF set this assms(6)] show ?thesis unfolding Let_def by blast
qed

theorem flat_run_refines_spec_witness:
  "main branch_end = Returned None \<and>
   completed_tasks (state branch_end) = {''a'', ''b'', ''c''} \<times> {ROOT_STREAM} \<and>
   incoming (state branch_end) ''b'' ROOT_STREAM (''a'', SUCCESS) = SKIPPED \<and>
   incoming (state branch_end) ''c'' ROOT_STREAM (''a'', ERROR) = VISITED"
proof -
  let ?D = "dispositions branch_script branch_flow (dict_keys (cfg_scopes branch_cfg))"
  note end_facts = flat_run_refines_spec [OF branch_valid branch_flat branch_init branch_run branch_main,
      unfolded Let_def]
  have "marker_from ?D (''a'', SUCCESS) = SKIPPED" "marker_from ?D (''a'', ERROR) = VISITED"
    by code_simp+
  moreover have "dep_parts ''a'' = (''a'', SUCCESS)" "dep_parts ''a.error'' = (''a'', ERROR)"
    by code_simp+
  ultimately show ?thesis
    using end_facts branch_main by (simp add: branch_flow_def step_def insert_commute)
qed

text \<open>
  C2. Termination. Such a run is never longer than eight events per action plus two, and as long
  as \<open>start\<close> has not returned some event can happen.
\<close>

theorem flat_run_terminates:
  assumes "validate_structure actions = Inr ()" and "flat actions" and "distinct_deps actions"
    and "scheduler_init actions mp ctx ws ex = Inr (c, s)"
    and "script_runs orc c v (start c s) es r"
  shows "length es \<le> 8 * length actions + 2 \<and>
     (running (main r) \<longrightarrow> (\<exists>e r'. event_step c v e r = Some r' \<and> follows orc r e))"
proof -
  note wf = validate_structure_wf(1) [OF assms(1)]
  note set = flat_setup_dispositions [OF wf assms(2,3,4), of orc]
  have run: "script_runs orc c v (start c (init_state actions ctx)) es r"
    using assms(5) scheduler_init_wf(2) [OF wf assms(4)] by simp
  from flat_length [OF set run] flat_progress [OF set flat_inv_runs [OF set run]] show ?thesis by auto
qed

theorem flat_run_terminates_witness: "length branch_events \<le> 8 * length branch_flow + 2"
  using flat_run_terminates [OF branch_valid branch_flat branch_init branch_run] by simp



end
